(* ===== verification/ER_Prelude.thy ===== *)
theory ER_Prelude
  imports Main "HOL-Library.Word"
begin

text \<open>
  Prelude of the development: the machine integers of the source (\<open>uint8_t\<close> ... \<open>uint64_t\<close>
  as words, so that \<open>+\<close>, \<open>-\<close> and \<open>*\<close> wrap as they do in C++), the result type of
  \<open>include/edge_runtime/common/result.hpp\<close>, the fact collections the component proofs share, and
  the arithmetic of words that is needed again and again: unsigned comparison, addition,
  subtraction and division read as natural numbers when nothing overflows.
\<close>

unbundle bit_operations_syntax

type_synonym u8 = "8 word"
type_synonym u16 = "16 word"
type_synonym u32 = "32 word"
type_synonym u64 = "64 word"
type_synonym bytes = "u8 list"

named_theorems run_simps \<open>equations that execute a program without interference\<close>
named_theorems code_defs \<open>definitions of operations to unfold when executing them\<close>
named_theorems cell_defs \<open>definitions of the cells of the shared memory\<close>

subsection \<open>Unsigned words as natural numbers\<close>

definition U64_MAX :: u64 where
  "U64_MAX = 0xFFFFFFFFFFFFFFFF"

lemma unat_U64_MAX: "unat U64_MAX = 2 ^ 64 - 1"
  by (simp add: U64_MAX_def)

lemma unat_u64_less: "unat (x :: u64) < 2 ^ 64"
  using unsigned_less [of x, where ?'a = nat] by simp

lemma u64_le_MAX [simp]: "x \<le> U64_MAX"
  using unat_u64_less [of x] by (simp add: word_le_nat_alt unat_U64_MAX)

lemma unat_add_no_wrap:
  fixes a b :: u64
  assumes "unat a + unat b < 2 ^ 64"
  shows "unat (a + b) = unat a + unat b"
  using assms unat_add_lem [of a b] by simp

lemma unat_sub_no_wrap:
  fixes a b :: u64
  assumes "b \<le> a"
  shows "unat (a - b) = unat a - unat b"
  using assms by (rule unat_sub)

lemma unat_mult_no_wrap:
  fixes a b :: u64
  assumes "unat a * unat b < 2 ^ 64"
  shows "unat (a * b) = unat a * unat b"
  using assms unat_mult_lem [of a b] by simp

lemma unat_Suc_no_wrap:
  fixes a :: u64
  assumes "a \<noteq> U64_MAX"
  shows "unat (a + 1) = Suc (unat a)"
proof -
  have "unat a \<noteq> 2 ^ 64 - 1"
    using assms unat_U64_MAX by (metis word_unat_eq_iff)
  with unat_u64_less [of a] have "unat a + unat (1 :: u64) < 2 ^ 64" by simp
  then show ?thesis by (simp add: unat_add_no_wrap)
qed

text \<open>The overflow guard \<open>b > UINT64_MAX - a\<close> of the source, read on natural numbers.\<close>

lemma le_MAX_minus_iff:
  fixes a b :: u64
  shows "b \<le> U64_MAX - a \<longleftrightarrow> unat a + unat b < 2 ^ 64"
proof -
  have "unat (U64_MAX - a) = 2 ^ 64 - 1 - unat a"
    by (simp add: unat_sub unat_U64_MAX)
  then show ?thesis
    using unat_u64_less [of a] by (simp add: word_le_nat_alt) arith
qed

lemma unat_u32_less: "unat (x :: u32) < 2 ^ 32"
  using unsigned_less [of x, where ?'a = nat] by simp

lemma unat_ucast_u32_u64 [simp]: "unat (ucast (x :: u32) :: u64) = unat x"
  using unat_u32_less [of x]
  by (simp add: unsigned_ucast_eq take_bit_nat_eq_self)

lemma unat_mod_u64: "unat ((a :: u64) mod b) = unat a mod unat b"
  by (rule unat_mod)

lemma even_word_iff: "(x :: u64) AND 1 = 0 \<longleftrightarrow> even (unat x)"
proof -
  have "x AND 1 = x mod 2"
    by (simp add: and_one_eq)
  moreover have "unat (x mod 2) = unat x mod 2"
    by (simp add: unat_mod)
  ultimately have "x AND 1 = 0 \<longleftrightarrow> unat x mod 2 = 0"
    by (metis unat_eq_zero)
  then show ?thesis by presburger
qed

lemma unat_of_nat_u64: "n < 2 ^ 64 \<Longrightarrow> unat (of_nat n :: u64) = n"
  by (simp add: unsigned_of_nat take_bit_nat_eq_self)

end
