(* ===== verification/ER_Prog.thy ===== *)
theory ER_Prog
  imports ER_Prelude
begin

text \<open>
  Programs over shared memory. A program is a tree of atomic actions on a state \<open>'s\<close>: it either
  has returned a value or performs one action, which updates the state and continues with what it
  read. Every function of the source that touches shared memory is a value of this type, with one
  action per load, store, compare-and-swap, byte of a \<open>memcpy\<close> or system call; so the same
  definition has a sequential meaning (\<open>run\<close>), a meaning under arbitrary interference (\<open>safe\<close>,
  a rely/guarantee weakest precondition) and a meaning as one thread of an interleaving
  (\<open>par_step\<close>).

  Cells are the pointers of the source: a reader and a writer of one part of the state; \<open>field\<close>
  is the pointer \<open>&p->f\<close>. The accesses of \<open>src/src/edge_runtime/sync/shared_atomic.hpp\<close> are
  single actions on a cell, that is, sequentially consistent.
\<close>

subsection \<open>Programs and their sequential execution\<close>

datatype ('s, 'a) prog = Ret 'a | Act "'s \<Rightarrow> 's" "'s \<Rightarrow> ('s, 'a) prog"

primrec bind :: "('s, 'a) prog \<Rightarrow> ('a \<Rightarrow> ('s, 'b) prog) \<Rightarrow> ('s, 'b) prog" where
  "bind (Ret a) f = f a"
| "bind (Act u k) f = Act u (\<lambda>s. bind (k s) f)"

primrec run :: "('s, 'a) prog \<Rightarrow> 's \<Rightarrow> 'a \<times> 's" where
  "run (Ret a) = (\<lambda>s. (a, s))"
| "run (Act u k) = (\<lambda>s. run (k s) (u s))"

text \<open>
  Continue with the value of a successful result, return the error of a failed one: the
  \<open>if (!r) return r.error();\<close> of the source.
\<close>

definition try_bind :: "('s, 'e + 'a) prog \<Rightarrow> ('a \<Rightarrow> ('s, 'e + 'b) prog) \<Rightarrow> ('s, 'e + 'b) prog" where
  "try_bind p f = bind p (\<lambda>r. case r of Inl e \<Rightarrow> Ret (Inl e) | Inr v \<Rightarrow> f v)"

lemma run_bind [run_simps]:
  "run (bind p f) s = (case run p s of (a, t) \<Rightarrow> run (f a) t)"
  by (induction p arbitrary: s) auto

lemma run_try_bind [run_simps]:
  "run (try_bind p f) s =
     (case run p s of (r, t) \<Rightarrow> (case r of Inl e \<Rightarrow> (Inl e, t) | Inr v \<Rightarrow> run (f v) t))"
  by (auto simp: try_bind_def run_bind split: prod.splits sum.splits)

lemma bind_assoc: "bind (bind p f) g = bind p (\<lambda>x. bind (f x) g)"
  by (induction p) auto

lemma bind_Ret [simp]: "bind p Ret = p"
  by (induction p) auto

lemma run_if [run_simps]: "run (if b then p else q) s = (if b then run p s else run q s)"
  by simp

subsection \<open>Cells\<close>

record ('s, 'v) cell =
  rd :: "'s \<Rightarrow> 'v"
  wr :: "'v \<Rightarrow> 's \<Rightarrow> 's"

definition field :: "('s, 'r) cell \<Rightarrow> ('r, 'v) cell \<Rightarrow> ('s, 'v) cell" where
  "field p f = \<lparr>rd = (\<lambda>s. rd f (rd p s)), wr = (\<lambda>v s. wr p (wr f v (rd p s)) s)\<rparr>"

lemma rd_field [simp]: "rd (field p f) s = rd f (rd p s)"
  by (simp add: field_def)

lemma wr_field [simp]: "wr (field p f) v s = wr p (wr f v (rd p s)) s"
  by (simp add: field_def)

locale lens =
  fixes c :: "('s, 'v) cell"
  assumes rd_wr: "rd c (wr c v s) = v"
    and wr_wr: "wr c v (wr c w s) = wr c v s"
    and wr_rd: "wr c (rd c s) s = s"
begin

lemma field_lens:
  assumes "lens f"
  shows "lens (field c f)"
  using assms by (auto simp: lens_def rd_wr wr_wr wr_rd)

end

subsection \<open>Atomic accesses\<close>

definition shared_load :: "('s, 'v) cell \<Rightarrow> ('s, 'v) prog" where
  "shared_load c = Act (\<lambda>s. s) (\<lambda>s. Ret (rd c s))"

definition shared_store :: "('s, 'v) cell \<Rightarrow> 'v \<Rightarrow> ('s, unit) prog" where
  "shared_store c v = Act (wr c v) (\<lambda>_. Ret ())"

definition shared_cas :: "('s, 'v) cell \<Rightarrow> 'v \<Rightarrow> 'v \<Rightarrow> ('s, bool) prog" where
  "shared_cas c expected desired =
     Act (\<lambda>s. if rd c s = expected then wr c desired s else s) (\<lambda>s. Ret (rd c s = expected))"

definition shared_exchange :: "('s, 'v) cell \<Rightarrow> 'v \<Rightarrow> ('s, 'v) prog" where
  "shared_exchange c v = Act (wr c v) (\<lambda>s. Ret (rd c s))"

definition shared_fetch_add :: "('s, 'v :: plus) cell \<Rightarrow> 'v \<Rightarrow> ('s, 'v) prog" where
  "shared_fetch_add c v = Act (\<lambda>s. wr c (rd c s + v) s) (\<lambda>s. Ret (rd c s))"

lemma run_shared_load [run_simps]: "run (shared_load c) s = (rd c s, s)"
  by (simp add: shared_load_def)

lemma run_shared_store [run_simps]: "run (shared_store c v) s = ((), wr c v s)"
  by (simp add: shared_store_def)

lemma run_shared_cas [run_simps]:
  "run (shared_cas c e d) s = (if rd c s = e then (True, wr c d s) else (False, s))"
  by (simp add: shared_cas_def)

lemma run_shared_exchange [run_simps]: "run (shared_exchange c v) s = (rd c s, wr c v s)"
  by (simp add: shared_exchange_def)

lemma run_shared_fetch_add [run_simps]:
  "run (shared_fetch_add c v) s = (rd c s, wr c (rd c s + v) s)"
  by (simp add: shared_fetch_add_def)

text \<open>
  \<open>memcpy\<close> between a private buffer and a shared byte area is one action per byte: a
  concurrent access can fall between any two of them.
\<close>

primrec memcpy_to :: "(nat \<Rightarrow> ('s, u8) cell) \<Rightarrow> nat \<Rightarrow> bytes \<Rightarrow> ('s, unit) prog" where
  "memcpy_to dst i [] = Ret ()"
| "memcpy_to dst i (b # bs) = bind (shared_store (dst i) b) (\<lambda>_. memcpy_to dst (Suc i) bs)"

primrec memcpy_from :: "(nat \<Rightarrow> ('s, u8) cell) \<Rightarrow> nat \<Rightarrow> nat \<Rightarrow> ('s, bytes) prog" where
  "memcpy_from src i 0 = Ret []"
| "memcpy_from src i (Suc n) =
     bind (shared_load (src i)) (\<lambda>b. bind (memcpy_from src (Suc i) n) (\<lambda>bs. Ret (b # bs)))"

lemma run_memcpy_from [run_simps]:
  "run (memcpy_from src i n) s = (map (\<lambda>j. rd (src j) s) [i..<i + n], s)"
  by (induction n arbitrary: i)
    (auto simp: run_simps upt_conv_Cons simp del: upt_Suc)

text \<open>The bytes of a buffer after a \<open>memcpy\<close> into it.\<close>

primrec store_bytes :: "(nat \<Rightarrow> u8) \<Rightarrow> nat \<Rightarrow> bytes \<Rightarrow> nat \<Rightarrow> u8" where
  "store_bytes f i [] = f"
| "store_bytes f i (b # bs) = store_bytes (f(i := b)) (Suc i) bs"

lemma store_bytes_before: "j < i \<Longrightarrow> store_bytes f i bs j = f j"
  by (induction bs arbitrary: f i) auto

lemma map_store_bytes: "map (store_bytes f i bs) [i..<i + length bs] = bs"
proof (induction bs arbitrary: f i)
  case (Cons b bs)
  have "map (store_bytes (f(i := b)) (Suc i) bs) [Suc i..<i + length (b # bs)] = bs"
    using Cons.IH [of "f(i := b)" "Suc i"] by (simp only: list.size add_Suc add_Suc_right add_0_right)
  then show ?case
    by (simp add: upt_conv_Cons store_bytes_before fun_upd_same del: upt_Suc fun_upd_apply)
qed simp

end
