(* ===== verification/ER_Base.thy ===== *)
theory ER_Base
  imports ER_Prog
begin

text \<open>
  The shared utilities of the runtime: error codes (\<open>common/error.hpp\<close>, \<open>common/error.cpp\<close>),
  overflow-checked arithmetic (\<open>utility/checked_math.hpp\<close>), the FNV-1a checksum
  (\<open>utility/checksum.cpp\<close>) and clock arithmetic (\<open>sync/clock.cpp\<close>). A C++ function that
  returns \<open>bool\<close> and writes through an output pointer on success is a function into
  \<open>option\<close>. An error is modelled by its code; the operation and context strings of
  \<open>Error\<close> are diagnostics that no code path reads back.
\<close>

subsection \<open>Error codes\<close>

datatype ErrorCode =
    kInvalidName
  | kInvalidOptions
  | kNotFound
  | kPermissionDenied
  | kAlreadyOwned
  | kConsumerAlreadyOwned
  | kInitializationIncomplete
  | kCorruptHeader
  | kAbiMismatch
  | kSchemaMismatch
  | kUnsupportedPlatform
  | kNoNewSample
  | kNoWritableSlot
  | kReadContention
  | kTimeout
  | kDataStale
  | kProducerOffline
  | kRecoveryBlocked
  | kStaleHandle
  | kPayloadCorrupt
  | kPayloadEncodeFailed
  | kPayloadDecodeFailed
  | kCorruptSlot
  | kNameRaceDetected
  | kClockAnomaly
  | kSequenceExhausted
  | kConcurrentHandleUse
  | kSystemError
  | kProducerStalled
  | kTransportFailed
  | kSupervisionExhausted
  | kQueueFull
  | kQueueEmpty
  | kQueueContention
  | kBufferPoolFull
  | kBufferPoolContention
  | kBufferInvalidHandle
  | kBufferStateMismatch

type_synonym 'a result = "ErrorCode + 'a"

fun error_value :: "ErrorCode \<Rightarrow> u32" where
  "error_value kInvalidName = 0"
| "error_value kInvalidOptions = 1"
| "error_value kNotFound = 2"
| "error_value kPermissionDenied = 3"
| "error_value kAlreadyOwned = 4"
| "error_value kConsumerAlreadyOwned = 5"
| "error_value kInitializationIncomplete = 6"
| "error_value kCorruptHeader = 7"
| "error_value kAbiMismatch = 8"
| "error_value kSchemaMismatch = 9"
| "error_value kUnsupportedPlatform = 10"
| "error_value kNoNewSample = 11"
| "error_value kNoWritableSlot = 12"
| "error_value kReadContention = 13"
| "error_value kTimeout = 14"
| "error_value kDataStale = 15"
| "error_value kProducerOffline = 16"
| "error_value kRecoveryBlocked = 17"
| "error_value kStaleHandle = 18"
| "error_value kPayloadCorrupt = 19"
| "error_value kPayloadEncodeFailed = 20"
| "error_value kPayloadDecodeFailed = 21"
| "error_value kCorruptSlot = 22"
| "error_value kNameRaceDetected = 23"
| "error_value kClockAnomaly = 24"
| "error_value kSequenceExhausted = 25"
| "error_value kConcurrentHandleUse = 26"
| "error_value kSystemError = 27"
| "error_value kProducerStalled = 28"
| "error_value kTransportFailed = 29"
| "error_value kSupervisionExhausted = 30"
| "error_value kQueueFull = 31"
| "error_value kQueueEmpty = 32"
| "error_value kQueueContention = 33"
| "error_value kBufferPoolFull = 34"
| "error_value kBufferPoolContention = 35"
| "error_value kBufferInvalidHandle = 36"
| "error_value kBufferStateMismatch = 37"

definition kErrorNames :: "string list" where
  "kErrorNames =
    [''InvalidName'',
     ''InvalidOptions'',
     ''NotFound'',
     ''PermissionDenied'',
     ''AlreadyOwned'',
     ''ConsumerAlreadyOwned'',
     ''InitializationIncomplete'',
     ''CorruptHeader'',
     ''AbiMismatch'',
     ''SchemaMismatch'',
     ''UnsupportedPlatform'',
     ''NoNewSample'',
     ''NoWritableSlot'',
     ''ReadContention'',
     ''Timeout'',
     ''DataStale'',
     ''ProducerOffline'',
     ''RecoveryBlocked'',
     ''StaleHandle'',
     ''PayloadCorrupt'',
     ''PayloadEncodeFailed'',
     ''PayloadDecodeFailed'',
     ''CorruptSlot'',
     ''NameRaceDetected'',
     ''ClockAnomaly'',
     ''SequenceExhausted'',
     ''ConcurrentHandleUse'',
     ''SystemError'',
     ''ProducerStalled'',
     ''TransportFailed'',
     ''SupervisionExhausted'',
     ''QueueFull'',
     ''QueueEmpty'',
     ''QueueContention'',
     ''BufferPoolFull'',
     ''BufferPoolContention'',
     ''BufferInvalidHandle'',
     ''BufferStateMismatch'']"

definition error_to_string :: "u32 \<Rightarrow> string" where
  "error_to_string index =
     (if index > error_value kBufferStateMismatch then ''UnknownError''
      else kErrorNames ! unat index)"

text \<open>The \<open>errno\<close> values the source tests (Linux).\<close>

definition EPERM :: int where "EPERM = 1"
definition ENOENT :: int where "ENOENT = 2"
definition ESRCH :: int where "ESRCH = 3"
definition EINTR :: int where "EINTR = 4"
definition EAGAIN :: int where "EAGAIN = 11"
definition EACCES :: int where "EACCES = 13"
definition EEXIST :: int where "EEXIST = 17"
definition ETIMEDOUT :: int where "ETIMEDOUT = 110"

lemmas errno_defs =
  EPERM_def ENOENT_def ESRCH_def EINTR_def EAGAIN_def EACCES_def EEXIST_def ETIMEDOUT_def

definition classify_errno :: "int \<Rightarrow> ErrorCode" where
  "classify_errno e =
     (if e = ENOENT then kNotFound
      else if e = EEXIST then kAlreadyOwned
      else if e = EACCES \<or> e = EPERM then kPermissionDenied
      else kSystemError)"

subsection \<open>Checked arithmetic\<close>

definition checked_add_u64 :: "u64 \<Rightarrow> u64 \<Rightarrow> u64 option" where
  "checked_add_u64 a b = (if b > U64_MAX - a then None else Some (a + b))"

definition checked_mul_u64 :: "u64 \<Rightarrow> u64 \<Rightarrow> u64 option" where
  "checked_mul_u64 a b = (if a \<noteq> 0 \<and> b > U64_MAX div a then None else Some (a * b))"

definition saturating_mul_u64 :: "u64 \<Rightarrow> u64 \<Rightarrow> u64" where
  "saturating_mul_u64 a b = (case checked_mul_u64 a b of Some out \<Rightarrow> out | None \<Rightarrow> U64_MAX)"

definition elapsed_exceeds :: "u64 \<Rightarrow> u64 \<Rightarrow> u64 \<Rightarrow> bool" where
  "elapsed_exceeds now thn limit \<longleftrightarrow> now \<ge> thn \<and> now - thn > limit"

definition round_up_to_multiple_u64 :: "u64 \<Rightarrow> u64 \<Rightarrow> u64 option" where
  "round_up_to_multiple_u64 v align =
     (if align = 0 then None
      else let remainder = v mod align in
        if remainder = 0 then Some v
        else let delta = align - remainder in
          if v > U64_MAX - delta then None else Some (v + delta))"

subsection \<open>Checksums\<close>

definition kOffsetBasis :: u64 where "kOffsetBasis = 14695981039346656037"
definition kPrime :: u64 where "kPrime = 1099511628211"

definition fnv_step :: "u8 \<Rightarrow> u64 \<Rightarrow> u64" where
  "fnv_step b hash = (hash XOR ucast b) * kPrime"

definition fnv1a64 :: "bytes \<Rightarrow> u64" where
  "fnv1a64 data = fold fnv_step data kOffsetBasis"

subsection \<open>Clocks\<close>

text \<open>
  A reading is what \<open>clock_gettime\<close> gives: \<open>None\<close> on failure, else seconds and nanoseconds.
\<close>

definition clock_ns_or_zero :: "(u64 \<times> u64) option \<Rightarrow> u64" where
  "clock_ns_or_zero reading =
     (case reading of None \<Rightarrow> 0
      | Some (sec, nsec) \<Rightarrow>
          if sec > U64_MAX div 1000000000 then 0 else sec * 1000000000 + nsec)"

definition monotonic_deadline_ns :: "u64 \<Rightarrow> u64 \<Rightarrow> u64" where
  "monotonic_deadline_ns now timeout_ns =
     (if now = 0 then 0
      else if now > U64_MAX - timeout_ns then U64_MAX
      else now + timeout_ns)"

definition remaining_time_ns :: "u64 \<Rightarrow> u64 \<Rightarrow> u64" where
  "remaining_time_ns now deadline_ns =
     (if now = 0 then 0 else if now \<ge> deadline_ns then 0 else deadline_ns - now)"

subsection \<open>Facts on checked arithmetic\<close>

lemma checked_add_u64_Some_iff:
  "checked_add_u64 a b = Some c \<longleftrightarrow> unat a + unat b < 2 ^ 64 \<and> c = a + b"
  using le_MAX_minus_iff [of b a]
  by (auto simp: checked_add_u64_def not_less)

lemma le_pow64: "(x :: nat) \<le> 2 ^ 64 - 1 \<longleftrightarrow> x < 2 ^ 64"
  by auto

lemma le_MAX_div_iff:
  fixes a b :: u64
  assumes "a \<noteq> 0"
  shows "b \<le> U64_MAX div a \<longleftrightarrow> unat a * unat b < 2 ^ 64"
proof -
  have "0 < unat a" using assms by (simp add: unat_gt_0)
  have "b \<le> U64_MAX div a \<longleftrightarrow> unat b \<le> (2 ^ 64 - 1) div unat a"
    by (simp add: word_le_nat_alt unat_div unat_U64_MAX)
  also have "\<dots> \<longleftrightarrow> unat b * unat a \<le> 2 ^ 64 - 1"
    using \<open>0 < unat a\<close> by (rule less_eq_div_iff_mult_less_eq)
  also have "\<dots> \<longleftrightarrow> unat a * unat b < 2 ^ 64"
    by (simp only: mult.commute le_pow64)
  finally show ?thesis .
qed

lemma checked_mul_u64_Some_iff:
  "checked_mul_u64 a b = Some c \<longleftrightarrow> unat a * unat b < 2 ^ 64 \<and> c = a * b"
proof (cases "a = 0")
  case nz: False
  have "\<not> U64_MAX div a < b \<longleftrightarrow> unat a * unat b < 2 ^ 64"
    using le_MAX_div_iff [OF nz] by (simp only: not_less)
  with nz show ?thesis
    by (auto simp: checked_mul_u64_def)
qed (auto simp: checked_mul_u64_def)

lemma round_up_Some:
  assumes "round_up_to_multiple_u64 v align = Some r"
  shows "unat align dvd unat r" and "unat v \<le> unat r" and "unat r < unat v + unat align"
proof -
  have align: "0 < unat align"
    using assms by (auto simp: round_up_to_multiple_u64_def unat_gt_0 split: if_splits)
  define m where "m = unat v mod unat align"
  have m: "m < unat align" "unat (v mod align) = m"
    using align by (simp_all add: m_def unat_mod)
  have "unat align dvd unat r \<and> unat v \<le> unat r \<and> unat r < unat v + unat align"
  proof (cases "m = 0")
    case True
    then have "v mod align = 0" using m(2) by (simp add: unat_eq_zero)
    with assms align True show ?thesis
      by (auto simp: round_up_to_multiple_u64_def m_def split: if_splits)
  next
    case False
    then have "v mod align \<noteq> 0" using m(2) unat_0 by metis
    with assms have r: "r = v + (align - v mod align)" "v \<le> U64_MAX - (align - v mod align)"
      by (auto simp: round_up_to_multiple_u64_def Let_def not_less split: if_splits)
    have d: "unat (align - v mod align) = unat align - m"
      using m by (simp add: unat_sub word_le_nat_alt)
    have eq: "unat r = unat v + (unat align - m)"
      using r le_MAX_minus_iff [of v "align - v mod align"] d
      by (simp add: unat_add_no_wrap add.commute)
    also have "\<dots> = unat align * (unat v div unat align + 1)"
      using m(1) by (simp add: m_def algebra_simps minus_mod_eq_mult_div [symmetric])
    finally have "unat align dvd unat r" by simp
    with eq show ?thesis
      using m(1) False by simp
  qed
  then show "unat align dvd unat r" and "unat v \<le> unat r" and "unat r < unat v + unat align"
    by auto
qed

lemma round_up_defined:
  assumes "align \<noteq> 0" and "unat v + unat align \<le> 2 ^ 64"
  shows "\<exists>r. round_up_to_multiple_u64 v align = Some r"
proof (cases "v mod align = 0")
  case False
  have "unat (v mod align) < unat align"
    using assms(1) by (simp add: unat_mod unat_gt_0)
  moreover have "0 < unat (v mod align)"
    using False by (simp add: unat_gt_0)
  ultimately have "unat (align - v mod align) + unat v < 2 ^ 64"
    using assms(2) by (simp add: unat_sub word_le_nat_alt)
  with False assms(1) show ?thesis
    using le_MAX_minus_iff [of v "align - v mod align"]
    by (auto simp: round_up_to_multiple_u64_def Let_def not_less)
qed (use assms in \<open>auto simp: round_up_to_multiple_u64_def\<close>)

subsection \<open>Facts on the checksum\<close>

text \<open>
  A step of FNV-1a is injective in the running hash (exclusive or, then multiplication by an odd
  number) and in the byte.
\<close>

lemma kPrime_inverse: "kPrime * 14886173955864302971 = 1"
  by (simp add: kPrime_def)

lemma mult_kPrime_cancel: "x * kPrime = y * kPrime \<longleftrightarrow> x = y"
proof
  assume "x * kPrime = y * kPrime"
  then have "x * kPrime * 14886173955864302971 = y * kPrime * 14886173955864302971" by simp
  then show "x = y" by (simp only: mult.assoc kPrime_inverse mult_1_right)
qed simp

lemma xor_cancel_right: "(x :: u64) XOR z = y XOR z \<longleftrightarrow> x = y"
proof
  assume "x XOR z = y XOR z"
  then have "(x XOR z) XOR z = (y XOR z) XOR z" by simp
  then show "x = y" by (simp add: xor.assoc)
qed simp

lemma fnv_step_inj_hash: "fnv_step b h = fnv_step b h' \<longleftrightarrow> h = h'"
  by (simp add: fnv_step_def mult_kPrime_cancel xor_cancel_right)

lemma unat_ucast_u8_u64 [simp]: "unat (ucast (x :: u8) :: u64) = unat x"
  using unsigned_less [of x, where ?'a = nat]
  by (simp add: unsigned_ucast_eq take_bit_nat_eq_self)

lemma fnv_step_inj_byte: "fnv_step b h = fnv_step c h \<longleftrightarrow> b = c"
proof -
  have "h XOR ucast b = h XOR ucast c \<longleftrightarrow> (ucast b :: u64) = ucast c"
    by (metis xor.commute xor_cancel_right)
  also have "\<dots> \<longleftrightarrow> b = c"
    by (metis unat_ucast_u8_u64 word_unat_eq_iff)
  finally show ?thesis
    by (simp add: fnv_step_def mult_kPrime_cancel)
qed

lemma fold_fnv_inj: "fold fnv_step xs h = fold fnv_step xs h' \<longleftrightarrow> h = h'"
  by (induction xs arbitrary: h h') (auto simp: fnv_step_inj_hash)

subsection \<open>Properties\<close>

text \<open>
  C19. The checksum of the headers and payloads detects every change of a single byte: two byte
  strings of equal length that differ in exactly one byte have different \<open>fnv1a64\<close> hashes.
\<close>

theorem fnv1a64_detects_byte_change:
  assumes "b \<noteq> c"
  shows "fnv1a64 (xs @ b # ys) \<noteq> fnv1a64 (xs @ c # ys)"
  using assms by (simp add: fnv1a64_def fold_fnv_inj fnv_step_inj_byte)

theorem fnv1a64_detects_byte_change_witness:
  "fnv1a64 ([1, 2] @ 7 # [3]) \<noteq> fnv1a64 ([1, 2] @ 8 # [3])"
  by (rule fnv1a64_detects_byte_change) simp

end
