(* ===== verification/ER_Process.thy ===== *)
theory ER_Process
  imports ER_Base
begin

text \<open>
  Process identity and liveness (\<open>process/process_identity.cpp\<close>). A process is identified by its
  pid, its start time from \<open>/proc/<pid>/stat\<close> and a hash of the boot id, so that a recycled pid is
  not mistaken for the old process. The answers of the system calls are arguments: a call that can
  fail is a value of \<open>int + 'a\<close>, \<open>Inl\<close> the \<open>errno\<close>, and a call that is retried is a function
  from the number of the attempt.
\<close>

record ProcessIdentity =
  id_pid :: u64
  id_ticks :: u64
  id_boot_hi :: u64
  id_boot_lo :: u64

datatype Liveness = kAlive | kExited | kPidReused | kUnverifiable

definition kMaxInterruptedAttempts :: nat where "kMaxInterruptedAttempts = 8"
definition INT32_MAX_u64 :: u64 where "INT32_MAX_u64 = 2147483647"

fun retry_interrupted :: "nat \<Rightarrow> nat \<Rightarrow> (nat \<Rightarrow> int + 'a) \<Rightarrow> int + 'a" where
  "retry_interrupted attempt remaining call =
     (case call attempt of Inr v \<Rightarrow> Inr v
      | Inl e \<Rightarrow>
          if e \<noteq> EINTR then Inl e
          else (case remaining of 0 \<Rightarrow> Inl e
                | Suc n \<Rightarrow> retry_interrupted (Suc attempt) n call))"

declare retry_interrupted.simps [simp del]

definition bounded_call :: "(nat \<Rightarrow> int + 'a) \<Rightarrow> int + 'a" where
  "bounded_call call = retry_interrupted 0 (kMaxInterruptedAttempts - 1) call"

subsection \<open>The start time in /proc/<pid>/stat\<close>

definition is_digit :: "char \<Rightarrow> bool" where
  "is_digit c \<longleftrightarrow> c \<in> set ''0123456789''"

definition digit_value :: "char \<Rightarrow> nat" where
  "digit_value c = of_char c - 48"

definition decimal_value :: "string \<Rightarrow> nat" where
  "decimal_value ds = foldl (\<lambda>n c. 10 * n + digit_value c) 0 ds"

text \<open>What follows the first occurrence of a character (\<open>strchr\<close> and an increment).\<close>

fun after_char :: "char \<Rightarrow> string \<Rightarrow> string option" where
  "after_char c [] = None"
| "after_char c (x # xs) = (if x = c then Some xs else after_char c xs)"

text \<open>What follows the last occurrence (\<open>strrchr\<close> and an increment).\<close>

fun after_last :: "char \<Rightarrow> string \<Rightarrow> string option" where
  "after_last c [] = None"
| "after_last c (x # xs) =
     (case after_last c xs of Some r \<Rightarrow> Some r | None \<Rightarrow> if x = c then Some xs else None)"

primrec skip_fields :: "nat \<Rightarrow> string \<Rightarrow> string option" where
  "skip_fields 0 p = Some p"
| "skip_fields (Suc n) p = Option.bind (after_char CHR '' '' p) (skip_fields n)"

definition parse_starttime :: "string \<Rightarrow> u64 result" where
  "parse_starttime buf =
     (case after_last CHR '')'' (takeWhile (\<lambda>c. c \<noteq> CHR 0x00) buf) of
        None \<Rightarrow> Inl kRecoveryBlocked
      | Some p0 \<Rightarrow>
          let p1 = (case p0 of [] \<Rightarrow> p0 | c # cs \<Rightarrow> if c = CHR '' '' then cs else p0) in
          (case skip_fields 19 p1 of
             None \<Rightarrow> Inl kRecoveryBlocked
           | Some p \<Rightarrow>
               let ds = takeWhile is_digit p; terminator = dropWhile is_digit p;
                   value = decimal_value ds in
               if ds = [] \<or> value \<ge> 2 ^ 64 \<or> value = 0 \<or> terminator = [] \<or>
                  (hd terminator \<noteq> CHR '' '' \<and> hd terminator \<noteq> CHR 0x0A)
               then Inl kRecoveryBlocked
               else Inr (of_nat value)))"

definition proc_stat_starttime ::
  "(nat \<Rightarrow> int + unit) \<Rightarrow> (nat \<Rightarrow> int + string) \<Rightarrow> u64 result" where
  "proc_stat_starttime open_stat read_stat =
     (case bounded_call open_stat of
        Inl e \<Rightarrow> Inl (classify_errno e)
      | Inr _ \<Rightarrow>
          (case bounded_call read_stat of
             Inl e \<Rightarrow> Inl (classify_errno e)
           | Inr buf \<Rightarrow> if buf = [] then Inl kRecoveryBlocked else parse_starttime buf))"

subsection \<open>The boot id\<close>

definition kFnvMix :: u64 where "kFnvMix = 0x9E3779B97F4A7C15"

definition fnv_hash_bytes :: "bytes \<Rightarrow> u64 \<Rightarrow> u64 \<Rightarrow> u64 \<times> u64" where
  "fnv_hash_bytes data h0 h1 =
     fold (\<lambda>byte (a, b). ((a XOR ucast byte) * kPrime, (b XOR ucast (byte + 1)) * kPrime))
       data (h0, h1)"

definition char_byte :: "char \<Rightarrow> u8" where
  "char_byte c = of_nat (of_char c)"

definition is_hexadecimal :: "char \<Rightarrow> bool" where
  "is_hexadecimal c \<longleftrightarrow> c \<in> set ''0123456789abcdefABCDEF''"

definition boot_id_format_ok :: "string \<Rightarrow> bool" where
  "boot_id_format_ok buf \<longleftrightarrow>
     (length buf = 36 \<or> (length buf = 37 \<and> buf ! 36 = CHR 0x0A)) \<and>
     list_all (\<lambda>i. if i \<in> {8, 13, 18, 23} then buf ! i = CHR ''-''
                   else is_hexadecimal (buf ! i)) [0..<36]"

definition current_boot_id_hash ::
  "(nat \<Rightarrow> int + unit) \<Rightarrow> (nat \<Rightarrow> int + string) \<Rightarrow> (u64 \<times> u64) result" where
  "current_boot_id_hash open_boot read_boot =
     (case bounded_call open_boot of
        Inl e \<Rightarrow> Inl kRecoveryBlocked
      | Inr _ \<Rightarrow>
          (case bounded_call read_boot of
             Inl e \<Rightarrow> Inl kRecoveryBlocked
           | Inr buf \<Rightarrow>
               if \<not> boot_id_format_ok buf then Inl kRecoveryBlocked
               else let (h0, h1) =
                      fnv_hash_bytes (map char_byte buf) kOffsetBasis (kOffsetBasis XOR kFnvMix)
                    in if h0 = 0 \<or> h1 = 0 then Inl kRecoveryBlocked else Inr (h0, h1)))"

subsection \<open>Identities and liveness\<close>

definition process_identity_valid :: "ProcessIdentity \<Rightarrow> bool" where
  "process_identity_valid ident \<longleftrightarrow>
     id_pid ident \<noteq> 0 \<and> id_pid ident \<le> INT32_MAX_u64 \<and> id_ticks ident \<noteq> 0 \<and>
     id_boot_hi ident \<noteq> 0 \<and> id_boot_lo ident \<noteq> 0"

definition read_current_process_identity ::
  "u64 \<Rightarrow> u64 result \<Rightarrow> (u64 \<times> u64) result \<Rightarrow> ProcessIdentity result" where
  "read_current_process_identity getpid start boot =
     (case start of Inl _ \<Rightarrow> Inl kRecoveryBlocked
      | Inr ticks \<Rightarrow>
          (case boot of Inl e \<Rightarrow> Inl e
           | Inr (hi, lo) \<Rightarrow>
               Inr \<lparr>id_pid = getpid, id_ticks = ticks, id_boot_hi = hi, id_boot_lo = lo\<rparr>))"

text \<open>
  \<open>probe_liveness\<close>: \<open>pidfd\<close> is the answer of \<open>pidfd_open\<close>, \<open>poll\<close> the answers of the zero-time
  poll (\<open>None\<close>: no event; \<open>Some b\<close>: an event, \<open>b\<close> whether it has \<open>POLLIN\<close>), \<open>start\<close> the
  start time of the process that holds the pid now.
\<close>

definition probe_liveness_sys ::
  "int + unit \<Rightarrow> (nat \<Rightarrow> int + bool option) \<Rightarrow> u64 result \<Rightarrow> u64 \<Rightarrow> u64 \<Rightarrow> Liveness" where
  "probe_liveness_sys pidfd poll start pid expected_start_ticks =
     (if pid = 0 \<or> pid > INT32_MAX_u64 \<or> expected_start_ticks = 0 then kUnverifiable
      else case pidfd of
        Inl e \<Rightarrow> if e = ESRCH then kExited else kUnverifiable
      | Inr _ \<Rightarrow>
          (case bounded_call poll of
             Inl e \<Rightarrow> kUnverifiable
           | Inr (Some pollin) \<Rightarrow> if pollin then kExited else kUnverifiable
           | Inr None \<Rightarrow>
               (case start of
                  Inl _ \<Rightarrow> kUnverifiable
                | Inr ticks \<Rightarrow> if ticks = expected_start_ticks then kAlive else kPidReused)))"

definition identity_matches_current ::
  "ProcessIdentity \<Rightarrow> u64 \<Rightarrow> u64 result \<Rightarrow> (u64 \<times> u64) result \<Rightarrow> bool" where
  "identity_matches_current ident getpid start boot \<longleftrightarrow>
     process_identity_valid ident \<and> id_pid ident = getpid \<and>
     (case start of Inl _ \<Rightarrow> False | Inr ticks \<Rightarrow>
        ticks = id_ticks ident \<and>
        (case boot of Inl _ \<Rightarrow> False
         | Inr (hi, lo) \<Rightarrow> hi = id_boot_hi ident \<and> lo = id_boot_lo ident))"

end
