(* ===== verification/ER_Names.thy ===== *)
theory ER_Names
  imports ER_Process
begin

text \<open>
  Names of channels, queues and pools (\<open>channel/channel_layout.cpp\<close> and the name functions of the
  queue and of the pool), the schema descriptor, and the little-endian bytes of the integers in
  the shared headers. The uid is an argument; \<open>std::to_string\<close> of it is its decimal numeral.
\<close>

definition kMaxChannelNameLen :: nat where "kMaxChannelNameLen = 64"

definition name_char_allowed :: "char \<Rightarrow> bool" where
  "name_char_allowed c \<longleftrightarrow>
     (let b = (of_char c :: nat) in
      (97 \<le> b \<and> b \<le> 122) \<or> (65 \<le> b \<and> b \<le> 90) \<or> (48 \<le> b \<and> b \<le> 57) \<or>
      c = CHR ''_'' \<or> c = CHR ''.'' \<or> c = CHR ''-'')"

fun no_double_dot :: "string \<Rightarrow> bool" where
  "no_double_dot (a # b # cs) \<longleftrightarrow> \<not> (a = CHR ''.'' \<and> b = CHR ''.'') \<and> no_double_dot (b # cs)"
| "no_double_dot cs \<longleftrightarrow> True"

definition validate_channel_name :: "string \<Rightarrow> bool" where
  "validate_channel_name name \<longleftrightarrow>
     1 \<le> length name \<and> length name \<le> kMaxChannelNameLen \<and>
     list_all name_char_allowed name \<and> no_double_dot name"

definition digit_char :: "nat \<Rightarrow> char" where
  "digit_char n = char_of (48 + n)"

fun dec_string :: "nat \<Rightarrow> string" where
  "dec_string n =
     (if n < 10 then [digit_char n] else dec_string (n div 10) @ [digit_char (n mod 10)])"

declare dec_string.simps [simp del]

definition channel_shm_name :: "nat \<Rightarrow> string \<Rightarrow> string" where
  "channel_shm_name uid name = ''/edgeruntime.'' @ dec_string uid @ ''.'' @ name"

definition channel_lock_path :: "nat \<Rightarrow> string \<Rightarrow> string" where
  "channel_lock_path uid name =
     ''/run/user/'' @ dec_string uid @ ''/edgeruntime/'' @ name @ ''.lock''"

definition channel_socket_path :: "nat \<Rightarrow> string \<Rightarrow> string" where
  "channel_socket_path uid name =
     ''/run/user/'' @ dec_string uid @ ''/edgeruntime/'' @ name @ ''.sock''"

definition mpmc_shm_name :: "nat \<Rightarrow> string \<Rightarrow> string" where
  "mpmc_shm_name uid name = ''/edgeruntime.mpmc.'' @ dec_string uid @ ''.'' @ name"

definition pool_shm_name :: "nat \<Rightarrow> string \<Rightarrow> string" where
  "pool_shm_name uid name = ''/edgeruntime.bufferpool.'' @ dec_string uid @ ''.'' @ name"

record SchemaDescriptor =
  sd_version :: u32
  sd_fingerprint :: bytes

subsection \<open>Bytes of integers\<close>

definition le16 :: "u16 \<Rightarrow> bytes" where
  "le16 w = [ucast w, ucast (drop_bit 8 w)]"

definition le32 :: "u32 \<Rightarrow> bytes" where
  "le32 w = [ucast w, ucast (drop_bit 8 w), ucast (drop_bit 16 w), ucast (drop_bit 24 w)]"

definition le64 :: "u64 \<Rightarrow> bytes" where
  "le64 w = [ucast w, ucast (drop_bit 8 w), ucast (drop_bit 16 w), ucast (drop_bit 24 w),
             ucast (drop_bit 32 w), ucast (drop_bit 40 w), ucast (drop_bit 48 w),
             ucast (drop_bit 56 w)]"

definition string_bytes :: "string \<Rightarrow> bytes" where
  "string_bytes = map char_byte"

lemma length_le [simp]: "length (le16 a) = 2" "length (le32 b) = 4" "length (le64 c) = 8"
  by (simp_all add: le16_def le32_def le64_def)

end
