(* ===== verification/ER_Kernel.thy ===== *)
theory ER_Kernel
  imports ER_Process ER_Prog
begin

text \<open>
  The operating system as the source sees it, and the wrappers around its calls
  (\<open>transport/shm_object.cpp\<close>, \<open>sync/clock.cpp\<close>, \<open>sync/futex.cpp\<close>, the kernel side of
  \<open>process/process_identity.cpp\<close>). The kernel is not part of the repository: a \<open>kernel\<close> is a
  record of answers, one for every call the source makes, and nothing is assumed about them here.
  A call that is repeated takes the number of the attempt or of the reading; the calls that change
  something outside the process are written to \<open>k_log\<close>, and what a name refers to may depend on
  them. \<open>k_random\<close> is the outcome of \<open>random_bytes\<close> for eight bytes.
\<close>

record file_stat =
  st_regular :: bool
  st_uid :: nat
  st_perm :: nat
  st_dev :: u64
  st_ino :: u64
  st_size :: u64

datatype kernel_call =
    CallCreate string
  | CallTruncate nat u64
  | CallUnlink string
  | CallWake

record kernel =
  k_getpid :: u64
  k_geteuid :: nat
  k_getuid :: nat
  k_pidfd_open :: "u64 \<Rightarrow> int + unit"
  k_poll :: "u64 \<Rightarrow> nat \<Rightarrow> int + bool option"
  k_open_stat :: "u64 \<Rightarrow> nat \<Rightarrow> int + unit"
  k_read_stat :: "u64 \<Rightarrow> nat \<Rightarrow> int + string"
  k_open_boot :: "nat \<Rightarrow> int + unit"
  k_read_boot :: "nat \<Rightarrow> int + string"
  k_monotonic :: "nat \<Rightarrow> (u64 \<times> u64) option"
  k_boottime :: "nat \<Rightarrow> (u64 \<times> u64) option"
  k_steady :: "nat \<Rightarrow> int"
  k_clock_reads :: nat
  k_futex_wait :: "nat \<Rightarrow> int option"
  k_random :: "nat \<Rightarrow> u64 option"
  k_random_reads :: nat
  k_shm_open_create :: "string \<Rightarrow> int + nat"
  k_shm_open :: "kernel_call list \<Rightarrow> string \<Rightarrow> int + nat"
  k_shm_reopen :: "kernel_call list \<Rightarrow> string \<Rightarrow> int + nat"
  k_fstat :: "nat \<Rightarrow> nat \<Rightarrow> int + file_stat"
  k_statx :: "nat \<Rightarrow> nat \<Rightarrow> int + file_stat option"
  k_ftruncate :: "nat \<Rightarrow> u64 \<Rightarrow> int option"
  k_mmap :: "nat \<Rightarrow> u64 \<Rightarrow> int option"
  k_unlink :: "string \<Rightarrow> int option"
  k_log :: "kernel_call list"

subsection \<open>Processes\<close>

definition kernel_starttime :: "kernel \<Rightarrow> u64 \<Rightarrow> u64 result" where
  "kernel_starttime k pid = proc_stat_starttime (k_open_stat k pid) (k_read_stat k pid)"

definition kernel_boot_id :: "kernel \<Rightarrow> (u64 \<times> u64) result" where
  "kernel_boot_id k = current_boot_id_hash (k_open_boot k) (k_read_boot k)"

definition current_identity :: "kernel \<Rightarrow> ProcessIdentity result" where
  "current_identity k =
     read_current_process_identity (k_getpid k) (kernel_starttime k (k_getpid k))
       (kernel_boot_id k)"

definition probe_liveness :: "kernel \<Rightarrow> u64 \<Rightarrow> u64 \<Rightarrow> Liveness" where
  "probe_liveness k pid ticks =
     probe_liveness_sys (k_pidfd_open k pid) (k_poll k pid) (kernel_starttime k pid) pid ticks"

subsection \<open>Calls as actions\<close>

text \<open>A call reads its answer from the kernel and may leave a trace of itself in it.\<close>

definition kernel_query :: "('s, kernel) cell \<Rightarrow> (kernel \<Rightarrow> 'a) \<Rightarrow> ('s, 'a) prog" where
  "kernel_query kc f = Act (\<lambda>s. s) (\<lambda>s. Ret (f (rd kc s)))"

definition kernel_call ::
  "('s, kernel) cell \<Rightarrow> (kernel \<Rightarrow> kernel) \<Rightarrow> (kernel \<Rightarrow> 'a) \<Rightarrow> ('s, 'a) prog" where
  "kernel_call kc u f = Act (\<lambda>s. wr kc (u (rd kc s)) s) (\<lambda>s. Ret (f (rd kc s)))"

definition log_call :: "kernel_call \<Rightarrow> kernel \<Rightarrow> kernel" where
  "log_call c k = k\<lparr>k_log := k_log k @ [c]\<rparr>"

definition count_clock :: "kernel \<Rightarrow> kernel" where
  "count_clock k = k\<lparr>k_clock_reads := Suc (k_clock_reads k)\<rparr>"

lemma run_kernel_query [run_simps]: "run (kernel_query kc f) s = (f (rd kc s), s)"
  by (simp add: kernel_query_def)

lemma run_kernel_call [run_simps]:
  "run (kernel_call kc u f) s = (f (rd kc s), wr kc (u (rd kc s)) s)"
  by (simp add: kernel_call_def)

definition monotonic_now_ns :: "('s, kernel) cell \<Rightarrow> ('s, u64) prog" where
  "monotonic_now_ns kc =
     kernel_call kc count_clock (\<lambda>k. clock_ns_or_zero (k_monotonic k (k_clock_reads k)))"

definition boottime_now_ns :: "('s, kernel) cell \<Rightarrow> ('s, u64) prog" where
  "boottime_now_ns kc =
     kernel_call kc count_clock (\<lambda>k. clock_ns_or_zero (k_boottime k (k_clock_reads k)))"

definition steady_now :: "('s, kernel) cell \<Rightarrow> ('s, int) prog" where
  "steady_now kc = kernel_call kc count_clock (\<lambda>k. k_steady k (k_clock_reads k))"

definition random_u64 :: "('s, kernel) cell \<Rightarrow> ('s, u64 option) prog" where
  "random_u64 kc =
     kernel_call kc (\<lambda>k. k\<lparr>k_random_reads := Suc (k_random_reads k)\<rparr>)
       (\<lambda>k. k_random k (k_random_reads k))"

text \<open>\<open>futex_wait\<close> answers 0 (\<open>None\<close>) or an \<open>errno\<close>; \<open>futex_wake\<close> only has its effect.\<close>

definition futex_wait :: "('s, kernel) cell \<Rightarrow> ('s, int option) prog" where
  "futex_wait kc = kernel_call kc count_clock (\<lambda>k. k_futex_wait k (k_clock_reads k))"

definition futex_wake :: "('s, kernel) cell \<Rightarrow> ('s, unit) prog" where
  "futex_wake kc = kernel_call kc (log_call CallWake) (\<lambda>_. ())"

subsection \<open>Shared memory objects\<close>

definition kExpectedShmMode :: nat where "kExpectedShmMode = 384"
definition INT64_MAX_u64 :: u64 where "INT64_MAX_u64 = 0x7FFFFFFFFFFFFFFF"

definition shm_open_create :: "('s, kernel) cell \<Rightarrow> string \<Rightarrow> ('s, nat result) prog" where
  "shm_open_create kc name =
     kernel_call kc (log_call (CallCreate name))
       (\<lambda>k. case k_shm_open_create k name of
              Inl e \<Rightarrow> Inl (classify_errno e) | Inr fd \<Rightarrow> Inr fd)"

definition shm_open_existing :: "('s, kernel) cell \<Rightarrow> string \<Rightarrow> ('s, nat result) prog" where
  "shm_open_existing kc name =
     kernel_query kc
       (\<lambda>k. case k_shm_open k (k_log k) name of Inl e \<Rightarrow> Inl (classify_errno e) | Inr fd \<Rightarrow> Inr fd)"

definition shm_truncate :: "('s, kernel) cell \<Rightarrow> nat \<Rightarrow> u64 \<Rightarrow> ('s, unit result) prog" where
  "shm_truncate kc fd sz =
     (if sz > INT64_MAX_u64 then Ret (Inl kInvalidOptions)
      else kernel_call kc (log_call (CallTruncate fd sz))
             (\<lambda>k. case k_ftruncate k fd sz of
                    Some e \<Rightarrow> Inl (classify_errno e) | None \<Rightarrow> Inr ()))"

text \<open>\<open>SIZE_MAX\<close> is \<open>UINT64_MAX\<close>, so the size test of \<open>mmap_region\<close> never fails.\<close>

definition mmap_region :: "('s, kernel) cell \<Rightarrow> nat \<Rightarrow> u64 \<Rightarrow> ('s, unit result) prog" where
  "mmap_region kc fd sz =
     kernel_query kc
       (\<lambda>k. case k_mmap k fd sz of Some e \<Rightarrow> Inl (classify_errno e) | None \<Rightarrow> Inr ())"

definition shm_fstat_and_capture ::
  "('s, kernel) cell \<Rightarrow> nat \<Rightarrow> ('s, file_stat result) prog" where
  "shm_fstat_and_capture kc fd =
     kernel_query kc
       (\<lambda>k. case bounded_call (k_fstat k fd) of
              Inl e \<Rightarrow> Inl (classify_errno e)
            | Inr st \<Rightarrow>
                if \<not> st_regular st then Inl kCorruptHeader
                else if st_uid st \<noteq> k_geteuid k then Inl kPermissionDenied
                else if st_perm st \<noteq> kExpectedShmMode then Inl kPermissionDenied
                else Inr st)"

text \<open>\<open>None\<close> stands for an answer of \<open>statx\<close> without the required fields in its mask.\<close>

definition shm_capture_created_identity ::
  "('s, kernel) cell \<Rightarrow> nat \<Rightarrow> ('s, (u64 \<times> u64) result) prog" where
  "shm_capture_created_identity kc fd =
     kernel_query kc
       (\<lambda>k. case bounded_call (k_statx k fd) of
              Inl e \<Rightarrow> Inl kRecoveryBlocked
            | Inr None \<Rightarrow> Inl kRecoveryBlocked
            | Inr (Some st) \<Rightarrow>
                if \<not> st_regular st \<or> st_uid st \<noteq> k_geteuid k \<or> st_perm st \<noteq> kExpectedShmMode \<or>
                   st_ino st = 0
                then Inl kRecoveryBlocked else Inr (st_dev st, st_ino st))"

definition shm_unlink_checked ::
  "('s, kernel) cell \<Rightarrow> string \<Rightarrow> u64 \<Rightarrow> u64 \<Rightarrow> ('s, unit result) prog" where
  "shm_unlink_checked kc name expected_dev expected_ino =
     try_bind (shm_open_existing kc name) (\<lambda>fd.
     try_bind
       (bind (shm_fstat_and_capture kc fd) (\<lambda>captured.
          case captured of
            Inr st \<Rightarrow> Ret (Inr (st_dev st, st_ino st))
          | Inl _ \<Rightarrow> shm_capture_created_identity kc fd)) (\<lambda>(dev, ino).
     if dev \<noteq> expected_dev \<or> ino \<noteq> expected_ino then Ret (Inl kNameRaceDetected)
     else
       bind (kernel_call kc (log_call (CallUnlink name)) (\<lambda>k. k_unlink k name)) (\<lambda>r.
         case r of
           Some e \<Rightarrow> Ret (Inl (classify_errno e))
         | None \<Rightarrow>
             bind (kernel_query kc (\<lambda>k. k_shm_reopen k (k_log k) name)) (\<lambda>probe.
               case probe of
                 Inr _ \<Rightarrow> Ret (Inl kNameRaceDetected)
               | Inl e \<Rightarrow> if e \<noteq> ENOENT then Ret (Inl (classify_errno e)) else Ret (Inr ())))))"

text \<open>
  \<open>cleanup_created\<close> of the queue and of the buffer pool: the object is unlinked only if its
  identity was captured; the callers ignore the result.
\<close>

definition cleanup_created ::
  "('s, kernel) cell \<Rightarrow> string \<Rightarrow> u64 \<Rightarrow> u64 \<Rightarrow> ('s, unit result) prog" where
  "cleanup_created kc name dev ino =
     (if dev = 0 \<or> ino = 0 then Ret (Inr ()) else shm_unlink_checked kc name dev ino)"

text \<open>A kernel that grants every call; the examples of the development run on it.\<close>

definition sample_kernel :: kernel where
  "sample_kernel =
     \<lparr>k_getpid = 42, k_geteuid = 1000, k_getuid = 1000, k_pidfd_open = (\<lambda>_. Inr ()),
      k_poll = (\<lambda>_ _. Inr None), k_open_stat = (\<lambda>_ _. Inr ()),
      k_read_stat = (\<lambda>_ _. Inr ''42 (edge) S 1 42 42 0 -1 0 0 0 0 0 0 0 0 0 20 0 1 0 777 0''),
      k_open_boot = (\<lambda>_. Inr ()), k_read_boot = (\<lambda>_. Inr ''01234567-89ab-cdef-0123-456789abcdef''),
      k_monotonic = (\<lambda>n. Some (of_nat n, 0)), k_boottime = (\<lambda>n. Some (of_nat n, 0)),
      k_steady = int, k_clock_reads = 0, k_futex_wait = (\<lambda>_. None),
      k_random = (\<lambda>n. Some (of_nat (Suc n))), k_random_reads = 0,
      k_shm_open_create = (\<lambda>_. Inr 3), k_shm_open = (\<lambda>_ _. Inr 3), k_shm_reopen = (\<lambda>_ _. Inl ENOENT),
      k_fstat = (\<lambda>_ _. Inr \<lparr>st_regular = True, st_uid = 1000, st_perm = 384, st_dev = 1, st_ino = 2, st_size = 576\<rparr>),
      k_statx = (\<lambda>_ _. Inr (Some \<lparr>st_regular = True, st_uid = 1000, st_perm = 384, st_dev = 1, st_ino = 2, st_size = 576\<rparr>)),
      k_ftruncate = (\<lambda>_ _. None), k_mmap = (\<lambda>_ _. None), k_unlink = (\<lambda>_. None), k_log = []\<rparr>"

end
