(* ===== verification/ER_Rely.thy ===== *)
theory ER_Rely
  imports ER_Prog
begin

text \<open>
  Programs under interference. A configuration pairs the shared state with auxiliary (ghost) data
  that the program does not see. \<open>safe R G p Q c\<close>: started in \<open>c\<close>, with the environment free
  to make any \<open>R\<close>-move before every action, each action of \<open>p\<close> can be accompanied by a change of
  the ghost data so that it is a \<open>G\<close>-move, and the value \<open>a\<close> it returns satisfies \<open>Q a\<close> in every
  configuration it can return in. The locale \<open>interference\<close> has the calculus, for a rely that is
  a preorder; \<open>rely_guarantee\<close> composes the threads of an interleaving, whose steps
  (\<open>par_step\<close>) are those of the plain programs. \<open>crash_states\<close> are the states a process that is
  killed during a solo run can leave behind.
\<close>

primrec safe ::
  "('s \<times> 'g \<Rightarrow> 's \<times> 'g \<Rightarrow> bool) \<Rightarrow> ('s \<times> 'g \<Rightarrow> 's \<times> 'g \<Rightarrow> bool) \<Rightarrow> ('s, 'a) prog \<Rightarrow>
   ('a \<Rightarrow> 's \<times> 'g \<Rightarrow> bool) \<Rightarrow> 's \<times> 'g \<Rightarrow> bool" where
  "safe R G (Ret a) Q = (\<lambda>c. \<forall>c'. R c c' \<longrightarrow> Q a c')"
| "safe R G (Act u k) Q = (\<lambda>c. \<forall>s g. R c (s, g) \<longrightarrow>
     (\<exists>g'. G (s, g) (u s, g') \<and> safe R G (k s) Q (u s, g')))"

text \<open>
  An interleaving: one thread performs its next action, or the environment (the operating
  system, a process outside the group) moves.
\<close>

inductive par_step ::
  "('s \<Rightarrow> 's \<Rightarrow> bool) \<Rightarrow> 's \<times> ('s, 'a) prog list \<Rightarrow> 's \<times> ('s, 'a) prog list \<Rightarrow> bool" for E where
  thread: "i < length ps \<Longrightarrow> ps ! i = Act u k \<Longrightarrow> par_step E (s, ps) (u s, ps[i := k s])"
| env: "E s t \<Longrightarrow> par_step E (s, ps) (t, ps)"

inductive_cases par_stepE: "par_step E (s, ps) c"

text \<open>One way to interleave: the thread \<open>i\<close> runs alone to its end.\<close>

lemma par_run_solo:
  "i < length ps \<Longrightarrow>
    (par_step E)\<^sup>*\<^sup>* (s, ps) (snd (run (ps ! i) s), ps[i := Ret (fst (run (ps ! i) s))])"
proof (induction "ps ! i" arbitrary: s ps)
  case (Ret a)
  then show ?case by (metis fst_conv list_update_id rtranclp.rtrancl_refl run.simps(1) snd_conv)
next
  case (Act u k)
  then have "par_step E (s, ps) (u s, ps[i := k s])" by (intro par_step.thread) simp_all
  moreover have "(par_step E)\<^sup>*\<^sup>* (u s, ps[i := k s]) (snd (run (k s) (u s)), ps[i := Ret (fst (run (k s) (u s)))])"
    using Act.hyps(1) [of "ps[i := k s]" "u s"] Act.prems by simp
  ultimately show ?case
    using Act.hyps(2) [symmetric] by (simp add: converse_rtranclp_into_rtranclp)
qed

primrec crash_states :: "('s, 'a) prog \<Rightarrow> 's \<Rightarrow> 's set" where
  "crash_states (Ret a) = (\<lambda>s. {s})"
| "crash_states (Act u k) = (\<lambda>s. insert s (crash_states (k s) (u s)))"

lemma crash_states_start [simp]: "s \<in> crash_states p s"
  by (cases p) auto

lemma run_crash_states: "snd (run p s) \<in> crash_states p s"
  by (induction p arbitrary: s) auto

lemma crash_states_bind:
  "crash_states (bind p f) s =
     crash_states p s \<union> crash_states (f (fst (run p s))) (snd (run p s))"
  by (induction p arbitrary: s) auto

lemma crash_states_load [simp]: "crash_states (shared_load c) s = {s}"
  by (simp add: shared_load_def)

lemma crash_states_store [simp]: "crash_states (shared_store c v) s = {s, wr c v s}"
  by (auto simp: shared_store_def)

subsection \<open>Programs that only read\<close>

text \<open>Every action leaves the state alone; the values read are arbitrary.\<close>

primrec reads_only :: "('s, 'a) prog \<Rightarrow> bool" where
  "reads_only (Ret a) = True"
| "reads_only (Act u k) = (u = (\<lambda>s. s) \<and> (\<forall>s. reads_only (k s)))"

named_theorems reads_only_intros \<open>programs that only read\<close>

lemma reads_only_bind [reads_only_intros]:
  "reads_only p \<Longrightarrow> (\<And>a. reads_only (f a)) \<Longrightarrow> reads_only (bind p f)"
  by (induction p) auto

lemma reads_only_try_bind [reads_only_intros]:
  "reads_only p \<Longrightarrow> (\<And>a. reads_only (f a)) \<Longrightarrow> reads_only (try_bind p f)"
  unfolding try_bind_def by (rule reads_only_bind) (auto split: sum.splits)

lemma reads_only_load [reads_only_intros]: "reads_only (shared_load c)"
  by (simp add: shared_load_def)

lemma reads_only_Ret [reads_only_intros]: "reads_only (Ret a)"
  by simp

lemma reads_only_if [reads_only_intros]:
  "(b \<Longrightarrow> reads_only p) \<Longrightarrow> (\<not> b \<Longrightarrow> reads_only q) \<Longrightarrow> reads_only (if b then p else q)"
  by simp

lemma reads_only_memcpy_from [reads_only_intros]: "reads_only (memcpy_from src i n)"
  by (induction n arbitrary: i) (auto intro!: reads_only_intros)

lemma reads_only_run: "reads_only p \<Longrightarrow> snd (run p s) = s"
  by (induction p arbitrary: s) auto

lemma reads_only_crash: "reads_only p \<Longrightarrow> crash_states p s = {s}"
  by (induction p arbitrary: s) auto

text \<open>Whatever the actions read, the value returned satisfies \<open>S\<close>.\<close>

primrec yields :: "('a \<Rightarrow> bool) \<Rightarrow> ('s, 'a) prog \<Rightarrow> bool" where
  "yields S (Ret a) = S a"
| "yields S (Act u k) = (\<forall>s. yields S (k s))"

lemma yields_bind: "(\<And>a. yields S (f a)) \<Longrightarrow> yields S (bind p f)"
  by (induction p) auto

lemma yields_seq: "yields S p \<Longrightarrow> (\<And>a. S a \<Longrightarrow> yields T (f a)) \<Longrightarrow> yields T (bind p f)"
  by (induction p) auto

lemma yields_True [simp]: "yields (\<lambda>_. True) p"
  by (induction p) auto

subsection \<open>The calculus\<close>

lemma safe_frame:
  assumes "safe R G p Q c" and "F c" and "\<And>c d. F c \<Longrightarrow> R c d \<Longrightarrow> F d" and "\<And>c d. F c \<Longrightarrow> G c d \<Longrightarrow> F d"
  shows "safe R G p (\<lambda>a c. Q a c \<and> F c) c"
  using assms(1,2)
proof (induction p arbitrary: c)
  case (Ret a)
  then show ?case using assms(3) by auto
next
  case (Act u k)
  show ?case
    unfolding safe.simps
  proof (intro allI impI)
    fix s g assume "R c (s, g)"
    then obtain g' where g': "G (s, g) (u s, g')" "safe R G (k s) Q (u s, g')" and "F (s, g)"
      using Act.prems(1) assms(3) [OF Act.prems(2)] unfolding safe.simps by blast
    then have "safe R G (k s) (\<lambda>a c. Q a c \<and> F c) (u s, g')"
      using Act.IH [OF _ g'(2)] assms(4) by blast
    then show "\<exists>g'. G (s, g) (u s, g') \<and> safe R G (k s) (\<lambda>a c. Q a c \<and> F c) (u s, g')"
      using g'(1) by blast
  qed
qed

lemma safe_mono:
  assumes "safe R G p Q c"
    and "\<And>c d. R' c d \<Longrightarrow> R c d" and "\<And>c d. G c d \<Longrightarrow> G' c d" and "\<And>a d. Q a d \<Longrightarrow> Q' a d"
  shows "safe R' G' p Q' c"
  using assms(1)
proof (induction p arbitrary: c)
  case (Act u k)
  show ?case
  proof (simp, intro allI impI)
    fix s g assume "R' c (s, g)"
    then have "R c (s, g)" by (rule assms(2))
    then obtain g' where "G (s, g) (u s, g')" and "safe R G (k s) Q (u s, g')"
      using Act.prems by auto
    then show "\<exists>g'. G' (s, g) (u s, g') \<and> safe R' G' (k s) Q' (u s, g')"
      using Act.IH [of "k s"] assms(3) by blast
  qed
qed (use assms(2-) in auto)

lemma safe_post:
  assumes "safe R G p Q c" and "\<And>a d. Q a d \<Longrightarrow> Q' a d"
  shows "safe R G p Q' c"
  using assms(1) by (rule safe_mono) (use assms(2) in auto)

locale interference =
  fixes R :: "'s \<times> 'g \<Rightarrow> 's \<times> 'g \<Rightarrow> bool"
  assumes R_refl [intro, simp]: "R c c"
    and R_trans: "R c d \<Longrightarrow> R d e \<Longrightarrow> R c e"
begin

lemma safe_stable:
  assumes "safe R G p Q c" and "R c d"
  shows "safe R G p Q d"
proof -
  have R: "\<And>e. R d e \<Longrightarrow> R c e"
    using R_trans [OF assms(2)] .
  then show ?thesis
    using assms(1) by (cases p) (simp_all del: split_paired_All)
qed

lemma safe_ActD:
  "safe R G (Act u k) Q (s, g) \<Longrightarrow> \<exists>g'. G (s, g) (u s, g') \<and> safe R G (k s) Q (u s, g')"
  using R_refl [of "(s, g)"] by simp

lemma safe_RetD: "safe R G (Ret a) Q c \<Longrightarrow> Q a c"
  using R_refl [of c] by (simp del: split_paired_All)

lemma safe_RetI: "(\<And>d. R c d \<Longrightarrow> Q a d) \<Longrightarrow> safe R G (Ret a) Q c"
  by simp

lemma safe_bind: "safe R G p (\<lambda>a. safe R G (f a) Q) c \<Longrightarrow> safe R G (bind p f) Q c"
proof (induction p arbitrary: c)
  case (Ret a)
  then have "safe R G (f a) Q c" by (rule safe_RetD)
  then show ?case by simp
next
  case (Act u k)
  show ?case
  proof (simp, intro allI impI)
    fix s g assume "R c (s, g)"
    then obtain g' where "G (s, g) (u s, g')"
      and "safe R G (k s) (\<lambda>a. safe R G (f a) Q) (u s, g')"
      using Act.prems by auto
    then show "\<exists>g'. G (s, g) (u s, g') \<and> safe R G (bind (k s) f) Q (u s, g')"
      using Act.IH [OF rangeI] by blast
  qed
qed

lemma safe_try_bind:
  assumes "safe R G p (\<lambda>r d. case r of Inl e \<Rightarrow> safe R G (Ret (Inl e)) Q d
                                     | Inr v \<Rightarrow> safe R G (f v) Q d) c"
  shows "safe R G (try_bind p f) Q c"
  unfolding try_bind_def
  by (rule safe_bind, rule safe_post [OF assms]) (auto split: sum.splits)

text \<open>One atomic action, and the ghost data to go with it.\<close>

lemma safe_ActI:
  assumes "\<And>s g. R c (s, g) \<Longrightarrow> \<exists>g'. G (s, g) (u s, g') \<and> safe R G (k s) Q (u s, g')"
  shows "safe R G (Act u k) Q c"
  using assms by simp

lemma safe_load:
  assumes "\<And>s g. R c (s, g) \<Longrightarrow> G (s, g) (s, g) \<and> safe R G (Ret (rd x s)) Q (s, g)"
  shows "safe R G (shared_load x) Q c"
  using assms unfolding shared_load_def by (intro safe_ActI) blast

lemma safe_store:
  assumes "\<And>s g. R c (s, g) \<Longrightarrow> \<exists>g'. G (s, g) (wr x v s, g') \<and> safe R G (Ret ()) Q (wr x v s, g')"
  shows "safe R G (shared_store x v) Q c"
  using assms unfolding shared_store_def by (intro safe_ActI) blast

text \<open>A reader keeps whatever the environment keeps, and its answer is one of its possible answers.\<close>

lemma safe_reads_only:
  assumes "reads_only p" and "yields S p"
    and "\<And>d. R c d \<Longrightarrow> G d d" and "\<And>a d. S a \<Longrightarrow> R c d \<Longrightarrow> Q a d"
  shows "safe R G p Q c"
  using assms
proof (induction p arbitrary: c)
  case (Act u k)
  show ?case
  proof (rule safe_ActI)
    fix s g assume c: "R c (s, g)"
    have "safe R G (k s) Q (s, g)"
    proof (rule Act.IH [OF rangeI])
      show "reads_only (k s)" and "yields S (k s)" using Act.prems(1,2) by simp_all
    qed (blast intro: Act.prems R_trans [OF c])+
    with c Act.prems show "\<exists>g'. G (s, g) (u s, g') \<and> safe R G (k s) Q (u s, g')" by auto
  qed
qed auto

end

text \<open>
  One thread with its rely and guarantee. Assertions about it are stable under the rely, and
  \<open>triple P p Q\<close> says that \<open>p\<close>, started under \<open>P\<close>, is safe and returns under \<open>Q\<close>.
\<close>

locale rg_thread = interference R for R :: "'s \<times> 'g \<Rightarrow> 's \<times> 'g \<Rightarrow> bool" +
  fixes G :: "'s \<times> 'g \<Rightarrow> 's \<times> 'g \<Rightarrow> bool"
  assumes G_refl: "G c c"
begin

definition stable :: "('s \<times> 'g \<Rightarrow> bool) \<Rightarrow> bool" where
  "stable P \<longleftrightarrow> (\<forall>c d. P c \<longrightarrow> R c d \<longrightarrow> P d)"

definition triple ::
  "('s \<times> 'g \<Rightarrow> bool) \<Rightarrow> ('s, 'a) prog \<Rightarrow> ('a \<Rightarrow> 's \<times> 'g \<Rightarrow> bool) \<Rightarrow> bool" where
  "triple P p Q \<longleftrightarrow> (\<forall>c. P c \<longrightarrow> safe R G p Q c)"

lemma stableI: "(\<And>c d. P c \<Longrightarrow> R c d \<Longrightarrow> P d) \<Longrightarrow> stable P"
  unfolding stable_def by blast

lemma stableD: "stable P \<Longrightarrow> P c \<Longrightarrow> R c d \<Longrightarrow> P d"
  unfolding stable_def by blast

lemma triple_conseq:
  assumes "triple P' p Q'" and "\<And>c. P c \<Longrightarrow> P' c" and "\<And>a c. Q' a c \<Longrightarrow> Q a c"
  shows "triple P p Q"
  using assms(1) unfolding triple_def by (blast intro: safe_post assms(2,3))

lemma triple_bind:
  assumes "triple P p S" and "\<And>a. triple (S a) (f a) Q"
  shows "triple P (bind p f) Q"
  using assms unfolding triple_def by (blast intro: safe_bind safe_post)

lemma triple_Ret:
  assumes "stable (Q a)" and "\<And>c. P c \<Longrightarrow> Q a c"
  shows "triple P (Ret a) Q"
  unfolding triple_def by (intro allI impI safe_RetI) (blast intro: assms stableD)

lemma triple_try_bind:
  assumes "triple P p (case_sum Q' S)" and "\<And>a. triple (S a) (f a) Q"
    and "\<And>e. stable (Q (Inl e))" and "\<And>e c. Q' e c \<Longrightarrow> Q (Inl e) c"
  shows "triple P (try_bind p f) Q"
  unfolding try_bind_def
proof (rule triple_bind [OF assms(1)])
  fix r
  show "triple (case_sum Q' S r) (case r of Inl e \<Rightarrow> Ret (Inl e) | Inr v \<Rightarrow> f v) Q"
    using assms(2-4) by (cases r) (simp_all add: triple_Ret)
qed

lemma triple_Act:
  assumes "stable P" and "\<And>a. stable (Q a)"
    and "\<And>s g. P (s, g) \<Longrightarrow> \<exists>g'. G (s, g) (u s, g') \<and> Q (f s) (u s, g')"
  shows "triple P (Act u (\<lambda>s. Ret (f s))) Q"
  unfolding triple_def
proof (intro allI impI, rule safe_ActI)
  fix c s g assume "P c" and "R c (s, g)"
  then have "P (s, g)" using assms(1) by (blast dest: stableD)
  then obtain g' where "G (s, g) (u s, g')" and "Q (f s) (u s, g')"
    using assms(3) by blast
  then show "\<exists>g'. G (s, g) (u s, g') \<and> safe R G (Ret (f s)) Q (u s, g')"
    using assms(2) by (blast intro: safe_RetI dest: stableD)
qed

lemma triple_load:
  assumes "stable P" and "\<And>a. stable (Q a)" and "\<And>s g. P (s, g) \<Longrightarrow> Q (rd x s) (s, g)"
  shows "triple P (shared_load x) Q"
  unfolding shared_load_def by (rule triple_Act) (blast intro: assms G_refl)+

lemma triple_store:
  assumes "stable P" and "stable (Q ())"
    and "\<And>s g. P (s, g) \<Longrightarrow> \<exists>g'. G (s, g) (wr x v s, g') \<and> Q () (wr x v s, g')"
  shows "triple P (shared_store x v) Q"
  unfolding shared_store_def by (rule triple_Act) (use assms in simp_all)

lemma triple_cas:
  assumes "stable P" and "\<And>b. stable (Q b)"
    and "\<And>s g. P (s, g) \<Longrightarrow> rd x s = e \<Longrightarrow> \<exists>g'. G (s, g) (wr x d s, g') \<and> Q True (wr x d s, g')"
    and "\<And>s g. P (s, g) \<Longrightarrow> rd x s \<noteq> e \<Longrightarrow> Q False (s, g)"
  shows "triple P (shared_cas x e d) Q"
  unfolding shared_cas_def
proof (rule triple_Act [OF assms(1,2)])
  fix s g assume "P (s, g)"
  then show "\<exists>g'. G (s, g) (if rd x s = e then wr x d s else s, g') \<and>
      Q (rd x s = e) (if rd x s = e then wr x d s else s, g')"
    using assms(3,4) [of s g] G_refl [of "(s, g)"] by (cases "rd x s = e") auto
qed

text \<open>A program that only reads keeps every stable assertion.\<close>

lemma triple_reads_yields:
  assumes "reads_only p" and "yields S p" and "stable P"
  shows "triple P p (\<lambda>a c. S a \<and> P c)"
  unfolding triple_def
  by (intro allI impI safe_reads_only [OF assms(1,2)]) (blast intro: assms G_refl stableD)+

lemma triple_reads:
  assumes "reads_only p" and "stable P"
  shows "triple P p (\<lambda>_. P)"
  using triple_reads_yields [OF assms(1) yields_True assms(2)] by simp

lemma triple_frame:
  assumes "triple P p Q" and "stable F" and "\<And>c d. F c \<Longrightarrow> G c d \<Longrightarrow> F d"
  shows "triple (\<lambda>c. P c \<and> F c) p (\<lambda>a c. Q a c \<and> F c)"
  unfolding triple_def
proof (intro allI impI)
  fix c assume "P c \<and> F c"
  then have "safe R G p Q c" and "F c" using assms(1) unfolding triple_def by blast+
  then show "safe R G p (\<lambda>a c. Q a c \<and> F c) c"
    by (rule safe_frame) (use assms(2,3) in \<open>blast dest: stableD\<close>)+
qed

lemma triple_reads_bind:
  assumes "reads_only p" and "stable P" and "\<And>a. triple P (f a) Q"
  shows "triple P (bind p f) Q"
  by (rule triple_bind [OF triple_reads [OF assms(1,2)] assms(3)])

end

locale rely_guarantee =
  fixes R :: "nat \<Rightarrow> 's \<times> 'g \<Rightarrow> 's \<times> 'g \<Rightarrow> bool"
    and G :: "nat \<Rightarrow> 's \<times> 'g \<Rightarrow> 's \<times> 'g \<Rightarrow> bool"
    and E :: "'s \<Rightarrow> 's \<Rightarrow> bool"
  assumes rely: "interference (R i)"
    and guarantee: "G i c d \<Longrightarrow> i \<noteq> j \<Longrightarrow> R j c d"
    and environment: "E s t \<Longrightarrow> R j (s, g) (t, g)"
begin

definition all_safe :: "(nat \<Rightarrow> 'a \<Rightarrow> 's \<times> 'g \<Rightarrow> bool) \<Rightarrow> 's \<times> ('s, 'a) prog list \<Rightarrow> 'g \<Rightarrow> bool" where
  "all_safe Q c g \<longleftrightarrow>
     (\<forall>i < length (snd c). safe (R i) (G i) (snd c ! i) (Q i) (fst c, g))"

lemma all_safe_thread:
  assumes "all_safe Q (s, ps) g" and "i < length ps" and "ps ! i = Act u k"
  shows "\<exists>g'. G i (s, g) (u s, g') \<and> all_safe Q (u s, ps[i := k s]) g'"
proof -
  have "safe (R i) (G i) (Act u k) (Q i) (s, g)"
    using assms by (auto simp: all_safe_def)
  then obtain g' where G: "G i (s, g) (u s, g')" and "safe (R i) (G i) (k s) (Q i) (u s, g')"
    using interference.safe_ActD [OF rely] by blast
  moreover have "safe (R j) (G j) (ps ! j) (Q j) (u s, g')" if "j < length ps" "j \<noteq> i" for j
    using assms(1) that guarantee [OF G]
    by (auto simp: all_safe_def intro: interference.safe_stable [OF rely])
  ultimately have "all_safe Q (u s, ps[i := k s]) g'"
    using assms(2) by (auto simp: all_safe_def nth_list_update)
  with G show ?thesis by blast
qed

lemma par_step_safe:
  assumes "par_step E c c'" and "all_safe Q c g"
  shows "\<exists>g'. all_safe Q c' g' \<and>
           ((\<exists>i < length (snd c). G i (fst c, g) (fst c', g')) \<or> E (fst c) (fst c') \<and> g' = g)"
  using assms
proof (induction rule: par_step.induct)
  case (thread i ps u k s)
  then show ?case using all_safe_thread by fastforce
next
  case (env s t ps)
  then have "all_safe Q (t, ps) g"
    by (auto simp: all_safe_def intro: interference.safe_stable [OF rely] environment)
  with env show ?case by auto
qed

text \<open>
  A transitive relation on configurations that every guarantee and the environment imply relates
  the two ends of every interleaving, for suitable ghost data at the end.
\<close>

lemma par_step_length: "par_step E c c' \<Longrightarrow> length (snd c') = length (snd c)"
  by (induction rule: par_step.induct) auto

lemma par_run_safe:
  assumes "(par_step E)\<^sup>*\<^sup>* c c'" and "all_safe Q c g"
    and G: "\<And>i d d'. i < length (snd c) \<Longrightarrow> G i d d' \<Longrightarrow> T d d'"
    and E: "\<And>s t g. E s t \<Longrightarrow> T (s, g) (t, g)"
    and refl: "\<And>d. T d d" and trans: "\<And>d e f. T d e \<Longrightarrow> T e f \<Longrightarrow> T d f"
  shows "\<exists>g'. length (snd c') = length (snd c) \<and> all_safe Q c' g' \<and> T (fst c, g) (fst c', g')"
  using assms(1)
proof (induction rule: rtranclp_induct)
  case (step y z)
  then obtain g1 where y: "length (snd y) = length (snd c)" "all_safe Q y g1" "T (fst c, g) (fst y, g1)"
    by blast
  obtain g2 where z: "all_safe Q z g2"
    and or: "(\<exists>i < length (snd y). G i (fst y, g1) (fst z, g2)) \<or> E (fst y) (fst z) \<and> g2 = g1"
    using par_step_safe [OF step.hyps(2) y(2)] by blast
  have "T (fst y, g1) (fst z, g2)"
    using or G E y(1) by auto
  then show ?case
    using trans [OF y(3)] z par_step_length [OF step.hyps(2)] y(1) by auto
qed (use assms(2) refl in auto)

text \<open>A thread left alone finishes: its program is finite whatever it reads.\<close>

lemma par_finish:
  assumes "all_safe Q (s, ps) g" and "i < length ps"
  shows "\<exists>t qs g' a. (par_step E)\<^sup>*\<^sup>* (s, ps) (t, qs) \<and> all_safe Q (t, qs) g' \<and> i < length qs \<and>
    qs ! i = Ret a \<and> (G i)\<^sup>*\<^sup>* (s, g) (t, g')"
  using assms
proof (induction "ps ! i" arbitrary: s ps g)
  case (Ret a)
  then show ?case by (metis rtranclp.rtrancl_refl)
next
  case (Act u k)
  have step: "par_step E (s, ps) (u s, ps[i := k s])"
    using Act by (intro par_step.thread) simp_all
  obtain g1 where G: "G i (s, g) (u s, g1)" and "all_safe Q (u s, ps[i := k s]) g1"
    using all_safe_thread [OF Act.prems] Act.hyps(2) by metis
  moreover have "ps[i := k s] ! i \<in> range k" "i < length (ps[i := k s])"
    using Act.prems(2) by simp_all
  ultimately obtain t qs g' a where fin: "(par_step E)\<^sup>*\<^sup>* (u s, ps[i := k s]) (t, qs)" "all_safe Q (t, qs) g'"
      "i < length qs" "qs ! i = Ret a" "(G i)\<^sup>*\<^sup>* (u s, g1) (t, g')"
    using Act.hyps(1) [of "ps[i := k s]" "u s" g1] by metis
  then show ?case
    using step G by (metis converse_rtranclp_into_rtranclp)
qed

lemma all_safe_result:
  assumes "all_safe Q (t, qs) g" and "i < length qs" and "qs ! i = Ret a"
  shows "Q i a (t, g)"
proof -
  have "safe (R i) (G i) (Ret a) (Q i) (t, g)"
    using assms by (auto simp: all_safe_def)
  then show ?thesis
    by (rule interference.safe_RetD [OF rely])
qed

end

end
