(* ===== verification/ER_Owner.thy ===== *)
theory ER_Owner
  imports ER_Names ER_Kernel ER_Rely
begin

text \<open>
  The owner protocol of \<open>sync/owner_snapshot.hpp\<close>, which the gates and slots of the MPMC queue and
  the blocks of the buffer pool share. Each of them has a state word, an owner epoch and an owner
  identity of four words. A claimant moves the state to a claiming value by compare-and-swap, makes
  the epoch odd, writes the four words, makes the epoch even again and only then sets the owned
  state. A reader accepts an owner only if it saw the same even epoch before and after reading the
  words and an owned state: a sequence lock. The hooks of \<open>snapshot_owner_seq_cst\<close> are failpoints,
  which do nothing in a release build.
\<close>

record owner_abi =
  ow_pid :: u64
  ow_ticks :: u64
  ow_boot_hi :: u64
  ow_boot_lo :: u64

definition owner_none :: owner_abi where
  "owner_none = \<lparr>ow_pid = 0, ow_ticks = 0, ow_boot_hi = 0, ow_boot_lo = 0\<rparr>"

definition c_ow_pid :: "(owner_abi, u64) cell" where
  "c_ow_pid = \<lparr>rd = ow_pid, wr = (\<lambda>v w. w\<lparr>ow_pid := v\<rparr>)\<rparr>"
definition c_ow_ticks :: "(owner_abi, u64) cell" where
  "c_ow_ticks = \<lparr>rd = ow_ticks, wr = (\<lambda>v w. w\<lparr>ow_ticks := v\<rparr>)\<rparr>"
definition c_ow_boot_hi :: "(owner_abi, u64) cell" where
  "c_ow_boot_hi = \<lparr>rd = ow_boot_hi, wr = (\<lambda>v w. w\<lparr>ow_boot_hi := v\<rparr>)\<rparr>"
definition c_ow_boot_lo :: "(owner_abi, u64) cell" where
  "c_ow_boot_lo = \<lparr>rd = ow_boot_lo, wr = (\<lambda>v w. w\<lparr>ow_boot_lo := v\<rparr>)\<rparr>"

lemmas owner_cells [cell_defs] = c_ow_pid_def c_ow_ticks_def c_ow_boot_hi_def c_ow_boot_lo_def

definition owner_bytes :: "owner_abi \<Rightarrow> bytes" where
  "owner_bytes ow = le64 (ow_pid ow) @ le64 (ow_ticks ow) @ le64 (ow_boot_hi ow) @ le64 (ow_boot_lo ow)"

text \<open>The three words a gate, a slot or a block has in common.\<close>

record owner_word =
  ov_state :: u32
  ov_epoch :: u64
  ov_owner :: owner_abi

definition c_ov_state :: "(owner_word, u32) cell" where
  "c_ov_state = \<lparr>rd = ov_state, wr = (\<lambda>v w. w\<lparr>ov_state := v\<rparr>)\<rparr>"
definition c_ov_epoch :: "(owner_word, u64) cell" where
  "c_ov_epoch = \<lparr>rd = ov_epoch, wr = (\<lambda>v w. w\<lparr>ov_epoch := v\<rparr>)\<rparr>"
definition c_ov_owner :: "(owner_word, owner_abi) cell" where
  "c_ov_owner = \<lparr>rd = ov_owner, wr = (\<lambda>v w. w\<lparr>ov_owner := v\<rparr>)\<rparr>"

lemmas owner_word_cells [cell_defs] = c_ov_state_def c_ov_epoch_def c_ov_owner_def

datatype OwnerSnapshotKind =
  SnapInactive | SnapClaiming | SnapStable | SnapUnstable | SnapCorrupt | SnapEpochExhausted

datatype OwnerStateKind =
  StInactive | StClaiming | StOwned | StEpochExhausted | StProtocolFault | StUnexpected

record OwnerSnapshot =
  os_kind :: OwnerSnapshotKind
  os_state :: u32
  os_owner :: owner_abi
  os_epoch :: u64

definition snapshot_of :: "OwnerSnapshotKind \<Rightarrow> u32 \<Rightarrow> owner_abi \<Rightarrow> u64 \<Rightarrow> OwnerSnapshot" where
  "snapshot_of k st ow ep = \<lparr>os_kind = k, os_state = st, os_owner = ow, os_epoch = ep\<rparr>"

definition load_owner_seq_cst :: "('s, owner_abi) cell \<Rightarrow> ('s, owner_abi) prog" where
  "load_owner_seq_cst ow =
     bind (shared_load (field ow c_ow_pid)) (\<lambda>p.
     bind (shared_load (field ow c_ow_ticks)) (\<lambda>t.
     bind (shared_load (field ow c_ow_boot_hi)) (\<lambda>h.
     bind (shared_load (field ow c_ow_boot_lo)) (\<lambda>l.
     Ret \<lparr>ow_pid = p, ow_ticks = t, ow_boot_hi = h, ow_boot_lo = l\<rparr>))))"

definition store_owner_seq_cst :: "('s, owner_abi) cell \<Rightarrow> owner_abi \<Rightarrow> ('s, unit) prog" where
  "store_owner_seq_cst ow value =
     bind (shared_store (field ow c_ow_pid) (ow_pid value)) (\<lambda>_.
     bind (shared_store (field ow c_ow_ticks) (ow_ticks value)) (\<lambda>_.
     bind (shared_store (field ow c_ow_boot_hi) (ow_boot_hi value)) (\<lambda>_.
     shared_store (field ow c_ow_boot_lo) (ow_boot_lo value))))"

definition kOwnerSnapshotRetries :: nat where "kOwnerSnapshotRetries = 4"
definition kMaxCommittedOwnerEpoch :: u64 where "kMaxCommittedOwnerEpoch = U64_MAX - 1"

datatype OwnerCommitResult = CommitReady | CommitEpochExhausted | CommitCorrupt

text \<open>The committed epoch is the output parameter of a successful \<open>begin_owner_commit\<close>.\<close>

definition begin_owner_commit ::
  "('s, u64) cell \<Rightarrow> u64 \<Rightarrow> ('s, OwnerCommitResult \<times> u64) prog" where
  "begin_owner_commit epoch reserve_after_commit =
     bind (shared_load epoch) (\<lambda>current.
       if current AND 1 \<noteq> 0 \<or> current > kMaxCommittedOwnerEpoch then Ret (CommitCorrupt, 0)
       else if reserve_after_commit > kMaxCommittedOwnerEpoch - current
       then Ret (CommitEpochExhausted, 0)
       else bind (shared_cas epoch current (current + 1)) (\<lambda>won.
         if \<not> won then Ret (CommitCorrupt, 0) else Ret (CommitReady, current + 2)))"

definition owner_epoch_capacity :: "('s, u64) cell \<Rightarrow> u64 \<Rightarrow> ('s, OwnerCommitResult) prog" where
  "owner_epoch_capacity epoch reserve_after_commit =
     bind (shared_load epoch) (\<lambda>current.
       if current AND 1 \<noteq> 0 \<or> current > kMaxCommittedOwnerEpoch then Ret CommitCorrupt
       else Ret (if reserve_after_commit \<le> kMaxCommittedOwnerEpoch - current
                 then CommitReady else CommitEpochExhausted))"

text \<open>
  The loop of \<open>snapshot_owner_seq_cst\<close>, by the attempts that remain. A \<open>continue\<close> of the source
  and the fall through to the end of the body are the recursive call.
\<close>

primrec snapshot_owner_loop ::
  "('s, u32) cell \<Rightarrow> ('s, u64) cell \<Rightarrow> ('s, owner_abi) cell \<Rightarrow> (u32 \<Rightarrow> OwnerStateKind) \<Rightarrow>
   (owner_abi \<Rightarrow> bool) \<Rightarrow> nat \<Rightarrow> ('s, OwnerSnapshot) prog" where
  "snapshot_owner_loop state epoch owner classify valid 0 =
     bind (shared_load state) (\<lambda>final_state.
     bind (shared_load epoch) (\<lambda>final_epoch.
       case classify final_state of
         StEpochExhausted \<Rightarrow> Ret (snapshot_of SnapEpochExhausted final_state owner_none final_epoch)
       | StProtocolFault \<Rightarrow> Ret (snapshot_of SnapCorrupt final_state owner_none final_epoch)
       | StUnexpected \<Rightarrow> Ret (snapshot_of SnapCorrupt final_state owner_none final_epoch)
       | _ \<Rightarrow> Ret (snapshot_of SnapUnstable final_state owner_none final_epoch)))"
| "snapshot_owner_loop state epoch owner classify valid (Suc attempts) =
     bind (shared_load state) (\<lambda>state_before.
       case classify state_before of
         StInactive \<Rightarrow>
           bind (shared_load epoch) (\<lambda>epoch_before.
           bind (shared_load state) (\<lambda>state_after.
           bind (shared_load epoch) (\<lambda>epoch_after.
             if state_after = state_before \<and> epoch_before = epoch_after then
               (if epoch_after AND 1 \<noteq> 0 \<or> epoch_after > kMaxCommittedOwnerEpoch
                then Ret (snapshot_of SnapCorrupt state_after owner_none epoch_after)
                else Ret (snapshot_of SnapInactive state_after owner_none epoch_after))
             else case classify state_after of
               StClaiming \<Rightarrow> Ret (snapshot_of SnapClaiming state_after owner_none epoch_after)
             | StEpochExhausted \<Rightarrow>
                 Ret (snapshot_of SnapEpochExhausted state_after owner_none epoch_after)
             | StProtocolFault \<Rightarrow> Ret (snapshot_of SnapCorrupt state_after owner_none epoch_after)
             | StUnexpected \<Rightarrow> Ret (snapshot_of SnapCorrupt state_after owner_none epoch_after)
             | _ \<Rightarrow> snapshot_owner_loop state epoch owner classify valid attempts)))
       | StClaiming \<Rightarrow>
           bind (shared_load epoch) (\<lambda>e.
             Ret (snapshot_of SnapClaiming state_before owner_none e))
       | StEpochExhausted \<Rightarrow>
           bind (shared_load epoch) (\<lambda>e.
             Ret (snapshot_of SnapEpochExhausted state_before owner_none e))
       | StProtocolFault \<Rightarrow>
           bind (shared_load epoch) (\<lambda>e.
             Ret (snapshot_of SnapCorrupt state_before owner_none e))
       | StUnexpected \<Rightarrow>
           bind (shared_load epoch) (\<lambda>e.
             Ret (snapshot_of SnapCorrupt state_before owner_none e))
       | StOwned \<Rightarrow>
           bind (shared_load epoch) (\<lambda>epoch_before.
             if epoch_before AND 1 \<noteq> 0
             then snapshot_owner_loop state epoch owner classify valid attempts
             else
               bind (load_owner_seq_cst owner) (\<lambda>candidate.
               bind (shared_load epoch) (\<lambda>epoch_after_fields.
               bind (shared_load state) (\<lambda>state_after.
               bind (shared_load epoch) (\<lambda>epoch_after_state.
                 if classify state_after = StOwned \<and> epoch_before = epoch_after_fields \<and>
                    epoch_after_fields = epoch_after_state \<and> epoch_after_state AND 1 = 0
                 then (if \<not> valid candidate
                       then Ret (snapshot_of SnapCorrupt state_after candidate epoch_after_state)
                       else Ret (snapshot_of SnapStable state_after candidate epoch_after_state))
                 else case classify state_after of
                   StEpochExhausted \<Rightarrow>
                     Ret (snapshot_of SnapEpochExhausted state_after owner_none epoch_after_state)
                 | StProtocolFault \<Rightarrow>
                     Ret (snapshot_of SnapCorrupt state_after owner_none epoch_after_state)
                 | StUnexpected \<Rightarrow>
                     Ret (snapshot_of SnapCorrupt state_after owner_none epoch_after_state)
                 | _ \<Rightarrow> snapshot_owner_loop state epoch owner classify valid attempts))))))"

definition snapshot_owner_seq_cst ::
  "('s, u32) cell \<Rightarrow> ('s, u64) cell \<Rightarrow> ('s, owner_abi) cell \<Rightarrow> (u32 \<Rightarrow> OwnerStateKind) \<Rightarrow>
   (owner_abi \<Rightarrow> bool) \<Rightarrow> ('s, OwnerSnapshot) prog" where
  "snapshot_owner_seq_cst state epoch owner classify valid =
     snapshot_owner_loop state epoch owner classify valid kOwnerSnapshotRetries"

text \<open>
  The helpers that \<open>queue/mpmc_queue.cpp\<close> and \<open>buffer/shared_buffer_pool.cpp\<close> define alike.
\<close>

definition owner_from_process :: "ProcessIdentity \<Rightarrow> owner_abi" where
  "owner_from_process p =
     \<lparr>ow_pid = id_pid p, ow_ticks = id_ticks p, ow_boot_hi = id_boot_hi p,
      ow_boot_lo = id_boot_lo p\<rparr>"

definition owner_valid :: "owner_abi \<Rightarrow> bool" where
  "owner_valid ow \<longleftrightarrow>
     ow_pid ow \<noteq> 0 \<and> ow_ticks ow \<noteq> 0 \<and> ow_boot_hi ow \<noteq> 0 \<and> ow_boot_lo ow \<noteq> 0"

definition owner_matches :: "owner_abi \<Rightarrow> ProcessIdentity \<Rightarrow> bool" where
  "owner_matches ow p \<longleftrightarrow>
     ow_pid ow = id_pid p \<and> ow_ticks ow = id_ticks p \<and>
     ow_boot_hi ow = id_boot_hi p \<and> ow_boot_lo ow = id_boot_lo p"

definition set_owner :: "('s, owner_abi) cell \<Rightarrow> ProcessIdentity \<Rightarrow> ('s, unit) prog" where
  "set_owner ow p = store_owner_seq_cst ow (owner_from_process p)"

subsection \<open>Solo runs\<close>

text \<open>What a snapshot returns when nothing interferes: a function of the three words.\<close>

definition observe_owner ::
  "(u32 \<Rightarrow> OwnerStateKind) \<Rightarrow> (owner_abi \<Rightarrow> bool) \<Rightarrow> u32 \<Rightarrow> u64 \<Rightarrow> owner_abi \<Rightarrow> OwnerSnapshot" where
  "observe_owner classify valid st ep ow =
     (case classify st of
        StInactive \<Rightarrow>
          if ep AND 1 \<noteq> 0 \<or> ep > kMaxCommittedOwnerEpoch
          then snapshot_of SnapCorrupt st owner_none ep else snapshot_of SnapInactive st owner_none ep
      | StClaiming \<Rightarrow> snapshot_of SnapClaiming st owner_none ep
      | StEpochExhausted \<Rightarrow> snapshot_of SnapEpochExhausted st owner_none ep
      | StProtocolFault \<Rightarrow> snapshot_of SnapCorrupt st owner_none ep
      | StUnexpected \<Rightarrow> snapshot_of SnapCorrupt st owner_none ep
      | StOwned \<Rightarrow>
          if ep AND 1 \<noteq> 0 then snapshot_of SnapUnstable st owner_none ep
          else if valid ow then snapshot_of SnapStable st ow ep
          else snapshot_of SnapCorrupt st ow ep)"

lemma run_load_owner [run_simps]: "run (load_owner_seq_cst ow) s = (rd ow s, s)"
  by (simp add: load_owner_seq_cst_def run_simps cell_defs)

lemma run_snapshot_owner_loop:
  "run (snapshot_owner_loop st ep ow classify valid (Suc n)) s =
     (observe_owner classify valid (rd st s) (rd ep s) (rd ow s), s)"
  by (induction n)
    (auto simp: run_simps observe_owner_def split: OwnerStateKind.splits)

lemma run_snapshot_owner [run_simps]:
  "run (snapshot_owner_seq_cst st ep ow classify valid) s =
     (observe_owner classify valid (rd st s) (rd ep s) (rd ow s), s)"
  unfolding snapshot_owner_seq_cst_def kOwnerSnapshotRetries_def
  using run_snapshot_owner_loop [of st ep ow classify valid 3] by simp

lemma reads_only_load_owner [reads_only_intros]: "reads_only (load_owner_seq_cst ow)"
  unfolding load_owner_seq_cst_def by (intro reads_only_intros)

lemma reads_only_snapshot_owner_loop:
  "reads_only (snapshot_owner_loop st ep ow classify valid n)"
  by (induction n)
    (auto intro!: reads_only_intros simp del: reads_only.simps split: OwnerStateKind.splits)

lemma reads_only_snapshot_owner [reads_only_intros]:
  "reads_only (snapshot_owner_seq_cst st ep ow classify valid)"
  unfolding snapshot_owner_seq_cst_def by (rule reads_only_snapshot_owner_loop)

lemma reads_only_kernel_query [reads_only_intros]: "reads_only (kernel_query kc f)"
  by (simp add: kernel_query_def)


lemma owner_abi_update_all:
  "w\<lparr>ow_pid := ow_pid v, ow_ticks := ow_ticks v, ow_boot_hi := ow_boot_hi v,
     ow_boot_lo := ow_boot_lo v\<rparr> = (v :: owner_abi)"
  by (cases v, cases w) simp

lemma run_store_owner:
  assumes "lens ow"
  shows "run (store_owner_seq_cst ow v) s = ((), wr ow v s)"
  by (simp add: store_owner_seq_cst_def run_simps cell_defs lens.rd_wr [OF assms] lens.wr_wr [OF assms]
      owner_abi_update_all)

lemma run_begin_owner_commit [run_simps]:
  "run (begin_owner_commit ep r) s =
     (if rd ep s AND 1 \<noteq> 0 \<or> rd ep s > kMaxCommittedOwnerEpoch then ((CommitCorrupt, 0), s)
      else if r > kMaxCommittedOwnerEpoch - rd ep s then ((CommitEpochExhausted, 0), s)
      else ((CommitReady, rd ep s + 2), wr ep (rd ep s + 1) s))"
  by (simp add: begin_owner_commit_def run_simps)

lemma run_owner_epoch_capacity [run_simps]:
  "run (owner_epoch_capacity ep r) s =
     (if rd ep s AND 1 \<noteq> 0 \<or> rd ep s > kMaxCommittedOwnerEpoch then CommitCorrupt
      else if r \<le> kMaxCommittedOwnerEpoch - rd ep s then CommitReady
      else CommitEpochExhausted, s)"
  by (simp add: owner_epoch_capacity_def run_simps)
subsection \<open>Committed epochs\<close>

definition committed_epoch_ok :: "u64 \<Rightarrow> bool" where
  "committed_epoch_ok ep \<longleftrightarrow> ep AND 1 = 0 \<and> \<not> ep > kMaxCommittedOwnerEpoch"

lemma epoch_even_max: "kMaxCommittedOwnerEpoch = 0xFFFFFFFFFFFFFFFE"
  by (simp add: kMaxCommittedOwnerEpoch_def U64_MAX_def)

lemma unat_kMax: "unat kMaxCommittedOwnerEpoch = 2 ^ 64 - 2"
  by (simp add: epoch_even_max)

lemma committed_epoch_ok_iff: "committed_epoch_ok ep \<longleftrightarrow> even (unat ep)"
proof -
  have "unat ep \<noteq> 2 ^ 64 - 1" if "even (unat ep)"
    using that by auto
  then show ?thesis
    using unat_u64_less [of ep]
    by (auto simp: committed_epoch_ok_def even_word_iff word_less_nat_alt unat_kMax not_less)
qed

lemma epoch_left_iff:
  assumes "committed_epoch_ok ep"
  shows "r \<le> kMaxCommittedOwnerEpoch - ep \<longleftrightarrow> unat r + unat ep \<le> 2 ^ 64 - 2"
proof -
  have "unat ep \<le> 2 ^ 64 - 2"
    using assms by (simp add: committed_epoch_ok_def word_less_nat_alt unat_kMax not_less)
  then show ?thesis
    by (auto simp: word_le_nat_alt unat_sub_no_wrap unat_kMax)
qed

lemma epoch_next:
  assumes "committed_epoch_ok ep" and "2 \<le> kMaxCommittedOwnerEpoch - ep"
  shows "unat (ep + 2) = unat ep + 2" and "committed_epoch_ok (ep + 2)"
proof -
  show "unat (ep + 2) = unat ep + 2"
    using assms epoch_left_iff [of ep 2] by (subst unat_add_no_wrap) auto
  then show "committed_epoch_ok (ep + 2)"
    using assms(1) by (simp add: committed_epoch_ok_iff)
qed

end
