(* ===== verification/ER_Mpmc_Layout.thy ===== *)
theory ER_Mpmc_Layout
  imports ER_Owner
begin

text \<open>
  The mapping of the MPMC queue (\<open>queue/mpmc_layout.hpp\<close>): constants, the words of the three state
  enumerations, the header and slot structures, and the size and offset arithmetic. The header is
  split where the source splits it: \<open>mpmc_immutable\<close> is the prefix the checksum covers (up to
  \<open>enqueue_position\<close>, 136 bytes), \<open>mpmc_header\<close> has the fields that change. A slot has its payload
  bytes, which follow the slot header in the mapping.
\<close>

subsection \<open>Constants and enumerations\<close>

definition kMpmcHeaderMagic :: bytes where "kMpmcHeaderMagic = string_bytes ''EDGMPMC2''"
definition kMpmcLegacyHeaderMagic :: bytes where
  "kMpmcLegacyHeaderMagic = string_bytes ''EDGMPMC1''"
definition kMpmcAbiMajor :: u16 where "kMpmcAbiMajor = 2"
definition kMpmcAbiMinor :: u16 where "kMpmcAbiMinor = 0"
definition kMpmcEndianMarker :: u32 where "kMpmcEndianMarker = 0x01020304"
definition kMpmcHeaderSize :: u32 where "kMpmcHeaderSize = 320"
definition kMpmcFirstSlotOffset :: u64 where "kMpmcFirstSlotOffset = ucast kMpmcHeaderSize"
definition kMpmcMaxCapacity :: u32 where "kMpmcMaxCapacity = 4096"
definition kMpmcMaxPayloadSize :: u32 where "kMpmcMaxPayloadSize = 64 * 1024"
definition kMpmcMaxNameLength :: nat where "kMpmcMaxNameLength = 64"
definition kMpmcSlotHeaderSize :: u64 where "kMpmcSlotHeaderSize = 64"

datatype MpmcInitState = InitEmpty | InitInitializing | InitReady

primrec init_word :: "MpmcInitState \<Rightarrow> u32" where
  "init_word InitEmpty = 0"
| "init_word InitInitializing = 1"
| "init_word InitReady = 2"

datatype MpmcLockState =
  LockFree | LockClaiming | LockOwned | LockEpochExhausted | LockOwnerProtocolFault

primrec lock_word :: "MpmcLockState \<Rightarrow> u32" where
  "lock_word LockFree = 0"
| "lock_word LockClaiming = 1"
| "lock_word LockOwned = 2"
| "lock_word LockEpochExhausted = 3"
| "lock_word LockOwnerProtocolFault = 4"

datatype MpmcSlotState =
    SlotFree | SlotEnqueueClaiming | SlotEnqueueOwned | SlotReady
  | SlotDequeueClaiming | SlotDequeueOwned | SlotEpochExhausted | SlotOwnerProtocolFault

primrec slot_word :: "MpmcSlotState \<Rightarrow> u32" where
  "slot_word SlotFree = 0"
| "slot_word SlotEnqueueClaiming = 1"
| "slot_word SlotEnqueueOwned = 2"
| "slot_word SlotReady = 3"
| "slot_word SlotDequeueClaiming = 4"
| "slot_word SlotDequeueOwned = 5"
| "slot_word SlotEpochExhausted = 6"
| "slot_word SlotOwnerProtocolFault = 7"

subsection \<open>Structures\<close>

record mpmc_immutable =
  mi_magic :: bytes
  mi_abi_major :: u16
  mi_abi_minor :: u16
  mi_header_size :: u32
  mi_endian_marker :: u32
  mi_capacity :: u32
  mi_payload_size :: u32
  mi_schema_version :: u32
  mi_reserved0 :: u32
  mi_mapping_size :: u64
  mi_schema_fingerprint :: bytes
  mi_generation :: u64
  mi_nonce_hi :: u64
  mi_nonce_lo :: u64
  mi_creator :: owner_abi

record mpmc_header =
  mh_immutable :: mpmc_immutable
  mh_enqueue_position :: u64
  mh_dequeue_position :: u64
  mh_enqueue_lock :: u32
  mh_dequeue_lock :: u32
  mh_init_state :: u32
  mh_enqueue_owner :: owner_abi
  mh_dequeue_owner :: owner_abi
  mh_header_checksum :: u64
  mh_notify_epoch :: u32
  mh_enqueue_owner_epoch :: u64
  mh_dequeue_owner_epoch :: u64

record mpmc_slot =
  sl_sequence :: u64
  sl_state :: u32
  sl_owner :: owner_abi
  sl_ticket :: u64
  sl_owner_epoch :: u64
  sl_payload :: "nat \<Rightarrow> u8"

text \<open>The first 136 bytes of the header; the four bytes after \<open>reserved0\<close> are padding.\<close>

definition mpmc_immutable_bytes :: "mpmc_immutable \<Rightarrow> bytes" where
  "mpmc_immutable_bytes h =
     mi_magic h @ le16 (mi_abi_major h) @ le16 (mi_abi_minor h) @ le32 (mi_header_size h) @
     le32 (mi_endian_marker h) @ le32 (mi_capacity h) @ le32 (mi_payload_size h) @
     le32 (mi_schema_version h) @ le32 (mi_reserved0 h) @ [0, 0, 0, 0] @
     le64 (mi_mapping_size h) @ mi_schema_fingerprint h @ le64 (mi_generation h) @
     le64 (mi_nonce_hi h) @ le64 (mi_nonce_lo h) @ owner_bytes (mi_creator h)"

subsection \<open>Sizes and offsets\<close>

definition mpmc_stride_for :: "u32 \<Rightarrow> u64 option" where
  "mpmc_stride_for payload_size =
     round_up_to_multiple_u64 (kMpmcSlotHeaderSize + ucast payload_size) 64"

definition mpmc_mapping_size_for :: "u32 \<Rightarrow> u32 \<Rightarrow> u64 option" where
  "mpmc_mapping_size_for capacity payload_size =
     (if capacity = 0 \<or> capacity > kMpmcMaxCapacity \<or> payload_size = 0 \<or>
         payload_size > kMpmcMaxPayloadSize
      then None
      else case mpmc_stride_for payload_size of
        None \<Rightarrow> None
      | Some stride \<Rightarrow>
          (case checked_mul_u64 (ucast capacity) stride of
             None \<Rightarrow> None
           | Some slots \<Rightarrow> checked_add_u64 kMpmcFirstSlotOffset slots))"

definition mpmc_slot_offset :: "u32 \<Rightarrow> u32 \<Rightarrow> u64 \<Rightarrow> u64 option" where
  "mpmc_slot_offset slot_index capacity stride =
     (if slot_index \<ge> capacity then None
      else case checked_mul_u64 (ucast slot_index) stride of
        None \<Rightarrow> None
      | Some offset \<Rightarrow> checked_add_u64 kMpmcFirstSlotOffset offset)"

definition mpmc_checked_ticket_bounds :: "u64 \<Rightarrow> u32 \<Rightarrow> (u64 \<times> u64) option" where
  "mpmc_checked_ticket_bounds ticket capacity =
     (if capacity = 0 then None
      else case checked_add_u64 ticket 1 of
        None \<Rightarrow> None
      | Some next_ticket \<Rightarrow>
          (case checked_add_u64 ticket (ucast capacity) of
             None \<Rightarrow> None
           | Some reclaim_sequence \<Rightarrow> Some (next_ticket, reclaim_sequence)))"

subsection \<open>Geometry\<close>

text \<open>A geometry the source accepts, and the slot offset as a number.\<close>

definition mpmc_geometry :: "u32 \<Rightarrow> u32 \<Rightarrow> u64 \<Rightarrow> bool" where
  "mpmc_geometry capacity payload_size stride \<longleftrightarrow>
     1 \<le> unat capacity \<and> unat capacity \<le> 4096 \<and>
     1 \<le> unat payload_size \<and> unat payload_size \<le> 65536 \<and>
     mpmc_stride_for payload_size = Some stride"

lemma mpmc_stride_for_Some:
  assumes "mpmc_stride_for p = Some stride" and "unat p \<le> 65536"
  shows "64 dvd unat stride" and "64 + unat p \<le> unat stride" and "unat stride < 128 + unat p"
proof -
  have "unat (kMpmcSlotHeaderSize + ucast p) = 64 + unat p"
    using assms(2) by (subst unat_add_no_wrap) (simp_all add: kMpmcSlotHeaderSize_def)
  then show "64 dvd unat stride" and "64 + unat p \<le> unat stride" and "unat stride < 128 + unat p"
    using round_up_Some [OF assms(1) [unfolded mpmc_stride_for_def]] by simp_all
qed

lemma mpmc_stride_for_defined:
  assumes "unat p \<le> 65536"
  shows "\<exists>stride. mpmc_stride_for p = Some stride"
proof -
  have "unat (kMpmcSlotHeaderSize + ucast p) = 64 + unat p"
    using assms by (subst unat_add_no_wrap) (simp_all add: kMpmcSlotHeaderSize_def)
  then show ?thesis
    unfolding mpmc_stride_for_def using assms by (intro round_up_defined) simp_all
qed

lemma mpmc_geometry_stride:
  assumes "mpmc_geometry cap p stride"
  shows "64 dvd unat stride" and "64 + unat p \<le> unat stride" and "unat stride \<le> 65664"
    and "0 < unat stride"
  using assms mpmc_stride_for_Some [of p stride] by (auto simp: mpmc_geometry_def)

lemma unat_kMpmcFirstSlotOffset [simp]: "unat kMpmcFirstSlotOffset = 320"
  by (simp add: kMpmcFirstSlotOffset_def kMpmcHeaderSize_def)

lemma mult_geometry_bound:
  assumes "i \<le> (4096 :: nat)" and "s \<le> 65664"
  shows "i * s \<le> 4096 * 65664"
  using assms by (rule mult_le_mono)

lemma mpmc_slot_offset_eq:
  assumes "mpmc_geometry cap p stride" and "i < cap"
  shows "\<exists>off. mpmc_slot_offset i cap stride = Some off \<and> unat off = 320 + unat i * unat stride"
proof -
  have "unat i * unat stride \<le> 4096 * 65664"
    using assms mpmc_geometry_stride(3) [OF assms(1)]
    by (intro mult_geometry_bound) (auto simp: mpmc_geometry_def word_less_nat_alt)
  then have "unat (ucast i * stride :: u64) = unat i * unat stride"
    "unat (ucast i :: u64) * unat stride < 2 ^ 64" "unat i * unat stride + 320 < 2 ^ 64"
    by (simp_all add: unat_mult_no_wrap)
  then have "mpmc_slot_offset i cap stride = Some (kMpmcFirstSlotOffset + ucast i * stride)"
    "unat (kMpmcFirstSlotOffset + ucast i * stride) = 320 + unat i * unat stride"
    using assms(2)
    by (auto simp: mpmc_slot_offset_def checked_mul_u64_Some_iff checked_add_u64_Some_iff
        unat_add_no_wrap not_le split: option.splits)
  then show ?thesis by blast
qed

lemma mpmc_mapping_size_eq:
  assumes "mpmc_mapping_size_for cap p = Some sz"
  shows "\<exists>stride. mpmc_geometry cap p stride \<and> unat sz = 320 + unat cap * unat stride"
proof -
  have bounds: "cap \<noteq> 0" "\<not> cap > kMpmcMaxCapacity" "p \<noteq> 0" "\<not> p > kMpmcMaxPayloadSize"
    using assms by (auto simp: mpmc_mapping_size_for_def split: if_splits)
  then obtain stride slots where st: "mpmc_stride_for p = Some stride"
    "checked_mul_u64 (ucast cap) stride = Some slots"
    "checked_add_u64 kMpmcFirstSlotOffset slots = Some sz"
    using assms by (auto simp: mpmc_mapping_size_for_def split: option.splits)
  have "mpmc_geometry cap p stride"
    using bounds st(1)
    by (auto simp: mpmc_geometry_def kMpmcMaxCapacity_def kMpmcMaxPayloadSize_def not_less
        word_le_nat_alt Suc_le_eq unat_gt_0)
  moreover have "unat sz = 320 + unat cap * unat stride"
    using st(2,3)
    by (auto simp: checked_mul_u64_Some_iff checked_add_u64_Some_iff unat_mult_no_wrap
        unat_add_no_wrap)
  ultimately show ?thesis by blast
qed

lemma mpmc_mapping_size_defined:
  assumes "mpmc_geometry cap p stride"
  shows "\<exists>sz. mpmc_mapping_size_for cap p = Some sz"
proof -
  have "unat cap * unat stride \<le> 4096 * 65664"
    using assms mpmc_geometry_stride(3) [OF assms]
    by (intro mult_geometry_bound) (auto simp: mpmc_geometry_def)
  then have "unat (ucast cap :: u64) * unat stride < 2 ^ 64"
    and "unat (ucast cap * stride :: u64) + 320 < 2 ^ 64"
    by (simp_all add: unat_mult_no_wrap)
  then have "checked_mul_u64 (ucast cap) stride = Some (ucast cap * stride)"
    and "checked_add_u64 kMpmcFirstSlotOffset (ucast cap * stride)
           = Some (kMpmcFirstSlotOffset + ucast cap * stride)"
    by (simp_all add: checked_mul_u64_Some_iff checked_add_u64_Some_iff)
  then show ?thesis
    using assms
    by (auto simp: mpmc_mapping_size_for_def mpmc_geometry_def kMpmcMaxCapacity_def
        kMpmcMaxPayloadSize_def word_less_nat_alt)
qed

text \<open>
  C15. In a mapping of the size the source computes, the slots (header and payload) of two different
  indices do not overlap, start behind the queue header on a multiple of 64 bytes, and end inside
  the mapping; no offset computation overflows.
\<close>

theorem mpmc_slots_disjoint:
  assumes "mpmc_mapping_size_for cap p = Some sz" and "mpmc_stride_for p = Some stride"
    and "i < cap" and "j < cap" and "i \<noteq> j"
  shows "\<exists>oi oj. mpmc_slot_offset i cap stride = Some oi \<and> mpmc_slot_offset j cap stride = Some oj \<and>
           unat oi mod 64 = 0 \<and> 320 \<le> unat oi \<and> unat oi + 64 + unat p \<le> unat sz \<and>
           {unat oi ..< unat oi + 64 + unat p} \<inter> {unat oj ..< unat oj + 64 + unat p} = {}"
proof -
  have g: "mpmc_geometry cap p stride" and sz: "unat sz = 320 + unat cap * unat stride"
    using mpmc_mapping_size_eq [OF assms(1)] assms(2) by (auto simp: mpmc_geometry_def)
  obtain oi oj where o: "mpmc_slot_offset i cap stride = Some oi" "unat oi = 320 + unat i * unat stride"
    "mpmc_slot_offset j cap stride = Some oj" "unat oj = 320 + unat j * unat stride"
    using mpmc_slot_offset_eq [OF g] assms(3,4) by metis
  have step: "a * s + s \<le> b * s" if "a < b" for a b s :: nat
    using mult_le_mono1 [of "Suc a" b s] that by simp
  have i: "unat i < unat cap" and ij: "unat i < unat j \<or> unat j < unat i"
    using assms(3,5) by (auto simp: word_less_nat_alt word_unat_eq_iff)
  have "64 dvd unat oi"
    using o(2) mpmc_geometry_stride(1) [OF g] by (auto intro: dvd_add dvd_mult)
  moreover have "unat oi + 64 + unat p \<le> unat sz"
    using o(2) sz step [OF i, of "unat stride"] mpmc_geometry_stride(2) [OF g] by linarith
  moreover have "unat oi + 64 + unat p \<le> unat oj \<or> unat oj + 64 + unat p \<le> unat oi"
    using o(2,4) ij step [of "unat i" "unat j" "unat stride"] step [of "unat j" "unat i" "unat stride"]
      mpmc_geometry_stride(2) [OF g] by linarith
  then have "{unat oi ..< unat oi + 64 + unat p} \<inter> {unat oj ..< unat oj + 64 + unat p} = {}"
    by auto
  ultimately show ?thesis
    using o by (intro exI [of _ oi] exI [of _ oj]) simp
qed

theorem mpmc_slots_disjoint_witness:
  "\<exists>oi oj. mpmc_slot_offset 1 4 128 = Some oi \<and> mpmc_slot_offset 3 4 128 = Some oj \<and>
     unat oi mod 64 = 0 \<and> 320 \<le> unat oi \<and> unat oi + 64 + unat (16 :: u32) \<le> unat (832 :: u64) \<and>
     {unat oi ..< unat oi + 64 + unat (16 :: u32)} \<inter> {unat oj ..< unat oj + 64 + unat (16 :: u32)} = {}"
  by (rule mpmc_slots_disjoint)
    (simp_all add: mpmc_mapping_size_for_def mpmc_stride_for_def round_up_to_multiple_u64_def
      checked_mul_u64_def checked_add_u64_def kMpmcMaxCapacity_def kMpmcMaxPayloadSize_def
      kMpmcSlotHeaderSize_def kMpmcFirstSlotOffset_def kMpmcHeaderSize_def U64_MAX_def Let_def)
end
