(* ===== verification/ER_Mpmc.thy ===== *)
theory ER_Mpmc
  imports ER_Mpmc_Layout
begin

text \<open>
  The MPMC queue (\<open>queue/mpmc_queue.cpp\<close>). Producers serialise on the enqueue gate and consumers on
  the dequeue gate; gates and slots carry the owner protocol. The world is the mapping (header and
  slots, a slot under the byte offset that \<open>slot_at\<close> computes) and the kernel. A handle is private
  to a process and is an argument; \<open>None\<close> is a null \<open>shared_ptr\<close>. Of an error only the code is kept.
  The failpoints, which a release build compiles out, are left out.
\<close>

subsection \<open>World and cells\<close>

record mpmc_world =
  mw_hdr :: mpmc_header
  mw_slots :: "u64 \<Rightarrow> mpmc_slot"
  mw_kern :: kernel

record mpmc_handle =
  mq_shm_name :: string
  mq_dev :: u64
  mq_ino :: u64
  mq_self :: ProcessIdentity
  mq_slot_stride :: u64
  mq_created :: bool
  mq_removed :: bool

definition hdr_c :: "(mpmc_world, mpmc_header) cell" where
  "hdr_c = \<lparr>rd = mw_hdr, wr = (\<lambda>v w. w\<lparr>mw_hdr := v\<rparr>)\<rparr>"
definition kern_c :: "(mpmc_world, kernel) cell" where
  "kern_c = \<lparr>rd = mw_kern, wr = (\<lambda>v w. w\<lparr>mw_kern := v\<rparr>)\<rparr>"
definition slot_c :: "u64 \<Rightarrow> (mpmc_world, mpmc_slot) cell" where
  "slot_c off = \<lparr>rd = (\<lambda>w. mw_slots w off), wr = (\<lambda>v w. w\<lparr>mw_slots := (mw_slots w)(off := v)\<rparr>)\<rparr>"

definition immutable_c :: "(mpmc_world, mpmc_immutable) cell" where
  "immutable_c = field hdr_c \<lparr>rd = mh_immutable, wr = (\<lambda>v h. h\<lparr>mh_immutable := v\<rparr>)\<rparr>"
definition enqueue_position_c :: "(mpmc_world, u64) cell" where
  "enqueue_position_c =
     field hdr_c \<lparr>rd = mh_enqueue_position, wr = (\<lambda>v h. h\<lparr>mh_enqueue_position := v\<rparr>)\<rparr>"
definition dequeue_position_c :: "(mpmc_world, u64) cell" where
  "dequeue_position_c =
     field hdr_c \<lparr>rd = mh_dequeue_position, wr = (\<lambda>v h. h\<lparr>mh_dequeue_position := v\<rparr>)\<rparr>"
definition enqueue_lock_c :: "(mpmc_world, u32) cell" where
  "enqueue_lock_c = field hdr_c \<lparr>rd = mh_enqueue_lock, wr = (\<lambda>v h. h\<lparr>mh_enqueue_lock := v\<rparr>)\<rparr>"
definition dequeue_lock_c :: "(mpmc_world, u32) cell" where
  "dequeue_lock_c = field hdr_c \<lparr>rd = mh_dequeue_lock, wr = (\<lambda>v h. h\<lparr>mh_dequeue_lock := v\<rparr>)\<rparr>"
definition init_state_c :: "(mpmc_world, u32) cell" where
  "init_state_c = field hdr_c \<lparr>rd = mh_init_state, wr = (\<lambda>v h. h\<lparr>mh_init_state := v\<rparr>)\<rparr>"
definition enqueue_owner_c :: "(mpmc_world, owner_abi) cell" where
  "enqueue_owner_c = field hdr_c \<lparr>rd = mh_enqueue_owner, wr = (\<lambda>v h. h\<lparr>mh_enqueue_owner := v\<rparr>)\<rparr>"
definition dequeue_owner_c :: "(mpmc_world, owner_abi) cell" where
  "dequeue_owner_c = field hdr_c \<lparr>rd = mh_dequeue_owner, wr = (\<lambda>v h. h\<lparr>mh_dequeue_owner := v\<rparr>)\<rparr>"
definition header_checksum_c :: "(mpmc_world, u64) cell" where
  "header_checksum_c =
     field hdr_c \<lparr>rd = mh_header_checksum, wr = (\<lambda>v h. h\<lparr>mh_header_checksum := v\<rparr>)\<rparr>"
definition notify_epoch_c :: "(mpmc_world, u32) cell" where
  "notify_epoch_c = field hdr_c \<lparr>rd = mh_notify_epoch, wr = (\<lambda>v h. h\<lparr>mh_notify_epoch := v\<rparr>)\<rparr>"
definition enqueue_owner_epoch_c :: "(mpmc_world, u64) cell" where
  "enqueue_owner_epoch_c =
     field hdr_c \<lparr>rd = mh_enqueue_owner_epoch, wr = (\<lambda>v h. h\<lparr>mh_enqueue_owner_epoch := v\<rparr>)\<rparr>"
definition dequeue_owner_epoch_c :: "(mpmc_world, u64) cell" where
  "dequeue_owner_epoch_c =
     field hdr_c \<lparr>rd = mh_dequeue_owner_epoch, wr = (\<lambda>v h. h\<lparr>mh_dequeue_owner_epoch := v\<rparr>)\<rparr>"

definition slot_sequence_c :: "u64 \<Rightarrow> (mpmc_world, u64) cell" where
  "slot_sequence_c off =
     field (slot_c off) \<lparr>rd = sl_sequence, wr = (\<lambda>v x. x\<lparr>sl_sequence := v\<rparr>)\<rparr>"
definition slot_state_c :: "u64 \<Rightarrow> (mpmc_world, u32) cell" where
  "slot_state_c off = field (slot_c off) \<lparr>rd = sl_state, wr = (\<lambda>v x. x\<lparr>sl_state := v\<rparr>)\<rparr>"
definition slot_owner_c :: "u64 \<Rightarrow> (mpmc_world, owner_abi) cell" where
  "slot_owner_c off = field (slot_c off) \<lparr>rd = sl_owner, wr = (\<lambda>v x. x\<lparr>sl_owner := v\<rparr>)\<rparr>"
definition slot_ticket_c :: "u64 \<Rightarrow> (mpmc_world, u64) cell" where
  "slot_ticket_c off = field (slot_c off) \<lparr>rd = sl_ticket, wr = (\<lambda>v x. x\<lparr>sl_ticket := v\<rparr>)\<rparr>"
definition slot_owner_epoch_c :: "u64 \<Rightarrow> (mpmc_world, u64) cell" where
  "slot_owner_epoch_c off =
     field (slot_c off) \<lparr>rd = sl_owner_epoch, wr = (\<lambda>v x. x\<lparr>sl_owner_epoch := v\<rparr>)\<rparr>"
definition slot_payload_c :: "u64 \<Rightarrow> nat \<Rightarrow> (mpmc_world, u8) cell" where
  "slot_payload_c off i =
     field (slot_c off)
       \<lparr>rd = (\<lambda>x. sl_payload x i), wr = (\<lambda>v x. x\<lparr>sl_payload := (sl_payload x)(i := v)\<rparr>)\<rparr>"

lemmas mpmc_cells [cell_defs] =
  hdr_c_def kern_c_def slot_c_def immutable_c_def enqueue_position_c_def dequeue_position_c_def
  enqueue_lock_c_def dequeue_lock_c_def init_state_c_def enqueue_owner_c_def dequeue_owner_c_def
  header_checksum_c_def notify_epoch_c_def enqueue_owner_epoch_c_def dequeue_owner_epoch_c_def
  slot_sequence_c_def slot_state_c_def slot_owner_c_def slot_ticket_c_def slot_owner_epoch_c_def
  slot_payload_c_def

lemma mpmc_cell_access [run_simps]:
  "rd hdr_c w = mw_hdr w" "wr hdr_c h w = w\<lparr>mw_hdr := h\<rparr>"
  "rd kern_c w = mw_kern w" "wr kern_c k w = w\<lparr>mw_kern := k\<rparr>"
  "rd immutable_c w = mh_immutable (mw_hdr w)"
  "wr immutable_c x_mh_immutable w = w\<lparr>mw_hdr := (mw_hdr w)\<lparr>mh_immutable := x_mh_immutable\<rparr>\<rparr>"
  "rd enqueue_position_c w = mh_enqueue_position (mw_hdr w)"
  "wr enqueue_position_c x_mh_enqueue_position w = w\<lparr>mw_hdr := (mw_hdr w)\<lparr>mh_enqueue_position := x_mh_enqueue_position\<rparr>\<rparr>"
  "rd dequeue_position_c w = mh_dequeue_position (mw_hdr w)"
  "wr dequeue_position_c x_mh_dequeue_position w = w\<lparr>mw_hdr := (mw_hdr w)\<lparr>mh_dequeue_position := x_mh_dequeue_position\<rparr>\<rparr>"
  "rd enqueue_lock_c w = mh_enqueue_lock (mw_hdr w)"
  "wr enqueue_lock_c x_mh_enqueue_lock w = w\<lparr>mw_hdr := (mw_hdr w)\<lparr>mh_enqueue_lock := x_mh_enqueue_lock\<rparr>\<rparr>"
  "rd dequeue_lock_c w = mh_dequeue_lock (mw_hdr w)"
  "wr dequeue_lock_c x_mh_dequeue_lock w = w\<lparr>mw_hdr := (mw_hdr w)\<lparr>mh_dequeue_lock := x_mh_dequeue_lock\<rparr>\<rparr>"
  "rd init_state_c w = mh_init_state (mw_hdr w)"
  "wr init_state_c x_mh_init_state w = w\<lparr>mw_hdr := (mw_hdr w)\<lparr>mh_init_state := x_mh_init_state\<rparr>\<rparr>"
  "rd enqueue_owner_c w = mh_enqueue_owner (mw_hdr w)"
  "wr enqueue_owner_c x_mh_enqueue_owner w = w\<lparr>mw_hdr := (mw_hdr w)\<lparr>mh_enqueue_owner := x_mh_enqueue_owner\<rparr>\<rparr>"
  "rd dequeue_owner_c w = mh_dequeue_owner (mw_hdr w)"
  "wr dequeue_owner_c x_mh_dequeue_owner w = w\<lparr>mw_hdr := (mw_hdr w)\<lparr>mh_dequeue_owner := x_mh_dequeue_owner\<rparr>\<rparr>"
  "rd header_checksum_c w = mh_header_checksum (mw_hdr w)"
  "wr header_checksum_c x_mh_header_checksum w = w\<lparr>mw_hdr := (mw_hdr w)\<lparr>mh_header_checksum := x_mh_header_checksum\<rparr>\<rparr>"
  "rd notify_epoch_c w = mh_notify_epoch (mw_hdr w)"
  "wr notify_epoch_c x_mh_notify_epoch w = w\<lparr>mw_hdr := (mw_hdr w)\<lparr>mh_notify_epoch := x_mh_notify_epoch\<rparr>\<rparr>"
  "rd enqueue_owner_epoch_c w = mh_enqueue_owner_epoch (mw_hdr w)"
  "wr enqueue_owner_epoch_c x_mh_enqueue_owner_epoch w = w\<lparr>mw_hdr := (mw_hdr w)\<lparr>mh_enqueue_owner_epoch := x_mh_enqueue_owner_epoch\<rparr>\<rparr>"
  "rd dequeue_owner_epoch_c w = mh_dequeue_owner_epoch (mw_hdr w)"
  "wr dequeue_owner_epoch_c x_mh_dequeue_owner_epoch w = w\<lparr>mw_hdr := (mw_hdr w)\<lparr>mh_dequeue_owner_epoch := x_mh_dequeue_owner_epoch\<rparr>\<rparr>"
  "rd (slot_sequence_c off) w = sl_sequence (mw_slots w off)"
  "wr (slot_sequence_c off) x_sl_sequence w = w\<lparr>mw_slots := (mw_slots w)(off := (mw_slots w off)\<lparr>sl_sequence := x_sl_sequence\<rparr>)\<rparr>"
  "rd (slot_state_c off) w = sl_state (mw_slots w off)"
  "wr (slot_state_c off) x_sl_state w = w\<lparr>mw_slots := (mw_slots w)(off := (mw_slots w off)\<lparr>sl_state := x_sl_state\<rparr>)\<rparr>"
  "rd (slot_owner_c off) w = sl_owner (mw_slots w off)"
  "wr (slot_owner_c off) x_sl_owner w = w\<lparr>mw_slots := (mw_slots w)(off := (mw_slots w off)\<lparr>sl_owner := x_sl_owner\<rparr>)\<rparr>"
  "rd (slot_ticket_c off) w = sl_ticket (mw_slots w off)"
  "wr (slot_ticket_c off) x_sl_ticket w = w\<lparr>mw_slots := (mw_slots w)(off := (mw_slots w off)\<lparr>sl_ticket := x_sl_ticket\<rparr>)\<rparr>"
  "rd (slot_owner_epoch_c off) w = sl_owner_epoch (mw_slots w off)"
  "wr (slot_owner_epoch_c off) x_sl_owner_epoch w = w\<lparr>mw_slots := (mw_slots w)(off := (mw_slots w off)\<lparr>sl_owner_epoch := x_sl_owner_epoch\<rparr>)\<rparr>"
  "rd (slot_payload_c off i) w = sl_payload (mw_slots w off) i"
  "wr (slot_payload_c off i) b w = w\<lparr>mw_slots := (mw_slots w)(off := (mw_slots w off)
     \<lparr>sl_payload := (sl_payload (mw_slots w off))(i := b)\<rparr>)\<rparr>"
  by (simp_all add: cell_defs)

abbreviation mpmc_capacity :: "mpmc_world \<Rightarrow> u32" where
  "mpmc_capacity w \<equiv> mi_capacity (mh_immutable (mw_hdr w))"
abbreviation mpmc_payload_size :: "mpmc_world \<Rightarrow> u32" where
  "mpmc_payload_size w \<equiv> mi_payload_size (mh_immutable (mw_hdr w))"

subsection \<open>Gates and their owners\<close>

record gate_ref =
  g_state :: "(mpmc_world, u32) cell"
  g_owner_epoch :: "(mpmc_world, u64) cell"
  g_owner :: "(mpmc_world, owner_abi) cell"

definition gate_for :: "bool \<Rightarrow> gate_ref" where
  "gate_for enqueue =
     (if enqueue
      then \<lparr>g_state = enqueue_lock_c, g_owner_epoch = enqueue_owner_epoch_c, g_owner = enqueue_owner_c\<rparr>
      else \<lparr>g_state = dequeue_lock_c, g_owner_epoch = dequeue_owner_epoch_c, g_owner = dequeue_owner_c\<rparr>)"

datatype OwnerObservationDisposition = kNotUnrecoverable | kChanged | kUnrecoverable

definition same_stable_owner_observation :: "OwnerSnapshot \<Rightarrow> OwnerSnapshot \<Rightarrow> bool" where
  "same_stable_owner_observation first second \<longleftrightarrow>
     os_kind first = SnapStable \<and> os_kind second = SnapStable \<and>
     os_state first = os_state second \<and> os_epoch first = os_epoch second \<and>
     ow_pid (os_owner first) = ow_pid (os_owner second) \<and>
     ow_ticks (os_owner first) = ow_ticks (os_owner second) \<and>
     ow_boot_hi (os_owner first) = ow_boot_hi (os_owner second) \<and>
     ow_boot_lo (os_owner first) = ow_boot_lo (os_owner second)"

definition classify_words :: "u32 \<Rightarrow> u32 \<Rightarrow> u32 \<Rightarrow> u32 \<Rightarrow> u32 \<Rightarrow> u32 \<Rightarrow> OwnerStateKind" where
  "classify_words inactive claiming owned exhausted fault current =
     (if current = inactive then StInactive
      else if current = claiming then StClaiming
      else if current = owned then StOwned
      else if current = exhausted then StEpochExhausted
      else if current = fault then StProtocolFault
      else StUnexpected)"

definition snapshot_owner ::
  "(mpmc_world, u32) cell \<Rightarrow> (mpmc_world, u64) cell \<Rightarrow> (mpmc_world, owner_abi) cell \<Rightarrow>
   u32 \<Rightarrow> u32 \<Rightarrow> u32 \<Rightarrow> u32 \<Rightarrow> u32 \<Rightarrow> (mpmc_world, OwnerSnapshot) prog" where
  "snapshot_owner state epoch owner inactive claiming owned exhausted fault =
     snapshot_owner_seq_cst state epoch owner
       (classify_words inactive claiming owned exhausted fault) owner_valid"

definition snapshot_gate_owner :: "gate_ref \<Rightarrow> (mpmc_world, OwnerSnapshot) prog" where
  "snapshot_gate_owner gate =
     snapshot_owner (g_state gate) (g_owner_epoch gate) (g_owner gate)
       (lock_word LockFree) (lock_word LockClaiming) (lock_word LockOwned)
       (lock_word LockEpochExhausted) (lock_word LockOwnerProtocolFault)"

definition confirm_owner_liveness ::
  "mpmc_handle \<Rightarrow> bool \<Rightarrow> OwnerSnapshot \<Rightarrow> (mpmc_world, OwnerObservationDisposition) prog" where
  "confirm_owner_liveness handle enqueue observation =
     (let foreign_boot =
            (ow_boot_hi (os_owner observation) \<noteq> id_boot_hi (mq_self handle) \<or>
             ow_boot_lo (os_owner observation) \<noteq> id_boot_lo (mq_self handle))
      in
      bind (if foreign_boot then Ret kUnverifiable
            else kernel_query kern_c
                   (\<lambda>k. probe_liveness k (ow_pid (os_owner observation))
                          (ow_ticks (os_owner observation)))) (\<lambda>liveness.
      bind (snapshot_gate_owner (gate_for enqueue)) (\<lambda>confirmed.
        if \<not> same_stable_owner_observation observation confirmed then Ret kChanged
        else if foreign_boot then Ret kUnrecoverable
        else Ret (if liveness = kAlive then kNotUnrecoverable else kUnrecoverable))))"

definition mark_gate_protocol_failure ::
  "gate_ref \<Rightarrow> OwnerCommitResult \<Rightarrow> (mpmc_world, unit) prog" where
  "mark_gate_protocol_failure gate r =
     shared_store (g_state gate)
       (lock_word (if r = CommitEpochExhausted then LockEpochExhausted else LockOwnerProtocolFault))"

definition gate_busy_result :: "mpmc_handle \<Rightarrow> bool \<Rightarrow> (mpmc_world, unit result) prog" where
  "gate_busy_result handle enqueue =
     bind (snapshot_gate_owner (gate_for enqueue)) (\<lambda>observation.
       case os_kind observation of
         SnapInactive \<Rightarrow> Ret (Inl kQueueContention)
       | SnapClaiming \<Rightarrow> Ret (Inl kQueueContention)
       | SnapUnstable \<Rightarrow> Ret (Inl kQueueContention)
       | SnapCorrupt \<Rightarrow> Ret (Inl kRecoveryBlocked)
       | SnapEpochExhausted \<Rightarrow> Ret (Inl kRecoveryBlocked)
       | SnapStable \<Rightarrow>
           if owner_matches (os_owner observation) (mq_self handle) then
             bind (confirm_owner_liveness handle enqueue observation) (\<lambda>disposition.
               if disposition = kChanged then Ret (Inl kQueueContention)
               else Ret (Inl kConcurrentHandleUse))
           else
             bind (confirm_owner_liveness handle enqueue observation) (\<lambda>disposition.
               if disposition = kNotUnrecoverable then Ret (Inl kQueueContention)
               else if disposition = kChanged then Ret (Inl kQueueContention)
               else Ret (Inl kRecoveryBlocked)))"

definition claim_gate :: "mpmc_handle \<Rightarrow> bool \<Rightarrow> (mpmc_world, unit result) prog" where
  "claim_gate handle enqueue =
     bind (shared_load (g_state (gate_for enqueue))) (\<lambda>observed.
       if observed \<noteq> lock_word LockFree then gate_busy_result handle enqueue
       else
         bind (shared_cas (g_state (gate_for enqueue)) (lock_word LockFree) (lock_word LockClaiming))
           (\<lambda>won. if \<not> won then Ret (Inl kQueueContention) else Ret (Inr ())))"

definition commit_claimed_gate :: "mpmc_handle \<Rightarrow> bool \<Rightarrow> (mpmc_world, unit result) prog" where
  "commit_claimed_gate handle enqueue =
     bind (begin_owner_commit (g_owner_epoch (gate_for enqueue)) 2) (\<lambda>(owner_commit, committed_epoch).
       if owner_commit \<noteq> CommitReady then
         bind (mark_gate_protocol_failure (gate_for enqueue) owner_commit) (\<lambda>_.
           Ret (Inl kRecoveryBlocked))
       else
         bind (set_owner (g_owner (gate_for enqueue)) (mq_self handle)) (\<lambda>_.
         bind (shared_store (g_owner_epoch (gate_for enqueue)) committed_epoch) (\<lambda>_.
         bind (shared_store (g_state (gate_for enqueue)) (lock_word LockOwned)) (\<lambda>_.
           Ret (Inr ())))))"

definition acquire_gate :: "mpmc_handle \<Rightarrow> bool \<Rightarrow> (mpmc_world, unit result) prog" where
  "acquire_gate handle enqueue =
     try_bind (claim_gate handle enqueue) (\<lambda>_. commit_claimed_gate handle enqueue)"

definition release_gate :: "bool \<Rightarrow> (mpmc_world, unit) prog" where
  "release_gate enqueue = shared_store (g_state (gate_for enqueue)) (lock_word LockFree)"

definition notify_waiters :: "(mpmc_world, unit) prog" where
  "notify_waiters =
     bind (shared_fetch_add notify_epoch_c 1) (\<lambda>_. futex_wake kern_c)"

definition classify_gate_owner :: "bool \<Rightarrow> (mpmc_world, OwnerSnapshot) prog" where
  "classify_gate_owner enqueue = snapshot_gate_owner (gate_for enqueue)"

definition owner_observation_is_unrecoverable ::
  "mpmc_handle \<Rightarrow> bool \<Rightarrow> OwnerSnapshot \<Rightarrow> (mpmc_world, OwnerObservationDisposition) prog" where
  "owner_observation_is_unrecoverable handle enqueue observation =
     (case os_kind observation of
        SnapInactive \<Rightarrow> Ret kNotUnrecoverable
      | SnapClaiming \<Rightarrow> Ret kNotUnrecoverable
      | SnapUnstable \<Rightarrow> Ret kNotUnrecoverable
      | SnapCorrupt \<Rightarrow> Ret kUnrecoverable
      | SnapEpochExhausted \<Rightarrow> Ret kUnrecoverable
      | SnapStable \<Rightarrow> confirm_owner_liveness handle enqueue observation)"

definition dequeue_drain_budget :: "mpmc_handle \<Rightarrow> (mpmc_world, u64 result) prog" where
  "dequeue_drain_budget handle =
     bind (classify_gate_owner False) (\<lambda>observation.
       case os_kind observation of
         SnapClaiming \<Rightarrow> Ret (Inl kQueueContention)
       | SnapUnstable \<Rightarrow> Ret (Inl kQueueContention)
       | SnapEpochExhausted \<Rightarrow> Ret (Inl kSequenceExhausted)
       | SnapCorrupt \<Rightarrow> Ret (Inl kRecoveryBlocked)
       | _ \<Rightarrow>
           if os_epoch observation AND 1 \<noteq> 0 \<or> os_epoch observation > kMaxCommittedOwnerEpoch
           then Ret (Inl kRecoveryBlocked)
           else if os_kind observation = SnapStable then
             bind (owner_observation_is_unrecoverable handle False observation) (\<lambda>disposition.
               if disposition = kChanged then Ret (Inl kQueueContention)
               else if disposition = kUnrecoverable then Ret (Inl kRecoveryBlocked)
               else Ret (Inl kQueueContention))
           else Ret (Inr ((kMaxCommittedOwnerEpoch - os_epoch observation) div 2)))"

subsection \<open>Positions, tickets and slots\<close>

definition validate_queue_positions :: "u64 \<Rightarrow> u64 \<Rightarrow> u32 \<Rightarrow> unit result" where
  "validate_queue_positions enqueue dequeue capacity =
     (if enqueue < dequeue then Inl kRecoveryBlocked
      else if enqueue - dequeue > ucast capacity then Inl kRecoveryBlocked
      else Inr ())"

primrec snapshot_queue_positions_loop :: "nat \<Rightarrow> (mpmc_world, (u64 \<times> u64) result) prog" where
  "snapshot_queue_positions_loop 0 = Ret (Inl kQueueContention)"
| "snapshot_queue_positions_loop (Suc attempts) =
     bind (shared_load enqueue_position_c) (\<lambda>first_enqueue.
     bind (shared_load dequeue_position_c) (\<lambda>first_dequeue.
     bind (shared_load enqueue_position_c) (\<lambda>second_enqueue.
     bind (shared_load dequeue_position_c) (\<lambda>second_dequeue.
       if first_enqueue = second_enqueue \<and> first_dequeue = second_dequeue
       then Ret (Inr (second_enqueue, second_dequeue))
       else snapshot_queue_positions_loop attempts))))"

definition snapshot_queue_positions :: "(mpmc_world, (u64 \<times> u64) result) prog" where
  "snapshot_queue_positions = snapshot_queue_positions_loop kOwnerSnapshotRetries"

text \<open>
  The admission test of a push may refresh the positions, which are in-out parameters: it returns
  the positions it admitted. The pointers of the source are never null here.
\<close>

primrec push_drain_admission_loop ::
  "mpmc_handle \<Rightarrow> u32 \<Rightarrow> nat \<Rightarrow> u64 \<Rightarrow> u64 \<Rightarrow> (mpmc_world, (u64 \<times> u64) result) prog" where
  "push_drain_admission_loop handle capacity 0 enqueue dequeue = Ret (Inl kQueueContention)"
| "push_drain_admission_loop handle capacity (Suc attempts) enqueue dequeue =
     (case validate_queue_positions enqueue dequeue capacity of
        Inl e \<Rightarrow> Ret (Inl e)
      | Inr _ \<Rightarrow>
          (case checked_add_u64 (enqueue - dequeue) 1 of
             None \<Rightarrow> Ret (Inl kSequenceExhausted)
           | Some pending_after \<Rightarrow>
               try_bind (dequeue_drain_budget handle) (\<lambda>budget.
                 if enqueue - dequeue = ucast capacity then
                   (if budget = 0 then Ret (Inl kSequenceExhausted) else Ret (Inl kQueueFull))
                 else
                   try_bind snapshot_queue_positions (\<lambda>(fresh_enqueue, fresh_dequeue).
                     if fresh_enqueue \<noteq> enqueue \<or> fresh_dequeue \<noteq> dequeue
                     then push_drain_admission_loop handle capacity attempts
                            fresh_enqueue fresh_dequeue
                     else if pending_after > budget then Ret (Inl kSequenceExhausted)
                     else Ret (Inr (enqueue, dequeue))))))"

definition validate_push_drain_admission ::
  "mpmc_handle \<Rightarrow> u64 \<Rightarrow> u64 \<Rightarrow> (mpmc_world, (u64 \<times> u64) result) prog" where
  "validate_push_drain_admission handle enqueue dequeue =
     bind (shared_load immutable_c) (\<lambda>im.
       push_drain_admission_loop handle (mi_capacity im) kOwnerSnapshotRetries enqueue dequeue)"

definition validate_ticket_bounds :: "u64 \<Rightarrow> u32 \<Rightarrow> (u64 \<times> u64) result" where
  "validate_ticket_bounds ticket capacity =
     (case mpmc_checked_ticket_bounds ticket capacity of
        Some b \<Rightarrow> Inr b
      | None \<Rightarrow> Inl kSequenceExhausted)"

definition validate_live_handle :: "mpmc_handle option \<Rightarrow> (mpmc_world, mpmc_handle result) prog" where
  "validate_live_handle handle =
     (case handle of
        None \<Rightarrow> Ret (Inl kStaleHandle)
      | Some h \<Rightarrow>
          if mq_removed h then Ret (Inl kStaleHandle)
          else bind (shared_load init_state_c) (\<lambda>init.
            if init \<noteq> init_word InitReady then Ret (Inl kInitializationIncomplete)
            else Ret (Inr h)))"

text \<open>A slot pointer is the byte offset of the slot in the mapping, \<open>None\<close> the null pointer.\<close>

definition slot_offset_of :: "mpmc_handle \<Rightarrow> u32 \<Rightarrow> u64 \<Rightarrow> u64 option" where
  "slot_offset_of handle capacity position =
     mpmc_slot_offset (ucast (position mod ucast capacity)) capacity (mq_slot_stride handle)"

definition slot_at :: "mpmc_handle \<Rightarrow> u64 \<Rightarrow> (mpmc_world, u64 option) prog" where
  "slot_at handle position =
     bind (shared_load immutable_c) (\<lambda>im. Ret (slot_offset_of handle (mi_capacity im) position))"

definition snapshot_slot_owner :: "u64 \<Rightarrow> bool \<Rightarrow> (mpmc_world, OwnerSnapshot) prog" where
  "snapshot_slot_owner slot enqueue =
     snapshot_owner (slot_state_c slot) (slot_owner_epoch_c slot) (slot_owner_c slot)
       (slot_word (if enqueue then SlotFree else SlotReady))
       (slot_word (if enqueue then SlotEnqueueClaiming else SlotDequeueClaiming))
       (slot_word (if enqueue then SlotEnqueueOwned else SlotDequeueOwned))
       (slot_word SlotEpochExhausted) (slot_word SlotOwnerProtocolFault)"

definition protocol_failure_word :: "OwnerCommitResult \<Rightarrow> u32" where
  "protocol_failure_word r =
     slot_word (if r = CommitEpochExhausted then SlotEpochExhausted else SlotOwnerProtocolFault)"

definition mark_slot_protocol_failure :: "u64 \<Rightarrow> OwnerCommitResult \<Rightarrow> (mpmc_world, unit) prog" where
  "mark_slot_protocol_failure slot r = shared_store (slot_state_c slot) (protocol_failure_word r)"

text \<open>The tests on the slot, in the order in which the source evaluates its disjunction.\<close>

definition slot_invalid :: "u64 option \<Rightarrow> u64 \<Rightarrow> MpmcSlotState \<Rightarrow> (mpmc_world, bool) prog" where
  "slot_invalid slot expected_sequence expected_state =
     (case slot of
        None \<Rightarrow> Ret True
      | Some p \<Rightarrow>
          bind (shared_load (slot_sequence_c p)) (\<lambda>sequence.
            if sequence \<noteq> expected_sequence then Ret True
            else bind (shared_load (slot_state_c p)) (\<lambda>state.
              Ret (state \<noteq> slot_word expected_state))))"

text \<open>\<open>release_gate\<close> and an error.\<close>

definition fail_released :: "bool \<Rightarrow> ErrorCode \<Rightarrow> (mpmc_world, 'a result) prog" where
  "fail_released enqueue e = bind (release_gate enqueue) (\<lambda>_. Ret (Inl e))"

definition slot_invalid_result ::
  "bool \<Rightarrow> u64 option \<Rightarrow> (mpmc_world, 'a result) prog" where
  "slot_invalid_result enqueue slot =
     (case slot of
        None \<Rightarrow> fail_released enqueue kRecoveryBlocked
      | Some p \<Rightarrow>
          bind (snapshot_slot_owner p enqueue) (\<lambda>slot_owner.
            if os_kind slot_owner = SnapEpochExhausted
            then fail_released enqueue kRecoveryBlocked
            else fail_released enqueue kRecoveryBlocked))"

subsection \<open>Push\<close>

text \<open>The verdict on a full queue, from the disposition of the consumer gate.\<close>

definition push_full_result ::
  "mpmc_handle \<Rightarrow> OwnerObservationDisposition \<Rightarrow> (mpmc_world, unit result) prog" where
  "push_full_result handle consumer_state =
     (if consumer_state = kChanged then Ret (Inl kQueueContention)
      else if consumer_state = kUnrecoverable then Ret (Inl kRecoveryBlocked)
      else
        bind (dequeue_drain_budget handle) (\<lambda>drain_budget.
          case drain_budget of
            Inl e \<Rightarrow> if e \<noteq> kQueueContention then Ret (Inl e) else Ret (Inl kQueueFull)
          | Inr b \<Rightarrow> if b = 0 then Ret (Inl kSequenceExhausted) else Ret (Inl kQueueFull)))"

text \<open>The queue was full before the gate: nothing is owned yet.\<close>

definition push_full_unlocked :: "mpmc_handle \<Rightarrow> (mpmc_world, unit result) prog" where
  "push_full_unlocked handle =
     bind (shared_load enqueue_lock_c) (\<lambda>enqueue_state.
       if enqueue_state \<noteq> lock_word LockFree then gate_busy_result handle True
       else
         bind (classify_gate_owner False) (\<lambda>consumer.
         bind (owner_observation_is_unrecoverable handle False consumer) (\<lambda>consumer_state.
           push_full_result handle consumer_state)))"

text \<open>The queue is full under the gate, which is released between the probe and the verdict.\<close>

definition push_full_locked :: "mpmc_handle \<Rightarrow> (mpmc_world, unit result) prog" where
  "push_full_locked handle =
     bind (classify_gate_owner False) (\<lambda>consumer.
     bind (owner_observation_is_unrecoverable handle False consumer) (\<lambda>consumer_state.
     bind (release_gate True) (\<lambda>_.
       push_full_result handle consumer_state)))"

text \<open>Claim, write and publish the slot of the position \<open>enqueue\<close>, under the enqueue gate.\<close>

definition push_slot ::
  "mpmc_handle \<Rightarrow> u64 \<Rightarrow> u64 \<Rightarrow> bytes \<Rightarrow> u64 \<Rightarrow> (mpmc_world, unit result) prog" where
  "push_slot handle enqueue next_enqueue payload slot =
     bind (owner_epoch_capacity (slot_owner_epoch_c slot) 4) (\<lambda>slot_capacity.
       if slot_capacity \<noteq> CommitReady then
         bind (shared_store (slot_state_c slot) (protocol_failure_word slot_capacity)) (\<lambda>_.
           fail_released True kRecoveryBlocked)
       else
         bind (shared_cas (slot_state_c slot) (slot_word SlotFree) (slot_word SlotEnqueueClaiming)) (\<lambda>won.
           if \<not> won then fail_released True kQueueContention
           else
             bind (begin_owner_commit (slot_owner_epoch_c slot) 4) (\<lambda>(owner_commit, committed_epoch).
               if owner_commit \<noteq> CommitReady then
                 bind (mark_slot_protocol_failure slot owner_commit) (\<lambda>_.
                   fail_released True kRecoveryBlocked)
               else
                 bind (set_owner (slot_owner_c slot) (mq_self handle)) (\<lambda>_.
                 bind (shared_store (slot_ticket_c slot) enqueue) (\<lambda>_.
                 bind (shared_store (slot_owner_epoch_c slot) committed_epoch) (\<lambda>_.
                 bind (shared_store (slot_state_c slot) (slot_word SlotEnqueueOwned)) (\<lambda>_.
                 bind (memcpy_to (slot_payload_c slot) 0 payload) (\<lambda>_.
                 bind (shared_store (slot_sequence_c slot) next_enqueue) (\<lambda>_.
                 bind (shared_store (slot_state_c slot) (slot_word SlotReady)) (\<lambda>_.
                 bind (shared_store enqueue_position_c next_enqueue) (\<lambda>_.
                 bind (release_gate True) (\<lambda>_.
                 bind notify_waiters (\<lambda>_.
                   Ret (Inr ()))))))))))))))"

text \<open>The part of \<open>mpmc_try_push_impl\<close> that runs under the enqueue gate.\<close>

definition push_locked ::
  "mpmc_handle \<Rightarrow> u32 \<Rightarrow> bytes \<Rightarrow> (mpmc_world, unit result) prog" where
  "push_locked handle capacity payload =
     bind snapshot_queue_positions (\<lambda>position_snapshot.
       case position_snapshot of
         Inl e \<Rightarrow> fail_released True e
       | Inr (enqueue, dequeue) \<Rightarrow>
           (case validate_queue_positions enqueue dequeue capacity of
              Inl e \<Rightarrow> fail_released True e
            | Inr _ \<Rightarrow>
                (case validate_ticket_bounds enqueue capacity of
                   Inl e \<Rightarrow> fail_released True e
                 | Inr (next_enqueue, reclaim_sequence) \<Rightarrow>
                     if enqueue - dequeue = ucast capacity then push_full_locked handle
                     else
                       bind (validate_push_drain_admission handle enqueue dequeue) (\<lambda>admission.
                         case admission of
                           Inl e \<Rightarrow> fail_released True e
                         | Inr (enqueue', dequeue') \<Rightarrow>
                             bind (slot_at handle enqueue') (\<lambda>slot.
                             bind (slot_invalid slot enqueue' SlotFree) (\<lambda>invalid.
                               if invalid then slot_invalid_result True slot
                               else push_slot handle enqueue' next_enqueue payload (the slot)))))))"

definition mpmc_try_push_impl ::
  "mpmc_handle option \<Rightarrow> bytes option \<Rightarrow> u32 \<Rightarrow> (mpmc_world, unit result) prog" where
  "mpmc_try_push_impl handle payload payload_size =
     try_bind (validate_live_handle handle) (\<lambda>h.
     bind (shared_load immutable_c) (\<lambda>im.
       if payload = None \<or> payload_size \<noteq> mi_payload_size im then Ret (Inl kInvalidOptions)
       else
         try_bind snapshot_queue_positions (\<lambda>(enqueue, dequeue).
           case validate_queue_positions enqueue dequeue (mi_capacity im) of
             Inl e \<Rightarrow> Ret (Inl e)
           | Inr _ \<Rightarrow>
               (case validate_ticket_bounds enqueue (mi_capacity im) of
                  Inl e \<Rightarrow> Ret (Inl e)
                | Inr _ \<Rightarrow>
                    if enqueue - dequeue = ucast (mi_capacity im) then push_full_unlocked h
                    else
                      try_bind (validate_push_drain_admission h enqueue dequeue) (\<lambda>_.
                      try_bind (acquire_gate h True) (\<lambda>_.
                        push_locked h (mi_capacity im)
                          (take (unat payload_size) (the payload))))))))"

subsection \<open>Pop\<close>

definition pop_empty_result ::
  "OwnerObservationDisposition \<Rightarrow> (mpmc_world, bytes result) prog" where
  "pop_empty_result producer_state =
     (if producer_state = kChanged then Ret (Inl kQueueContention)
      else if producer_state = kUnrecoverable then Ret (Inl kRecoveryBlocked)
      else Ret (Inl kQueueEmpty))"

definition pop_empty_unlocked :: "mpmc_handle \<Rightarrow> (mpmc_world, bytes result) prog" where
  "pop_empty_unlocked handle =
     bind (shared_load dequeue_lock_c) (\<lambda>dequeue_state.
       if dequeue_state \<noteq> lock_word LockFree
       then try_bind (gate_busy_result handle False) (\<lambda>_. Ret (Inr []))
       else
         bind (classify_gate_owner True) (\<lambda>producer.
         bind (owner_observation_is_unrecoverable handle True producer) (\<lambda>producer_state.
           pop_empty_result producer_state)))"

definition pop_empty_locked :: "mpmc_handle \<Rightarrow> (mpmc_world, bytes result) prog" where
  "pop_empty_locked handle =
     bind (classify_gate_owner True) (\<lambda>producer.
     bind (owner_observation_is_unrecoverable handle True producer) (\<lambda>producer_state.
     bind (release_gate False) (\<lambda>_.
       pop_empty_result producer_state)))"

text \<open>Claim, read and reclaim the slot of the position \<open>dequeue\<close>, under the dequeue gate.\<close>

definition pop_slot ::
  "mpmc_handle \<Rightarrow> u64 \<Rightarrow> u64 \<Rightarrow> u64 \<Rightarrow> u32 \<Rightarrow> u64 \<Rightarrow> (mpmc_world, bytes result) prog" where
  "pop_slot handle dequeue next_dequeue reclaim_sequence payload_size slot =
     bind (owner_epoch_capacity (slot_owner_epoch_c slot) 2) (\<lambda>slot_capacity.
       if slot_capacity \<noteq> CommitReady then fail_released False kRecoveryBlocked
       else
         bind (shared_cas (slot_state_c slot) (slot_word SlotReady) (slot_word SlotDequeueClaiming)) (\<lambda>won.
           if \<not> won then fail_released False kQueueContention
           else
             bind (begin_owner_commit (slot_owner_epoch_c slot) 2) (\<lambda>(owner_commit, committed_epoch).
               if owner_commit \<noteq> CommitReady then
                 bind (shared_store (slot_state_c slot) (slot_word SlotReady)) (\<lambda>_.
                   fail_released False kRecoveryBlocked)
               else
                 bind (set_owner (slot_owner_c slot) (mq_self handle)) (\<lambda>_.
                 bind (shared_store (slot_ticket_c slot) dequeue) (\<lambda>_.
                 bind (shared_store (slot_owner_epoch_c slot) committed_epoch) (\<lambda>_.
                 bind (shared_store (slot_state_c slot) (slot_word SlotDequeueOwned)) (\<lambda>_.
                 bind (memcpy_from (slot_payload_c slot) 0 (unat payload_size)) (\<lambda>payload.
                 bind (shared_store (slot_sequence_c slot) reclaim_sequence) (\<lambda>_.
                 bind (shared_store (slot_state_c slot) (slot_word SlotFree)) (\<lambda>_.
                 bind (shared_store dequeue_position_c next_dequeue) (\<lambda>_.
                 bind (release_gate False) (\<lambda>_.
                 bind notify_waiters (\<lambda>_.
                   Ret (Inr payload))))))))))))))"

definition pop_committed ::
  "mpmc_handle \<Rightarrow> u64 \<Rightarrow> u64 \<Rightarrow> u64 \<Rightarrow> u32 \<Rightarrow> (mpmc_world, bytes result) prog" where
  "pop_committed handle dequeue next_dequeue reclaim_sequence payload_size =
     try_bind (commit_claimed_gate handle False) (\<lambda>_.
     bind (slot_at handle dequeue) (\<lambda>slot.
     bind (slot_invalid slot next_dequeue SlotReady) (\<lambda>invalid.
       if invalid then slot_invalid_result False slot
       else pop_slot handle dequeue next_dequeue reclaim_sequence payload_size (the slot))))"

text \<open>The part of \<open>mpmc_try_pop_impl\<close> that runs under the dequeue gate.\<close>

definition pop_locked :: "mpmc_handle \<Rightarrow> u32 \<Rightarrow> u32 \<Rightarrow> (mpmc_world, bytes result) prog" where
  "pop_locked handle capacity payload_size =
     bind snapshot_queue_positions (\<lambda>position_snapshot.
       case position_snapshot of
         Inl e \<Rightarrow> fail_released False e
       | Inr (enqueue, dequeue) \<Rightarrow>
           (case validate_queue_positions enqueue dequeue capacity of
              Inl e \<Rightarrow> fail_released False e
            | Inr _ \<Rightarrow>
                (case validate_ticket_bounds dequeue capacity of
                   Inl e \<Rightarrow> fail_released False e
                 | Inr (next_dequeue, reclaim_sequence) \<Rightarrow>
                     if dequeue = enqueue then pop_empty_locked handle
                     else pop_committed handle dequeue next_dequeue reclaim_sequence payload_size)))"

text \<open>The buffer that receives the payload is the result; \<open>out_null\<close> says that it is missing.\<close>

definition mpmc_try_pop_impl ::
  "mpmc_handle option \<Rightarrow> bool \<Rightarrow> u32 \<Rightarrow> (mpmc_world, bytes result) prog" where
  "mpmc_try_pop_impl handle out_null payload_size =
     try_bind (validate_live_handle handle) (\<lambda>h.
     bind (shared_load immutable_c) (\<lambda>im.
       if out_null \<or> payload_size \<noteq> mi_payload_size im then Ret (Inl kInvalidOptions)
       else
         try_bind snapshot_queue_positions (\<lambda>(enqueue, dequeue).
           case validate_queue_positions enqueue dequeue (mi_capacity im) of
             Inl e \<Rightarrow> Ret (Inl e)
           | Inr _ \<Rightarrow>
               (case validate_ticket_bounds dequeue (mi_capacity im) of
                  Inl e \<Rightarrow> Ret (Inl e)
                | Inr _ \<Rightarrow>
                    if dequeue = enqueue then pop_empty_unlocked h
                    else
                      try_bind (dequeue_drain_budget h) (\<lambda>drain_budget.
                        if drain_budget = 0 then Ret (Inl kSequenceExhausted)
                        else
                          try_bind (claim_gate h False) (\<lambda>_.
                            pop_locked h (mi_capacity im) payload_size))))))"

subsection \<open>Waiting\<close>

definition kMpmcWaitSliceNs :: u64 where "kMpmcWaitSliceNs = 10000000"

definition is_push_waitable :: "ErrorCode \<Rightarrow> bool" where
  "is_push_waitable code \<longleftrightarrow> code = kQueueFull \<or> code = kQueueContention"

definition is_pop_waitable :: "ErrorCode \<Rightarrow> bool" where
  "is_pop_waitable code \<longleftrightarrow> code = kQueueEmpty \<or> code = kQueueContention"

definition deadline_has_time :: "int \<Rightarrow> (mpmc_world, bool) prog" where
  "deadline_has_time deadline = bind (steady_now kern_c) (\<lambda>now. Ret (deadline > now))"

text \<open>
  The steady clock of the platform ticks in nanoseconds, so the conversion of a positive remainder
  is positive; it is bounded by the range of the clock.
\<close>

definition remaining_wait_ns :: "int \<Rightarrow> (mpmc_world, u64 option) prog" where
  "remaining_wait_ns deadline =
     bind (steady_now kern_c) (\<lambda>now.
       if deadline - now \<le> 0 then Ret None else Ret (Some (word_of_int (deadline - now))))"

definition relative_wait_timespec :: "u64 \<Rightarrow> u64 \<times> u64" where
  "relative_wait_timespec remaining_ns =
     (let bounded_ns = min remaining_ns kMpmcWaitSliceNs
      in (bounded_ns div 1000000000, bounded_ns mod 1000000000))"

definition wait_on_notify_epoch :: "int \<Rightarrow> (mpmc_world, unit result) prog" where
  "wait_on_notify_epoch deadline =
     bind (remaining_wait_ns deadline) (\<lambda>remaining.
       case remaining of
         None \<Rightarrow> Ret (Inl kTimeout)
       | Some _ \<Rightarrow>
           bind (futex_wait kern_c) (\<lambda>rc.
             case rc of
               None \<Rightarrow> Ret (Inr ())
             | Some e \<Rightarrow>
                 if e = EAGAIN \<or> e = EINTR \<or> e = ETIMEDOUT then Ret (Inr ())
                 else Ret (Inl kSystemError)))"

text \<open>
  The waiting loops, by fuel: \<open>None\<close> says that the loop has not ended within the rounds allowed.
\<close>

primrec mpmc_wait_push_until_impl ::
  "nat \<Rightarrow> mpmc_handle option \<Rightarrow> bytes option \<Rightarrow> u32 \<Rightarrow> int \<Rightarrow>
   (mpmc_world, unit result option) prog" where
  "mpmc_wait_push_until_impl 0 handle payload payload_size deadline = Ret None"
| "mpmc_wait_push_until_impl (Suc fuel) handle payload payload_size deadline =
     bind (mpmc_try_push_impl handle payload payload_size) (\<lambda>attempt.
       case attempt of
         Inr v \<Rightarrow> Ret (Some (Inr v))
       | Inl e \<Rightarrow>
           if \<not> is_push_waitable e then Ret (Some (Inl e))
           else
             bind (deadline_has_time deadline) (\<lambda>time_left.
               if \<not> time_left then Ret (Some (Inl kTimeout))
               else
                 bind (shared_load notify_epoch_c) (\<lambda>before.
                 bind (mpmc_try_push_impl handle payload payload_size) (\<lambda>attempt2.
                   case attempt2 of
                     Inr v \<Rightarrow> Ret (Some (Inr v))
                   | Inl e2 \<Rightarrow>
                       if \<not> is_push_waitable e2 then Ret (Some (Inl e2))
                       else
                         bind (shared_load notify_epoch_c) (\<lambda>after.
                           if before \<noteq> after
                           then mpmc_wait_push_until_impl fuel handle payload payload_size deadline
                           else
                             bind (wait_on_notify_epoch deadline) (\<lambda>waited.
                               case waited of
                                 Inl e3 \<Rightarrow> Ret (Some (Inl e3))
                               | Inr _ \<Rightarrow>
                                   mpmc_wait_push_until_impl fuel handle payload payload_size
                                     deadline))))))"

text \<open>The budget test of a waiting pop on an empty queue: \<open>Some e\<close> ends the wait with \<open>e\<close>.\<close>

definition pop_wait_budget :: "mpmc_handle option \<Rightarrow> ErrorCode \<Rightarrow> (mpmc_world, ErrorCode option) prog" where
  "pop_wait_budget handle e =
     (if e \<noteq> kQueueEmpty then Ret None
      else bind (dequeue_drain_budget (the handle)) (\<lambda>drain_budget.
        case drain_budget of
          Inl e' \<Rightarrow> if e' \<noteq> kQueueContention then Ret (Some e') else Ret None
        | Inr b \<Rightarrow> if b = 0 then Ret (Some kSequenceExhausted) else Ret None))"

primrec mpmc_wait_pop_until_impl ::
  "nat \<Rightarrow> mpmc_handle option \<Rightarrow> bool \<Rightarrow> u32 \<Rightarrow> int \<Rightarrow> (mpmc_world, bytes result option) prog" where
  "mpmc_wait_pop_until_impl 0 handle out_null payload_size deadline = Ret None"
| "mpmc_wait_pop_until_impl (Suc fuel) handle out_null payload_size deadline =
     bind (mpmc_try_pop_impl handle out_null payload_size) (\<lambda>attempt.
       case attempt of
         Inr v \<Rightarrow> Ret (Some (Inr v))
       | Inl e \<Rightarrow>
           if \<not> is_pop_waitable e then Ret (Some (Inl e))
           else
             bind (pop_wait_budget handle e) (\<lambda>stop.
             case stop of Some e' \<Rightarrow> Ret (Some (Inl e')) | None \<Rightarrow>
             bind (deadline_has_time deadline) (\<lambda>time_left.
               if \<not> time_left then Ret (Some (Inl kTimeout))
               else
                 bind (shared_load notify_epoch_c) (\<lambda>before.
                 bind (mpmc_try_pop_impl handle out_null payload_size) (\<lambda>attempt2.
                   case attempt2 of
                     Inr v \<Rightarrow> Ret (Some (Inr v))
                   | Inl e2 \<Rightarrow>
                       if \<not> is_pop_waitable e2 then Ret (Some (Inl e2))
                       else
                         bind (pop_wait_budget handle e2) (\<lambda>stop2.
                         case stop2 of Some e' \<Rightarrow> Ret (Some (Inl e')) | None \<Rightarrow>
                         bind (shared_load notify_epoch_c) (\<lambda>after.
                           if before \<noteq> after
                           then mpmc_wait_pop_until_impl fuel handle out_null payload_size deadline
                           else
                             bind (wait_on_notify_epoch deadline) (\<lambda>waited.
                               case waited of
                                 Inl e3 \<Rightarrow> Ret (Some (Inl e3))
                               | Inr _ \<Rightarrow>
                                   mpmc_wait_pop_until_impl fuel handle out_null payload_size
                                     deadline))))))))"

end
