(* ===== verification/ER_Mpmc_Admin.thy ===== *)
theory ER_Mpmc_Admin
  imports ER_Mpmc
begin

text \<open>
  Creating, opening, inspecting and removing an MPMC queue (\<open>queue/mpmc_queue.cpp\<close>). The memory of
  the world is that of the object that is created or opened. Creation writes the header and the
  slots and publishes with the final store of \<open>kReady\<close>; opening accepts a mapping only after every
  check of \<open>validate_header\<close>.
\<close>

record MpmcQueueOptions =
  qo_name :: string
  qo_capacity :: u32

definition mpmc_validate_options ::
  "MpmcQueueOptions \<Rightarrow> SchemaDescriptor \<Rightarrow> u32 \<Rightarrow> unit result" where
  "mpmc_validate_options options schema payload_size =
     (if \<not> validate_channel_name (qo_name options) \<or> length (qo_name options) > kMpmcMaxNameLength
      then Inl kInvalidName
      else if qo_capacity options = 0 \<or> qo_capacity options > kMpmcMaxCapacity \<or>
              payload_size = 0 \<or> payload_size > kMpmcMaxPayloadSize \<or> sd_version schema = 0
      then Inl kInvalidOptions
      else Inr ())"

definition mpmc_header_checksum :: "mpmc_immutable \<Rightarrow> u64" where
  "mpmc_header_checksum im = fnv1a64 (mpmc_immutable_bytes im)"

definition mpmc_same_schema :: "mpmc_immutable \<Rightarrow> SchemaDescriptor \<Rightarrow> bool" where
  "mpmc_same_schema im schema \<longleftrightarrow>
     mi_schema_version im = sd_version schema \<and> mi_schema_fingerprint im = sd_fingerprint schema"

definition valid_header_magic :: "mpmc_immutable \<Rightarrow> bool" where
  "valid_header_magic im \<longleftrightarrow> mi_magic im = kMpmcHeaderMagic"

definition legacy_header_magic :: "mpmc_immutable \<Rightarrow> bool" where
  "legacy_header_magic im \<longleftrightarrow> mi_magic im = kMpmcLegacyHeaderMagic"

definition mpmc_validate_header ::
  "mpmc_header \<Rightarrow> u64 \<Rightarrow> MpmcQueueOptions \<Rightarrow> SchemaDescriptor \<Rightarrow> u32 \<Rightarrow> unit result" where
  "mpmc_validate_header header actual_size options schema payload_size =
     (let im = mh_immutable header in
      if legacy_header_magic im then Inl kAbiMismatch
      else if \<not> valid_header_magic im then Inl kCorruptHeader
      else if mi_abi_major im \<noteq> kMpmcAbiMajor \<or> mi_abi_minor im \<noteq> kMpmcAbiMinor then Inl kAbiMismatch
      else if mi_header_size im \<noteq> kMpmcHeaderSize \<or> mi_endian_marker im \<noteq> kMpmcEndianMarker
      then Inl kCorruptHeader
      else if mi_capacity im = 0 \<or> mi_capacity im > kMpmcMaxCapacity \<or> mi_payload_size im = 0 \<or>
              mi_payload_size im > kMpmcMaxPayloadSize \<or> mi_generation im = 0
      then Inl kCorruptHeader
      else
        (case mpmc_mapping_size_for (mi_capacity im) (mi_payload_size im) of
           None \<Rightarrow> Inl kCorruptHeader
         | Some expected_size \<Rightarrow>
             if expected_size \<noteq> mi_mapping_size im \<or> actual_size \<noteq> mi_mapping_size im
             then Inl kCorruptHeader
             else if mh_header_checksum header \<noteq> mpmc_header_checksum im then Inl kCorruptHeader
             else if mi_capacity im \<noteq> qo_capacity options \<or> mi_payload_size im \<noteq> payload_size
             then Inl kInvalidOptions
             else if \<not> mpmc_same_schema im schema then Inl kSchemaMismatch
             else if mh_init_state header \<noteq> init_word InitReady
             then Inl kInitializationIncomplete
             else Inr ()))"

definition kMpmcHeaderProbeSize :: u64 where "kMpmcHeaderProbeSize = 164"

definition mpmc_make_handle ::
  "string \<Rightarrow> u64 \<times> u64 \<Rightarrow> ProcessIdentity \<Rightarrow> u64 \<Rightarrow> bool \<Rightarrow> mpmc_handle" where
  "mpmc_make_handle shm_name dev_ino self stride created =
     \<lparr>mq_shm_name = shm_name, mq_dev = fst dev_ino, mq_ino = snd dev_ino, mq_self = self,
      mq_slot_stride = stride, mq_created = created, mq_removed = False\<rparr>"

definition open_existing ::
  "MpmcQueueOptions \<Rightarrow> SchemaDescriptor \<Rightarrow> u32 \<Rightarrow> (mpmc_world, mpmc_handle result) prog" where
  "open_existing options schema payload_size =
     try_bind (kernel_query kern_c current_identity) (\<lambda>self.
     bind (kernel_query kern_c k_getuid) (\<lambda>uid.
     let shm_name = mpmc_shm_name uid (qo_name options) in
     try_bind (shm_open_existing kern_c shm_name) (\<lambda>fd.
     try_bind (shm_fstat_and_capture kern_c fd) (\<lambda>st.
       if st_size st < kMpmcHeaderProbeSize then Ret (Inl kInitializationIncomplete)
       else
         try_bind (mmap_region kern_c fd (st_size st)) (\<lambda>_.
         bind (shared_load immutable_c) (\<lambda>im.
           if legacy_header_magic im \<or> mi_abi_major im \<noteq> kMpmcAbiMajor \<or>
              mi_header_size im \<noteq> kMpmcHeaderSize \<or> st_size st < ucast kMpmcHeaderSize
           then Ret (Inl kAbiMismatch)
           else
             bind (shared_load init_state_c) (\<lambda>init.
               if init \<noteq> init_word InitReady then
                 (if init = init_word InitInitializing then Ret (Inl kInitializationIncomplete)
                  else Ret (Inl kCorruptHeader))
               else
                 bind (shared_load hdr_c) (\<lambda>header.
                   case mpmc_validate_header header (st_size st) options schema payload_size of
                     Inl e \<Rightarrow> Ret (Inl e)
                   | Inr _ \<Rightarrow>
                       (case mpmc_stride_for payload_size of
                          None \<Rightarrow> Ret (Inl kInvalidOptions)
                        | Some stride \<Rightarrow>
                            Ret (Inr (mpmc_make_handle shm_name (st_dev st, st_ino st) self
                                        stride False)))))))))))"

definition mpmc_open_impl ::
  "MpmcQueueOptions \<Rightarrow> SchemaDescriptor \<Rightarrow> u32 \<Rightarrow> (mpmc_world, mpmc_handle result) prog" where
  "mpmc_open_impl options schema payload_size =
     (case mpmc_validate_options options schema payload_size of
        Inl e \<Rightarrow> Ret (Inl e)
      | Inr _ \<Rightarrow> open_existing options schema payload_size)"

subsection \<open>Creation\<close>

definition zero_slot :: mpmc_slot where
  "zero_slot = \<lparr>sl_sequence = 0, sl_state = 0, sl_owner = owner_none, sl_ticket = 0,
                sl_owner_epoch = 0, sl_payload = (\<lambda>_. 0)\<rparr>"

definition zero_immutable :: mpmc_immutable where
  "zero_immutable =
     \<lparr>mi_magic = replicate 8 0, mi_abi_major = 0, mi_abi_minor = 0, mi_header_size = 0,
      mi_endian_marker = 0, mi_capacity = 0, mi_payload_size = 0, mi_schema_version = 0,
      mi_reserved0 = 0, mi_mapping_size = 0, mi_schema_fingerprint = replicate 32 0,
      mi_generation = 0, mi_nonce_hi = 0, mi_nonce_lo = 0, mi_creator = owner_none\<rparr>"

definition zero_header :: mpmc_header where
  "zero_header =
     \<lparr>mh_immutable = zero_immutable, mh_enqueue_position = 0, mh_dequeue_position = 0,
      mh_enqueue_lock = 0, mh_dequeue_lock = 0, mh_init_state = 0,
      mh_enqueue_owner = owner_none, mh_dequeue_owner = owner_none, mh_header_checksum = 0,
      mh_notify_epoch = 0, mh_enqueue_owner_epoch = 0, mh_dequeue_owner_epoch = 0\<rparr>"

text \<open>\<open>memset\<close> of the new mapping, which no other process accepts yet, as one action.\<close>

definition zero_mapping :: "(mpmc_world, unit) prog" where
  "zero_mapping =
     Act (\<lambda>w. w\<lparr>mw_hdr := zero_header, mw_slots := (\<lambda>_. zero_slot)\<rparr>) (\<lambda>_. Ret ())"

definition init_immutable ::
  "MpmcQueueOptions \<Rightarrow> SchemaDescriptor \<Rightarrow> u32 \<Rightarrow> u64 \<Rightarrow> u64 \<Rightarrow> u64 \<Rightarrow> ProcessIdentity \<Rightarrow> mpmc_immutable" where
  "init_immutable options schema payload_size mapping_size nonce_hi nonce_lo self =
     \<lparr>mi_magic = kMpmcHeaderMagic, mi_abi_major = kMpmcAbiMajor, mi_abi_minor = kMpmcAbiMinor,
      mi_header_size = kMpmcHeaderSize, mi_endian_marker = kMpmcEndianMarker,
      mi_capacity = qo_capacity options, mi_payload_size = payload_size,
      mi_schema_version = sd_version schema, mi_reserved0 = 0, mi_mapping_size = mapping_size,
      mi_schema_fingerprint = sd_fingerprint schema, mi_generation = 1,
      mi_nonce_hi = nonce_hi, mi_nonce_lo = nonce_lo, mi_creator = owner_from_process self\<rparr>"

text \<open>The loop over the slots: \<open>n\<close> slots remain, \<open>i\<close> is the next one; false when an offset overflows.\<close>

primrec init_slots :: "u32 \<Rightarrow> u64 \<Rightarrow> nat \<Rightarrow> u32 \<Rightarrow> (mpmc_world, bool) prog" where
  "init_slots capacity stride 0 i = Ret True"
| "init_slots capacity stride (Suc n) i =
     (case mpmc_slot_offset i capacity stride of
        None \<Rightarrow> Ret False
      | Some slot \<Rightarrow>
          bind (shared_store (slot_sequence_c slot) (ucast i)) (\<lambda>_.
          bind (shared_store (slot_state_c slot) (slot_word SlotFree)) (\<lambda>_.
          bind (shared_store (slot_ticket_c slot) (ucast i)) (\<lambda>_.
          bind (shared_store (slot_owner_epoch_c slot) 0) (\<lambda>_.
            init_slots capacity stride n (i + 1))))))"

text \<open>Everything after the mapping exists; a failure unlinks the object and keeps its own code.\<close>

definition init_mapping ::
  "MpmcQueueOptions \<Rightarrow> SchemaDescriptor \<Rightarrow> u32 \<Rightarrow> u64 \<Rightarrow> ProcessIdentity \<Rightarrow> string \<Rightarrow> u64 \<times> u64 \<Rightarrow>
   (mpmc_world, mpmc_handle result) prog" where
  "init_mapping options schema payload_size mapping_size self shm_name dev_ino =
     (let abandon = (\<lambda>e. bind (cleanup_created kern_c shm_name (fst dev_ino) (snd dev_ino)) (\<lambda>_.
            Ret (Inl e)))
      in
      bind zero_mapping (\<lambda>_.
        if id_pid self = 0 \<or> id_ticks self = 0 \<or> id_boot_hi self = 0 \<or> id_boot_lo self = 0
        then abandon kSystemError
        else
          bind (random_u64 kern_c) (\<lambda>hi.
            case hi of None \<Rightarrow> abandon kSystemError | Some nonce_hi \<Rightarrow>
          bind (random_u64 kern_c) (\<lambda>lo.
            case lo of None \<Rightarrow> abandon kSystemError | Some nonce_lo \<Rightarrow>
          let im = init_immutable options schema payload_size mapping_size nonce_hi nonce_lo self in
          bind (shared_store immutable_c im) (\<lambda>_.
          bind (shared_store notify_epoch_c 0) (\<lambda>_.
          bind (shared_store enqueue_owner_epoch_c 0) (\<lambda>_.
          bind (shared_store dequeue_owner_epoch_c 0) (\<lambda>_.
          bind (shared_store init_state_c (init_word InitInitializing)) (\<lambda>_.
            case mpmc_stride_for payload_size of
              None \<Rightarrow> abandon kInvalidOptions
            | Some stride \<Rightarrow>
                bind (init_slots (qo_capacity options) stride (unat (qo_capacity options)) 0) (\<lambda>ok.
                  if \<not> ok then abandon kInvalidOptions
                  else
                    bind (shared_store header_checksum_c (mpmc_header_checksum im)) (\<lambda>_.
                    bind (shared_store init_state_c (init_word InitReady)) (\<lambda>_.
                      Ret (Inr (mpmc_make_handle shm_name dev_ino self stride True))))))))))))))"

definition mpmc_create_impl ::
  "MpmcQueueOptions \<Rightarrow> SchemaDescriptor \<Rightarrow> u32 \<Rightarrow> (mpmc_world, mpmc_handle result) prog" where
  "mpmc_create_impl options schema payload_size =
     (case mpmc_validate_options options schema payload_size of
        Inl e \<Rightarrow> Ret (Inl e)
      | Inr _ \<Rightarrow>
          try_bind (kernel_query kern_c current_identity) (\<lambda>self.
            case mpmc_mapping_size_for (qo_capacity options) payload_size of
              None \<Rightarrow> Ret (Inl kInvalidOptions)
            | Some mapping_size \<Rightarrow>
                bind (kernel_query kern_c k_getuid) (\<lambda>uid.
                let shm_name = mpmc_shm_name uid (qo_name options) in
                try_bind (shm_open_create kern_c shm_name) (\<lambda>fd.
                bind (shm_fstat_and_capture kern_c fd) (\<lambda>stat_before.
                  case stat_before of
                    Inl e \<Rightarrow>
                      try_bind (shm_capture_created_identity kern_c fd) (\<lambda>(dev, ino).
                      bind (shm_unlink_checked kern_c shm_name dev ino) (\<lambda>removed.
                        case removed of
                          Inl e' \<Rightarrow> if e' \<noteq> kNotFound then Ret (Inl e') else Ret (Inl e)
                        | Inr _ \<Rightarrow> Ret (Inl e)))
                  | Inr st \<Rightarrow>
                      bind (shm_truncate kern_c fd mapping_size) (\<lambda>truncated.
                        case truncated of
                          Inl e \<Rightarrow>
                            bind (cleanup_created kern_c shm_name (st_dev st) (st_ino st)) (\<lambda>_.
                              Ret (Inl e))
                        | Inr _ \<Rightarrow>
                            bind (mmap_region kern_c fd mapping_size) (\<lambda>mapping.
                              case mapping of
                                Inl e \<Rightarrow>
                                  bind (cleanup_created kern_c shm_name (st_dev st) (st_ino st)) (\<lambda>_.
                                    Ret (Inl e))
                              | Inr _ \<Rightarrow>
                                  init_mapping options schema payload_size mapping_size self
                                    shm_name (st_dev st, st_ino st))))))))"

subsection \<open>Status and removal\<close>

record MpmcQueueStatus =
  qs_ready :: bool
  qs_immutable :: mpmc_immutable
  qs_enqueue_position :: u64
  qs_dequeue_position :: u64
  qs_enqueue_lock_state :: u32
  qs_dequeue_lock_state :: u32
  qs_enqueue_owner_pid :: u64
  qs_dequeue_owner_pid :: u64
  qs_enqueue_owner_alive :: bool
  qs_dequeue_owner_alive :: bool

text \<open>The three fields of the status that \<open>fill_status_owner\<close> writes, or its error.\<close>

definition fill_status_owner ::
  "mpmc_handle \<Rightarrow> bool \<Rightarrow> (mpmc_world, (u32 \<times> u64 \<times> bool) result) prog" where
  "fill_status_owner handle enqueue =
     bind (snapshot_gate_owner (gate_for enqueue)) (\<lambda>observation.
       case os_kind observation of
         SnapInactive \<Rightarrow> Ret (Inr (os_state observation, 0, False))
       | SnapClaiming \<Rightarrow> Ret (Inl kQueueContention)
       | SnapUnstable \<Rightarrow> Ret (Inl kQueueContention)
       | SnapCorrupt \<Rightarrow> Ret (Inl kRecoveryBlocked)
       | SnapEpochExhausted \<Rightarrow> Ret (Inl kRecoveryBlocked)
       | SnapStable \<Rightarrow>
           bind (confirm_owner_liveness handle enqueue observation) (\<lambda>disposition.
             if disposition = kChanged then Ret (Inl kQueueContention)
             else if ow_boot_hi (os_owner observation) \<noteq> id_boot_hi (mq_self handle) \<or>
                     ow_boot_lo (os_owner observation) \<noteq> id_boot_lo (mq_self handle)
             then Ret (Inl kRecoveryBlocked)
             else Ret (Inr (os_state observation, ow_pid (os_owner observation),
                            disposition = kNotUnrecoverable))))"

definition mpmc_status_impl :: "mpmc_handle option \<Rightarrow> (mpmc_world, MpmcQueueStatus result) prog" where
  "mpmc_status_impl handle =
     try_bind (validate_live_handle handle) (\<lambda>h.
     bind (shared_load init_state_c) (\<lambda>init.
     bind (shared_load immutable_c) (\<lambda>im.
     bind (shared_load enqueue_position_c) (\<lambda>enqueue.
     bind (shared_load dequeue_position_c) (\<lambda>dequeue.
     bind (shared_load enqueue_lock_c) (\<lambda>_.
     bind (shared_load dequeue_lock_c) (\<lambda>_.
     try_bind (fill_status_owner h True) (\<lambda>(enq_state, enq_pid, enq_alive).
     try_bind (fill_status_owner h False) (\<lambda>(deq_state, deq_pid, deq_alive).
       Ret (Inr \<lparr>qs_ready = (init = init_word InitReady), qs_immutable = im,
                 qs_enqueue_position = enqueue, qs_dequeue_position = dequeue,
                 qs_enqueue_lock_state = enq_state, qs_dequeue_lock_state = deq_state,
                 qs_enqueue_owner_pid = enq_pid, qs_dequeue_owner_pid = deq_pid,
                 qs_enqueue_owner_alive = enq_alive, qs_dequeue_owner_alive = deq_alive\<rparr>))))))))))"

text \<open>What \<open>remove_if_creator\<close> requires of a gate that is not free: a dead owner with an intact word.\<close>

definition gate_removable :: "mpmc_handle \<Rightarrow> bool \<Rightarrow> (mpmc_world, unit result) prog" where
  "gate_removable handle enqueue =
     bind (classify_gate_owner enqueue) (\<lambda>observation.
     bind (owner_observation_is_unrecoverable handle enqueue observation) (\<lambda>disposition.
       if disposition \<noteq> kUnrecoverable then Ret (Inl kQueueContention)
       else if os_kind observation = SnapCorrupt \<or> os_kind observation = SnapEpochExhausted
       then Ret (Inl kRecoveryBlocked)
       else Ret (Inr ())))"

text \<open>The handle is returned with \<open>removed\<close> set.\<close>

definition mpmc_remove_if_creator_impl ::
  "mpmc_handle option \<Rightarrow> (mpmc_world, mpmc_handle result) prog" where
  "mpmc_remove_if_creator_impl handle =
     try_bind (validate_live_handle handle) (\<lambda>h.
     bind (shared_load immutable_c) (\<lambda>im.
       if \<not> owner_matches (mi_creator im) (mq_self h) then Ret (Inl kPermissionDenied)
       else
         bind (shared_load enqueue_lock_c) (\<lambda>enqueue_lock.
         bind (shared_load dequeue_lock_c) (\<lambda>dequeue_lock.
         try_bind (if enqueue_lock \<noteq> lock_word LockFree then gate_removable h True
                   else Ret (Inr ())) (\<lambda>_.
         try_bind (if dequeue_lock \<noteq> lock_word LockFree then gate_removable h False
                   else Ret (Inr ())) (\<lambda>_.
         try_bind (shm_unlink_checked kern_c (mq_shm_name h) (mq_dev h) (mq_ino h)) (\<lambda>_.
           Ret (Inr (h\<lparr>mq_removed := True\<rparr>)))))))))"

definition mpmc_capacity_impl :: "mpmc_handle option \<Rightarrow> (mpmc_world, u32) prog" where
  "mpmc_capacity_impl handle =
     (case handle of
        None \<Rightarrow> Ret 0
      | Some h \<Rightarrow>
          if mq_removed h then Ret 0
          else bind (shared_load immutable_c) (\<lambda>im. Ret (mi_capacity im)))"

definition mpmc_generation_impl :: "mpmc_handle option \<Rightarrow> (mpmc_world, u64) prog" where
  "mpmc_generation_impl handle =
     (case handle of
        None \<Rightarrow> Ret 0
      | Some h \<Rightarrow>
          if mq_removed h then Ret 0
          else bind (shared_load immutable_c) (\<lambda>im. Ret (mi_generation im)))"

end
