(* ===== verification/ER_Mpmc_Seq.thy ===== *)
theory ER_Mpmc_Seq
  imports ER_Mpmc_Admin
begin

text \<open>
  The MPMC queue when one process runs at a time. \<open>mpmc_inv\<close> is the invariant of a queue at rest,
  \<open>mpmc_contents\<close> the list of payloads it stands for. Every outcome of \<open>mpmc_try_push_impl\<close> and
  \<open>mpmc_try_pop_impl\<close> on such a queue is computed (\<open>run_try_push\<close>, \<open>run_try_pop\<close>), and the two
  operations refine append and head/tail on the list. The epochs and positions a message needs for
  its own removal are reserved when it is pushed, so a published message can always be popped.
\<close>

subsection \<open>Ring positions\<close>

definition ring :: "u64 \<Rightarrow> u32 \<Rightarrow> nat \<Rightarrow> u64" where
  "ring stride cap p = of_nat (320 + (p mod unat cap) * unat stride)"

lemma ring_bound:
  assumes "mpmc_geometry cap ps stride"
  shows "unat (ring stride cap p) = 320 + (p mod unat cap) * unat stride"
proof -
  have "p mod unat cap < unat cap"
    using assms by (auto simp: mpmc_geometry_def)
  then have "(p mod unat cap) * unat stride \<le> 4096 * 65664"
    using assms mpmc_geometry_stride(3) [OF assms]
    by (intro mult_geometry_bound) (auto simp: mpmc_geometry_def)
  then show ?thesis
    unfolding ring_def by (intro unat_of_nat_u64) simp
qed

lemma ring_eq_iff:
  assumes "mpmc_geometry cap ps stride"
  shows "ring stride cap p = ring stride cap q \<longleftrightarrow> p mod unat cap = q mod unat cap"
  using ring_bound [OF assms, of p] ring_bound [OF assms, of q] mpmc_geometry_stride(4) [OF assms]
  by (auto simp: word_unat_eq_iff)

lemma slot_offset_of_eq:
  assumes "mpmc_geometry cap ps (mq_slot_stride h)"
  shows "slot_offset_of h cap pos = Some (ring (mq_slot_stride h) cap (unat pos))"
proof -
  let ?i = "ucast (pos mod ucast cap) :: u32"
  have "unat pos mod unat cap < unat cap"
    using assms by (auto simp: mpmc_geometry_def)
  moreover have "unat cap < 2 ^ 32" by (rule unat_u32_less)
  ultimately have i: "unat ?i = unat pos mod unat cap"
    by (simp add: unsigned_ucast_eq unat_mod_u64 take_bit_nat_eq_self)
  then have "?i < cap"
    using assms by (auto simp: mpmc_geometry_def word_less_nat_alt)
  then obtain off where "mpmc_slot_offset ?i cap (mq_slot_stride h) = Some off"
    "unat off = 320 + unat ?i * unat (mq_slot_stride h)"
    using mpmc_slot_offset_eq [OF assms] by blast
  then show ?thesis
    using ring_bound [OF assms, of "unat pos"] i
    by (auto simp: slot_offset_of_def word_unat_eq_iff)
qed

lemma mod_window:
  assumes "p mod c = q mod c" and "p \<le> q" and "q < p + c"
  shows "p = (q :: nat)"
proof -
  have "c dvd q - p"
    using assms(1,2) by (metis mod_eq_dvd_iff_nat)
  then show ?thesis
    using assms(2,3) by (auto dest: dvd_imp_le)
qed

subsection \<open>Cells\<close>

interpretation hdr_cell: lens hdr_c
  by unfold_locales (simp_all add: cell_defs)

interpretation kern_cell: lens kern_c
  by unfold_locales (simp_all add: cell_defs)

interpretation slot_cell: lens "slot_c off" for off
  by unfold_locales (simp_all add: cell_defs)

interpretation enqueue_owner_cell: lens enqueue_owner_c
  unfolding enqueue_owner_c_def
  by (rule hdr_cell.field_lens) (unfold_locales, simp_all)

interpretation dequeue_owner_cell: lens dequeue_owner_c
  unfolding dequeue_owner_c_def
  by (rule hdr_cell.field_lens) (unfold_locales, simp_all)

interpretation slot_owner_cell: lens "slot_owner_c off" for off
  unfolding slot_owner_c_def
  by (rule slot_cell.field_lens) (unfold_locales, simp_all)

lemmas run_set_owners [run_simps] =
  run_store_owner [OF enqueue_owner_cell.lens_axioms]
  run_store_owner [OF dequeue_owner_cell.lens_axioms]
  run_store_owner [OF slot_owner_cell.lens_axioms]

lemma run_memcpy_to_slot [run_simps]:
  "run (memcpy_to (slot_payload_c off) i bs) w =
     ((), w\<lparr>mw_slots := (mw_slots w)(off := (mw_slots w off)\<lparr>sl_payload :=
        store_bytes (sl_payload (mw_slots w off)) i bs\<rparr>)\<rparr>)"
  by (induction bs arbitrary: i w) (simp_all add: run_simps)

subsection \<open>Solo runs of the parts\<close>

abbreviation enq_pos :: "mpmc_world \<Rightarrow> u64" where "enq_pos w \<equiv> mh_enqueue_position (mw_hdr w)"
abbreviation deq_pos :: "mpmc_world \<Rightarrow> u64" where "deq_pos w \<equiv> mh_dequeue_position (mw_hdr w)"

lemma run_snapshot_queue_positions [run_simps]:
  "run snapshot_queue_positions w = (Inr (enq_pos w, deq_pos w), w)"
  by (simp add: snapshot_queue_positions_def kOwnerSnapshotRetries_def numeral_eq_Suc run_simps)

definition drain_budget :: "mpmc_world \<Rightarrow> u64" where
  "drain_budget w = (kMaxCommittedOwnerEpoch - mh_dequeue_owner_epoch (mw_hdr w)) div 2"

lemma run_dequeue_drain_budget:
  assumes "mh_dequeue_lock (mw_hdr w) = lock_word LockFree"
    and "committed_epoch_ok (mh_dequeue_owner_epoch (mw_hdr w))"
  shows "run (dequeue_drain_budget h) w = (Inr (drain_budget w), w)"
  using assms
  by (simp add: dequeue_drain_budget_def classify_gate_owner_def snapshot_gate_owner_def
      snapshot_owner_def gate_for_def run_simps observe_owner_def classify_words_def
      snapshot_of_def committed_epoch_ok_def drain_budget_def)

lemma run_observe_free_gate:
  assumes "rd (g_state (gate_for e)) w = lock_word LockFree"
    and "committed_epoch_ok (rd (g_owner_epoch (gate_for e)) w)"
  shows "run (classify_gate_owner e) w =
           (snapshot_of SnapInactive (lock_word LockFree) owner_none (rd (g_owner_epoch (gate_for e)) w), w)"
  using assms
  by (simp add: classify_gate_owner_def snapshot_gate_owner_def snapshot_owner_def run_simps
      observe_owner_def classify_words_def committed_epoch_ok_def)

lemma run_push_drain_admission:
  assumes "mh_dequeue_lock (mw_hdr w) = lock_word LockFree"
    and "committed_epoch_ok (mh_dequeue_owner_epoch (mw_hdr w))"
    and "validate_queue_positions (enq_pos w) (deq_pos w) (mpmc_capacity w) = Inr ()"
    and "enq_pos w - deq_pos w \<noteq> ucast (mpmc_capacity w)"
    and "checked_add_u64 (enq_pos w - deq_pos w) 1 = Some after"
  shows "run (validate_push_drain_admission h (enq_pos w) (deq_pos w)) w =
           (if after > drain_budget w then Inl kSequenceExhausted else Inr (enq_pos w, deq_pos w), w)"
  using assms
  by (simp add: validate_push_drain_admission_def kOwnerSnapshotRetries_def numeral_eq_Suc
      run_simps run_dequeue_drain_budget)

lemma run_acquire_enqueue_gate:
  assumes "mh_enqueue_lock (mw_hdr w) = lock_word LockFree"
    and "committed_epoch_ok (mh_enqueue_owner_epoch (mw_hdr w))"
  shows "run (acquire_gate h True) w =
    (if 2 > kMaxCommittedOwnerEpoch - mh_enqueue_owner_epoch (mw_hdr w)
     then (Inl kRecoveryBlocked,
           w\<lparr>mw_hdr := (mw_hdr w)\<lparr>mh_enqueue_lock := lock_word LockEpochExhausted\<rparr>\<rparr>)
     else (Inr (),
           w\<lparr>mw_hdr := (mw_hdr w)\<lparr>mh_enqueue_lock := lock_word LockOwned,
               mh_enqueue_owner := owner_from_process (mq_self h),
               mh_enqueue_owner_epoch := mh_enqueue_owner_epoch (mw_hdr w) + 2\<rparr>\<rparr>))"
  using assms
  by (simp add: acquire_gate_def claim_gate_def commit_claimed_gate_def gate_for_def run_simps
      mark_gate_protocol_failure_def set_owner_def committed_epoch_ok_def)

subsection \<open>The invariant of a queue at rest\<close>

abbreviation enq_nat :: "mpmc_world \<Rightarrow> nat" where "enq_nat w \<equiv> unat (enq_pos w)"
abbreviation deq_nat :: "mpmc_world \<Rightarrow> nat" where "deq_nat w \<equiv> unat (deq_pos w)"
abbreviation cap_nat :: "mpmc_world \<Rightarrow> nat" where "cap_nat w \<equiv> unat (mpmc_capacity w)"

definition slot_pos :: "mpmc_handle \<Rightarrow> mpmc_world \<Rightarrow> nat \<Rightarrow> mpmc_slot" where
  "slot_pos h w p = mw_slots w (ring (mq_slot_stride h) (mpmc_capacity w) p)"

definition published :: "mpmc_slot \<Rightarrow> nat \<Rightarrow> bool" where
  "published x p \<longleftrightarrow>
     unat (sl_sequence x) = Suc p \<and> sl_state x = slot_word SlotReady \<and>
     committed_epoch_ok (sl_owner_epoch x) \<and> 2 \<le> kMaxCommittedOwnerEpoch - sl_owner_epoch x"

definition vacant :: "mpmc_slot \<Rightarrow> nat \<Rightarrow> bool" where
  "vacant x p \<longleftrightarrow>
     unat (sl_sequence x) = p \<and> sl_state x = slot_word SlotFree \<and>
     committed_epoch_ok (sl_owner_epoch x)"

definition mpmc_inv :: "mpmc_handle \<Rightarrow> mpmc_world \<Rightarrow> bool" where
  "mpmc_inv h w \<longleftrightarrow>
     mpmc_geometry (mpmc_capacity w) (mpmc_payload_size w) (mq_slot_stride h) \<and>
     \<not> mq_removed h \<and> mh_init_state (mw_hdr w) = init_word InitReady \<and>
     mh_enqueue_lock (mw_hdr w) = lock_word LockFree \<and>
     mh_dequeue_lock (mw_hdr w) = lock_word LockFree \<and>
     committed_epoch_ok (mh_enqueue_owner_epoch (mw_hdr w)) \<and>
     committed_epoch_ok (mh_dequeue_owner_epoch (mw_hdr w)) \<and>
     deq_nat w \<le> enq_nat w \<and> enq_nat w \<le> deq_nat w + cap_nat w \<and>
     (\<forall>p \<in> {deq_nat w ..< enq_nat w}. published (slot_pos h w p) p) \<and>
     (\<forall>p \<in> {enq_nat w ..< deq_nat w + cap_nat w}. vacant (slot_pos h w p) p) \<and>
     (deq_nat w < enq_nat w \<longrightarrow> enq_nat w + cap_nat w \<le> 2 ^ 64) \<and>
     enq_nat w - deq_nat w \<le> unat (drain_budget w)"

definition payload_of :: "u32 \<Rightarrow> mpmc_slot \<Rightarrow> bytes" where
  "payload_of n x = map (sl_payload x) [0..<unat n]"

definition mpmc_contents :: "mpmc_handle \<Rightarrow> mpmc_world \<Rightarrow> bytes list" where
  "mpmc_contents h w =
     map (\<lambda>p. payload_of (mpmc_payload_size w) (slot_pos h w p)) [deq_nat w..<enq_nat w]"

lemma validate_queue_positions_ok:
  assumes "unat d \<le> unat e" and "unat e \<le> unat d + unat c"
  shows "validate_queue_positions e d c = Inr ()"
  using assms by (simp add: validate_queue_positions_def word_less_nat_alt unat_sub_no_wrap word_le_nat_alt)

lemma validate_ticket_bounds_eq:
  assumes "1 \<le> unat c"
  shows "validate_ticket_bounds t c =
           (if unat t + unat c < 2 ^ 64 then Inr (t + 1, t + ucast c) else Inl kSequenceExhausted)"
proof (cases "unat t + unat c < 2 ^ 64")
  case True
  then have "checked_add_u64 t 1 = Some (t + 1)" "checked_add_u64 t (ucast c) = Some (t + ucast c)"
    using assms by (simp_all add: checked_add_u64_Some_iff)
  with True assms show ?thesis
    by (auto simp: validate_ticket_bounds_def mpmc_checked_ticket_bounds_def)
next
  case False
  then have "checked_add_u64 t (ucast c) = None"
    using checked_add_u64_Some_iff [of t "ucast c"] by (cases "checked_add_u64 t (ucast c)") auto
  with False show ?thesis
    by (auto simp: validate_ticket_bounds_def mpmc_checked_ticket_bounds_def split: option.splits)
qed

lemma pending_full_iff:
  fixes e d :: u64
  assumes "unat d \<le> unat e"
  shows "e - d = ucast (c :: u32) \<longleftrightarrow> unat e = unat d + unat c"
proof -
  have "e - d = ucast c \<longleftrightarrow> unat (e - d) = unat (ucast c :: u64)"
    by (rule word_unat_eq_iff)
  then show ?thesis
    using assms by (auto simp: unat_sub_no_wrap word_le_nat_alt)
qed

lemma pending_add:
  fixes e d :: u64
  assumes "unat d \<le> unat e" and "unat e < unat d + unat (c :: u32)"
  shows "checked_add_u64 (e - d) 1 = Some (e - d + 1)" and "unat (e - d + 1) = Suc (unat e - unat d)"
proof -
  have "unat (e - d) = unat e - unat d"
    using assms by (simp add: unat_sub_no_wrap word_le_nat_alt)
  moreover have "unat e - unat d < 2 ^ 32"
    using assms unat_u32_less [of c] by linarith
  ultimately show "checked_add_u64 (e - d) 1 = Some (e - d + 1)"
    and "unat (e - d + 1) = Suc (unat e - unat d)"
    by (simp_all add: checked_add_u64_Some_iff unat_add_no_wrap)
qed

subsection \<open>Push, alone\<close>

abbreviation ring_at :: "mpmc_handle \<Rightarrow> mpmc_world \<Rightarrow> nat \<Rightarrow> u64" where
  "ring_at h w p \<equiv> ring (mq_slot_stride h) (mpmc_capacity w) p"

text \<open>The queue with the enqueue gate held by the process of the handle.\<close>

definition with_enqueue_gate :: "mpmc_handle \<Rightarrow> u32 \<Rightarrow> mpmc_world \<Rightarrow> mpmc_world" where
  "with_enqueue_gate h lock w =
     w\<lparr>mw_hdr := (mw_hdr w)\<lparr>mh_enqueue_lock := lock,
         mh_enqueue_owner := owner_from_process (mq_self h),
         mh_enqueue_owner_epoch := mh_enqueue_owner_epoch (mw_hdr w) + 2\<rparr>\<rparr>"

definition pushed_slot :: "mpmc_handle \<Rightarrow> u64 \<Rightarrow> bytes \<Rightarrow> mpmc_slot \<Rightarrow> mpmc_slot" where
  "pushed_slot h e b x =
     x\<lparr>sl_owner := owner_from_process (mq_self h), sl_ticket := e,
       sl_owner_epoch := sl_owner_epoch x + 2, sl_payload := store_bytes (sl_payload x) 0 b,
       sl_sequence := e + 1, sl_state := slot_word SlotReady\<rparr>"

definition pushed_world :: "mpmc_handle \<Rightarrow> bytes \<Rightarrow> mpmc_world \<Rightarrow> mpmc_world" where
  "pushed_world h b w =
     w\<lparr>mw_hdr := (mw_hdr w)\<lparr>
         mh_enqueue_owner := owner_from_process (mq_self h),
         mh_enqueue_owner_epoch := mh_enqueue_owner_epoch (mw_hdr w) + 2,
         mh_enqueue_position := enq_pos w + 1, mh_enqueue_lock := lock_word LockFree,
         mh_notify_epoch := mh_notify_epoch (mw_hdr w) + 1\<rparr>,
       mw_slots := (mw_slots w)(ring_at h w (enq_nat w) :=
         pushed_slot h (enq_pos w) b (slot_pos h w (enq_nat w))),
       mw_kern := log_call CallWake (mw_kern w)\<rparr>"

lemma run_push_slot:
  assumes "vacant x p" and "x = mw_slots w off"
  shows "run (push_slot h e (e + 1) b off) w =
    (if 4 > kMaxCommittedOwnerEpoch - sl_owner_epoch x
     then (Inl kRecoveryBlocked,
           w\<lparr>mw_slots := (mw_slots w)(off := x\<lparr>sl_state := slot_word SlotEpochExhausted\<rparr>),
             mw_hdr := (mw_hdr w)\<lparr>mh_enqueue_lock := lock_word LockFree\<rparr>\<rparr>)
     else (Inr (),
           w\<lparr>mw_slots := (mw_slots w)(off := pushed_slot h e b x),
             mw_hdr := (mw_hdr w)\<lparr>mh_enqueue_position := e + 1, mh_enqueue_lock := lock_word LockFree,
               mh_notify_epoch := mh_notify_epoch (mw_hdr w) + 1\<rparr>,
             mw_kern := log_call CallWake (mw_kern w)\<rparr>))"
  using assms
  by (auto simp: push_slot_def run_simps vacant_def committed_epoch_ok_def protocol_failure_word_def
      fail_released_def release_gate_def gate_for_def set_owner_def notify_waiters_def futex_wake_def
      not_less pushed_slot_def)

definition push_admissible :: "mpmc_handle \<Rightarrow> mpmc_world \<Rightarrow> bool" where
  "push_admissible h w \<longleftrightarrow>
     enq_nat w + cap_nat w < 2 ^ 64 \<and>
     Suc (enq_nat w - deq_nat w) \<le> unat (drain_budget w) \<and>
     2 \<le> kMaxCommittedOwnerEpoch - mh_enqueue_owner_epoch (mw_hdr w) \<and>
     4 \<le> kMaxCommittedOwnerEpoch - sl_owner_epoch (slot_pos h w (enq_nat w))"

lemma mpmc_inv_geometry:
  "mpmc_inv h w \<Longrightarrow> mpmc_geometry (mpmc_capacity w) (mpmc_payload_size w) (mq_slot_stride h)"
  by (simp add: mpmc_inv_def)

lemma run_push_locked:
  fixes h w
  defines "w1 \<equiv> with_enqueue_gate h (lock_word LockOwned) w"
  defines "x \<equiv> slot_pos h w (enq_nat w)"
  assumes inv: "mpmc_inv h w" and room: "enq_nat w < deq_nat w + cap_nat w"
    and tickets: "enq_nat w + cap_nat w < 2 ^ 64"
    and budget: "Suc (enq_nat w - deq_nat w) \<le> unat (drain_budget w)"
  shows "run (push_locked h (mpmc_capacity w) b) w1 =
    run (push_slot h (enq_pos w) (enq_pos w + 1) b (ring_at h w (enq_nat w))) w1"
proof -
  note inv' = inv [unfolded mpmc_inv_def]
  have pos: "validate_queue_positions (enq_pos w) (deq_pos w) (mpmc_capacity w) = Inr ()"
    by (rule validate_queue_positions_ok) (use inv' in auto)
  have bounds: "validate_ticket_bounds (enq_pos w) (mpmc_capacity w) =
      Inr (enq_pos w + 1, enq_pos w + ucast (mpmc_capacity w))"
    using inv' tickets by (simp add: validate_ticket_bounds_eq mpmc_geometry_def)
  have notfull: "enq_pos w - deq_pos w \<noteq> ucast (mpmc_capacity w)"
    using inv' room by (subst pending_full_iff) auto
  have add: "checked_add_u64 (enq_pos w - deq_pos w) 1 = Some (enq_pos w - deq_pos w + 1)"
    and after: "\<not> enq_pos w - deq_pos w + 1 > drain_budget w"
    using inv' room budget pending_add [of "deq_pos w" "enq_pos w" "mpmc_capacity w"]
    by (auto simp: word_less_nat_alt)
  have w1: "enq_pos w1 = enq_pos w" "deq_pos w1 = deq_pos w" "mpmc_capacity w1 = mpmc_capacity w"
    "mw_slots w1 = mw_slots w" "mh_dequeue_lock (mw_hdr w1) = mh_dequeue_lock (mw_hdr w)"
    "mh_dequeue_owner_epoch (mw_hdr w1) = mh_dequeue_owner_epoch (mw_hdr w)"
    "drain_budget w1 = drain_budget w"
    by (simp_all add: w1_def with_enqueue_gate_def drain_budget_def)
  have adm: "run (validate_push_drain_admission h (enq_pos w) (deq_pos w)) w1 =
      (Inr (enq_pos w, deq_pos w), w1)"
    using run_push_drain_admission [of w1 _ h] inv' pos notfull add after by (simp add: w1)
  have "vacant x (enq_nat w)"
    using inv' room by (auto simp: x_def)
  then have "sl_sequence x = enq_pos w" and "sl_state x = slot_word SlotFree"
    by (simp_all add: vacant_def word_unat_eq_iff)
  then show ?thesis
    using pos bounds notfull adm slot_offset_of_eq [OF mpmc_inv_geometry [OF inv]]
    by (simp add: push_locked_def run_simps w1 slot_at_def slot_invalid_def x_def slot_pos_def)
qed

text \<open>The full queue: the verdict needs no gate.\<close>

lemma run_push_full:
  assumes inv: "mpmc_inv h w" and full: "enq_nat w = deq_nat w + cap_nat w"
  shows "run (push_full_unlocked h) w = (Inl kQueueFull, w)"
proof -
  note inv' = inv [unfolded mpmc_inv_def]
  have "drain_budget w \<noteq> 0"
    using inv' full by (auto simp: mpmc_geometry_def word_unat_eq_iff)
  then show ?thesis
    using inv' run_observe_free_gate [of False w] run_dequeue_drain_budget [of w h]
    by (simp add: push_full_unlocked_def run_simps gate_for_def push_full_result_def
        owner_observation_is_unrecoverable_def snapshot_of_def)
qed

definition exhausted_gate_world :: "mpmc_world \<Rightarrow> mpmc_world" where
  "exhausted_gate_world w =
     w\<lparr>mw_hdr := (mw_hdr w)\<lparr>mh_enqueue_lock := lock_word LockEpochExhausted\<rparr>\<rparr>"

definition exhausted_slot_world :: "mpmc_handle \<Rightarrow> mpmc_world \<Rightarrow> mpmc_world" where
  "exhausted_slot_world h w =
     (with_enqueue_gate h (lock_word LockFree) w)\<lparr>mw_slots :=
        (mw_slots w)(ring_at h w (enq_nat w) :=
          (slot_pos h w (enq_nat w))\<lparr>sl_state := slot_word SlotEpochExhausted\<rparr>)\<rparr>"

text \<open>Every outcome of a push on a queue at rest.\<close>

lemma run_try_push:
  assumes inv: "mpmc_inv h w"
  shows "run (mpmc_try_push_impl (Some h) (Some b) (mpmc_payload_size w)) w =
    (if 2 ^ 64 \<le> enq_nat w + cap_nat w then (Inl kSequenceExhausted, w)
     else if enq_nat w = deq_nat w + cap_nat w then (Inl kQueueFull, w)
     else if unat (drain_budget w) < Suc (enq_nat w - deq_nat w) then (Inl kSequenceExhausted, w)
     else if 2 > kMaxCommittedOwnerEpoch - mh_enqueue_owner_epoch (mw_hdr w)
     then (Inl kRecoveryBlocked, exhausted_gate_world w)
     else if 4 > kMaxCommittedOwnerEpoch - sl_owner_epoch (slot_pos h w (enq_nat w))
     then (Inl kRecoveryBlocked, exhausted_slot_world h w)
     else (Inr (), pushed_world h (take (unat (mpmc_payload_size w)) b) w))"
proof -
  note inv' = inv [unfolded mpmc_inv_def]
  let ?b = "take (unat (mpmc_payload_size w)) b"
  let ?op = "mpmc_try_push_impl (Some h) (Some b) (mpmc_payload_size w)"
  have pos: "validate_queue_positions (enq_pos w) (deq_pos w) (mpmc_capacity w) = Inr ()"
    by (rule validate_queue_positions_ok) (use inv' in auto)
  have bounds: "validate_ticket_bounds (enq_pos w) (mpmc_capacity w) =
      (if enq_nat w + cap_nat w < 2 ^ 64
       then Inr (enq_pos w + 1, enq_pos w + ucast (mpmc_capacity w)) else Inl kSequenceExhausted)"
    using inv' by (intro validate_ticket_bounds_eq) (simp add: mpmc_geometry_def)
  have full: "enq_pos w - deq_pos w = ucast (mpmc_capacity w) \<longleftrightarrow> enq_nat w = deq_nat w + cap_nat w"
    using inv' by (intro pending_full_iff) auto
  have start: "run ?op w =
     (if 2 ^ 64 \<le> enq_nat w + cap_nat w then (Inl kSequenceExhausted, w)
      else if enq_nat w = deq_nat w + cap_nat w then (Inl kQueueFull, w)
      else run (try_bind (validate_push_drain_admission h (enq_pos w) (deq_pos w)) (\<lambda>_.
                  try_bind (acquire_gate h True) (\<lambda>_. push_locked h (mpmc_capacity w) ?b))) w)"
    using inv' pos bounds full run_push_full [OF inv]
    by (simp add: mpmc_try_push_impl_def validate_live_handle_def run_simps)
  show ?thesis
  proof (cases "2 ^ 64 \<le> enq_nat w + cap_nat w \<or> enq_nat w = deq_nat w + cap_nat w")
    case True
    then show ?thesis using start by auto
  next
    case False
    then have room: "enq_nat w < deq_nat w + cap_nat w" and tickets: "enq_nat w + cap_nat w < 2 ^ 64"
      using inv' by auto
    have after: "unat (enq_pos w - deq_pos w + 1) = Suc (enq_nat w - deq_nat w)"
      and add: "checked_add_u64 (enq_pos w - deq_pos w) 1 = Some (enq_pos w - deq_pos w + 1)"
      using inv' room pending_add [of "deq_pos w" "enq_pos w" "mpmc_capacity w"] by auto
    have adm: "run (validate_push_drain_admission h (enq_pos w) (deq_pos w)) w =
        (if unat (drain_budget w) < Suc (enq_nat w - deq_nat w) then Inl kSequenceExhausted
         else Inr (enq_pos w, deq_pos w), w)"
      using run_push_drain_admission [of w _ h, OF _ _ pos _ add] inv' False full after
      by (simp add: word_less_nat_alt)
    have vac: "vacant (slot_pos h w (enq_nat w)) (enq_nat w)"
      using inv' room by auto
    have slot: "run (push_slot h (enq_pos w) (enq_pos w + 1) ?b (ring_at h w (enq_nat w)))
        (with_enqueue_gate h (lock_word LockOwned) w) =
      (if 4 > kMaxCommittedOwnerEpoch - sl_owner_epoch (slot_pos h w (enq_nat w))
       then (Inl kRecoveryBlocked, exhausted_slot_world h w)
       else (Inr (), pushed_world h ?b w))"
      by (subst run_push_slot [OF vac])
        (simp_all add: with_enqueue_gate_def slot_pos_def pushed_world_def exhausted_slot_world_def)
    show ?thesis
      using start False adm run_acquire_enqueue_gate [of w h] inv' room tickets
        run_push_locked [OF inv room tickets, of ?b] slot
      by (auto simp: run_simps exhausted_gate_world_def with_enqueue_gate_def not_less not_le)
  qed
qed

lemma ring_window:
  assumes "mpmc_geometry cap ps stride" and "d \<le> p" "p < d + unat cap" "d \<le> q" "q < d + unat cap"
  shows "ring stride cap p = ring stride cap q \<longleftrightarrow> p = q"
proof
  assume "ring stride cap p = ring stride cap q"
  then have "p mod unat cap = q mod unat cap" using ring_eq_iff [OF assms(1)] by simp
  then show "p = q"
    using mod_window [of p "unat cap" q] mod_window [of q "unat cap" p] assms(2-)
    by (cases "p \<le> q") auto
qed simp

lemma drain_budget_nat:
  assumes "committed_epoch_ok (mh_dequeue_owner_epoch (mw_hdr w))"
  shows "unat (drain_budget w) = (2 ^ 64 - 2 - unat (mh_dequeue_owner_epoch (mw_hdr w))) div 2"
  using assms
  by (simp add: drain_budget_def unat_div unat_sub_no_wrap unat_kMax committed_epoch_ok_def not_less)

lemma slot_pos_pushed:
  assumes "mpmc_inv h w" and "deq_nat w \<le> p" and "p < deq_nat w + cap_nat w"
    and "enq_nat w < deq_nat w + cap_nat w"
  shows "slot_pos h (pushed_world h b w) p =
    (if p = enq_nat w then pushed_slot h (enq_pos w) b (slot_pos h w (enq_nat w)) else slot_pos h w p)"
  using ring_window [OF mpmc_inv_geometry [OF assms(1)], of "deq_nat w" p "enq_nat w"] assms
  by (auto simp: slot_pos_def pushed_world_def mpmc_inv_def)

lemma enq_pushed:
  assumes "enq_nat w + cap_nat w < 2 ^ 64" and "1 \<le> cap_nat w"
  shows "enq_nat (pushed_world h b w) = Suc (enq_nat w)"
  using assms by (simp add: pushed_world_def unat_add_no_wrap)

lemma pushed_world_fields [simp]:
  "deq_pos (pushed_world h b w) = deq_pos w"
  "mh_immutable (mw_hdr (pushed_world h b w)) = mh_immutable (mw_hdr w)"
  "mh_init_state (mw_hdr (pushed_world h b w)) = mh_init_state (mw_hdr w)"
  "mh_enqueue_lock (mw_hdr (pushed_world h b w)) = lock_word LockFree"
  "mh_dequeue_lock (mw_hdr (pushed_world h b w)) = mh_dequeue_lock (mw_hdr w)"
  "mh_enqueue_owner_epoch (mw_hdr (pushed_world h b w)) = mh_enqueue_owner_epoch (mw_hdr w) + 2"
  "mh_dequeue_owner_epoch (mw_hdr (pushed_world h b w)) = mh_dequeue_owner_epoch (mw_hdr w)"
  "drain_budget (pushed_world h b w) = drain_budget w"
  by (simp_all add: pushed_world_def drain_budget_def)

lemma pushed_slot_published:
  assumes "vacant x (unat e)" and "unat e + 1 < 2 ^ 64" and "4 \<le> kMaxCommittedOwnerEpoch - sl_owner_epoch x"
  shows "published (pushed_slot h e b x) (unat e)"
proof -
  have ok: "committed_epoch_ok (sl_owner_epoch x)"
    using assms(1) by (simp add: vacant_def)
  have left: "unat (sl_owner_epoch x) + 4 \<le> 2 ^ 64 - 2"
    using assms(3) epoch_left_iff [OF ok, of 4] by simp
  then have "2 \<le> kMaxCommittedOwnerEpoch - sl_owner_epoch x"
    using epoch_left_iff [OF ok, of 2] by simp
  from epoch_next [OF ok this] left show ?thesis
    using assms(2) by (simp add: published_def pushed_slot_def unat_add_no_wrap epoch_left_iff)
qed

lemma mpmc_inv_pushed:
  assumes inv: "mpmc_inv h w" and room: "enq_nat w < deq_nat w + cap_nat w"
    and adm: "push_admissible h w"
  shows "mpmc_inv h (pushed_world h b w)"
proof -
  note inv' = inv [unfolded mpmc_inv_def] and adm' = adm [unfolded push_admissible_def]
  have cap: "1 \<le> cap_nat w" using inv' by (simp add: mpmc_geometry_def)
  have enq: "enq_nat (pushed_world h b w) = Suc (enq_nat w)"
    using adm' cap by (intro enq_pushed) auto
  have pub: "published (slot_pos h (pushed_world h b w) p) p"
    if "p \<in> {deq_nat w ..< Suc (enq_nat w)}" for p
  proof (cases "p = enq_nat w")
    case True
    have "published (pushed_slot h (enq_pos w) b (slot_pos h w (enq_nat w))) (enq_nat w)"
      by (rule pushed_slot_published) (use inv' adm' room cap in auto)
    with True slot_pos_pushed [OF inv _ _ room, of p b] inv' room show ?thesis by simp
  next
    case False
    with that slot_pos_pushed [OF inv _ _ room, of p b] inv' room show ?thesis by simp
  qed
  have vac: "vacant (slot_pos h (pushed_world h b w) p) p"
    if "p \<in> {Suc (enq_nat w) ..< deq_nat w + cap_nat w}" for p
    using that slot_pos_pushed [OF inv _ _ room, of p b] inv' by simp
  have "committed_epoch_ok (mh_enqueue_owner_epoch (mw_hdr w) + 2)"
    using inv' adm' by (intro epoch_next) auto
  then show ?thesis
    using inv' adm' room pub vac unfolding mpmc_inv_def pushed_world_fields enq by auto
qed

lemma mpmc_contents_pushed:
  assumes inv: "mpmc_inv h w" and room: "enq_nat w < deq_nat w + cap_nat w"
    and adm: "push_admissible h w" and len: "length b = unat (mpmc_payload_size w)"
  shows "mpmc_contents h (pushed_world h b w) = mpmc_contents h w @ [b]"
proof -
  note inv' = inv [unfolded mpmc_inv_def]
  have enq: "enq_nat (pushed_world h b w) = Suc (enq_nat w)"
    using inv' adm by (intro enq_pushed) (auto simp: push_admissible_def mpmc_geometry_def)
  have "payload_of (mpmc_payload_size w) (pushed_slot h (enq_pos w) b x) = b" for x
    using map_store_bytes [of "sl_payload x" 0 b] len by (simp add: payload_of_def pushed_slot_def)
  then show ?thesis
    using inv' room slot_pos_pushed [OF inv _ _ room, of _ b]
    by (simp add: mpmc_contents_def enq)
qed

subsection \<open>Pop, alone\<close>

definition popped_slot :: "mpmc_handle \<Rightarrow> u64 \<Rightarrow> u32 \<Rightarrow> mpmc_slot \<Rightarrow> mpmc_slot" where
  "popped_slot h d cap x =
     x\<lparr>sl_owner := owner_from_process (mq_self h), sl_ticket := d,
       sl_owner_epoch := sl_owner_epoch x + 2, sl_sequence := d + ucast cap,
       sl_state := slot_word SlotFree\<rparr>"

definition popped_world :: "mpmc_handle \<Rightarrow> mpmc_world \<Rightarrow> mpmc_world" where
  "popped_world h w =
     w\<lparr>mw_hdr := (mw_hdr w)\<lparr>
         mh_dequeue_owner := owner_from_process (mq_self h),
         mh_dequeue_owner_epoch := mh_dequeue_owner_epoch (mw_hdr w) + 2,
         mh_dequeue_position := deq_pos w + 1, mh_dequeue_lock := lock_word LockFree,
         mh_notify_epoch := mh_notify_epoch (mw_hdr w) + 1\<rparr>,
       mw_slots := (mw_slots w)(ring_at h w (deq_nat w) :=
         popped_slot h (deq_pos w) (mpmc_capacity w) (slot_pos h w (deq_nat w))),
       mw_kern := log_call CallWake (mw_kern w)\<rparr>"

lemma run_pop_slot:
  assumes "published x p" and "x = mw_slots w off"
  shows "run (pop_slot h d (d + 1) (d + ucast cap) ps off) w =
     (Inr (payload_of ps x),
      w\<lparr>mw_slots := (mw_slots w)(off := popped_slot h d cap x),
        mw_hdr := (mw_hdr w)\<lparr>mh_dequeue_position := d + 1, mh_dequeue_lock := lock_word LockFree,
          mh_notify_epoch := mh_notify_epoch (mw_hdr w) + 1\<rparr>,
        mw_kern := log_call CallWake (mw_kern w)\<rparr>)"
proof -
  have "\<not> 2 > kMaxCommittedOwnerEpoch - sl_owner_epoch x" "2 \<le> kMaxCommittedOwnerEpoch - sl_owner_epoch x"
    using assms(1) by (auto simp: published_def)
  then show ?thesis
    using assms
    by (simp add: pop_slot_def run_simps published_def committed_epoch_ok_def release_gate_def
        gate_for_def set_owner_def notify_waiters_def futex_wake_def popped_slot_def payload_of_def)
qed

lemma run_claim_dequeue_gate:
  assumes "mh_dequeue_lock (mw_hdr w) = lock_word LockFree"
  shows "run (claim_gate h False) w =
     (Inr (), w\<lparr>mw_hdr := (mw_hdr w)\<lparr>mh_dequeue_lock := lock_word LockClaiming\<rparr>\<rparr>)"
  using assms by (simp add: claim_gate_def gate_for_def run_simps)

lemma run_commit_dequeue_gate:
  assumes "committed_epoch_ok (mh_dequeue_owner_epoch (mw_hdr w))"
    and "2 \<le> kMaxCommittedOwnerEpoch - mh_dequeue_owner_epoch (mw_hdr w)"
  shows "run (commit_claimed_gate h False) w =
     (Inr (), w\<lparr>mw_hdr := (mw_hdr w)\<lparr>mh_dequeue_owner := owner_from_process (mq_self h),
         mh_dequeue_owner_epoch := mh_dequeue_owner_epoch (mw_hdr w) + 2,
         mh_dequeue_lock := lock_word LockOwned\<rparr>\<rparr>)"
proof -
  have "\<not> 2 > kMaxCommittedOwnerEpoch - mh_dequeue_owner_epoch (mw_hdr w)"
    using assms(2) by (simp add: not_less)
  then show ?thesis
    using assms
    by (simp add: commit_claimed_gate_def gate_for_def run_simps set_owner_def committed_epoch_ok_def)
qed

lemma budget_left:
  assumes "committed_epoch_ok (mh_dequeue_owner_epoch (mw_hdr w))" and "0 < unat (drain_budget w)"
  shows "2 \<le> kMaxCommittedOwnerEpoch - mh_dequeue_owner_epoch (mw_hdr w)"
  using assms drain_budget_nat [OF assms(1)] epoch_left_iff [OF assms(1), of 2] by simp

lemma run_pop_empty:
  assumes inv: "mpmc_inv h w"
  shows "run (pop_empty_unlocked h) w = (Inl kQueueEmpty, w)"
  using inv [unfolded mpmc_inv_def] run_observe_free_gate [of True w]
  by (simp add: pop_empty_unlocked_def run_simps gate_for_def pop_empty_result_def
      owner_observation_is_unrecoverable_def snapshot_of_def)

lemma run_pop_locked:
  assumes inv: "mpmc_inv h w" and some: "deq_nat w < enq_nat w"
  shows "run (pop_locked h (mpmc_capacity w) (mpmc_payload_size w))
           (w\<lparr>mw_hdr := (mw_hdr w)\<lparr>mh_dequeue_lock := lock_word LockClaiming\<rparr>\<rparr>) =
         (Inr (payload_of (mpmc_payload_size w) (slot_pos h w (deq_nat w))), popped_world h w)"
proof -
  note inv' = inv [unfolded mpmc_inv_def]
  have pos: "validate_queue_positions (enq_pos w) (deq_pos w) (mpmc_capacity w) = Inr ()"
    by (rule validate_queue_positions_ok) (use inv' in auto)
  have bounds: "validate_ticket_bounds (deq_pos w) (mpmc_capacity w) =
      Inr (deq_pos w + 1, deq_pos w + ucast (mpmc_capacity w))"
    using inv' some by (subst validate_ticket_bounds_eq) (auto simp: mpmc_geometry_def)
  have ne: "deq_pos w \<noteq> enq_pos w" using some by auto
  have pub: "published (slot_pos h w (deq_nat w)) (deq_nat w)"
    using inv' some by auto
  then have slot: "sl_sequence (slot_pos h w (deq_nat w)) = deq_pos w + 1"
    "sl_state (slot_pos h w (deq_nat w)) = slot_word SlotReady"
    using inv' some by (auto simp: published_def word_unat_eq_iff unat_add_no_wrap mpmc_geometry_def)
  have left: "2 \<le> kMaxCommittedOwnerEpoch - mh_dequeue_owner_epoch (mw_hdr w)"
    using inv' some by (intro budget_left) auto
  show ?thesis
    using pos bounds ne slot inv' left slot_offset_of_eq [OF mpmc_inv_geometry [OF inv]] some
    by (simp add: pop_locked_def pop_committed_def run_simps run_commit_dequeue_gate slot_at_def
        slot_invalid_def slot_pos_def run_pop_slot [OF pub] popped_world_def)
qed

lemma run_try_pop:
  assumes inv: "mpmc_inv h w"
  shows "run (mpmc_try_pop_impl (Some h) False (mpmc_payload_size w)) w =
    (if deq_nat w < enq_nat w
     then (Inr (payload_of (mpmc_payload_size w) (slot_pos h w (deq_nat w))), popped_world h w)
     else if 2 ^ 64 \<le> deq_nat w + cap_nat w then (Inl kSequenceExhausted, w)
     else (Inl kQueueEmpty, w))"
proof -
  note inv' = inv [unfolded mpmc_inv_def]
  have pos: "validate_queue_positions (enq_pos w) (deq_pos w) (mpmc_capacity w) = Inr ()"
    by (rule validate_queue_positions_ok) (use inv' in auto)
  have bounds: "validate_ticket_bounds (deq_pos w) (mpmc_capacity w) =
      (if deq_nat w + cap_nat w < 2 ^ 64
       then Inr (deq_pos w + 1, deq_pos w + ucast (mpmc_capacity w)) else Inl kSequenceExhausted)"
    using inv' by (intro validate_ticket_bounds_eq) (simp add: mpmc_geometry_def)
  have eq: "deq_pos w = enq_pos w \<longleftrightarrow> \<not> deq_nat w < enq_nat w"
    using inv' by (auto simp: word_unat_eq_iff)
  have "drain_budget w \<noteq> 0 \<and> deq_nat w + cap_nat w < 2 ^ 64" if "deq_nat w < enq_nat w"
    using inv' that by (auto simp: word_unat_eq_iff)
  then show ?thesis
    using inv' pos bounds eq run_pop_empty [OF inv] run_pop_locked [OF inv]
      run_dequeue_drain_budget [of w h] run_claim_dequeue_gate [of w h]
    by (auto simp: mpmc_try_pop_impl_def validate_live_handle_def run_simps)
qed

lemma slot_pos_popped:
  assumes "mpmc_inv h w" and "deq_nat w \<le> p" and "p < deq_nat w + cap_nat w"
  shows "slot_pos h (popped_world h w) p =
    (if p = deq_nat w then popped_slot h (deq_pos w) (mpmc_capacity w) (slot_pos h w (deq_nat w))
     else slot_pos h w p)"
  using ring_window [OF mpmc_inv_geometry [OF assms(1)], of "deq_nat w" p "deq_nat w"] assms
  by (auto simp: slot_pos_def popped_world_def mpmc_inv_def mpmc_geometry_def)

lemma slot_pos_popped_last:
  assumes "mpmc_inv h w"
  shows "slot_pos h (popped_world h w) (deq_nat w + cap_nat w) =
    popped_slot h (deq_pos w) (mpmc_capacity w) (slot_pos h w (deq_nat w))"
  using ring_eq_iff [OF mpmc_inv_geometry [OF assms], of "deq_nat w + cap_nat w" "deq_nat w"]
  by (simp add: slot_pos_def popped_world_def)

lemma popped_world_fields [simp]:
  "enq_pos (popped_world h w) = enq_pos w"
  "deq_pos (popped_world h w) = deq_pos w + 1"
  "mh_immutable (mw_hdr (popped_world h w)) = mh_immutable (mw_hdr w)"
  "mh_init_state (mw_hdr (popped_world h w)) = mh_init_state (mw_hdr w)"
  "mh_enqueue_lock (mw_hdr (popped_world h w)) = mh_enqueue_lock (mw_hdr w)"
  "mh_dequeue_lock (mw_hdr (popped_world h w)) = lock_word LockFree"
  "mh_enqueue_owner_epoch (mw_hdr (popped_world h w)) = mh_enqueue_owner_epoch (mw_hdr w)"
  "mh_dequeue_owner_epoch (mw_hdr (popped_world h w)) = mh_dequeue_owner_epoch (mw_hdr w) + 2"
  by (simp_all add: popped_world_def)

lemma popped_slot_vacant:
  assumes "published x (unat d)" and "unat d + unat cap < 2 ^ 64"
  shows "vacant (popped_slot h d cap x) (unat d + unat cap)"
  using assms epoch_next [of "sl_owner_epoch x"]
  by (auto simp: vacant_def popped_slot_def published_def unat_add_no_wrap)

lemma deq_popped:
  assumes inv: "mpmc_inv h w" and some: "deq_nat w < enq_nat w"
  shows "unat (deq_pos w + 1) = Suc (deq_nat w)"
  using assms unat_u64_less [of "enq_pos w"] by (simp add: unat_add_no_wrap)

lemma Suc_div_two_diff: "m + 2 \<le> n \<Longrightarrow> Suc ((n - Suc (Suc m)) div 2) = (n - m) div (2 :: nat)"
  by presburger

lemma budget_popped:
  assumes inv: "mpmc_inv h w" and some: "deq_nat w < enq_nat w"
  shows "Suc (unat (drain_budget (popped_world h w))) = unat (drain_budget w)"
    and "committed_epoch_ok (mh_dequeue_owner_epoch (mw_hdr w) + 2)"
proof -
  note inv' = inv [unfolded mpmc_inv_def]
  have left: "2 \<le> kMaxCommittedOwnerEpoch - mh_dequeue_owner_epoch (mw_hdr w)"
    using inv' some by (intro budget_left) auto
  from inv' left have next_epoch:
    "unat (mh_dequeue_owner_epoch (mw_hdr w) + 2) = unat (mh_dequeue_owner_epoch (mw_hdr w)) + 2"
    and ok: "committed_epoch_ok (mh_dequeue_owner_epoch (mw_hdr w) + 2)"
    using epoch_next [of "mh_dequeue_owner_epoch (mw_hdr w)"] by auto
  show "committed_epoch_ok (mh_dequeue_owner_epoch (mw_hdr w) + 2)" by (rule ok)
  show "Suc (unat (drain_budget (popped_world h w))) = unat (drain_budget w)"
    using drain_budget_nat [of w] drain_budget_nat [of "popped_world h w"] next_epoch ok inv'
      epoch_left_iff [of "mh_dequeue_owner_epoch (mw_hdr w)" 2] left
      Suc_div_two_diff [of "unat (mh_dequeue_owner_epoch (mw_hdr w))" "2 ^ 64 - 2"]
    by simp
qed

lemma mpmc_inv_popped:
  assumes inv: "mpmc_inv h w" and some: "deq_nat w < enq_nat w"
  shows "mpmc_inv h (popped_world h w)"
proof -
  note inv' = inv [unfolded mpmc_inv_def]
  note deq = deq_popped [OF inv some] and budget = budget_popped [OF inv some]
  have pub: "published (slot_pos h (popped_world h w) p) p"
    if "p \<in> {Suc (deq_nat w) ..< enq_nat w}" for p
    using that inv' slot_pos_popped [OF inv, of p] by simp
  have vac: "vacant (slot_pos h (popped_world h w) p) p"
    if "p \<in> {enq_nat w ..< Suc (deq_nat w) + cap_nat w}" for p
  proof (cases "p = deq_nat w + cap_nat w")
    case True
    have "vacant (popped_slot h (deq_pos w) (mpmc_capacity w) (slot_pos h w (deq_nat w)))
        (deq_nat w + cap_nat w)"
      using inv' some by (intro popped_slot_vacant) auto
    with True show ?thesis by (simp add: slot_pos_popped_last [OF inv])
  next
    case False
    with that inv' some slot_pos_popped [OF inv, of p] show ?thesis by simp
  qed
  show ?thesis
    using inv' some pub vac budget
    unfolding mpmc_inv_def popped_world_fields deq by auto
qed

lemma mpmc_contents_popped:
  assumes inv: "mpmc_inv h w" and some: "deq_nat w < enq_nat w"
  shows "mpmc_contents h w =
    payload_of (mpmc_payload_size w) (slot_pos h w (deq_nat w)) # mpmc_contents h (popped_world h w)"
proof -
  have "slot_pos h (popped_world h w) p = slot_pos h w p" if "p \<in> {Suc (deq_nat w) ..< enq_nat w}" for p
    using that inv slot_pos_popped [OF inv, of p] by (simp add: mpmc_inv_def)
  then show ?thesis
    using some deq_popped [OF inv some]
    by (simp add: mpmc_contents_def upt_conv_Cons [of "deq_nat w"])
qed

lemma length_mpmc_contents: "length (mpmc_contents h w) = enq_nat w - deq_nat w"
  by (simp add: mpmc_contents_def)

lemma mpmc_contents_cong:
  assumes "enq_pos v = enq_pos w" and "deq_pos v = deq_pos w"
    and "mh_immutable (mw_hdr v) = mh_immutable (mw_hdr w)"
    and "\<And>p. p \<in> {deq_nat w ..< enq_nat w} \<Longrightarrow> slot_pos h v p = slot_pos h w p"
  shows "mpmc_contents h v = mpmc_contents h w"
  using assms by (simp add: mpmc_contents_def)

lemma mpmc_contents_exhausted:
  "mpmc_contents h (exhausted_gate_world w) = mpmc_contents h w"
  by (rule mpmc_contents_cong) (simp_all add: exhausted_gate_world_def slot_pos_def)

lemma mpmc_contents_exhausted_slot:
  assumes inv: "mpmc_inv h w" and room: "enq_nat w < deq_nat w + cap_nat w"
  shows "mpmc_contents h (exhausted_slot_world h w) = mpmc_contents h w"
proof (rule mpmc_contents_cong)
  fix p assume "p \<in> {deq_nat w ..< enq_nat w}"
  then show "slot_pos h (exhausted_slot_world h w) p = slot_pos h w p"
    using ring_window [OF mpmc_inv_geometry [OF inv], of "deq_nat w" p "enq_nat w"] inv room
    by (auto simp: slot_pos_def exhausted_slot_world_def with_enqueue_gate_def mpmc_inv_def)
qed (simp_all add: exhausted_slot_world_def with_enqueue_gate_def)

text \<open>An empty queue of two slots with payloads of one byte.\<close>

definition sample_header :: mpmc_header where
  "sample_header =
     \<lparr>mh_immutable =
        \<lparr>mi_magic = [], mi_abi_major = 0, mi_abi_minor = 0, mi_header_size = 320, mi_endian_marker = 0,
         mi_capacity = 2, mi_payload_size = 1, mi_schema_version = 1, mi_reserved0 = 0, mi_mapping_size = 576,
         mi_schema_fingerprint = [], mi_generation = 1, mi_nonce_hi = 1, mi_nonce_lo = 2,
         mi_creator = owner_none\<rparr>,
      mh_enqueue_position = 0, mh_dequeue_position = 0, mh_enqueue_lock = lock_word LockFree,
      mh_dequeue_lock = lock_word LockFree, mh_init_state = init_word InitReady,
      mh_enqueue_owner = owner_none, mh_dequeue_owner = owner_none, mh_header_checksum = 0,
      mh_notify_epoch = 0, mh_enqueue_owner_epoch = 0, mh_dequeue_owner_epoch = 0\<rparr>"

definition sample_queue :: mpmc_world where
  "sample_queue =
     \<lparr>mw_hdr = sample_header,
      mw_slots = (\<lambda>off. \<lparr>sl_sequence = (off - 320) div 128, sl_state = slot_word SlotFree,
        sl_owner = owner_none, sl_ticket = 0, sl_owner_epoch = 0, sl_payload = (\<lambda>_. 0)\<rparr>),
      mw_kern = sample_kernel\<rparr>"

definition sample_handle :: mpmc_handle where
  "sample_handle =
     \<lparr>mq_shm_name = ''/er_mpmc_sample'', mq_dev = 1, mq_ino = 2,
      mq_self = \<lparr>id_pid = 42, id_ticks = 777, id_boot_hi = 1, id_boot_lo = 2\<rparr>,
      mq_slot_stride = 128, mq_created = True, mq_removed = False\<rparr>"

lemma sample_queue_inv: "mpmc_inv sample_handle sample_queue"
proof -
  have geo: "mpmc_geometry 2 1 128"
    by (simp add: mpmc_geometry_def mpmc_stride_for_def round_up_to_multiple_u64_def
      checked_add_u64_def kMpmcSlotHeaderSize_def U64_MAX_def kMpmcMaxPayloadSize_def Let_def)
  have r: "{0..<Suc (Suc 0)} = {0, 1}" by auto
  show ?thesis
    using geo
    by (simp add: mpmc_inv_def sample_queue_def sample_handle_def sample_header_def committed_epoch_ok_def
        drain_budget_def kMaxCommittedOwnerEpoch_def r vacant_def slot_pos_def ring_def)
qed

lemma sample_queue_contents: "mpmc_contents sample_handle sample_queue = []"
  by (simp add: mpmc_contents_def sample_queue_def sample_header_def)

lemma sample_queue_fields:
  "mpmc_capacity sample_queue = 2" "mpmc_payload_size sample_queue = 1"
  "enq_pos sample_queue = 0" "deq_pos sample_queue = 0"
  by (simp_all add: sample_queue_def sample_header_def)

lemma sample_queue_admissible: "push_admissible sample_handle sample_queue"
  unfolding push_admissible_def sample_queue_fields
  by (simp add: sample_queue_def sample_header_def drain_budget_def kMaxCommittedOwnerEpoch_def
      U64_MAX_def slot_pos_def)

text \<open>
  C4. A push into a queue at rest with the invariant implements appending to a bounded list: success
  appends exactly the payload and keeps the invariant; every error leaves the contents as they were,
  and the error for a full queue is returned only if the queue holds as many messages as its capacity.
\<close>

theorem mpmc_push_refines:
  assumes "mpmc_inv h w" and "length b = unat (mpmc_payload_size w)"
  shows "case run (mpmc_try_push_impl (Some h) (Some b) (mpmc_payload_size w)) w of
      (Inr _, w') \<Rightarrow> mpmc_inv h w' \<and> mpmc_contents h w' = mpmc_contents h w @ [b] \<and>
                    length (mpmc_contents h w) < cap_nat w
    | (Inl e, w') \<Rightarrow> mpmc_contents h w' = mpmc_contents h w \<and>
                    (e = kQueueFull \<and> w' = w \<and> length (mpmc_contents h w) = cap_nat w \<or>
                     e = kSequenceExhausted \<and> w' = w \<or> e = kRecoveryBlocked)"
proof -
  have le: "enq_nat w \<le> deq_nat w + cap_nat w" "deq_nat w \<le> enq_nat w"
    using assms(1) by (auto simp: mpmc_inv_def)
  then have room: "enq_nat w < deq_nat w + cap_nat w" if "enq_nat w \<noteq> deq_nat w + cap_nat w"
    using that by simp
  show ?thesis
    using assms(2) le room mpmc_contents_exhausted [of h w] mpmc_contents_exhausted_slot [OF assms(1)]
      mpmc_inv_pushed [OF assms(1), of b] mpmc_contents_pushed [OF assms(1) _ _ assms(2)]
    by (auto simp: run_try_push [OF assms(1)] length_mpmc_contents push_admissible_def not_le not_less)
qed

theorem mpmc_push_refines_witness:
  "case run (mpmc_try_push_impl (Some sample_handle) (Some [7]) (mpmc_payload_size sample_queue)) sample_queue of
      (Inr _, w') \<Rightarrow> mpmc_inv sample_handle w' \<and>
                    mpmc_contents sample_handle w' = mpmc_contents sample_handle sample_queue @ [[7]] \<and>
                    length (mpmc_contents sample_handle sample_queue) < cap_nat sample_queue
    | (Inl e, w') \<Rightarrow> mpmc_contents sample_handle w' = mpmc_contents sample_handle sample_queue \<and>
                    (e = kQueueFull \<and> w' = sample_queue \<and>
                     length (mpmc_contents sample_handle sample_queue) = cap_nat sample_queue \<or>
                     e = kSequenceExhausted \<and> w' = sample_queue \<or> e = kRecoveryBlocked)"
  by (rule mpmc_push_refines [OF sample_queue_inv]) (simp add: sample_queue_fields)

text \<open>
  C5. A push into a queue at rest that is not full returns success, as long as the sequence numbers
  and the owner epochs it needs are not used up.
\<close>

theorem mpmc_push_succeeds:
  assumes "mpmc_inv h w" and "length (mpmc_contents h w) < cap_nat w" and "push_admissible h w"
  shows "fst (run (mpmc_try_push_impl (Some h) (Some b) (mpmc_payload_size w)) w) = Inr ()"
  using assms
  by (auto simp: run_try_push [OF assms(1)] length_mpmc_contents push_admissible_def mpmc_inv_def
      not_less not_le)

theorem mpmc_push_succeeds_witness:
  "fst (run (mpmc_try_push_impl (Some sample_handle) (Some [7]) (mpmc_payload_size sample_queue)) sample_queue)
     = Inr ()"
  by (rule mpmc_push_succeeds [OF sample_queue_inv _ sample_queue_admissible])
    (simp add: sample_queue_contents sample_queue_fields)

text \<open>
  C6. A pop from a queue at rest with the invariant implements taking the head of a list: the oldest
  message is returned, the rest stays in order and the invariant is kept; from an empty queue nothing
  is taken and nothing is changed.
\<close>

theorem mpmc_pop_refines:
  assumes "mpmc_inv h w"
  shows "case mpmc_contents h w of
      [] \<Rightarrow> \<exists>e \<in> {kQueueEmpty, kSequenceExhausted}.
              run (mpmc_try_pop_impl (Some h) False (mpmc_payload_size w)) w = (Inl e, w)
    | b # q \<Rightarrow> \<exists>w'. run (mpmc_try_pop_impl (Some h) False (mpmc_payload_size w)) w = (Inr b, w') \<and>
              mpmc_inv h w' \<and> mpmc_contents h w' = q"
proof (cases "deq_nat w < enq_nat w")
  case True
  then show ?thesis
    using mpmc_inv_popped [OF assms True] mpmc_contents_popped [OF assms True]
    by (simp add: run_try_pop [OF assms])
next
  case False
  then have "mpmc_contents h w = []"
    by (simp add: mpmc_contents_def)
  with False show ?thesis by (simp add: run_try_pop [OF assms])
qed

theorem mpmc_pop_refines_witness:
  "case mpmc_contents sample_handle (pushed_world sample_handle [7] sample_queue) of
      [] \<Rightarrow> \<exists>e \<in> {kQueueEmpty, kSequenceExhausted}.
              run (mpmc_try_pop_impl (Some sample_handle) False 1) (pushed_world sample_handle [7] sample_queue) =
              (Inl e, pushed_world sample_handle [7] sample_queue)
    | b # q \<Rightarrow> \<exists>w'. run (mpmc_try_pop_impl (Some sample_handle) False 1) (pushed_world sample_handle [7] sample_queue) =
              (Inr b, w') \<and> mpmc_inv sample_handle w' \<and> mpmc_contents sample_handle w' = q"
proof -
  have "mpmc_inv sample_handle (pushed_world sample_handle [7] sample_queue)"
    by (rule mpmc_inv_pushed [OF sample_queue_inv _ sample_queue_admissible])
      (simp add: sample_queue_fields)
  from mpmc_pop_refines [OF this, unfolded pushed_world_fields sample_queue_fields] show ?thesis .
qed

end
