(* ===== verification/ER_Mpmc_Conc.thy ===== *)
theory ER_Mpmc_Conc
  imports ER_Mpmc_Seq
begin

text \<open>
  The MPMC queue under arbitrary interleaving: the invariant that every atomic action keeps, and
  what one process may rely on while the others run. The ghost data names the holder of each gate,
  says whether the holder has the slot at its position in hand, and logs the messages in the order
  in which they enter and leave the queue. \<open>mpmc_shared_inv\<close> ties the logs to the contents:
  what was in the queue at the start, followed by what has entered, is what has left, followed
  by what is there now.
\<close>

record mpmc_ghost =
  gh_enq :: "(nat \<times> bool) option"
  gh_deq :: "(nat \<times> bool) option"
  gh_in :: "(nat \<times> bytes) list"
  gh_out :: "(nat \<times> bytes) list"

type_synonym mpmc_config = "mpmc_world \<times> mpmc_ghost"

definition own :: "nat \<Rightarrow> (nat \<times> bytes) list \<Rightarrow> bytes list" where
  "own i l = map snd (filter (\<lambda>x. fst x = i) l)"

definition busy :: "(nat \<times> bool) option \<Rightarrow> bool" where
  "busy x \<longleftrightarrow> (\<exists>i. x = Some (i, True))"

definition readable :: "mpmc_slot \<Rightarrow> nat \<Rightarrow> bool" where
  "readable x p \<longleftrightarrow> unat (sl_sequence x) = Suc p \<and> sl_state x = slot_word SlotReady"

definition writable :: "mpmc_slot \<Rightarrow> nat \<Rightarrow> bool" where
  "writable x p \<longleftrightarrow> unat (sl_sequence x) = p \<and>
     sl_state x \<in> {slot_word SlotFree, slot_word SlotEpochExhausted, slot_word SlotOwnerProtocolFault}"

definition mpmc_shared_inv :: "mpmc_handle \<Rightarrow> bytes list \<Rightarrow> mpmc_config \<Rightarrow> bool" where
  "mpmc_shared_inv h q0 c \<longleftrightarrow>
     (let w = fst c; g = snd c in
      mpmc_geometry (mpmc_capacity w) (mpmc_payload_size w) (mq_slot_stride h) \<and>
      deq_nat w \<le> enq_nat w \<and> enq_nat w \<le> deq_nat w + cap_nat w \<and>
      (\<forall>p \<in> {deq_nat w ..< enq_nat w}. p = deq_nat w \<and> busy (gh_deq g) \<or> readable (slot_pos h w p) p) \<and>
      (\<forall>p \<in> {enq_nat w ..< deq_nat w + cap_nat w}.
         p = enq_nat w \<and> busy (gh_enq g) \<or> writable (slot_pos h w p) p) \<and>
      (busy (gh_enq g) \<longrightarrow> enq_nat w < deq_nat w + cap_nat w) \<and>
      (busy (gh_deq g) \<longrightarrow> deq_nat w < enq_nat w) \<and>
      (mh_enqueue_lock (mw_hdr w) = lock_word LockFree \<longrightarrow> gh_enq g = None) \<and>
      (mh_dequeue_lock (mw_hdr w) = lock_word LockFree \<longrightarrow> gh_deq g = None) \<and>
      q0 @ map snd (gh_in g) = map snd (gh_out g) @ mpmc_contents h w)"

text \<open>What a step of another thread keeps of what thread \<open>i\<close> knows.\<close>

definition mpmc_frame :: "mpmc_handle \<Rightarrow> nat \<Rightarrow> mpmc_config \<Rightarrow> mpmc_config \<Rightarrow> bool" where
  "mpmc_frame h i c d \<longleftrightarrow>
     (let w = fst c; g = snd c; w' = fst d; g' = snd d in
      mh_immutable (mw_hdr w') = mh_immutable (mw_hdr w) \<and>
      enq_nat w \<le> enq_nat w' \<and> deq_nat w \<le> deq_nat w' \<and>
      own i (gh_in g') = own i (gh_in g) \<and> own i (gh_out g') = own i (gh_out g) \<and>
      (\<forall>b. gh_enq g' = Some (i, b) \<longleftrightarrow> gh_enq g = Some (i, b)) \<and>
      (\<forall>b. gh_deq g' = Some (i, b) \<longleftrightarrow> gh_deq g = Some (i, b)) \<and>
      (\<forall>b. gh_enq g = Some (i, b) \<longrightarrow> enq_pos w' = enq_pos w) \<and>
      (\<forall>b. gh_deq g = Some (i, b) \<longrightarrow> deq_pos w' = deq_pos w) \<and>
      (gh_enq g = Some (i, True) \<longrightarrow> slot_pos h w' (enq_nat w) = slot_pos h w (enq_nat w)) \<and>
      (gh_deq g = Some (i, True) \<longrightarrow> slot_pos h w' (deq_nat w) = slot_pos h w (deq_nat w)))"

definition mpmc_rely :: "mpmc_handle \<Rightarrow> bytes list \<Rightarrow> nat \<Rightarrow> mpmc_config \<Rightarrow> mpmc_config \<Rightarrow> bool" where
  "mpmc_rely h q0 i c d \<longleftrightarrow>
     (mpmc_shared_inv h q0 c \<longrightarrow> mpmc_shared_inv h q0 d \<and> mpmc_frame h i c d)"

text \<open>The logs only grow, and thread \<open>i\<close> signs what it appends.\<close>

definition log_extends :: "nat \<Rightarrow> mpmc_ghost \<Rightarrow> mpmc_ghost \<Rightarrow> bool" where
  "log_extends i g g' \<longleftrightarrow>
     (\<exists>bs. gh_in g' = gh_in g @ map (Pair i) bs) \<and> (\<exists>bs. gh_out g' = gh_out g @ map (Pair i) bs)"

lemma log_extends_simps [simp]:
  "gh_in g' = gh_in g \<Longrightarrow> gh_out g' = gh_out g \<Longrightarrow> log_extends i g g'"
  "log_extends i g (g\<lparr>gh_enq := x, gh_in := gh_in g @ [(i, b)]\<rparr>)"
  "log_extends i g (g\<lparr>gh_deq := x, gh_out := gh_out g @ [(i, b)]\<rparr>)"
  unfolding log_extends_def by (auto intro: exI [of _ "[b]"])

definition mpmc_guar :: "mpmc_handle \<Rightarrow> bytes list \<Rightarrow> nat \<Rightarrow> mpmc_config \<Rightarrow> mpmc_config \<Rightarrow> bool" where
  "mpmc_guar h q0 i c d \<longleftrightarrow>
     (mpmc_shared_inv h q0 c \<longrightarrow>
        mpmc_shared_inv h q0 d \<and> log_extends i (snd c) (snd d) \<and>
        (\<forall>j. j \<noteq> i \<longrightarrow> mpmc_frame h j c d))"

definition mpmc_env :: "mpmc_world \<Rightarrow> mpmc_world \<Rightarrow> bool" where
  "mpmc_env w w' \<longleftrightarrow> w' = w\<lparr>mw_kern := mw_kern w'\<rparr>"

lemma mpmc_frame_refl: "mpmc_frame h i c c"
  by (simp add: mpmc_frame_def Let_def)

lemma mpmc_frame_trans: "mpmc_frame h i c d \<Longrightarrow> mpmc_frame h i d e \<Longrightarrow> mpmc_frame h i c e"
  unfolding mpmc_frame_def Let_def by (elim conjE, intro conjI) simp_all

interpretation thr: rg_thread "mpmc_rely h q0 i" "mpmc_guar h q0 i" for h q0 i
proof unfold_locales
  fix c d e
  show "mpmc_rely h q0 i c c"
    by (simp add: mpmc_rely_def mpmc_frame_refl)
  show "mpmc_guar h q0 i c c"
    by (simp add: mpmc_guar_def mpmc_frame_refl)
  show "mpmc_rely h q0 i c d \<Longrightarrow> mpmc_rely h q0 i d e \<Longrightarrow> mpmc_rely h q0 i c e"
    unfolding mpmc_rely_def by (blast intro: mpmc_frame_trans)
qed

lemma kern_only:
  "mpmc_shared_inv h q0 (w\<lparr>mw_kern := k\<rparr>, g) = mpmc_shared_inv h q0 (w, g)"
  "mpmc_frame h i (w, g) (w\<lparr>mw_kern := k\<rparr>, g)"
  by (simp_all add: mpmc_shared_inv_def mpmc_frame_def Let_def slot_pos_def mpmc_contents_def)

interpretation sys: rely_guarantee "mpmc_rely h q0" "mpmc_guar h q0" mpmc_env for h q0
proof (rule rely_guarantee.intro)
  fix i j :: nat and c d :: mpmc_config and s t :: mpmc_world and g
  show "interference (mpmc_rely h q0 i)" by (rule thr.interference_axioms)
  show "mpmc_guar h q0 i c d \<Longrightarrow> i \<noteq> j \<Longrightarrow> mpmc_rely h q0 j c d"
    by (auto simp: mpmc_guar_def mpmc_rely_def)
  assume "mpmc_env s t"
  then obtain k where "t = s\<lparr>mw_kern := k\<rparr>" by (auto simp: mpmc_env_def)
  then show "mpmc_rely h q0 j (s, g) (t, g)"
    by (simp add: mpmc_rely_def kern_only)
qed

abbreviation set_slot :: "mpmc_handle \<Rightarrow> nat \<Rightarrow> mpmc_slot \<Rightarrow> mpmc_world \<Rightarrow> mpmc_world" where
  "set_slot h p x w \<equiv> w\<lparr>mw_slots := (mw_slots w)(ring_at h w p := x)\<rparr>"

lemma slot_pos_set_slot:
  assumes "mpmc_geometry (mpmc_capacity w) ps (mq_slot_stride h)"
    and "d \<le> p" "p < d + cap_nat w" "d \<le> q" "q < d + cap_nat w"
  shows "slot_pos h (set_slot h q x w) p = (if p = q then x else slot_pos h w p)"
  using ring_window [OF assms(1), of d p q] assms(2-) by (auto simp: slot_pos_def)

lemma shared_invI_header:
  assumes "mpmc_shared_inv h q0 (w, g)"
    and "mh_immutable header = mh_immutable (mw_hdr w)"
    and "mh_enqueue_position header = enq_pos w" and "mh_dequeue_position header = deq_pos w"
    and "mh_enqueue_lock header = lock_word LockFree \<Longrightarrow> gh_enq g' = None"
    and "mh_dequeue_lock header = lock_word LockFree \<Longrightarrow> gh_deq g' = None"
    and "gh_in g' = gh_in g" and "gh_out g' = gh_out g"
    and "busy (gh_enq g') = busy (gh_enq g)" and "busy (gh_deq g') = busy (gh_deq g)"
  shows "mpmc_shared_inv h q0 (w\<lparr>mw_hdr := header\<rparr>, g')"
  using assms(1)
  by (simp add: mpmc_shared_inv_def Let_def slot_pos_def mpmc_contents_def assms(2-))

lemma guar_header:
  assumes "mh_immutable header = mh_immutable (mw_hdr w)"
    and "mh_enqueue_position header = enq_pos w" and "mh_dequeue_position header = deq_pos w"
    and "mh_enqueue_lock header = lock_word LockFree \<Longrightarrow> mh_enqueue_lock (mw_hdr w) = lock_word LockFree"
    and "mh_dequeue_lock header = lock_word LockFree \<Longrightarrow> mh_dequeue_lock (mw_hdr w) = lock_word LockFree"
  shows "mpmc_guar h q0 i (w, g) (w\<lparr>mw_hdr := header\<rparr>, g)"
  unfolding mpmc_guar_def
proof (intro impI conjI allI)
  assume inv: "mpmc_shared_inv h q0 (w, g)"
  show "mpmc_shared_inv h q0 (w\<lparr>mw_hdr := header\<rparr>, g)"
    by (rule shared_invI_header [OF inv])
      (use assms inv in \<open>simp_all add: mpmc_shared_inv_def Let_def\<close>)
  show "mpmc_frame h j (w, g) (w\<lparr>mw_hdr := header\<rparr>, g)" for j
    using assms(1-3) by (simp add: mpmc_frame_def Let_def slot_pos_def)
qed simp

lemma guar_kern: "mpmc_guar h q0 i (w, g) (w\<lparr>mw_kern := k\<rparr>, g)"
  by (simp add: mpmc_guar_def kern_only)

text \<open>Taking and leaving a gate: \<open>gh_enq\<close> and \<open>gh_deq\<close> name the holder.\<close>

lemma guar_enqueue_gate:
  assumes "gh_enq g = Some (i, False) \<or> mh_enqueue_lock (mw_hdr w) = lock_word LockFree"
    and "holder = None \<or> holder = Some (i, False)"
    and "lock = lock_word LockFree \<Longrightarrow> holder = None"
  shows "mpmc_guar h q0 i (w, g)
    (w\<lparr>mw_hdr := (mw_hdr w)\<lparr>mh_enqueue_lock := lock\<rparr>\<rparr>, g\<lparr>gh_enq := holder\<rparr>)"
  unfolding mpmc_guar_def
proof (intro impI conjI allI)
  assume inv: "mpmc_shared_inv h q0 (w, g)"
  then have g: "gh_enq g = Some (i, False) \<or> gh_enq g = None"
    using assms(1) by (auto simp: mpmc_shared_inv_def Let_def)
  show "mpmc_shared_inv h q0 (w\<lparr>mw_hdr := (mw_hdr w)\<lparr>mh_enqueue_lock := lock\<rparr>\<rparr>, g\<lparr>gh_enq := holder\<rparr>)"
    by (rule shared_invI_header [OF inv])
      (use assms(2,3) g inv in \<open>auto simp: busy_def mpmc_shared_inv_def Let_def\<close>)
  show "mpmc_frame h j (w, g)
      (w\<lparr>mw_hdr := (mw_hdr w)\<lparr>mh_enqueue_lock := lock\<rparr>\<rparr>, g\<lparr>gh_enq := holder\<rparr>)" if "j \<noteq> i" for j
    using g assms(2) that by (auto simp: mpmc_frame_def Let_def slot_pos_def)
qed simp

lemma guar_dequeue_gate:
  assumes "gh_deq g = Some (i, False) \<or> mh_dequeue_lock (mw_hdr w) = lock_word LockFree"
    and "holder = None \<or> holder = Some (i, False)"
    and "lock = lock_word LockFree \<Longrightarrow> holder = None"
  shows "mpmc_guar h q0 i (w, g)
    (w\<lparr>mw_hdr := (mw_hdr w)\<lparr>mh_dequeue_lock := lock\<rparr>\<rparr>, g\<lparr>gh_deq := holder\<rparr>)"
  unfolding mpmc_guar_def
proof (intro impI conjI allI)
  assume inv: "mpmc_shared_inv h q0 (w, g)"
  then have g: "gh_deq g = Some (i, False) \<or> gh_deq g = None"
    using assms(1) by (auto simp: mpmc_shared_inv_def Let_def)
  show "mpmc_shared_inv h q0 (w\<lparr>mw_hdr := (mw_hdr w)\<lparr>mh_dequeue_lock := lock\<rparr>\<rparr>, g\<lparr>gh_deq := holder\<rparr>)"
    by (rule shared_invI_header [OF inv])
      (use assms(2,3) g inv in \<open>auto simp: busy_def mpmc_shared_inv_def Let_def\<close>)
  show "mpmc_frame h j (w, g)
      (w\<lparr>mw_hdr := (mw_hdr w)\<lparr>mh_dequeue_lock := lock\<rparr>\<rparr>, g\<lparr>gh_deq := holder\<rparr>)" if "j \<noteq> i" for j
    using g assms(2) that by (auto simp: mpmc_frame_def Let_def slot_pos_def)
qed simp

lemma shared_inv_simps:
  "mpmc_shared_inv h q0 (w, g) \<longleftrightarrow>
      mpmc_geometry (mpmc_capacity w) (mpmc_payload_size w) (mq_slot_stride h) \<and>
      deq_nat w \<le> enq_nat w \<and> enq_nat w \<le> deq_nat w + cap_nat w \<and>
      (\<forall>p \<in> {deq_nat w ..< enq_nat w}. p = deq_nat w \<and> busy (gh_deq g) \<or> readable (slot_pos h w p) p) \<and>
      (\<forall>p \<in> {enq_nat w ..< deq_nat w + cap_nat w}.
         p = enq_nat w \<and> busy (gh_enq g) \<or> writable (slot_pos h w p) p) \<and>
      (busy (gh_enq g) \<longrightarrow> enq_nat w < deq_nat w + cap_nat w) \<and>
      (busy (gh_deq g) \<longrightarrow> deq_nat w < enq_nat w) \<and>
      (mh_enqueue_lock (mw_hdr w) = lock_word LockFree \<longrightarrow> gh_enq g = None) \<and>
      (mh_dequeue_lock (mw_hdr w) = lock_word LockFree \<longrightarrow> gh_deq g = None) \<and>
      q0 @ map snd (gh_in g) = map snd (gh_out g) @ mpmc_contents h w"
  by (simp add: mpmc_shared_inv_def)

lemma busy_simps [simp]: "busy None = False" "busy (Some (i, b)) = b"
  by (auto simp: busy_def)

text \<open>The holder of the enqueue gate writes the slot of the next position to fill.\<close>

lemma guar_enqueue_slot:
  assumes "gh_enq g = Some (i, b)" and "enq_nat w < deq_nat w + cap_nat w"
    and "b' \<or> writable x (enq_nat w)"
  shows "mpmc_guar h q0 i (w, g) (set_slot h (enq_nat w) x w, g\<lparr>gh_enq := Some (i, b')\<rparr>)"
    (is "mpmc_guar h q0 i (w, g) (?w, ?g)")
  unfolding mpmc_guar_def
proof (intro impI conjI allI)
  assume inv: "mpmc_shared_inv h q0 (w, g)"
  note inv' = inv [unfolded shared_inv_simps]
  have slot: "slot_pos h ?w p = (if p = enq_nat w then x else slot_pos h w p)"
    if "deq_nat w \<le> p" "p < deq_nat w + cap_nat w" for p
    using inv' that assms(2) by (intro slot_pos_set_slot [of _ _ _ "deq_nat w"]) auto
  have "mpmc_contents h ?w = mpmc_contents h w"
    by (rule mpmc_contents_cong) (use slot inv' assms(2) in auto)
  then show "mpmc_shared_inv h q0 (?w, ?g)"
    using inv' slot assms unfolding shared_inv_simps by auto
  show "mpmc_frame h j (w, g) (?w, ?g)" if "j \<noteq> i" for j
    using inv' slot [of "deq_nat w"] assms that by (auto simp: mpmc_frame_def Let_def)
qed simp

text \<open>The holder of the dequeue gate writes the slot of the oldest message, but not its payload.\<close>

lemma guar_dequeue_slot:
  assumes "gh_deq g = Some (i, b)" and "deq_nat w < enq_nat w"
    and "b' \<or> readable x (deq_nat w)" and "sl_payload x = sl_payload (slot_pos h w (deq_nat w))"
  shows "mpmc_guar h q0 i (w, g) (set_slot h (deq_nat w) x w, g\<lparr>gh_deq := Some (i, b')\<rparr>)"
    (is "mpmc_guar h q0 i (w, g) (?w, ?g)")
  unfolding mpmc_guar_def
proof (intro impI conjI allI)
  assume inv: "mpmc_shared_inv h q0 (w, g)"
  note inv' = inv [unfolded shared_inv_simps]
  have slot: "slot_pos h ?w p = (if p = deq_nat w then x else slot_pos h w p)"
    if "deq_nat w \<le> p" "p < deq_nat w + cap_nat w" for p
    using inv' that assms(2) by (intro slot_pos_set_slot [of _ _ _ "deq_nat w"]) auto
  have "payload_of n (slot_pos h ?w p) = payload_of n (slot_pos h w p)"
    if "p \<in> {deq_nat w ..< enq_nat w}" for p n
    using slot that inv' assms(4) by (auto simp: payload_of_def)
  then have "mpmc_contents h ?w = mpmc_contents h w"
    by (simp add: mpmc_contents_def)
  then show "mpmc_shared_inv h q0 (?w, ?g)"
    using inv' slot assms unfolding shared_inv_simps by auto
  show "mpmc_frame h j (w, g) (?w, ?g)" if "j \<noteq> i" for j
    using inv' slot [of "enq_nat w"] assms that by (auto simp: mpmc_frame_def Let_def)
qed simp

lemma own_append [simp]: "own i (l @ [(j, b)]) = (if j = i then own i l @ [b] else own i l)"
  by (simp add: own_def)

text \<open>Publishing: the store of the enqueue position appends the message.\<close>

lemma guar_publish:
  assumes "gh_enq g = Some (i, True)" and "readable (slot_pos h w (enq_nat w)) (enq_nat w)"
    and "unat e = Suc (enq_nat w)" and "payload_of (mpmc_payload_size w) (slot_pos h w (enq_nat w)) = b"
  shows "mpmc_guar h q0 i (w, g)
    (w\<lparr>mw_hdr := (mw_hdr w)\<lparr>mh_enqueue_position := e\<rparr>\<rparr>,
     g\<lparr>gh_enq := Some (i, False), gh_in := gh_in g @ [(i, b)]\<rparr>)"
    (is "mpmc_guar h q0 i (w, g) (?w, ?g)")
  unfolding mpmc_guar_def
proof (intro impI conjI allI)
  assume inv: "mpmc_shared_inv h q0 (w, g)"
  note inv' = inv [unfolded shared_inv_simps]
  have slot: "slot_pos h ?w p = slot_pos h w p" for p
    by (simp add: slot_pos_def)
  have "mpmc_contents h ?w = mpmc_contents h w @ [b]"
    using inv' assms(3,4) by (simp add: mpmc_contents_def slot)
  moreover have "(q0 @ map snd (gh_in g)) @ [b] = (map snd (gh_out g) @ mpmc_contents h w) @ [b]"
    using inv' by simp
  ultimately have log: "q0 @ map snd (gh_in ?g) = map snd (gh_out ?g) @ mpmc_contents h ?w"
    by simp
  have rd: "p = deq_nat w \<and> busy (gh_deq g) \<or> readable (slot_pos h w p) p"
    if "p \<in> {deq_nat w ..< Suc (enq_nat w)}" for p
    using that inv' assms(2) by (cases "p = enq_nat w") auto
  have wr: "writable (slot_pos h w p) p" if "p \<in> {Suc (enq_nat w) ..< deq_nat w + cap_nat w}" for p
  proof -
    have "p \<in> {enq_nat w ..< deq_nat w + cap_nat w}" and "p \<noteq> enq_nat w" using that by auto
    then show ?thesis using inv' by blast
  qed
  show "mpmc_shared_inv h q0 (?w, ?g)"
    unfolding shared_inv_simps using inv' assms(1,3) rd wr log by (simp add: slot)
  show "mpmc_frame h j (w, g) (?w, ?g)" if "j \<noteq> i" for j
    using inv' slot assms that by (auto simp: mpmc_frame_def Let_def)
qed simp

text \<open>Reclaiming: the store of the dequeue position removes the oldest message.\<close>

lemma guar_reclaim:
  assumes "gh_deq g = Some (i, True)" and "writable (slot_pos h w (deq_nat w)) (deq_nat w + cap_nat w)"
    and "unat d = Suc (deq_nat w)"
    and "b = payload_of (mpmc_payload_size w) (slot_pos h w (deq_nat w))"
  shows "mpmc_guar h q0 i (w, g)
    (w\<lparr>mw_hdr := (mw_hdr w)\<lparr>mh_dequeue_position := d\<rparr>\<rparr>,
     g\<lparr>gh_deq := Some (i, False), gh_out := gh_out g @ [(i, b)]\<rparr>)"
    (is "mpmc_guar h q0 i (w, g) (?w, ?g)")
  unfolding mpmc_guar_def
proof (intro impI conjI allI)
  assume inv: "mpmc_shared_inv h q0 (w, g)"
  note inv' = inv [unfolded shared_inv_simps]
  have some: "deq_nat w < enq_nat w" using inv' assms(1) by simp
  have slot: "slot_pos h ?w p = slot_pos h w p" for p
    by (simp add: slot_pos_def)
  have last: "slot_pos h w (deq_nat w + cap_nat w) = slot_pos h w (deq_nat w)"
    using ring_eq_iff [OF inv' [THEN conjunct1], of "deq_nat w + cap_nat w" "deq_nat w"]
    by (simp add: slot_pos_def)
  have "mpmc_contents h w = b # mpmc_contents h ?w"
    using some assms(3,4) by (simp add: mpmc_contents_def slot upt_conv_Cons [of "deq_nat w"])
  then have log: "q0 @ map snd (gh_in ?g) = map snd (gh_out ?g) @ mpmc_contents h ?w"
    using inv' by simp
  have wr: "p = enq_nat w \<and> busy (gh_enq g) \<or> writable (slot_pos h w p) p"
    if "p \<in> {enq_nat w ..< Suc (deq_nat w + cap_nat w)}" for p
    using that inv' last assms(2) by (cases "p = deq_nat w + cap_nat w") auto
  have rd: "readable (slot_pos h w p) p" if "p \<in> {Suc (deq_nat w) ..< enq_nat w}" for p
  proof -
    have "p \<in> {deq_nat w ..< enq_nat w}" and "p \<noteq> deq_nat w" using that by auto
    then show ?thesis using inv' by blast
  qed
  show "mpmc_shared_inv h q0 (?w, ?g)"
    unfolding shared_inv_simps using inv' assms(1,3) some rd wr log by (simp add: slot)
  show "mpmc_frame h j (w, g) (?w, ?g)" if "j \<noteq> i" for j
    using inv' slot assms that by (auto simp: mpmc_frame_def Let_def)
qed simp

end
