(* ===== verification/ER_Mpmc_Thread.thy ===== *)
theory ER_Mpmc_Thread
  imports ER_Mpmc_Conc
begin

text \<open>
  One process at work among others: assertions that stay true under the rely, and a triple for
  each part of \<open>mpmc_try_push_impl\<close> and \<open>mpmc_try_pop_impl\<close>. A push that returns success has
  logged its payload exactly once, a pop that returns a payload has taken it from the head of the
  queue, and an operation that fails has logged nothing.
\<close>

subsection \<open>The parts that only read\<close>

lemma reads_only_snapshot_gate [reads_only_intros]: "reads_only (snapshot_gate_owner gate)"
  unfolding snapshot_gate_owner_def snapshot_owner_def by (intro reads_only_intros)

lemma reads_only_classify_gate [reads_only_intros]: "reads_only (classify_gate_owner e)"
  unfolding classify_gate_owner_def by (intro reads_only_intros)

lemma reads_only_snapshot_slot [reads_only_intros]: "reads_only (snapshot_slot_owner s e)"
  unfolding snapshot_slot_owner_def snapshot_owner_def by (intro reads_only_intros)

lemma reads_only_confirm [reads_only_intros]: "reads_only (confirm_owner_liveness h e ob)"
  unfolding confirm_owner_liveness_def Let_def by (intro reads_only_intros)

lemma reads_only_gate_busy [reads_only_intros]: "reads_only (gate_busy_result h e)"
  unfolding gate_busy_result_def
  by (intro reads_only_intros, split OwnerSnapshotKind.split) (auto intro!: reads_only_intros simp del: reads_only.simps)

lemma reads_only_unrecoverable [reads_only_intros]:
  "reads_only (owner_observation_is_unrecoverable h e ob)"
  unfolding owner_observation_is_unrecoverable_def
  by (split OwnerSnapshotKind.split) (auto intro!: reads_only_intros simp del: reads_only.simps)

lemma reads_only_budget [reads_only_intros]: "reads_only (dequeue_drain_budget h)"
  unfolding dequeue_drain_budget_def
  by (intro reads_only_intros, split OwnerSnapshotKind.split) (auto intro!: reads_only_intros simp del: reads_only.simps)

lemma reads_only_positions [reads_only_intros]: "reads_only snapshot_queue_positions"
proof -
  have "reads_only (snapshot_queue_positions_loop n)" for n
    by (induction n) (auto intro!: reads_only_intros simp del: reads_only.simps)
  then show ?thesis by (simp add: snapshot_queue_positions_def)
qed

lemma reads_only_admission [reads_only_intros]: "reads_only (validate_push_drain_admission h e d)"
proof -
  have "reads_only (push_drain_admission_loop h c n e d)" for c n e d
    by (induction n arbitrary: e d)
      (auto intro!: reads_only_intros simp del: reads_only.simps split: sum.splits option.splits prod.splits)
  then show ?thesis
    unfolding validate_push_drain_admission_def by (intro reads_only_intros)
qed

lemma reads_only_push_full_result [reads_only_intros]: "reads_only (push_full_result h x)"
  unfolding push_full_result_def
  by (intro reads_only_intros) (auto intro!: reads_only_intros simp del: reads_only.simps split: sum.splits)

lemma reads_only_push_full [reads_only_intros]: "reads_only (push_full_unlocked h)"
  unfolding push_full_unlocked_def by (intro reads_only_intros)

lemma reads_only_pop_empty_result [reads_only_intros]: "reads_only (pop_empty_result x)"
  unfolding pop_empty_result_def by (intro reads_only_intros)

lemma reads_only_pop_empty [reads_only_intros]: "reads_only (pop_empty_unlocked h)"
  unfolding pop_empty_unlocked_def by (intro reads_only_intros)

lemma reads_only_slot_at [reads_only_intros]: "reads_only (slot_at h p)"
  unfolding slot_at_def by (intro reads_only_intros)

lemma reads_only_slot_invalid [reads_only_intros]: "reads_only (slot_invalid s q st)"
  unfolding slot_invalid_def by (cases s) (auto intro!: reads_only_intros simp del: reads_only.simps)

lemma reads_only_live_handle [reads_only_intros]: "reads_only (validate_live_handle h)"
  unfolding validate_live_handle_def by (cases h) (auto intro!: reads_only_intros simp del: reads_only.simps)

lemma reads_only_epoch_capacity [reads_only_intros]: "reads_only (owner_epoch_capacity ep r)"
  unfolding owner_epoch_capacity_def by (intro reads_only_intros)

subsection \<open>Assertions of a thread\<close>

definition sees :: "nat \<Rightarrow> (nat \<times> bool) option \<Rightarrow> bool option \<Rightarrow> bool" where
  "sees i x v \<longleftrightarrow> (case v of None \<Rightarrow> \<forall>b. x \<noteq> Some (i, b) | Some b \<Rightarrow> x = Some (i, b))"

lemma sees_simps [simp]:
  "sees i x None \<longleftrightarrow> (\<forall>b. x \<noteq> Some (i, b))" "sees i x (Some b) \<longleftrightarrow> x = Some (i, b)"
  by (simp_all add: sees_def)

record thread_view =
  tv_id :: nat
  tv_immutable :: mpmc_immutable
  tv_in :: "bytes list"
  tv_out :: "bytes list"

definition mpmc_at ::
  "mpmc_handle \<Rightarrow> bytes list \<Rightarrow> thread_view \<Rightarrow> bool option \<Rightarrow> bool option \<Rightarrow> mpmc_config \<Rightarrow> bool" where
  "mpmc_at h q0 v ve vd c \<longleftrightarrow>
     mpmc_shared_inv h q0 c \<and> mh_immutable (mw_hdr (fst c)) = tv_immutable v \<and>
     sees (tv_id v) (gh_enq (snd c)) ve \<and> sees (tv_id v) (gh_deq (snd c)) vd \<and>
     own (tv_id v) (gh_in (snd c)) = tv_in v \<and> own (tv_id v) (gh_out (snd c)) = tv_out v"

lemma mpmc_at_rely:
  assumes "mpmc_at h q0 v ve vd c" and "mpmc_rely h q0 (tv_id v) c d"
  shows "mpmc_at h q0 v ve vd d" and "mpmc_frame h (tv_id v) c d"
proof -
  show fr: "mpmc_frame h (tv_id v) c d"
    using assms by (simp add: mpmc_at_def mpmc_rely_def)
  show "mpmc_at h q0 v ve vd d"
    using assms fr
    by (auto simp: mpmc_at_def mpmc_rely_def mpmc_frame_def Let_def sees_def split: option.splits)
qed

lemma mpmc_frameD:
  assumes "mpmc_frame h i c d"
  shows "enq_nat (fst c) \<le> enq_nat (fst d)" and "deq_nat (fst c) \<le> deq_nat (fst d)"
    and "gh_enq (snd c) = Some (i, b) \<Longrightarrow> enq_pos (fst d) = enq_pos (fst c)"
    and "gh_deq (snd c) = Some (i, b) \<Longrightarrow> deq_pos (fst d) = deq_pos (fst c)"
    and "gh_enq (snd c) = Some (i, True) \<Longrightarrow>
           slot_pos h (fst d) (enq_nat (fst c)) = slot_pos h (fst c) (enq_nat (fst c))"
    and "gh_deq (snd c) = Some (i, True) \<Longrightarrow>
           slot_pos h (fst d) (deq_nat (fst c)) = slot_pos h (fst c) (deq_nat (fst c))"
  using assms by (simp_all add: mpmc_frame_def Let_def)

definition prod_at ::
  "mpmc_handle \<Rightarrow> bytes list \<Rightarrow> thread_view \<Rightarrow> bool \<Rightarrow> u64 \<Rightarrow> u64 \<Rightarrow> (mpmc_slot \<Rightarrow> bool) \<Rightarrow> mpmc_config \<Rightarrow> bool" where
  "prod_at h q0 v b e d P c \<longleftrightarrow>
     mpmc_at h q0 v (Some b) None c \<and> enq_pos (fst c) = e \<and> unat d \<le> deq_nat (fst c) \<and>
     (b \<longrightarrow> P (slot_pos h (fst c) (unat e)))"

definition cons_at ::
  "mpmc_handle \<Rightarrow> bytes list \<Rightarrow> thread_view \<Rightarrow> bool \<Rightarrow> u64 \<Rightarrow> u64 \<Rightarrow> (mpmc_slot \<Rightarrow> bool) \<Rightarrow> mpmc_config \<Rightarrow> bool" where
  "cons_at h q0 v b e d P c \<longleftrightarrow>
     mpmc_at h q0 v None (Some b) c \<and> deq_pos (fst c) = d \<and> unat e \<le> enq_nat (fst c) \<and>
     (b \<longrightarrow> P (slot_pos h (fst c) (unat d)))"

lemma stable_at: "thr.stable h q0 (tv_id v) (mpmc_at h q0 v ve vd)"
  by (rule thr.stableI) (rule mpmc_at_rely)

lemma stable_prod_at: "thr.stable h q0 (tv_id v) (prod_at h q0 v b e d P)"
proof (rule thr.stableI)
  fix c c' assume p: "prod_at h q0 v b e d P c" and r: "mpmc_rely h q0 (tv_id v) c c'"
  have at: "mpmc_at h q0 v (Some b) None c" using p by (simp add: prod_at_def)
  note fr = mpmc_frameD [OF mpmc_at_rely(2) [OF at r]]
  have "enq_pos (fst c') = e" "unat d \<le> deq_nat (fst c')"
    using fr(2) fr(3) [of b] p at by (simp_all add: prod_at_def mpmc_at_def)
  moreover have "b \<longrightarrow> P (slot_pos h (fst c') (unat e))"
    using fr(5) p at by (auto simp: prod_at_def mpmc_at_def)
  ultimately show "prod_at h q0 v b e d P c'"
    using mpmc_at_rely(1) [OF at r] by (simp add: prod_at_def)
qed

lemma stable_cons_at: "thr.stable h q0 (tv_id v) (cons_at h q0 v b e d P)"
proof (rule thr.stableI)
  fix c c' assume p: "cons_at h q0 v b e d P c" and r: "mpmc_rely h q0 (tv_id v) c c'"
  have at: "mpmc_at h q0 v None (Some b) c" using p by (simp add: cons_at_def)
  note fr = mpmc_frameD [OF mpmc_at_rely(2) [OF at r]]
  have "deq_pos (fst c') = d" "unat e \<le> enq_nat (fst c')"
    using fr(1) fr(4) [of b] p at by (simp_all add: cons_at_def mpmc_at_def)
  moreover have "b \<longrightarrow> P (slot_pos h (fst c') (unat d))"
    using fr(6) p at by (auto simp: cons_at_def mpmc_at_def)
  ultimately show "cons_at h q0 v b e d P c'"
    using mpmc_at_rely(1) [OF at r] by (simp add: cons_at_def)
qed

lemma mpmc_at_step:
  assumes "mpmc_at h q0 v ve vd (w, g)" and "mpmc_guar h q0 (tv_id v) (w, g) (w', g')"
    and "mh_immutable (mw_hdr w') = mh_immutable (mw_hdr w)"
    and "tv_id v' = tv_id v" and "tv_immutable v' = tv_immutable v"
    and "sees (tv_id v) (gh_enq g') ve'" and "sees (tv_id v) (gh_deq g') vd'"
    and "own (tv_id v) (gh_in g') = tv_in v'" and "own (tv_id v) (gh_out g') = tv_out v'"
  shows "mpmc_at h q0 v' ve' vd' (w', g')"
  using assms by (simp add: mpmc_at_def mpmc_guar_def)

lemma mpmc_at_inv: "mpmc_at h q0 v ve vd (w, g) \<Longrightarrow> mpmc_shared_inv h q0 (w, g)"
  by (simp add: mpmc_at_def)

lemma mpmc_at_geometry:
  assumes "mpmc_at h q0 v ve vd (w, g)"
  shows "mpmc_geometry (mi_capacity (tv_immutable v)) (mi_payload_size (tv_immutable v)) (mq_slot_stride h)"
  using assms by (auto simp: mpmc_at_def shared_inv_simps)

lemma triple_ex: "(\<And>x. thr.triple h q0 i (P x) p Q) \<Longrightarrow> thr.triple h q0 i (\<lambda>c. \<exists>x. P x c) p Q"
  by (auto simp: thr.triple_def)

lemma triple_pre: "thr.triple h q0 i P' p Q \<Longrightarrow> (\<And>c. P c \<Longrightarrow> P' c) \<Longrightarrow> thr.triple h q0 i P p Q"
  by (rule thr.triple_conseq)

lemma triple_if:
  "(b \<Longrightarrow> thr.triple h q0 i P p Q) \<Longrightarrow> (\<not> b \<Longrightarrow> thr.triple h q0 i P p' Q)
     \<Longrightarrow> thr.triple h q0 i P (if b then p else p') Q"
  by simp

subsection \<open>The enqueue gate\<close>

lemma triple_release_enqueue:
  "thr.triple h q0 (tv_id v) (mpmc_at h q0 v (Some False) None) (release_gate True)
     (\<lambda>_. mpmc_at h q0 v None None)"
  unfolding release_gate_def
proof (rule thr.triple_store [OF stable_at stable_at])
  fix w g assume at: "mpmc_at h q0 v (Some False) None (w, g)"
  let ?w = "w\<lparr>mw_hdr := (mw_hdr w)\<lparr>mh_enqueue_lock := lock_word LockFree\<rparr>\<rparr>" and ?g = "g\<lparr>gh_enq := None\<rparr>"
  have G: "mpmc_guar h q0 (tv_id v) (w, g) (?w, ?g)"
    by (rule guar_enqueue_gate) (use at in \<open>auto simp: mpmc_at_def\<close>)
  moreover have "mpmc_at h q0 v None None (?w, ?g)"
    by (rule mpmc_at_step [OF at G]) (use at in \<open>auto simp: mpmc_at_def\<close>)
  ultimately show "\<exists>g'. mpmc_guar h q0 (tv_id v) (w, g)
      (wr (g_state (gate_for True)) (lock_word LockFree) w, g') \<and>
      mpmc_at h q0 v None None (wr (g_state (gate_for True)) (lock_word LockFree) w, g')"
    by (intro exI [of _ ?g]) (simp add: gate_for_def run_simps)
qed

lemma triple_release_dequeue:
  "thr.triple h q0 (tv_id v) (mpmc_at h q0 v None (Some False)) (release_gate False)
     (\<lambda>_. mpmc_at h q0 v None None)"
  unfolding release_gate_def
proof (rule thr.triple_store [OF stable_at stable_at])
  fix w g assume at: "mpmc_at h q0 v None (Some False) (w, g)"
  let ?w = "w\<lparr>mw_hdr := (mw_hdr w)\<lparr>mh_dequeue_lock := lock_word LockFree\<rparr>\<rparr>" and ?g = "g\<lparr>gh_deq := None\<rparr>"
  have G: "mpmc_guar h q0 (tv_id v) (w, g) (?w, ?g)"
    by (rule guar_dequeue_gate) (use at in \<open>auto simp: mpmc_at_def\<close>)
  moreover have "mpmc_at h q0 v None None (?w, ?g)"
    by (rule mpmc_at_step [OF at G]) (use at in \<open>auto simp: mpmc_at_def\<close>)
  ultimately show "\<exists>g'. mpmc_guar h q0 (tv_id v) (w, g)
      (wr (g_state (gate_for False)) (lock_word LockFree) w, g') \<and>
      mpmc_at h q0 v None None (wr (g_state (gate_for False)) (lock_word LockFree) w, g')"
    by (intro exI [of _ ?g]) (simp add: gate_for_def run_simps)
qed

text \<open>Which gate a thread holds, by the flag the source passes around.\<close>

definition holding ::
  "mpmc_handle \<Rightarrow> bytes list \<Rightarrow> thread_view \<Rightarrow> bool \<Rightarrow> mpmc_config \<Rightarrow> bool" where
  "holding h q0 v enqueue =
     mpmc_at h q0 v (if enqueue then Some False else None) (if enqueue then None else Some False)"

lemma stable_holding: "thr.stable h q0 (tv_id v) (holding h q0 v e)"
  unfolding holding_def by (rule stable_at)

lemma triple_release:
  "thr.triple h q0 (tv_id v) (holding h q0 v e) (release_gate e) (\<lambda>_. mpmc_at h q0 v None None)"
  by (cases e) (simp_all add: holding_def triple_release_enqueue triple_release_dequeue)

lemma triple_fail_released:
  assumes "\<And>c. mpmc_at h q0 v None None c \<Longrightarrow> Q (Inl x) c" and "thr.stable h q0 (tv_id v) (Q (Inl x))"
  shows "thr.triple h q0 (tv_id v) (holding h q0 v e) (fail_released e x) Q"
  unfolding fail_released_def
  by (rule thr.triple_bind [OF triple_release]) (rule thr.triple_Ret; use assms in blast)

text \<open>A store to a word of the header that the invariant does not mention.\<close>

lemma triple_header_store:
  assumes "\<And>w. mh_immutable (f w) = mh_immutable (mw_hdr w)"
    and "\<And>w. mh_enqueue_position (f w) = enq_pos w" and "\<And>w. mh_dequeue_position (f w) = deq_pos w"
    and "\<And>w. mh_enqueue_lock (f w) = lock_word LockFree \<Longrightarrow> mh_enqueue_lock (mw_hdr w) = lock_word LockFree"
    and "\<And>w. mh_dequeue_lock (f w) = lock_word LockFree \<Longrightarrow> mh_dequeue_lock (mw_hdr w) = lock_word LockFree"
  shows "thr.triple h q0 (tv_id v) (mpmc_at h q0 v ve vd)
     (Act (\<lambda>w. w\<lparr>mw_hdr := f w\<rparr>) (\<lambda>w. Ret (r w))) (\<lambda>_. mpmc_at h q0 v ve vd)"
proof (rule thr.triple_Act [OF stable_at stable_at])
  fix w g assume at: "mpmc_at h q0 v ve vd (w, g)"
  have G: "mpmc_guar h q0 (tv_id v) (w, g) (w\<lparr>mw_hdr := f w\<rparr>, g)"
    by (rule guar_header) (use assms in auto)
  moreover have "mpmc_at h q0 v ve vd (w\<lparr>mw_hdr := f w\<rparr>, g)"
    by (rule mpmc_at_step [OF at G]) (use at assms(1) in \<open>auto simp: mpmc_at_def\<close>)
  ultimately show "\<exists>g'. mpmc_guar h q0 (tv_id v) (w, g) (w\<lparr>mw_hdr := f w\<rparr>, g') \<and>
      mpmc_at h q0 v ve vd (w\<lparr>mw_hdr := f w\<rparr>, g')"
    by blast
qed

lemma triple_notify:
  "thr.triple h q0 (tv_id v) (mpmc_at h q0 v ve vd) notify_waiters (\<lambda>_. mpmc_at h q0 v ve vd)"
  unfolding notify_waiters_def
proof (rule thr.triple_bind)
  show "thr.triple h q0 (tv_id v) (mpmc_at h q0 v ve vd) (shared_fetch_add notify_epoch_c 1)
      (\<lambda>_. mpmc_at h q0 v ve vd)"
    unfolding shared_fetch_add_def mpmc_cell_access by (rule triple_header_store) simp_all
  show "thr.triple h q0 (tv_id v) (mpmc_at h q0 v ve vd) (futex_wake kern_c) (\<lambda>_. mpmc_at h q0 v ve vd)"
    unfolding futex_wake_def kernel_call_def mpmc_cell_access
  proof (rule thr.triple_Act [OF stable_at stable_at])
    fix w g assume at: "mpmc_at h q0 v ve vd (w, g)"
    show "\<exists>g'. mpmc_guar h q0 (tv_id v) (w, g) (w\<lparr>mw_kern := log_call CallWake (mw_kern w)\<rparr>, g') \<and>
        mpmc_at h q0 v ve vd (w\<lparr>mw_kern := log_call CallWake (mw_kern w)\<rparr>, g')"
      by (intro exI [of _ g] conjI guar_kern mpmc_at_step [OF at guar_kern])
        (use at in \<open>auto simp: mpmc_at_def\<close>)
  qed
qed

end
