(* ===== verification/ER_Mpmc_Push.thy ===== *)
theory ER_Mpmc_Push
  imports ER_Mpmc_Thread
begin

text \<open>
  A push among other threads, part by part in the order of the code: taking the gate, reading the
  positions, the drain-sequence admission, and writing the slot. \<open>triple_try_push\<close> says that
  \<open>mpmc_try_push_impl\<close> logs its payload exactly once when it returns success and logs nothing when
  it returns an error.
\<close>

lemma triple_case_prod:
  "(\<And>a b. thr.triple h q0 i P (f a b) Q) \<Longrightarrow> thr.triple h q0 i P (case p of (a, b) \<Rightarrow> f a b) Q"
  by (cases p) simp

definition header_inert :: "mpmc_header \<Rightarrow> mpmc_header \<Rightarrow> bool" where
  "header_inert x y \<longleftrightarrow>
     mh_immutable y = mh_immutable x \<and> mh_enqueue_position y = mh_enqueue_position x \<and>
     mh_dequeue_position y = mh_dequeue_position x \<and>
     (mh_enqueue_lock y = lock_word LockFree \<longrightarrow> mh_enqueue_lock x = lock_word LockFree) \<and>
     (mh_dequeue_lock y = lock_word LockFree \<longrightarrow> mh_dequeue_lock x = lock_word LockFree)"

text \<open>
  An assertion that no inert header write can tell apart: a gate owner record, an owner epoch or a
  gate word other than \<open>kFree\<close> may be stored under it.
\<close>

definition inert_closed where
  "inert_closed h q0 i H \<longleftrightarrow>
     thr.stable h q0 i H \<and>
     (\<forall>w g x. H (w, g) \<longrightarrow> header_inert (mw_hdr w) x \<longrightarrow> mpmc_guar h q0 i (w, g) (w\<lparr>mw_hdr := x\<rparr>, g) \<longrightarrow>
        H (w\<lparr>mw_hdr := x\<rparr>, g))"

lemma inert_closedD:
  "inert_closed h q0 i H \<Longrightarrow> H (w, g) \<Longrightarrow> header_inert (mw_hdr w) x \<Longrightarrow>
     mpmc_guar h q0 i (w, g) (w\<lparr>mw_hdr := x\<rparr>, g) \<and> H (w\<lparr>mw_hdr := x\<rparr>, g)"
  using guar_header [of x w h q0 i g] unfolding inert_closed_def header_inert_def by blast

lemma inert_closed_stable [simp]: "inert_closed h q0 i H \<Longrightarrow> thr.stable h q0 i H"
  by (simp add: inert_closed_def)

lemma inert_closed_at [simp]: "inert_closed h q0 (tv_id v) (mpmc_at h q0 v ve vd)"
  unfolding inert_closed_def
proof (intro conjI allI impI)
  fix w g x assume at: "mpmc_at h q0 v ve vd (w, g)" and i: "header_inert (mw_hdr w) x"
    and G: "mpmc_guar h q0 (tv_id v) (w, g) (w\<lparr>mw_hdr := x\<rparr>, g)"
  show "mpmc_at h q0 v ve vd (w\<lparr>mw_hdr := x\<rparr>, g)"
    by (rule mpmc_at_step [OF at G]) (use at i in \<open>auto simp: mpmc_at_def header_inert_def\<close>)
qed (rule stable_at)

lemma inert_closed_holding [simp]: "inert_closed h q0 (tv_id v) (holding h q0 v e)"
  unfolding holding_def by simp

lemma inert_closed_cons_at [simp]: "inert_closed h q0 (tv_id v) (cons_at h q0 v b e d P)"
  unfolding inert_closed_def
proof (intro conjI allI impI)
  fix w g x assume at: "cons_at h q0 v b e d P (w, g)" and i: "header_inert (mw_hdr w) x"
  have "mpmc_at h q0 v None (Some b) (w\<lparr>mw_hdr := x\<rparr>, g)"
    using inert_closedD [OF inert_closed_at _ i] at by (auto simp: cons_at_def)
  then show "cons_at h q0 v b e d P (w\<lparr>mw_hdr := x\<rparr>, g)"
    using at i by (simp add: cons_at_def header_inert_def slot_pos_def)
qed (rule stable_cons_at)

lemma triple_inert_store:
  assumes "inert_closed h q0 i H"
    and "\<And>w. wr x a w = w\<lparr>mw_hdr := f w\<rparr>" and "\<And>w. header_inert (mw_hdr w) (f w)"
  shows "thr.triple h q0 i H (shared_store x a) (\<lambda>_. H)"
proof (rule thr.triple_store)
  fix w g assume "H (w, g)"
  from inert_closedD [OF assms(1) this assms(3)]
  show "\<exists>g'. mpmc_guar h q0 i (w, g) (wr x a w, g') \<and> H (wr x a w, g')"
    unfolding assms(2) by blast
qed (use assms(1) in simp_all)

lemma triple_inert_cas:
  assumes "inert_closed h q0 i H"
    and "\<And>w. wr x b w = w\<lparr>mw_hdr := f w\<rparr>" and "\<And>w. header_inert (mw_hdr w) (f w)"
  shows "thr.triple h q0 i H (shared_cas x a b) (\<lambda>_. H)"
proof (rule thr.triple_cas)
  fix w g assume "H (w, g)"
  from inert_closedD [OF assms(1) this assms(3)]
  show "\<exists>g'. mpmc_guar h q0 i (w, g) (wr x b w, g') \<and> H (wr x b w, g')"
    unfolding assms(2) by blast
qed (use assms(1) in simp_all)

lemma yields_gate_busy: "yields (\<lambda>r. \<exists>x. r = Inl x) (gate_busy_result h e)"
  unfolding gate_busy_result_def
  by (rule yields_bind, split OwnerSnapshotKind.split) (auto intro!: yields_bind)

lemma triple_claim_gate:
  "thr.triple h q0 (tv_id v) (mpmc_at h q0 v None None) (claim_gate hi e)
     (case_sum (\<lambda>_. mpmc_at h q0 v None None) (\<lambda>_. holding h q0 v e))"
  unfolding claim_gate_def
proof (rule thr.triple_reads_bind [OF reads_only_load stable_at], rule triple_if)
  have st: "thr.stable h q0 (tv_id v) (case_sum (\<lambda>_. mpmc_at h q0 v None None) (\<lambda>_. holding h q0 v e) r)" for r :: "unit result"
    by (cases r) (simp_all add: stable_at stable_holding)
  show "thr.triple h q0 (tv_id v) (mpmc_at h q0 v None None) (gate_busy_result hi e)
     (case_sum (\<lambda>_. mpmc_at h q0 v None None) (\<lambda>_. holding h q0 v e))"
    by (rule thr.triple_conseq [OF thr.triple_reads_yields [OF reads_only_gate_busy yields_gate_busy stable_at]]) auto
  show "thr.triple h q0 (tv_id v) (mpmc_at h q0 v None None)
     (bind (shared_cas (g_state (gate_for e)) (lock_word LockFree) (lock_word LockClaiming))
        (\<lambda>won. if \<not> won then Ret (Inl kQueueContention) else Ret (Inr ())))
     (case_sum (\<lambda>_. mpmc_at h q0 v None None) (\<lambda>_. holding h q0 v e))"
  proof (rule thr.triple_bind)
    show "thr.triple h q0 (tv_id v) (mpmc_at h q0 v None None)
        (shared_cas (g_state (gate_for e)) (lock_word LockFree) (lock_word LockClaiming))
        (\<lambda>won. if won then holding h q0 v e else mpmc_at h q0 v None None)"
    proof (rule thr.triple_cas [OF stable_at])
      show "thr.stable h q0 (tv_id v) (if b then holding h q0 v e else mpmc_at h q0 v None None)" for b
        by (simp add: stable_at stable_holding)
      fix w g assume at: "mpmc_at h q0 v None None (w, g)"
        and free: "rd (g_state (gate_for e)) w = lock_word LockFree"
      let ?w = "wr (g_state (gate_for e)) (lock_word LockClaiming) w"
      let ?g = "if e then g\<lparr>gh_enq := Some (tv_id v, False)\<rparr> else g\<lparr>gh_deq := Some (tv_id v, False)\<rparr>"
      have G: "mpmc_guar h q0 (tv_id v) (w, g) (?w, ?g)"
        using free
          guar_enqueue_gate [of g "tv_id v" w "Some (tv_id v, False)" "lock_word LockClaiming" h q0]
          guar_dequeue_gate [of g "tv_id v" w "Some (tv_id v, False)" "lock_word LockClaiming" h q0]
        by (cases e) (simp_all add: gate_for_def run_simps)
      moreover have "holding h q0 v e (?w, ?g)"
        unfolding holding_def
        by (rule mpmc_at_step [OF at G])
          (use at in \<open>cases e; auto simp: mpmc_at_def gate_for_def run_simps\<close>)+
      ultimately show "\<exists>g'. mpmc_guar h q0 (tv_id v) (w, g) (?w, g') \<and>
          (if True then holding h q0 v e else mpmc_at h q0 v None None) (?w, g')"
        by auto
    qed simp
  qed (auto intro!: thr.triple_Ret stable_at stable_holding)
qed

lemma triple_owner_store:
  assumes "inert_closed h q0 i H" and "ow = enqueue_owner_c \<or> ow = dequeue_owner_c"
  shows "thr.triple h q0 i H (set_owner ow p) (\<lambda>_. H)"
proof -
  have st: "thr.triple h q0 i H (shared_store (field ow c) a) (\<lambda>_. H)" for c and a :: u64
    by (rule triple_inert_store [OF assms(1), of _ _ "\<lambda>w. mw_hdr (wr (field ow c) a w)"])
      (use assms(2) in \<open>auto simp: run_simps header_inert_def\<close>)
  show ?thesis
    unfolding set_owner_def store_owner_seq_cst_def by (intro thr.triple_bind [OF st]) (rule st)
qed

lemma triple_begin_commit_gate:
  assumes "inert_closed h q0 i H"
  shows "thr.triple h q0 i H (begin_owner_commit (g_owner_epoch (gate_for e)) r) (\<lambda>_. H)"
  unfolding begin_owner_commit_def
proof (rule thr.triple_reads_bind [OF reads_only_load inert_closed_stable [OF assms]], intro triple_if)
  fix a
  have "thr.triple h q0 i H (shared_cas (g_owner_epoch (gate_for e)) a (a + 1)) (\<lambda>_. H)"
    by (rule triple_inert_cas [OF assms, of _ _ "\<lambda>w. mw_hdr (wr (g_owner_epoch (gate_for e)) (a + 1) w)"])
      (cases e; auto simp: run_simps header_inert_def gate_for_def)+
  then show "thr.triple h q0 i H
     (bind (shared_cas (g_owner_epoch (gate_for e)) a (a + 1))
       (\<lambda>won. if \<not> won then Ret (CommitCorrupt, 0) else Ret (CommitReady, a + 2))) (\<lambda>_. H)"
    by (rule thr.triple_bind) (auto intro!: thr.triple_Ret simp: assms)
qed (auto intro!: thr.triple_Ret simp: assms)

lemma triple_mark_gate:
  "thr.triple h q0 (tv_id v) (holding h q0 v e) (mark_gate_protocol_failure (gate_for e) r)
     (\<lambda>_. mpmc_at h q0 v None None)"
  unfolding mark_gate_protocol_failure_def
proof (rule thr.triple_store [OF stable_holding stable_at])
  fix w g assume hold: "holding h q0 v e (w, g)"
  define lock where
    "lock = lock_word (if r = CommitEpochExhausted then LockEpochExhausted else LockOwnerProtocolFault)"
  let ?w = "wr (g_state (gate_for e)) lock w"
  let ?g = "if e then g\<lparr>gh_enq := None\<rparr> else g\<lparr>gh_deq := None\<rparr>"
  have at: "mpmc_at h q0 v (if e then Some False else None) (if e then None else Some False) (w, g)"
    using hold by (simp add: holding_def)
  have G: "mpmc_guar h q0 (tv_id v) (w, g) (?w, ?g)"
    using at guar_enqueue_gate [of g "tv_id v" w None lock h q0] guar_dequeue_gate [of g "tv_id v" w None lock h q0]
    by (cases e) (simp_all add: gate_for_def run_simps mpmc_at_def)
  moreover have "mpmc_at h q0 v None None (?w, ?g)"
    by (rule mpmc_at_step [OF at G])
      (use at in \<open>cases e; auto simp: mpmc_at_def gate_for_def run_simps\<close>)+
  ultimately show "\<exists>g'. mpmc_guar h q0 (tv_id v) (w, g) (wr (g_state (gate_for e))
      (lock_word (if r = CommitEpochExhausted then LockEpochExhausted else LockOwnerProtocolFault)) w, g') \<and>
      mpmc_at h q0 v None None (wr (g_state (gate_for e))
      (lock_word (if r = CommitEpochExhausted then LockEpochExhausted else LockOwnerProtocolFault)) w, g')"
    unfolding lock_def by blast
qed

lemma stable_gate_result:
  "thr.stable h q0 (tv_id v) (case_sum (\<lambda>_. mpmc_at h q0 v None None) (\<lambda>_. holding h q0 v e) r)"
  by (cases r) (simp_all add: stable_at stable_holding)

lemma triple_commit_gate:
  assumes H: "inert_closed h q0 (tv_id v) H" and hold: "\<And>c. H c \<Longrightarrow> holding h q0 v e c"
  shows "thr.triple h q0 (tv_id v) H (commit_claimed_gate hi e)
     (case_sum (\<lambda>_. mpmc_at h q0 v None None) (\<lambda>_. H))"
  unfolding commit_claimed_gate_def
proof (rule thr.triple_bind [OF triple_begin_commit_gate [OF H]], rule triple_case_prod, rule triple_if)
  let ?Q = "case_sum (\<lambda>_. mpmc_at h q0 v None None) (\<lambda>_. H) :: unit result \<Rightarrow> _"
  have store: "thr.triple h q0 (tv_id v) H (shared_store x a) (\<lambda>_. H)"
    if "\<And>w. wr x a w = w\<lparr>mw_hdr := mw_hdr (wr x a w)\<rparr>" "\<And>w. header_inert (mw_hdr w) (mw_hdr (wr x a w))"
    for x :: "(mpmc_world, 'b) cell" and a
    by (rule triple_inert_store [OF H that])
  have owner: "thr.triple h q0 (tv_id v) H (set_owner (g_owner (gate_for e)) (mq_self hi)) (\<lambda>_. H)"
    by (rule triple_owner_store [OF H]) (simp add: gate_for_def)
  fix r ep
  show "thr.triple h q0 (tv_id v) H
     (bind (mark_gate_protocol_failure (gate_for e) r) (\<lambda>_. Ret (Inl kRecoveryBlocked))) ?Q"
    by (rule thr.triple_bind [OF triple_pre [OF triple_mark_gate hold]]) (auto intro!: thr.triple_Ret stable_at)
  show "thr.triple h q0 (tv_id v) H
     (bind (set_owner (g_owner (gate_for e)) (mq_self hi)) (\<lambda>_.
       bind (shared_store (g_owner_epoch (gate_for e)) ep) (\<lambda>_.
       bind (shared_store (g_state (gate_for e)) (lock_word LockOwned)) (\<lambda>_. Ret (Inr ()))))) ?Q"
    by (intro thr.triple_bind [OF owner] thr.triple_bind [OF store] thr.triple_Ret)
      (cases e; auto simp: gate_for_def run_simps header_inert_def H)+
qed

lemma triple_acquire_gate:
  "thr.triple h q0 (tv_id v) (mpmc_at h q0 v None None) (acquire_gate hi e)
     (case_sum (\<lambda>_. mpmc_at h q0 v None None) (\<lambda>_. holding h q0 v e))"
  unfolding acquire_gate_def
  by (rule thr.triple_try_bind [OF triple_claim_gate triple_commit_gate]) (simp_all add: stable_at)

declare stable_at [simp] stable_holding [simp] stable_prod_at [simp] stable_cons_at [simp]

subsection \<open>Positions read under a gate\<close>

abbreviation any_slot :: "mpmc_slot \<Rightarrow> bool" where "any_slot \<equiv> \<lambda>_. True"

lemma holding_enqueueD: "holding h q0 v True c \<Longrightarrow> \<exists>e. prod_at h q0 v False e 0 any_slot c"
  by (simp add: holding_def prod_at_def)

lemma holding_dequeueD: "holding h q0 v False c \<Longrightarrow> \<exists>d. cons_at h q0 v False 0 d any_slot c"
  by (simp add: holding_def cons_at_def)

lemma prod_at_holding: "prod_at h q0 v False e d P c \<Longrightarrow> holding h q0 v True c"
  by (simp add: holding_def prod_at_def)

lemma cons_at_holding: "cons_at h q0 v False e d P c \<Longrightarrow> holding h q0 v False c"
  by (simp add: holding_def cons_at_def)

lemma validate_queue_positions_iff:
  "validate_queue_positions e d c = Inr x \<longleftrightarrow> unat d \<le> unat e \<and> unat e \<le> unat d + unat c"
proof (cases "unat d \<le> unat e")
  case True
  then have "unat (e - d) = unat e - unat d" by (simp add: unat_sub_no_wrap word_le_nat_alt)
  with True show ?thesis
    by (auto simp: validate_queue_positions_def word_less_nat_alt)
qed (simp add: validate_queue_positions_def word_less_nat_alt)

definition prod_positions where
  "prod_positions h q0 v e r c \<longleftrightarrow>
     (case r of Inl _ \<Rightarrow> holding h q0 v True c
      | Inr (e', d') \<Rightarrow> e' = e \<and> prod_at h q0 v False e d' any_slot c)"

definition cons_positions where
  "cons_positions h q0 v d r c \<longleftrightarrow>
     (case r of Inl _ \<Rightarrow> holding h q0 v False c
      | Inr (e', d') \<Rightarrow> d' = d \<and> cons_at h q0 v False e' d any_slot c)"

lemma stable_conj_pure [simp]: "thr.stable h q0 i P \<Longrightarrow> thr.stable h q0 i (\<lambda>c. b \<and> P c)"
  by (auto simp: thr.stable_def)

lemma stable_prod_positions: "thr.stable h q0 (tv_id v) (prod_positions h q0 v e r)"
  unfolding prod_positions_def
  by (cases r) (auto intro!: stable_holding stable_conj_pure stable_prod_at split: prod.splits)

lemma stable_cons_positions: "thr.stable h q0 (tv_id v) (cons_positions h q0 v d r)"
  unfolding cons_positions_def
  by (cases r) (auto intro!: stable_holding stable_conj_pure stable_cons_at split: prod.splits)

lemma triple_prod_positions:
  "thr.triple h q0 (tv_id v) (prod_at h q0 v False e 0 any_slot) snapshot_queue_positions
     (prod_positions h q0 v e)"
proof -
  have "thr.triple h q0 (tv_id v) (prod_at h q0 v False e 0 any_slot) (snapshot_queue_positions_loop n)
     (prod_positions h q0 v e)" for n
  proof (induction n)
    case 0
    show ?case
      by (auto intro!: thr.triple_Ret stable_prod_positions simp: prod_positions_def prod_at_holding)
  next
    case (Suc n)
    have l1: "thr.triple h q0 (tv_id v) (prod_at h q0 v False e 0 any_slot) (shared_load enqueue_position_c)
        (\<lambda>a c. a = e \<and> prod_at h q0 v False e 0 any_slot c)"
      by (rule thr.triple_load, simp, simp, simp add: run_simps prod_at_def)
    have l2: "thr.triple h q0 (tv_id v) (\<lambda>c. a = e \<and> prod_at h q0 v False e 0 any_slot c)
        (shared_load dequeue_position_c) (\<lambda>b c. a = e \<and> prod_at h q0 v False e b any_slot c)" for a
      by (rule thr.triple_load, simp, simp, simp add: run_simps prod_at_def)
    have again: "thr.triple h q0 (tv_id v) (\<lambda>c. a = e \<and> prod_at h q0 v False e b any_slot c)
        (snapshot_queue_positions_loop n) (prod_positions h q0 v e)" for a b
      by (rule triple_pre [OF Suc.IH]) (simp add: prod_at_def)
    show ?case
      unfolding snapshot_queue_positions_loop.simps
      by (intro thr.triple_reads_bind [OF reads_only_load stable_prod_at]
          thr.triple_bind [OF l1] thr.triple_bind [OF l2] triple_if again)
        (auto intro!: thr.triple_Ret stable_prod_positions simp: prod_positions_def)
  qed
  then show ?thesis by (simp add: snapshot_queue_positions_def)
qed

lemma triple_cons_positions:
  "thr.triple h q0 (tv_id v) (cons_at h q0 v False 0 d any_slot) snapshot_queue_positions
     (cons_positions h q0 v d)"
proof -
  have "thr.triple h q0 (tv_id v) (cons_at h q0 v False 0 d any_slot) (snapshot_queue_positions_loop n)
     (cons_positions h q0 v d)" for n
  proof (induction n)
    case 0
    show ?case
      by (auto intro!: thr.triple_Ret stable_cons_positions simp: cons_positions_def cons_at_holding)
  next
    case (Suc n)
    have l1: "thr.triple h q0 (tv_id v) (cons_at h q0 v False 0 d any_slot) (shared_load enqueue_position_c)
        (\<lambda>a c. cons_at h q0 v False a d any_slot c)"
      by (rule thr.triple_load, simp, simp, simp add: run_simps cons_at_def)
    have l2: "thr.triple h q0 (tv_id v) (cons_at h q0 v False a d any_slot)
        (shared_load dequeue_position_c) (\<lambda>b c. b = d \<and> cons_at h q0 v False a d any_slot c)" for a
      by (rule thr.triple_load, simp, simp, simp add: run_simps cons_at_def)
    have again: "thr.triple h q0 (tv_id v) (\<lambda>c. b = d \<and> cons_at h q0 v False a d any_slot c)
        (snapshot_queue_positions_loop n) (cons_positions h q0 v d)" for a b
      by (rule triple_pre [OF Suc.IH]) (simp add: cons_at_def)
    show ?case
      unfolding snapshot_queue_positions_loop.simps
      by (intro thr.triple_reads_bind [OF reads_only_load stable_cons_at]
          thr.triple_bind [OF l1] thr.triple_bind [OF l2] triple_if again)
        (auto intro!: thr.triple_Ret stable_cons_positions simp: cons_positions_def)
  qed
  then show ?thesis by (simp add: snapshot_queue_positions_def)
qed

lemma triple_read_immutable:
  "thr.triple h q0 (tv_id v) (mpmc_at h q0 v ve vd) (shared_load immutable_c)
     (\<lambda>im c. im = tv_immutable v \<and> mpmc_at h q0 v ve vd c)"
  by (rule thr.triple_load, simp, simp, simp add: run_simps mpmc_at_def)

lemma triple_read_immutable_prod:
  "thr.triple h q0 (tv_id v) (prod_at h q0 v b e d P) (shared_load immutable_c)
     (\<lambda>im c. im = tv_immutable v \<and> prod_at h q0 v b e d P c)"
  by (rule thr.triple_load, simp, simp, simp add: run_simps mpmc_at_def prod_at_def)

lemma triple_read_immutable_cons:
  "thr.triple h q0 (tv_id v) (cons_at h q0 v b e d P) (shared_load immutable_c)
     (\<lambda>im c. im = tv_immutable v \<and> cons_at h q0 v b e d P c)"
  by (rule thr.triple_load, simp, simp, simp add: run_simps mpmc_at_def cons_at_def)

subsection \<open>Push among others\<close>

definition prod_admitted where
  "prod_admitted h q0 v e r c \<longleftrightarrow>
     (case r of Inl _ \<Rightarrow> holding h q0 v True c
      | Inr (e', d') \<Rightarrow> e' = e \<and> unat d' \<le> unat e \<and>
          unat e < unat d' + unat (mi_capacity (tv_immutable v)) \<and>
          prod_at h q0 v False e d' any_slot c)"

lemma stable_prod_admitted [simp]: "thr.stable h q0 (tv_id v) (prod_admitted h q0 v e r)"
  unfolding prod_admitted_def by (cases r) (auto split: prod.splits)

lemma triple_prod_fail:
  assumes "\<And>c. P c \<Longrightarrow> holding h q0 v True c"
  shows "thr.triple h q0 (tv_id v) P (Ret (Inl x)) (prod_admitted h q0 v e)"
  by (rule thr.triple_Ret) (simp, simp add: prod_admitted_def assms)

lemma triple_admission_loop:
  assumes "cap = mi_capacity (tv_immutable v)"
  shows "thr.triple h q0 (tv_id v) (prod_at h q0 v False e d any_slot)
     (push_drain_admission_loop hi cap n e d) (prod_admitted h q0 v e)"
proof (induction n arbitrary: d)
  case 0
  show ?case
    unfolding push_drain_admission_loop.simps by (rule triple_prod_fail) (rule prod_at_holding)
next
  case (Suc n)
  have fail: "thr.triple h q0 (tv_id v) (prod_at h q0 v False e d any_slot) (Ret (Inl x))
      (prod_admitted h q0 v e)" for x
    by (rule triple_prod_fail) (rule prod_at_holding)
  have retry: "thr.triple h q0 (tv_id v) (prod_at h q0 v False e d any_slot)
      (bind snapshot_queue_positions (\<lambda>r. case r of Inl x \<Rightarrow> Ret (Inl x)
         | Inr (e', d') \<Rightarrow>
             if e' \<noteq> e \<or> d' \<noteq> d then push_drain_admission_loop hi cap n e' d'
             else if a > b then Ret (Inl kSequenceExhausted) else Ret (Inr (e, d))))
      (prod_admitted h q0 v e)"
    if "unat d \<le> unat e" "unat e < unat d + unat cap" for a b :: u64
  proof (rule thr.triple_bind [OF triple_pre [OF triple_prod_positions]])
    show "prod_at h q0 v False e d any_slot c \<Longrightarrow> prod_at h q0 v False e 0 any_slot c" for c
      by (simp add: prod_at_def)
    fix r :: "(u64 \<times> u64) result"
    show "thr.triple h q0 (tv_id v) (prod_positions h q0 v e r)
      (case r of Inl x \<Rightarrow> Ret (Inl x)
         | Inr (e', d') \<Rightarrow>
             if e' \<noteq> e \<or> d' \<noteq> d then push_drain_admission_loop hi cap n e' d'
             else if a > b then Ret (Inl kSequenceExhausted) else Ret (Inr (e, d)))
      (prod_admitted h q0 v e)"
    proof (cases r)
      case (Inl x)
      show ?thesis
        unfolding Inl sum.case by (rule triple_prod_fail) (simp add: prod_positions_def)
    next
      case (Inr p)
      obtain e' d' where p: "p = (e', d')" by (cases p)
      have loop: "thr.triple h q0 (tv_id v) (\<lambda>c. e' = e \<and> prod_at h q0 v False e d' any_slot c)
          (push_drain_admission_loop hi cap n e' d') (prod_admitted h q0 v e)"
        using Suc.IH [of d'] by (auto simp: thr.triple_def)
      have done_: "thr.triple h q0 (tv_id v) (\<lambda>c. e' = e \<and> prod_at h q0 v False e d' any_slot c)
          (Ret (Inr (e, d))) (prod_admitted h q0 v e)" if "d' = d"
        using that \<open>unat d \<le> unat e\<close> \<open>unat e < unat d + unat cap\<close> assms
        by (intro thr.triple_Ret) (simp, simp add: prod_admitted_def)
      show ?thesis
        unfolding Inr p sum.case prod.case prod_positions_def
        by (intro triple_if loop done_ triple_prod_fail) (auto intro: prod_at_holding)
    qed
  qed
  show ?case
  proof (cases "validate_queue_positions e d cap")
    case (Inl x)
    then show ?thesis by (simp add: fail)
  next
    case (Inr u)
    then have le: "unat d \<le> unat e" "unat e \<le> unat d + unat cap"
      using validate_queue_positions_iff by metis+
    have full: "e - d = ucast cap \<longleftrightarrow> unat e = unat d + unat cap"
      using le(1) by (rule pending_full_iff)
    show ?thesis
    proof (cases "checked_add_u64 (e - d) 1")
      case (Some a)
      show ?thesis
        unfolding push_drain_admission_loop.simps Inr Some sum.case option.case try_bind_def
        by (rule thr.triple_reads_bind [OF reads_only_budget stable_prod_at])
          (use le full retry in \<open>auto intro!: fail triple_if split: sum.splits\<close>)
    qed (simp add: Inr fail)
  qed
qed

lemma triple_admission:
  "thr.triple h q0 (tv_id v) (prod_at h q0 v False e d any_slot)
     (validate_push_drain_admission hi e d) (prod_admitted h q0 v e)"
  unfolding validate_push_drain_admission_def
proof (rule thr.triple_bind [OF triple_read_immutable_prod])
  fix im
  show "thr.triple h q0 (tv_id v) (\<lambda>c. im = tv_immutable v \<and> prod_at h q0 v False e d any_slot c)
      (push_drain_admission_loop hi (mi_capacity im) kOwnerSnapshotRetries e d) (prod_admitted h q0 v e)"
    using triple_admission_loop [of "mi_capacity im" v h q0 e d hi] by (auto simp: thr.triple_def)
qed

text \<open>The outcome of a push: the payload is logged exactly on success.\<close>

definition push_post where
  "push_post h q0 v b r =
     (case r of Inl _ \<Rightarrow> mpmc_at h q0 v None None
      | Inr _ \<Rightarrow> mpmc_at h q0 (v\<lparr>tv_in := tv_in v @ [b]\<rparr>) None None)"

lemma stable_at_in [simp]: "thr.stable h q0 (tv_id v) (mpmc_at h q0 (v\<lparr>tv_in := l\<rparr>) ve vd)"
  using stable_at [of h q0 "v\<lparr>tv_in := l\<rparr>"] by simp

lemma stable_push_post [simp]: "thr.stable h q0 (tv_id v) (push_post h q0 v b r)"
  by (cases r) (simp_all add: push_post_def)

text \<open>A write to the slot at the enqueue position by the holder of the gate.\<close>

lemma prod_slot_step:
  assumes at: "prod_at h q0 v b e d P (w, g)"
    and room: "unat e < unat d + unat (mi_capacity (tv_immutable v))"
    and off: "off = ring (mq_slot_stride h) (mi_capacity (tv_immutable v)) (unat e)"
    and post: "\<And>x. (b \<longrightarrow> P x) \<Longrightarrow> (\<not> b \<longrightarrow> writable x (unat e)) \<Longrightarrow> x = mw_slots w off \<Longrightarrow>
                 (b' \<longrightarrow> P' (f x)) \<and> (\<not> b' \<longrightarrow> writable (f x) (unat e))"
  shows "\<exists>g'. mpmc_guar h q0 (tv_id v) (w, g) (w\<lparr>mw_slots := (mw_slots w)(off := f (mw_slots w off))\<rparr>, g') \<and>
     prod_at h q0 v b' e d P' (w\<lparr>mw_slots := (mw_slots w)(off := f (mw_slots w off))\<rparr>, g')"
proof -
  have at': "mpmc_at h q0 v (Some b) None (w, g)" and e: "enq_pos w = e" and d: "unat d \<le> deq_nat w"
    and busy: "b \<longrightarrow> P (slot_pos h w (unat e))"
    using at by (auto simp: prod_at_def)
  have cap: "mpmc_capacity w = mi_capacity (tv_immutable v)" and hold: "gh_enq g = Some (tv_id v, b)"
    using at' by (auto simp: mpmc_at_def)
  have off': "ring_at h w (unat e) = off" by (simp add: off cap)
  have x: "mw_slots w off = slot_pos h w (unat e)" by (simp add: slot_pos_def cap off)
  have room': "enq_nat w < deq_nat w + cap_nat w" using room d cap e by simp
  have wr: "\<not> b \<longrightarrow> writable (slot_pos h w (unat e)) (unat e)"
    using mpmc_at_inv [OF at'] room' hold e by (auto simp: shared_inv_simps)
  have p: "(b' \<longrightarrow> P' (f (mw_slots w off))) \<and> (\<not> b' \<longrightarrow> writable (f (mw_slots w off)) (unat e))"
    by (rule post) (use busy wr x in auto)
  let ?w = "w\<lparr>mw_slots := (mw_slots w)(off := f (mw_slots w off))\<rparr>"
  have G: "mpmc_guar h q0 (tv_id v) (w, g) (?w, g\<lparr>gh_enq := Some (tv_id v, b')\<rparr>)"
    using guar_enqueue_slot [OF hold room', of b' "f (mw_slots w off)" h q0] p e off' by auto
  moreover have "mpmc_at h q0 v (Some b') None (?w, g\<lparr>gh_enq := Some (tv_id v, b')\<rparr>)"
    by (rule mpmc_at_step [OF at' G]) (use at' in \<open>auto simp: mpmc_at_def\<close>)
  moreover have "slot_pos h ?w (unat e) = f (mw_slots w off)"
    by (simp add: slot_pos_def cap off)
  ultimately show ?thesis
    using p e d by (auto simp: prod_at_def)
qed

text \<open>The facts a producer works under, once its position is admitted.\<close>

definition prod_place where
  "prod_place h v e d off \<longleftrightarrow>
     unat e < unat d + unat (mi_capacity (tv_immutable v)) \<and>
     off = ring (mq_slot_stride h) (mi_capacity (tv_immutable v)) (unat e)"

lemma triple_slot_store:
  assumes "prod_place h v e d off"
    and "\<And>w. wr x a w = w\<lparr>mw_slots := (mw_slots w)(off := f (mw_slots w off))\<rparr>"
    and "\<And>x. (b \<longrightarrow> P x) \<Longrightarrow> (\<not> b \<longrightarrow> writable x (unat e)) \<Longrightarrow>
           (b' \<longrightarrow> P' (f x)) \<and> (\<not> b' \<longrightarrow> writable (f x) (unat e))"
  shows "thr.triple h q0 (tv_id v) (prod_at h q0 v b e d P) (shared_store x a) (\<lambda>_. prod_at h q0 v b' e d P')"
proof (rule thr.triple_store [OF stable_prod_at stable_prod_at])
  fix w g assume "prod_at h q0 v b e d P (w, g)"
  from prod_slot_step [OF this, of off b' P' f] assms
  show "\<exists>g'. mpmc_guar h q0 (tv_id v) (w, g) (wr x a w, g') \<and> prod_at h q0 v b' e d P' (wr x a w, g')"
    by (auto simp: prod_place_def)
qed

lemma triple_slot_cas:
  assumes "prod_place h v e d off"
    and "\<And>w. wr x a w = w\<lparr>mw_slots := (mw_slots w)(off := f (mw_slots w off))\<rparr>"
    and "\<And>w. rd x w = old (mw_slots w off)"
    and "\<And>x. (b \<longrightarrow> P x) \<Longrightarrow> (\<not> b \<longrightarrow> writable x (unat e)) \<Longrightarrow> old x = o' \<Longrightarrow>
           (b' \<longrightarrow> P' (f x)) \<and> (\<not> b' \<longrightarrow> writable (f x) (unat e))"
  shows "thr.triple h q0 (tv_id v) (prod_at h q0 v b e d P) (shared_cas x o' a)
     (\<lambda>won. if won then prod_at h q0 v b' e d P' else prod_at h q0 v b e d P)"
proof (rule thr.triple_cas)
  fix w g assume at: "prod_at h q0 v b e d P (w, g)" and eq: "rd x w = o'"
  have "\<exists>g'. mpmc_guar h q0 (tv_id v) (w, g) (wr x a w, g') \<and> prod_at h q0 v b' e d P' (wr x a w, g')"
    unfolding assms(2)
    by (rule prod_slot_step [OF at])
      (use assms(1) assms(4) eq assms(3) in \<open>auto simp: prod_place_def\<close>)
  then show "\<exists>g'. mpmc_guar h q0 (tv_id v) (w, g) (wr x a w, g') \<and>
      (if True then prod_at h q0 v b' e d P' else prod_at h q0 v b e d P) (wr x a w, g')" by simp
qed simp_all

lemma triple_slot_memcpy:
  assumes "prod_place h v e d off" and "\<And>x f. P (x\<lparr>sl_payload := f\<rparr>) = P x" and "length pre = i"
  shows "thr.triple h q0 (tv_id v)
     (prod_at h q0 v True e d (\<lambda>x. P x \<and> map (sl_payload x) [0..<i] = pre))
     (memcpy_to (slot_payload_c off) i bs)
     (\<lambda>_. prod_at h q0 v True e d (\<lambda>x. P x \<and> map (sl_payload x) [0..<i + length bs] = pre @ bs))"
  using assms(3)
proof (induction bs arbitrary: i pre)
  case Nil
  show ?case by (simp, rule thr.triple_Ret) simp_all
next
  case (Cons b bs)
  have store: "thr.triple h q0 (tv_id v)
      (prod_at h q0 v True e d (\<lambda>x. P x \<and> map (sl_payload x) [0..<i] = pre))
      (shared_store (slot_payload_c off i) b)
      (\<lambda>_. prod_at h q0 v True e d (\<lambda>x. P x \<and> map (sl_payload x) [0..<Suc i] = pre @ [b]))"
    by (rule triple_slot_store [OF assms(1), of _ _ "\<lambda>x. x\<lparr>sl_payload := (sl_payload x)(i := b)\<rparr>"])
      (simp_all add: run_simps assms(2))
  show ?case
    using thr.triple_bind [OF store Cons.IH [of "pre @ [b]" "Suc i"]] Cons.prems by simp
qed

lemma triple_slot_owner:
  assumes "prod_place h v e d off" and "\<And>x f. P (x\<lparr>sl_owner := f\<rparr>) = P x"
  shows "thr.triple h q0 (tv_id v) (prod_at h q0 v True e d P) (set_owner (slot_owner_c off) p)
     (\<lambda>_. prod_at h q0 v True e d P)"
proof -
  have st: "thr.triple h q0 (tv_id v) (prod_at h q0 v True e d P) (shared_store (field (slot_owner_c off) c) a)
      (\<lambda>_. prod_at h q0 v True e d P)" for c :: "(owner_abi, u64) cell" and a
    by (rule triple_slot_store [OF assms(1), of _ _ "\<lambda>x. x\<lparr>sl_owner := wr c a (sl_owner x)\<rparr>"])
      (simp_all add: run_simps assms(2))
  show ?thesis
    unfolding set_owner_def store_owner_seq_cst_def by (intro thr.triple_bind [OF st]) (rule st)
qed

lemma triple_won:
  "thr.triple h q0 i B f Q \<Longrightarrow> thr.triple h q0 i A g Q
     \<Longrightarrow> thr.triple h q0 i (if won then A else B) (if \<not> won then f else g) Q"
  by (cases won) simp_all

abbreviation seq_is :: "nat \<Rightarrow> mpmc_slot \<Rightarrow> bool" where
  "seq_is p x \<equiv> unat (sl_sequence x) = p"

lemma triple_slot_begin_commit:
  assumes "prod_place h v e d off"
  shows "thr.triple h q0 (tv_id v) (prod_at h q0 v True e d (seq_is p))
     (begin_owner_commit (slot_owner_epoch_c off) r) (\<lambda>_. prod_at h q0 v True e d (seq_is p))"
  unfolding begin_owner_commit_def
proof (rule thr.triple_reads_bind [OF reads_only_load stable_prod_at], intro triple_if)
  fix a
  have "thr.triple h q0 (tv_id v) (prod_at h q0 v True e d (seq_is p))
      (shared_cas (slot_owner_epoch_c off) a (a + 1)) (\<lambda>_. prod_at h q0 v True e d (seq_is p))"
    using triple_slot_cas [OF assms, of "slot_owner_epoch_c off" "a + 1"
        "\<lambda>x. x\<lparr>sl_owner_epoch := a + 1\<rparr>" sl_owner_epoch True "seq_is p" a True "seq_is p" q0]
    by (simp add: run_simps)
  then show "thr.triple h q0 (tv_id v) (prod_at h q0 v True e d (seq_is p))
     (bind (shared_cas (slot_owner_epoch_c off) a (a + 1))
       (\<lambda>won. if \<not> won then Ret (CommitCorrupt, 0) else Ret (CommitReady, a + 2)))
     (\<lambda>_. prod_at h q0 v True e d (seq_is p))"
    by (rule thr.triple_bind) (auto intro!: thr.triple_Ret)
qed (auto intro!: thr.triple_Ret)

lemma triple_publish:
  assumes "unat n = Suc (unat e)"
  shows "thr.triple h q0 (tv_id v)
     (prod_at h q0 v True e d (\<lambda>x. readable x (unat e) \<and> payload_of (mi_payload_size (tv_immutable v)) x = b))
     (shared_store enqueue_position_c n)
     (\<lambda>_. holding h q0 (v\<lparr>tv_in := tv_in v @ [b]\<rparr>) True)"
proof (rule thr.triple_store)
  show "thr.stable h q0 (tv_id v) (holding h q0 (v\<lparr>tv_in := tv_in v @ [b]\<rparr>) True)"
    using stable_holding [of h q0 "v\<lparr>tv_in := tv_in v @ [b]\<rparr>" True] by simp
  fix w g
  assume p: "prod_at h q0 v True e d
    (\<lambda>x. readable x (unat e) \<and> payload_of (mi_payload_size (tv_immutable v)) x = b) (w, g)"
  have at: "mpmc_at h q0 v (Some True) None (w, g)" and e: "enq_pos w = e"
    and rd: "readable (slot_pos h w (enq_nat w)) (enq_nat w)"
    and pl: "payload_of (mpmc_payload_size w) (slot_pos h w (enq_nat w)) = b"
    and hold: "gh_enq g = Some (tv_id v, True)"
    using p by (auto simp: prod_at_def mpmc_at_def)
  let ?w = "w\<lparr>mw_hdr := (mw_hdr w)\<lparr>mh_enqueue_position := n\<rparr>\<rparr>"
  let ?g = "g\<lparr>gh_enq := Some (tv_id v, False), gh_in := gh_in g @ [(tv_id v, b)]\<rparr>"
  have G: "mpmc_guar h q0 (tv_id v) (w, g) (?w, ?g)"
    by (rule guar_publish [OF hold rd _ pl]) (simp add: assms e)
  moreover have "holding h q0 (v\<lparr>tv_in := tv_in v @ [b]\<rparr>) True (?w, ?g)"
    unfolding holding_def by (rule mpmc_at_step [OF at G]) (use at in \<open>auto simp: mpmc_at_def\<close>)
  ultimately show "\<exists>g'. mpmc_guar h q0 (tv_id v) (w, g) (wr enqueue_position_c n w, g') \<and>
      holding h q0 (v\<lparr>tv_in := tv_in v @ [b]\<rparr>) True (wr enqueue_position_c n w, g')"
    unfolding mpmc_cell_access by blast
qed simp

lemma triple_push_finish:
  "thr.triple h q0 (tv_id v) (holding h q0 (v\<lparr>tv_in := tv_in v @ [b]\<rparr>) True)
     (bind (release_gate True) (\<lambda>_. bind notify_waiters (\<lambda>_. Ret (Inr ()))))
     (push_post h q0 v b)"
proof -
  let ?v = "v\<lparr>tv_in := tv_in v @ [b]\<rparr>"
  have "thr.triple h q0 (tv_id ?v) (holding h q0 ?v True)
     (bind (release_gate True) (\<lambda>_. bind notify_waiters (\<lambda>_. Ret (Inr ()))))
     (push_post h q0 v b)"
    by (rule thr.triple_bind [OF triple_release], rule thr.triple_bind [OF triple_notify],
        rule thr.triple_Ret) (simp_all add: push_post_def)
  then show ?thesis by simp
qed

lemma triple_push_failed:
  assumes "\<And>c. P c \<Longrightarrow> holding h q0 v True c"
  shows "thr.triple h q0 (tv_id v) P (fail_released True x) (push_post h q0 v b)"
  by (rule triple_pre [OF triple_fail_released assms])
    (simp_all only: push_post_def sum.case stable_at)

lemma triple_push_slot:
  assumes place: "prod_place h v e d off" and next_pos: "unat n = Suc (unat e)"
    and len: "length b = unat (mi_payload_size (tv_immutable v))"
  shows "thr.triple h q0 (tv_id v) (prod_at h q0 v False e d any_slot) (push_slot hi e n b off)
     (push_post h q0 v b)"
proof -
  let ?prod = "\<lambda>P. prod_at h q0 v True e d P"
  note store = triple_slot_store [OF place]
  have filling: "thr.triple h q0 (tv_id v) (?prod (seq_is (unat e)))
     (bind (set_owner (slot_owner_c off) (mq_self hi)) (\<lambda>_.
      bind (shared_store (slot_ticket_c off) e) (\<lambda>_.
      bind (shared_store (slot_owner_epoch_c off) ep) (\<lambda>_.
      bind (shared_store (slot_state_c off) (slot_word SlotEnqueueOwned)) (\<lambda>_.
      bind (memcpy_to (slot_payload_c off) 0 b) (\<lambda>_.
      bind (shared_store (slot_sequence_c off) n) (\<lambda>_.
      bind (shared_store (slot_state_c off) (slot_word SlotReady)) (\<lambda>_.
      bind (shared_store enqueue_position_c n) (\<lambda>_.
      bind (release_gate True) (\<lambda>_. bind notify_waiters (\<lambda>_. Ret (Inr ()))))))))))))
     (push_post h q0 v b)" for ep
  proof -
    have payload: "thr.triple h q0 (tv_id v) (?prod (seq_is (unat e))) (memcpy_to (slot_payload_c off) 0 b)
        (\<lambda>_. ?prod (\<lambda>x. map (sl_payload x) [0..<length b] = b))"
      by (rule thr.triple_conseq [OF triple_slot_memcpy [OF place, of "seq_is (unat e)" "[]" 0]])
        (auto simp: prod_at_def)
    have sequence: "thr.triple h q0 (tv_id v) (?prod (\<lambda>x. map (sl_payload x) [0..<length b] = b))
        (shared_store (slot_sequence_c off) n)
        (\<lambda>_. ?prod (\<lambda>x. seq_is (unat n) x \<and> map (sl_payload x) [0..<length b] = b))"
      by (rule store [of _ _ "\<lambda>x. x\<lparr>sl_sequence := n\<rparr>"]) (simp_all add: run_simps)
    have ready: "thr.triple h q0 (tv_id v) (?prod (\<lambda>x. seq_is (unat n) x \<and> map (sl_payload x) [0..<length b] = b))
        (shared_store (slot_state_c off) (slot_word SlotReady))
        (\<lambda>_. ?prod (\<lambda>x. readable x (unat e) \<and> payload_of (mi_payload_size (tv_immutable v)) x = b))"
      by (rule store [of _ _ "\<lambda>x. x\<lparr>sl_state := slot_word SlotReady\<rparr>"])
        (simp_all add: run_simps readable_def payload_of_def next_pos flip: len)
    have ticket: "thr.triple h q0 (tv_id v) (?prod (seq_is (unat e))) (shared_store (slot_ticket_c off) e)
        (\<lambda>_. ?prod (seq_is (unat e)))"
      by (rule store [of _ _ "\<lambda>x. x\<lparr>sl_ticket := e\<rparr>"]) (simp_all add: run_simps)
    have epoch: "thr.triple h q0 (tv_id v) (?prod (seq_is (unat e))) (shared_store (slot_owner_epoch_c off) ep)
        (\<lambda>_. ?prod (seq_is (unat e)))"
      by (rule store [of _ _ "\<lambda>x. x\<lparr>sl_owner_epoch := ep\<rparr>"]) (simp_all add: run_simps)
    have owned: "thr.triple h q0 (tv_id v) (?prod (seq_is (unat e)))
        (shared_store (slot_state_c off) (slot_word SlotEnqueueOwned)) (\<lambda>_. ?prod (seq_is (unat e)))"
      by (rule store [of _ _ "\<lambda>x. x\<lparr>sl_state := slot_word SlotEnqueueOwned\<rparr>"]) (simp_all add: run_simps)
    have owner: "thr.triple h q0 (tv_id v) (?prod (seq_is (unat e)))
        (set_owner (slot_owner_c off) (mq_self hi)) (\<lambda>_. ?prod (seq_is (unat e)))"
      by (rule triple_slot_owner [OF place]) simp
    show ?thesis
      by (intro thr.triple_bind [OF owner] thr.triple_bind [OF ticket] thr.triple_bind [OF epoch]
          thr.triple_bind [OF owned] thr.triple_bind [OF payload] thr.triple_bind [OF sequence]
          thr.triple_bind [OF ready] thr.triple_bind [OF triple_publish [OF next_pos]] triple_push_finish)
  qed
  have exhausted: "thr.triple h q0 (tv_id v) (prod_at h q0 v False e d any_slot)
      (shared_store (slot_state_c off) (protocol_failure_word r)) (\<lambda>_. prod_at h q0 v False e d any_slot)" for r
    by (rule store [of _ _ "\<lambda>x. x\<lparr>sl_state := protocol_failure_word r\<rparr>"])
      (simp_all add: run_simps writable_def protocol_failure_word_def)
  have marked: "thr.triple h q0 (tv_id v) (?prod (seq_is (unat e)))
      (mark_slot_protocol_failure off r) (\<lambda>_. prod_at h q0 v False e d any_slot)" for r
    unfolding mark_slot_protocol_failure_def
    by (rule store [of _ _ "\<lambda>x. x\<lparr>sl_state := protocol_failure_word r\<rparr>"])
      (simp_all add: run_simps writable_def protocol_failure_word_def)
  have fail: "thr.triple h q0 (tv_id v) (prod_at h q0 v False e d any_slot) (fail_released True x)
      (push_post h q0 v b)" for x
    by (rule triple_push_failed) (rule prod_at_holding)
  have claim: "thr.triple h q0 (tv_id v) (prod_at h q0 v False e d any_slot)
      (shared_cas (slot_state_c off) (slot_word SlotFree) (slot_word SlotEnqueueClaiming))
      (\<lambda>won. if won then ?prod (seq_is (unat e)) else prod_at h q0 v False e d any_slot)"
    by (rule triple_slot_cas [OF place, of _ _ "\<lambda>x. x\<lparr>sl_state := slot_word SlotEnqueueClaiming\<rparr>" sl_state])
      (simp_all add: run_simps writable_def)
  have commit: "thr.triple h q0 (tv_id v) (?prod (seq_is (unat e)))
      (begin_owner_commit (slot_owner_epoch_c off) 4) (\<lambda>_. ?prod (seq_is (unat e)))"
    by (rule triple_slot_begin_commit [OF place])
  show ?thesis
    unfolding push_slot_def
    by (rule thr.triple_reads_bind [OF reads_only_epoch_capacity stable_prod_at], rule triple_if,
        rule thr.triple_bind [OF exhausted fail], rule thr.triple_bind [OF claim], rule triple_won,
        rule fail, rule thr.triple_bind [OF commit], rule triple_case_prod, rule triple_if,
        rule thr.triple_bind [OF marked fail], rule filling)
qed

lemma validate_ticket_bounds_Inr:
  assumes "validate_ticket_bounds t c = Inr (n, r)"
  shows "unat n = Suc (unat t)" and "unat r = unat t + unat c"
proof -
  have "checked_add_u64 t 1 = Some n" "checked_add_u64 t (ucast c) = Some r"
    using assms
    by (auto simp: validate_ticket_bounds_def mpmc_checked_ticket_bounds_def split: option.splits if_splits)
  then show "unat n = Suc (unat t)" and "unat r = unat t + unat c"
    by (auto simp: checked_add_u64_Some_iff unat_add_no_wrap)
qed

lemma triple_slot_at_prod:
  assumes "mq_slot_stride hi = mq_slot_stride h"
  shows "thr.triple h q0 (tv_id v) (prod_at h q0 v b e d P) (slot_at hi pos)
     (\<lambda>s c. s = Some (ring (mq_slot_stride h) (mi_capacity (tv_immutable v)) (unat pos)) \<and>
        prod_at h q0 v b e d P c)"
  unfolding slot_at_def
proof (rule thr.triple_bind [OF triple_read_immutable_prod], rule thr.triple_Ret)
  fix im c assume "im = tv_immutable v \<and> prod_at h q0 v b e d P c"
  moreover from this have "mpmc_geometry (mi_capacity (tv_immutable v)) (mi_payload_size (tv_immutable v)) (mq_slot_stride hi)"
    using mpmc_at_geometry [of h q0 v _ _ "fst c" "snd c"] assms by (auto simp: prod_at_def)
  ultimately show "slot_offset_of hi (mi_capacity im) pos =
      Some (ring (mq_slot_stride h) (mi_capacity (tv_immutable v)) (unat pos)) \<and>
      prod_at h q0 v b e d P c"
    using slot_offset_of_eq assms by metis
qed simp

lemma triple_slot_invalid_result:
  assumes "\<And>c. mpmc_at h q0 v None None c \<Longrightarrow> Q (Inl kRecoveryBlocked) c"
    and "thr.stable h q0 (tv_id v) (Q (Inl kRecoveryBlocked))"
  shows "thr.triple h q0 (tv_id v) (holding h q0 v e) (slot_invalid_result e s) Q"
proof -
  have fail: "thr.triple h q0 (tv_id v) (holding h q0 v e) (fail_released e kRecoveryBlocked) Q"
    by (rule triple_fail_released) (use assms in auto)
  show ?thesis
    unfolding slot_invalid_result_def
    by (cases s) (auto intro!: fail thr.triple_reads_bind [OF reads_only_snapshot_slot stable_holding])
qed

lemma triple_push_full_locked:
  "thr.triple h q0 (tv_id v) (holding h q0 v True) (push_full_locked hi) (push_post h q0 v b)"
  unfolding push_full_locked_def
proof (rule thr.triple_reads_bind [OF reads_only_classify_gate stable_holding],
       rule thr.triple_reads_bind [OF reads_only_unrecoverable stable_holding],
       rule thr.triple_bind [OF triple_release])
  fix x
  have y: "yields (\<lambda>r. \<exists>x. r = Inl x) (push_full_result hi x)"
    unfolding push_full_result_def by (auto intro!: yields_bind split: sum.splits)
  show "thr.triple h q0 (tv_id v) (mpmc_at h q0 v None None) (push_full_result hi x) (push_post h q0 v b)"
    by (rule thr.triple_conseq [OF thr.triple_reads_yields [OF reads_only_push_full_result y stable_at]])
      (auto simp: push_post_def)
qed

lemma triple_push_admitted:
  assumes stride: "mq_slot_stride hi = mq_slot_stride h"
    and len: "length b = unat (mi_payload_size (tv_immutable v))"
    and n: "unat n = Suc (unat e)"
  shows "thr.triple h q0 (tv_id v) (prod_admitted h q0 v e r)
      (case r of Inl x \<Rightarrow> fail_released True x
       | Inr (e', d') \<Rightarrow>
           bind (slot_at hi e') (\<lambda>slot. bind (slot_invalid slot e' SlotFree) (\<lambda>invalid.
             if invalid then slot_invalid_result True slot else push_slot hi e' n b (the slot))))
      (push_post h q0 v b)"
proof (cases r)
  case (Inl x)
  show ?thesis unfolding Inl sum.case by (rule triple_push_failed) (simp add: prod_admitted_def)
next
  case (Inr p)
  obtain e' d' where p: "p = (e', d')" by (cases p)
  let ?off = "ring (mq_slot_stride h) (mi_capacity (tv_immutable v)) (unat e')"
  have go: "thr.triple h q0 (tv_id v) (prod_at h q0 v False e d' any_slot)
      (bind (slot_at hi e') (\<lambda>slot. bind (slot_invalid slot e' SlotFree) (\<lambda>invalid.
         if invalid then slot_invalid_result True slot else push_slot hi e' n b (the slot))))
      (push_post h q0 v b)"
    if e': "e' = e" and room: "unat e < unat d' + unat (mi_capacity (tv_immutable v))"
  proof (rule thr.triple_bind [OF triple_slot_at_prod [OF stride]],
         rule thr.triple_reads_bind [OF reads_only_slot_invalid], simp, rule triple_if)
    fix s
    let ?P = "\<lambda>c. s = Some ?off \<and> prod_at h q0 v False e d' any_slot c"
    show "thr.triple h q0 (tv_id v) ?P (slot_invalid_result True s) (push_post h q0 v b)"
      by (rule triple_pre [OF triple_slot_invalid_result])
        (simp add: push_post_def, simp, blast intro: prod_at_holding)
    have "prod_place h v e d' ?off"
      using room e' by (simp add: prod_place_def)
    from triple_push_slot [OF this n len, of q0 hi]
    show "thr.triple h q0 (tv_id v) ?P (push_slot hi e' n b (the s)) (push_post h q0 v b)"
      using e' by (auto simp: thr.triple_def)
  qed
  show ?thesis
    unfolding Inr p sum.case prod.case prod_admitted_def using go by (auto simp: thr.triple_def)
qed

lemma triple_push_locked:
  assumes stride: "mq_slot_stride hi = mq_slot_stride h"
    and cap: "cap = mi_capacity (tv_immutable v)"
    and len: "length b = unat (mi_payload_size (tv_immutable v))"
  shows "thr.triple h q0 (tv_id v) (holding h q0 v True) (push_locked hi cap b) (push_post h q0 v b)"
proof (rule triple_pre [OF triple_ex holding_enqueueD])
  fix e
  have fail: "thr.triple h q0 (tv_id v) P (fail_released True x) (push_post h q0 v b)"
    if "\<And>c. P c \<Longrightarrow> holding h q0 v True c" for P x
    by (rule triple_push_failed [OF that])
  show "thr.triple h q0 (tv_id v) (prod_at h q0 v False e 0 any_slot) (push_locked hi cap b) (push_post h q0 v b)"
    unfolding push_locked_def
  proof (rule thr.triple_bind [OF triple_prod_positions])
    fix r :: "(u64 \<times> u64) result"
    show "thr.triple h q0 (tv_id v) (prod_positions h q0 v e r)
      (case r of Inl x \<Rightarrow> fail_released True x
       | Inr (enqueue, dequeue) \<Rightarrow>
           (case validate_queue_positions enqueue dequeue cap of Inl x \<Rightarrow> fail_released True x
            | Inr _ \<Rightarrow>
                (case validate_ticket_bounds enqueue cap of Inl x \<Rightarrow> fail_released True x
                 | Inr (next_enqueue, reclaim_sequence) \<Rightarrow>
                     if enqueue - dequeue = ucast cap then push_full_locked hi
                     else bind (validate_push_drain_admission hi enqueue dequeue) (\<lambda>admission.
                       case admission of Inl x \<Rightarrow> fail_released True x
                       | Inr (enqueue', dequeue') \<Rightarrow>
                           bind (slot_at hi enqueue') (\<lambda>slot.
                           bind (slot_invalid slot enqueue' SlotFree) (\<lambda>invalid.
                             if invalid then slot_invalid_result True slot
                             else push_slot hi enqueue' next_enqueue b (the slot)))))))
      (push_post h q0 v b)"
    proof (cases r)
      case (Inl x)
      show ?thesis unfolding Inl sum.case by (rule fail) (simp add: prod_positions_def)
    next
      case (Inr p)
      obtain e' d' where p: "p = (e', d')" by (cases p)
      have pre: "prod_positions h q0 v e r c \<Longrightarrow> e' = e \<and> prod_at h q0 v False e d' any_slot c" for c
        by (simp add: prod_positions_def Inr p)
      have failed: "thr.triple h q0 (tv_id v) (prod_positions h q0 v e r) (fail_released True x) (push_post h q0 v b)" for x
        by (rule fail) (auto dest!: pre intro: prod_at_holding)
      have full: "thr.triple h q0 (tv_id v) (prod_positions h q0 v e r) (push_full_locked hi) (push_post h q0 v b)"
        by (rule triple_pre [OF triple_push_full_locked]) (auto dest!: pre intro: prod_at_holding)
      have "thr.triple h q0 (tv_id v) (prod_positions h q0 v e r)
          (bind (validate_push_drain_admission hi e' d') (\<lambda>admission.
             case admission of Inl x \<Rightarrow> fail_released True x
             | Inr (enqueue', dequeue') \<Rightarrow>
                 bind (slot_at hi enqueue') (\<lambda>slot.
                 bind (slot_invalid slot enqueue' SlotFree) (\<lambda>invalid.
                   if invalid then slot_invalid_result True slot
                   else push_slot hi enqueue' n b (the slot)))))
          (push_post h q0 v b)" (is "thr.triple _ _ _ _ (?go e') _") if n: "unat n = Suc (unat e')" for n
      proof (cases "e' = e")
        case True
        have "thr.triple h q0 (tv_id v) (prod_at h q0 v False e d' any_slot) (?go e) (push_post h q0 v b)"
          by (rule thr.triple_bind [OF triple_admission], rule triple_push_admitted [OF stride len]) (use n True in simp)
        then show ?thesis
          unfolding True by (rule triple_pre) (auto dest!: pre)
      next
        case False
        then show ?thesis using pre by (auto simp: thr.triple_def)
      qed
      then show ?thesis
        using failed full validate_ticket_bounds_Inr(1) [of e' cap]
        unfolding Inr p by (auto intro!: triple_if split: sum.splits)
    qed
  qed
qed

lemma yields_live_handle:
  "yields (\<lambda>r. case r of Inl _ \<Rightarrow> True | Inr h' \<Rightarrow> handle = Some h') (validate_live_handle handle)"
  unfolding validate_live_handle_def by (cases handle) (auto intro!: yields_bind)

lemma yields_push_full: "yields (\<lambda>r. \<exists>x. r = Inl x) (push_full_unlocked hi)"
  unfolding push_full_unlocked_def push_full_result_def
  by (auto intro!: yields_bind yields_gate_busy split: sum.splits)

text \<open>
  Reading on before the gate is taken: an error of the part that reads is the error of the whole,
  and what follows starts from the same assertion.
\<close>

lemma triple_reads_first:
  assumes "reads_only p" and "yields (case_sum (\<lambda>_. True) S) p" and "thr.stable h q0 i P"
    and "\<And>a. S a \<Longrightarrow> thr.triple h q0 i P (f a) Q"
    and "\<And>e c. P c \<Longrightarrow> Q (Inl e) c" and "\<And>e. thr.stable h q0 i (Q (Inl e))"
  shows "thr.triple h q0 i P (try_bind p f) Q"
  unfolding try_bind_def
proof (rule thr.triple_bind [OF thr.triple_reads_yields [OF assms(1-3)]])
  fix r
  show "thr.triple h q0 i (\<lambda>c. case_sum (\<lambda>_. True) S r \<and> P c)
      (case r of Inl e \<Rightarrow> Ret (Inl e) | Inr v \<Rightarrow> f v) Q"
  proof (cases r)
    case (Inl x)
    show ?thesis unfolding Inl sum.case by (rule thr.triple_Ret) (use assms(5,6) in blast)+
  next
    case (Inr a)
    show ?thesis
      unfolding Inr sum.case using assms(4) [of a] by (auto simp: thr.triple_def)
  qed
qed

lemma triple_reads_any:
  assumes "reads_only p" and "thr.stable h q0 i P"
    and "\<And>a. thr.triple h q0 i P (f a) Q"
    and "\<And>e c. P c \<Longrightarrow> Q (Inl e) c" and "\<And>e. thr.stable h q0 i (Q (Inl e))"
  shows "thr.triple h q0 i P (try_bind p f) Q"
proof (rule triple_reads_first [OF assms(1) _ assms(2), of "\<lambda>_. True"])
  have "case_sum (\<lambda>_. True) (\<lambda>_. True) = (\<lambda>_. True)"
    by (auto split: sum.splits)
  then show "yields (case_sum (\<lambda>_. True) (\<lambda>_. True)) p" by simp
qed (use assms(3-5) in blast)+

lemma triple_try_push:
  assumes stride: "\<And>hi. handle = Some hi \<Longrightarrow> mq_slot_stride hi = mq_slot_stride h"
    and len: "length b = unat n"
  shows "thr.triple h q0 (tv_id v) (mpmc_at h q0 v None None) (mpmc_try_push_impl handle (Some b) n)
     (push_post h q0 v b)"
proof -
  let ?idle = "mpmc_at h q0 v None None"
  have fail: "thr.triple h q0 (tv_id v) ?idle (Ret (Inl x)) (push_post h q0 v b)" for x
    by (rule thr.triple_Ret) (simp, simp add: push_post_def)
  have err: "?idle c \<Longrightarrow> push_post h q0 v b (Inl x) c" for x c
    by (simp add: push_post_def)
  have reads: "thr.triple h q0 (tv_id v) ?idle (try_bind p f) (push_post h q0 v b)"
    if "reads_only p" and "\<And>a. thr.triple h q0 (tv_id v) ?idle (f a) (push_post h q0 v b)"
    for p :: "(mpmc_world, (u64 \<times> u64) result) prog" and f
    by (rule triple_reads_any [OF that(1) stable_at that(2)]) (simp_all only: err stable_push_post)
  have full: "thr.triple h q0 (tv_id v) ?idle (push_full_unlocked hi) (push_post h q0 v b)" for hi
    by (rule thr.triple_conseq [OF thr.triple_reads_yields [OF reads_only_push_full yields_push_full stable_at]])
      (auto simp: push_post_def)
  have locked: "thr.triple h q0 (tv_id v) ?idle
      (try_bind (validate_push_drain_admission hi e d) (\<lambda>_.
       try_bind (acquire_gate hi True) (\<lambda>_.
         push_locked hi (mi_capacity (tv_immutable v))
           (take (unat (mi_payload_size (tv_immutable v))) b))))
      (push_post h q0 v b)"
    if "handle = Some hi" and "n = mi_payload_size (tv_immutable v)" for hi e d
  proof (rule reads [OF reads_only_admission], rule thr.triple_try_bind [OF triple_acquire_gate])
    show "thr.triple h q0 (tv_id v) (holding h q0 v True)
        (push_locked hi (mi_capacity (tv_immutable v)) (take (unat (mi_payload_size (tv_immutable v))) b))
        (push_post h q0 v b)"
      using triple_push_locked [OF stride [OF that(1)] refl, of b v q0] len that(2) by simp
  qed (simp_all add: err)
  have checked: "thr.triple h q0 (tv_id v) (\<lambda>c. im = tv_immutable v \<and> ?idle c)
      (if Some b = None \<or> n \<noteq> mi_payload_size im then Ret (Inl kInvalidOptions)
       else try_bind snapshot_queue_positions (\<lambda>(enqueue, dequeue).
           case validate_queue_positions enqueue dequeue (mi_capacity im) of Inl x \<Rightarrow> Ret (Inl x)
           | Inr _ \<Rightarrow>
               (case validate_ticket_bounds enqueue (mi_capacity im) of Inl x \<Rightarrow> Ret (Inl x)
                | Inr _ \<Rightarrow>
                    if enqueue - dequeue = ucast (mi_capacity im) then push_full_unlocked hi
                    else try_bind (validate_push_drain_admission hi enqueue dequeue) (\<lambda>_.
                      try_bind (acquire_gate hi True) (\<lambda>_.
                        push_locked hi (mi_capacity im) (take (unat n) (the (Some b))))))))
      (push_post h q0 v b)" (is "thr.triple _ _ _ _ (?rest hi im) _") if h: "handle = Some hi" for im hi
  proof (cases "im = tv_immutable v")
    case True
    have "thr.triple h q0 (tv_id v) ?idle (?rest hi (tv_immutable v)) (push_post h q0 v b)"
      by (rule triple_if, rule fail, rule reads [OF reads_only_positions], rule triple_case_prod)
        (auto intro!: fail full locked [OF h] triple_if split: sum.splits)
    then show ?thesis unfolding True by (rule triple_pre) simp
  qed (simp add: thr.triple_def)
  show ?thesis
    unfolding mpmc_try_push_impl_def
  proof (rule triple_reads_first [OF reads_only_live_handle yields_live_handle stable_at])
    fix hi assume "handle = Some hi"
    then show "thr.triple h q0 (tv_id v) ?idle
        (bind (shared_load immutable_c) (\<lambda>im. ?rest hi im)) (push_post h q0 v b)"
      by (intro thr.triple_bind [OF triple_read_immutable]) (rule checked)
  qed (simp_all only: err stable_push_post)
qed

end
