(* ===== verification/ER_Mpmc_Pop.thy ===== *)
theory ER_Mpmc_Pop
  imports ER_Mpmc_Push
begin

text \<open>
  A pop among other threads. \<open>triple_try_pop\<close> says that \<open>mpmc_try_pop_impl\<close> returns, on success,
  the payload it logged as leaving the queue, untorn, and logs nothing when it returns an error.
\<close>

subsection \<open>Pop among others\<close>

definition pop_post where
  "pop_post h q0 v r =
     (case r of Inl _ \<Rightarrow> mpmc_at h q0 v None None
      | Inr b \<Rightarrow> mpmc_at h q0 (v\<lparr>tv_out := tv_out v @ [b]\<rparr>) None None)"

lemma stable_at_out [simp]: "thr.stable h q0 (tv_id v) (mpmc_at h q0 (v\<lparr>tv_out := l\<rparr>) ve vd)"
  using stable_at [of h q0 "v\<lparr>tv_out := l\<rparr>"] by simp

lemma stable_pop_post [simp]: "thr.stable h q0 (tv_id v) (pop_post h q0 v r)"
  by (cases r) (simp_all add: pop_post_def)

definition cons_place where
  "cons_place h v e d off \<longleftrightarrow>
     unat d < unat (e :: u64) \<and>
     off = ring (mq_slot_stride h) (mi_capacity (tv_immutable v)) (unat (d :: u64))"

lemma cons_slot_step:
  assumes at: "cons_at h q0 v b e d P (w, g)" and place: "cons_place h v e d off"
    and pl: "\<And>x. sl_payload (f x) = sl_payload x"
    and post: "\<And>x. (b \<longrightarrow> P x) \<Longrightarrow> (\<not> b \<longrightarrow> readable x (unat d)) \<Longrightarrow> x = mw_slots w off \<Longrightarrow>
                 (b' \<longrightarrow> P' (f x)) \<and> (\<not> b' \<longrightarrow> readable (f x) (unat d))"
  shows "\<exists>g'. mpmc_guar h q0 (tv_id v) (w, g) (w\<lparr>mw_slots := (mw_slots w)(off := f (mw_slots w off))\<rparr>, g') \<and>
     cons_at h q0 v b' e d P' (w\<lparr>mw_slots := (mw_slots w)(off := f (mw_slots w off))\<rparr>, g')"
proof -
  have at': "mpmc_at h q0 v None (Some b) (w, g)" and d: "deq_pos w = d" and e: "unat e \<le> enq_nat w"
    and busy: "b \<longrightarrow> P (slot_pos h w (unat d))"
    using at by (auto simp: cons_at_def)
  have cap: "mpmc_capacity w = mi_capacity (tv_immutable v)" and hold: "gh_deq g = Some (tv_id v, b)"
    using at' by (auto simp: mpmc_at_def)
  have off: "off = ring (mq_slot_stride h) (mi_capacity (tv_immutable v)) (unat d)"
    using place by (simp add: cons_place_def)
  have off': "ring_at h w (unat d) = off" by (simp add: off cap)
  have x: "mw_slots w off = slot_pos h w (unat d)" by (simp add: slot_pos_def cap off)
  have some: "deq_nat w < enq_nat w" using place d e by (simp add: cons_place_def)
  have rd: "\<not> b \<longrightarrow> readable (slot_pos h w (unat d)) (unat d)"
    using mpmc_at_inv [OF at'] some hold d by (auto simp: shared_inv_simps)
  have p: "(b' \<longrightarrow> P' (f (mw_slots w off))) \<and> (\<not> b' \<longrightarrow> readable (f (mw_slots w off)) (unat d))"
    by (rule post) (use busy rd x in auto)
  let ?w = "w\<lparr>mw_slots := (mw_slots w)(off := f (mw_slots w off))\<rparr>"
  have G: "mpmc_guar h q0 (tv_id v) (w, g) (?w, g\<lparr>gh_deq := Some (tv_id v, b')\<rparr>)"
    using guar_dequeue_slot [OF hold some, of b' "f (mw_slots w off)" h q0] p d off' pl x by auto
  moreover have "mpmc_at h q0 v None (Some b') (?w, g\<lparr>gh_deq := Some (tv_id v, b')\<rparr>)"
    by (rule mpmc_at_step [OF at' G]) (use at' in \<open>auto simp: mpmc_at_def\<close>)
  moreover have "slot_pos h ?w (unat d) = f (mw_slots w off)"
    by (simp add: slot_pos_def cap off)
  ultimately show ?thesis
    using p e d by (auto simp: cons_at_def)
qed

lemma triple_cons_store:
  assumes "cons_place h v e d off"
    and "\<And>w. wr x a w = w\<lparr>mw_slots := (mw_slots w)(off := f (mw_slots w off))\<rparr>"
    and "\<And>x. sl_payload (f x) = sl_payload x"
    and "\<And>x. (b \<longrightarrow> P x) \<Longrightarrow> (\<not> b \<longrightarrow> readable x (unat d)) \<Longrightarrow>
           (b' \<longrightarrow> P' (f x)) \<and> (\<not> b' \<longrightarrow> readable (f x) (unat d))"
  shows "thr.triple h q0 (tv_id v) (cons_at h q0 v b e d P) (shared_store x a) (\<lambda>_. cons_at h q0 v b' e d P')"
proof (rule thr.triple_store [OF stable_cons_at stable_cons_at])
  fix w g assume at: "cons_at h q0 v b e d P (w, g)"
  show "\<exists>g'. mpmc_guar h q0 (tv_id v) (w, g) (wr x a w, g') \<and> cons_at h q0 v b' e d P' (wr x a w, g')"
    unfolding assms(2) by (rule cons_slot_step [OF at assms(1,3)]) (rule assms(4))
qed

lemma triple_cons_cas:
  assumes "cons_place h v e d off"
    and "\<And>w. wr x a w = w\<lparr>mw_slots := (mw_slots w)(off := f (mw_slots w off))\<rparr>"
    and "\<And>x. sl_payload (f x) = sl_payload x"
    and "\<And>x. (b \<longrightarrow> P x) \<Longrightarrow> (\<not> b \<longrightarrow> readable x (unat d)) \<Longrightarrow>
           (b' \<longrightarrow> P' (f x)) \<and> (\<not> b' \<longrightarrow> readable (f x) (unat d))"
  shows "thr.triple h q0 (tv_id v) (cons_at h q0 v b e d P) (shared_cas x o' a)
     (\<lambda>won. if won then cons_at h q0 v b' e d P' else cons_at h q0 v b e d P)"
proof (rule thr.triple_cas)
  fix w g assume at: "cons_at h q0 v b e d P (w, g)" and eq: "rd x w = o'"
  have "\<exists>g'. mpmc_guar h q0 (tv_id v) (w, g) (wr x a w, g') \<and> cons_at h q0 v b' e d P' (wr x a w, g')"
    unfolding assms(2) by (rule cons_slot_step [OF at assms(1,3)]) (rule assms(4))
  then show "\<exists>g'. mpmc_guar h q0 (tv_id v) (w, g) (wr x a w, g') \<and>
      (if True then cons_at h q0 v b' e d P' else cons_at h q0 v b e d P) (wr x a w, g')" by simp
qed simp_all

lemma triple_cons_memcpy:
  assumes "cons_place h v e d off"
  shows "thr.triple h q0 (tv_id v) (cons_at h q0 v True e d (\<lambda>x. P x \<and> sl_payload x = pl))
     (memcpy_from (slot_payload_c off) i n)
     (\<lambda>bs c. bs = map pl [i..<i + n] \<and> cons_at h q0 v True e d (\<lambda>x. P x \<and> sl_payload x = pl) c)"
proof (induction n arbitrary: i)
  case 0
  show ?case by (simp, rule thr.triple_Ret) simp_all
next
  case (Suc n)
  let ?C = "cons_at h q0 v True e d (\<lambda>x. P x \<and> sl_payload x = pl)"
  have load: "thr.triple h q0 (tv_id v) ?C (shared_load (slot_payload_c off i)) (\<lambda>b c. b = pl i \<and> ?C c)"
    by (rule thr.triple_load, simp, simp)
      (use assms in \<open>auto simp: run_simps cons_at_def cons_place_def slot_pos_def mpmc_at_def\<close>)
  have rest: "thr.triple h q0 (tv_id v) (\<lambda>c. b = pl i \<and> ?C c)
      (bind (memcpy_from (slot_payload_c off) (Suc i) n) (\<lambda>bs. Ret (b # bs)))
      (\<lambda>bs c. bs = map pl [i..<i + Suc n] \<and> ?C c)" for b
  proof (cases "b = pl i")
    case True
    have "thr.triple h q0 (tv_id v) ?C
        (bind (memcpy_from (slot_payload_c off) (Suc i) n) (\<lambda>bs. Ret (b # bs)))
        (\<lambda>bs c. bs = map pl [i..<i + Suc n] \<and> ?C c)"
      by (rule thr.triple_bind [OF Suc.IH], rule thr.triple_Ret)
        (auto simp: True upt_conv_Cons simp del: upt_Suc)
    then show ?thesis using True by simp
  qed (simp add: thr.triple_def)
  show ?case
    unfolding memcpy_from.simps by (rule thr.triple_bind [OF load rest])
qed

lemma triple_cons_owner:
  assumes "cons_place h v e d off" and "\<And>x f. P (x\<lparr>sl_owner := f\<rparr>) = P x"
  shows "thr.triple h q0 (tv_id v) (cons_at h q0 v True e d P) (set_owner (slot_owner_c off) p)
     (\<lambda>_. cons_at h q0 v True e d P)"
proof -
  have st: "thr.triple h q0 (tv_id v) (cons_at h q0 v True e d P) (shared_store (field (slot_owner_c off) c) a)
      (\<lambda>_. cons_at h q0 v True e d P)" for c :: "(owner_abi, u64) cell" and a
    by (rule triple_cons_store [OF assms(1), of _ _ "\<lambda>x. x\<lparr>sl_owner := wr c a (sl_owner x)\<rparr>"])
      (simp_all add: run_simps assms(2))
  show ?thesis
    unfolding set_owner_def store_owner_seq_cst_def by (intro thr.triple_bind [OF st]) (rule st)
qed

lemma triple_cons_begin_commit:
  assumes "cons_place h v e d off"
  shows "thr.triple h q0 (tv_id v) (cons_at h q0 v True e d (seq_is p))
     (begin_owner_commit (slot_owner_epoch_c off) r) (\<lambda>_. cons_at h q0 v True e d (seq_is p))"
  unfolding begin_owner_commit_def
proof (rule thr.triple_reads_bind [OF reads_only_load stable_cons_at], intro triple_if)
  fix a
  have "thr.triple h q0 (tv_id v) (cons_at h q0 v True e d (seq_is p))
      (shared_cas (slot_owner_epoch_c off) a (a + 1)) (\<lambda>_. cons_at h q0 v True e d (seq_is p))"
    using triple_cons_cas [OF assms, of "slot_owner_epoch_c off" "a + 1"
        "\<lambda>x. x\<lparr>sl_owner_epoch := a + 1\<rparr>" True "seq_is p" True "seq_is p" q0 a]
    by (simp add: run_simps)
  then show "thr.triple h q0 (tv_id v) (cons_at h q0 v True e d (seq_is p))
     (bind (shared_cas (slot_owner_epoch_c off) a (a + 1))
       (\<lambda>won. if \<not> won then Ret (CommitCorrupt, 0) else Ret (CommitReady, a + 2)))
     (\<lambda>_. cons_at h q0 v True e d (seq_is p))"
    by (rule thr.triple_bind) (auto intro!: thr.triple_Ret)
qed (auto intro!: thr.triple_Ret)

lemma triple_reclaim:
  fixes d n :: u64
  assumes "unat n = Suc (unat d)"
    and b: "b = map pl [0..<unat (mi_payload_size (tv_immutable v))]"
  shows "thr.triple h q0 (tv_id v)
     (cons_at h q0 v True e d
        (\<lambda>x. writable x (unat d + unat (mi_capacity (tv_immutable v))) \<and> sl_payload x = pl))
     (shared_store dequeue_position_c n)
     (\<lambda>_. holding h q0 (v\<lparr>tv_out := tv_out v @ [b]\<rparr>) False)"
proof (rule thr.triple_store)
  show "thr.stable h q0 (tv_id v) (holding h q0 (v\<lparr>tv_out := tv_out v @ [b]\<rparr>) False)"
    using stable_holding [of h q0 "v\<lparr>tv_out := tv_out v @ [b]\<rparr>" False] by simp
  fix w g
  assume p: "cons_at h q0 v True e d
    (\<lambda>x. writable x (unat d + unat (mi_capacity (tv_immutable v))) \<and> sl_payload x = pl) (w, g)"
  have at: "mpmc_at h q0 v None (Some True) (w, g)" and d: "deq_pos w = d"
    and wt: "writable (slot_pos h w (deq_nat w)) (deq_nat w + cap_nat w)"
    and pl: "b = payload_of (mpmc_payload_size w) (slot_pos h w (deq_nat w))"
    and hold: "gh_deq g = Some (tv_id v, True)"
    using p b by (auto simp: cons_at_def mpmc_at_def payload_of_def)
  let ?w = "w\<lparr>mw_hdr := (mw_hdr w)\<lparr>mh_dequeue_position := n\<rparr>\<rparr>"
  let ?g = "g\<lparr>gh_deq := Some (tv_id v, False), gh_out := gh_out g @ [(tv_id v, b)]\<rparr>"
  have G: "mpmc_guar h q0 (tv_id v) (w, g) (?w, ?g)"
    by (rule guar_reclaim [OF hold wt _ pl]) (simp add: assms d)
  moreover have "holding h q0 (v\<lparr>tv_out := tv_out v @ [b]\<rparr>) False (?w, ?g)"
    unfolding holding_def by (rule mpmc_at_step [OF at G]) (use at in \<open>auto simp: mpmc_at_def\<close>)
  ultimately show "\<exists>g'. mpmc_guar h q0 (tv_id v) (w, g) (wr dequeue_position_c n w, g') \<and>
      holding h q0 (v\<lparr>tv_out := tv_out v @ [b]\<rparr>) False (wr dequeue_position_c n w, g')"
    unfolding mpmc_cell_access by blast
qed simp

lemma triple_pop_finish:
  "thr.triple h q0 (tv_id v) (holding h q0 (v\<lparr>tv_out := tv_out v @ [b]\<rparr>) False)
     (bind (release_gate False) (\<lambda>_. bind notify_waiters (\<lambda>_. Ret (Inr b))))
     (pop_post h q0 v)"
proof -
  let ?v = "v\<lparr>tv_out := tv_out v @ [b]\<rparr>"
  have "thr.triple h q0 (tv_id ?v) (holding h q0 ?v False)
     (bind (release_gate False) (\<lambda>_. bind notify_waiters (\<lambda>_. Ret (Inr b))))
     (pop_post h q0 v)"
    by (rule thr.triple_bind [OF triple_release], rule thr.triple_bind [OF triple_notify],
        rule thr.triple_Ret) (simp_all add: pop_post_def)
  then show ?thesis by simp
qed

lemma triple_pop_failed:
  assumes "\<And>c. P c \<Longrightarrow> holding h q0 v False c"
  shows "thr.triple h q0 (tv_id v) P (fail_released False x) (pop_post h q0 v)"
  by (rule triple_pre [OF triple_fail_released assms])
    (simp_all only: pop_post_def sum.case stable_at)

lemma triple_pop_drain:
  assumes place: "cons_place h v e d off" and n: "unat n = Suc (unat d)"
    and r: "unat r = unat d + unat (mi_capacity (tv_immutable v))"
    and ps: "ps = mi_payload_size (tv_immutable v)"
  shows "thr.triple h q0 (tv_id v) (cons_at h q0 v True e d (seq_is (unat n)))
     (bind (memcpy_from (slot_payload_c off) 0 (unat ps)) (\<lambda>payload.
      bind (shared_store (slot_sequence_c off) r) (\<lambda>_.
      bind (shared_store (slot_state_c off) (slot_word SlotFree)) (\<lambda>_.
      bind (shared_store dequeue_position_c n) (\<lambda>_.
      bind (release_gate False) (\<lambda>_. bind notify_waiters (\<lambda>_. Ret (Inr payload))))))))
     (pop_post h q0 v)" (is "thr.triple _ _ _ ?P ?prog ?Q")
proof (rule triple_pre [OF triple_ex])
  fix pl
  let ?cons = "\<lambda>P. cons_at h q0 v True e d (\<lambda>x. P x \<and> sl_payload x = pl)"
  let ?b = "map pl [0..<unat ps]"
  note store = triple_cons_store [OF place]
  have sequence: "thr.triple h q0 (tv_id v) (?cons (seq_is (unat n))) (shared_store (slot_sequence_c off) r)
      (\<lambda>_. ?cons (seq_is (unat r)))"
    by (rule store [of _ _ "\<lambda>x. x\<lparr>sl_sequence := r\<rparr>"]) (simp_all add: run_simps)
  have free: "thr.triple h q0 (tv_id v) (?cons (seq_is (unat r)))
      (shared_store (slot_state_c off) (slot_word SlotFree))
      (\<lambda>_. ?cons (\<lambda>x. writable x (unat d + unat (mi_capacity (tv_immutable v)))))"
    by (rule store [of _ _ "\<lambda>x. x\<lparr>sl_state := slot_word SlotFree\<rparr>"])
      (simp_all add: run_simps writable_def r)
  have rest: "thr.triple h q0 (tv_id v) (?cons (seq_is (unat n)))
     (bind (shared_store (slot_sequence_c off) r) (\<lambda>_.
      bind (shared_store (slot_state_c off) (slot_word SlotFree)) (\<lambda>_.
      bind (shared_store dequeue_position_c n) (\<lambda>_.
      bind (release_gate False) (\<lambda>_. bind notify_waiters (\<lambda>_. Ret (Inr ?b)))))))
     (pop_post h q0 v)"
    by (intro thr.triple_bind [OF sequence] thr.triple_bind [OF free]
        thr.triple_bind [OF triple_reclaim [OF n refl]])
      (simp add: ps triple_pop_finish)
  show "thr.triple h q0 (tv_id v) (?cons (seq_is (unat n))) ?prog ?Q"
    by (rule thr.triple_bind [OF triple_cons_memcpy [OF place]])
      (use rest in \<open>auto simp: thr.triple_def\<close>)
next
  fix c assume "?P c"
  then show "\<exists>pl. cons_at h q0 v True e d (\<lambda>x. seq_is (unat n) x \<and> sl_payload x = pl) c"
    by (simp add: cons_at_def)
qed

lemma triple_pop_slot:
  assumes place: "cons_place h v e d off" and n: "unat n = Suc (unat d)"
    and r: "unat r = unat d + unat (mi_capacity (tv_immutable v))"
    and ps: "ps = mi_payload_size (tv_immutable v)"
  shows "thr.triple h q0 (tv_id v) (cons_at h q0 v False e d any_slot) (pop_slot hi d n r ps off)
     (pop_post h q0 v)"
proof -
  let ?cons = "cons_at h q0 v True e d (seq_is (unat n))"
  let ?held = "cons_at h q0 v False e d any_slot"
  note store = triple_cons_store [OF place]
  have ticket: "thr.triple h q0 (tv_id v) ?cons (shared_store (slot_ticket_c off) d) (\<lambda>_. ?cons)"
    by (rule store [of _ _ "\<lambda>x. x\<lparr>sl_ticket := d\<rparr>"]) (simp_all add: run_simps)
  have epoch: "thr.triple h q0 (tv_id v) ?cons (shared_store (slot_owner_epoch_c off) ep) (\<lambda>_. ?cons)" for ep
    by (rule store [of _ _ "\<lambda>x. x\<lparr>sl_owner_epoch := ep\<rparr>"]) (simp_all add: run_simps)
  have owned: "thr.triple h q0 (tv_id v) ?cons
      (shared_store (slot_state_c off) (slot_word SlotDequeueOwned)) (\<lambda>_. ?cons)"
    by (rule store [of _ _ "\<lambda>x. x\<lparr>sl_state := slot_word SlotDequeueOwned\<rparr>"]) (simp_all add: run_simps)
  have owner: "thr.triple h q0 (tv_id v) ?cons (set_owner (slot_owner_c off) (mq_self hi)) (\<lambda>_. ?cons)"
    by (rule triple_cons_owner [OF place]) simp
  have restored: "thr.triple h q0 (tv_id v) ?cons
      (shared_store (slot_state_c off) (slot_word SlotReady)) (\<lambda>_. ?held)"
    by (rule store [of _ _ "\<lambda>x. x\<lparr>sl_state := slot_word SlotReady\<rparr>"])
      (simp_all add: run_simps readable_def n)
  have claim: "thr.triple h q0 (tv_id v) ?held
      (shared_cas (slot_state_c off) (slot_word SlotReady) (slot_word SlotDequeueClaiming))
      (\<lambda>won. if won then ?cons else ?held)"
    by (rule triple_cons_cas [OF place, of _ _ "\<lambda>x. x\<lparr>sl_state := slot_word SlotDequeueClaiming\<rparr>"])
      (simp_all add: run_simps readable_def n)
  have fail: "thr.triple h q0 (tv_id v) ?held (fail_released False x) (pop_post h q0 v)" for x
    by (rule triple_pop_failed) (rule cons_at_holding)
  have filled: "thr.triple h q0 (tv_id v) ?cons
     (bind (set_owner (slot_owner_c off) (mq_self hi)) (\<lambda>_.
      bind (shared_store (slot_ticket_c off) d) (\<lambda>_.
      bind (shared_store (slot_owner_epoch_c off) ep) (\<lambda>_.
      bind (shared_store (slot_state_c off) (slot_word SlotDequeueOwned)) (\<lambda>_.
      bind (memcpy_from (slot_payload_c off) 0 (unat ps)) (\<lambda>payload.
      bind (shared_store (slot_sequence_c off) r) (\<lambda>_.
      bind (shared_store (slot_state_c off) (slot_word SlotFree)) (\<lambda>_.
      bind (shared_store dequeue_position_c n) (\<lambda>_.
      bind (release_gate False) (\<lambda>_. bind notify_waiters (\<lambda>_. Ret (Inr payload))))))))))))
     (pop_post h q0 v)" for ep
    by (rule thr.triple_bind [OF owner], rule thr.triple_bind [OF ticket],
        rule thr.triple_bind [OF epoch], rule thr.triple_bind [OF owned], rule triple_pop_drain [OF assms])
  show ?thesis
    unfolding pop_slot_def
    by (rule thr.triple_reads_bind [OF reads_only_epoch_capacity stable_cons_at], rule triple_if,
        rule fail, rule thr.triple_bind [OF claim], rule triple_won,
        rule fail, rule thr.triple_bind [OF triple_cons_begin_commit [OF place]], rule triple_case_prod,
        rule triple_if, rule thr.triple_bind [OF restored fail], rule filled)
qed

lemma triple_slot_at_cons:
  assumes "mq_slot_stride hi = mq_slot_stride h"
  shows "thr.triple h q0 (tv_id v) (cons_at h q0 v b e d P) (slot_at hi pos)
     (\<lambda>s c. s = Some (ring (mq_slot_stride h) (mi_capacity (tv_immutable v)) (unat pos)) \<and>
        cons_at h q0 v b e d P c)"
  unfolding slot_at_def
proof (rule thr.triple_bind [OF triple_read_immutable_cons], rule thr.triple_Ret)
  fix im c assume "im = tv_immutable v \<and> cons_at h q0 v b e d P c"
  moreover from this have "mpmc_geometry (mi_capacity (tv_immutable v)) (mi_payload_size (tv_immutable v)) (mq_slot_stride hi)"
    using mpmc_at_geometry [of h q0 v _ _ "fst c" "snd c"] assms by (auto simp: cons_at_def)
  ultimately show "slot_offset_of hi (mi_capacity im) pos =
      Some (ring (mq_slot_stride h) (mi_capacity (tv_immutable v)) (unat pos)) \<and>
      cons_at h q0 v b e d P c"
    using slot_offset_of_eq assms by metis
qed simp

lemma triple_pop_empty_result:
  "thr.triple h q0 (tv_id v) (mpmc_at h q0 v None None) (pop_empty_result s) (pop_post h q0 v)"
  unfolding pop_empty_result_def
  by (intro triple_if thr.triple_Ret) (simp_all add: pop_post_def)

lemma triple_pop_empty_locked:
  "thr.triple h q0 (tv_id v) (holding h q0 v False) (pop_empty_locked hi) (pop_post h q0 v)"
  unfolding pop_empty_locked_def
  by (rule thr.triple_reads_bind [OF reads_only_classify_gate stable_holding],
      rule thr.triple_reads_bind [OF reads_only_unrecoverable stable_holding],
      rule thr.triple_bind [OF triple_release], rule triple_pop_empty_result)

lemma triple_pop_committed:
  assumes stride: "mq_slot_stride hi = mq_slot_stride h"
    and some: "unat d < unat e" and n: "unat n = Suc (unat d)"
    and r: "unat r = unat d + unat (mi_capacity (tv_immutable v))"
    and ps: "ps = mi_payload_size (tv_immutable v)"
  shows "thr.triple h q0 (tv_id v) (cons_at h q0 v False e d any_slot) (pop_committed hi d n r ps)
      (pop_post h q0 v)"
  unfolding pop_committed_def
proof (rule thr.triple_try_bind [OF triple_commit_gate])
  let ?off = "ring (mq_slot_stride h) (mi_capacity (tv_immutable v)) (unat d)"
  let ?held = "cons_at h q0 v False e d any_slot"
  show "thr.triple h q0 (tv_id v) ?held
      (bind (slot_at hi d) (\<lambda>slot. bind (slot_invalid slot n SlotReady) (\<lambda>invalid.
         if invalid then slot_invalid_result False slot else pop_slot hi d n r ps (the slot))))
      (pop_post h q0 v)"
  proof (rule thr.triple_bind [OF triple_slot_at_cons [OF stride]],
         rule thr.triple_reads_bind [OF reads_only_slot_invalid], simp, rule triple_if)
    fix s
    let ?P = "\<lambda>c. s = Some ?off \<and> ?held c"
    show "thr.triple h q0 (tv_id v) ?P (slot_invalid_result False s) (pop_post h q0 v)"
      by (rule triple_pre [OF triple_slot_invalid_result])
        (simp add: pop_post_def, simp, blast intro: cons_at_holding)
    have "cons_place h v e d ?off"
      using some by (simp add: cons_place_def)
    from triple_pop_slot [OF this n r ps, of q0 hi]
    show "thr.triple h q0 (tv_id v) ?P (pop_slot hi d n r ps (the s)) (pop_post h q0 v)"
      by (auto simp: thr.triple_def)
  qed
qed (auto simp: pop_post_def intro: cons_at_holding)

lemma triple_pop_locked:
  assumes stride: "mq_slot_stride hi = mq_slot_stride h"
    and cap: "cap = mi_capacity (tv_immutable v)" and ps: "ps = mi_payload_size (tv_immutable v)"
  shows "thr.triple h q0 (tv_id v) (holding h q0 v False) (pop_locked hi cap ps) (pop_post h q0 v)"
proof (rule triple_pre [OF triple_ex holding_dequeueD])
  fix d
  show "thr.triple h q0 (tv_id v) (cons_at h q0 v False 0 d any_slot) (pop_locked hi cap ps) (pop_post h q0 v)"
    unfolding pop_locked_def
  proof (rule thr.triple_bind [OF triple_cons_positions])
    fix pos :: "(u64 \<times> u64) result"
    let ?pre = "cons_positions h q0 v d pos"
    show "thr.triple h q0 (tv_id v) ?pre
      (case pos of Inl x \<Rightarrow> fail_released False x
       | Inr (enqueue, dequeue) \<Rightarrow>
           (case validate_queue_positions enqueue dequeue cap of Inl x \<Rightarrow> fail_released False x
            | Inr _ \<Rightarrow>
                (case validate_ticket_bounds dequeue cap of Inl x \<Rightarrow> fail_released False x
                 | Inr (next_dequeue, reclaim_sequence) \<Rightarrow>
                     if dequeue = enqueue then pop_empty_locked hi
                     else pop_committed hi dequeue next_dequeue reclaim_sequence ps)))
      (pop_post h q0 v)"
    proof (cases pos)
      case (Inl x)
      show ?thesis unfolding Inl sum.case by (rule triple_pop_failed) (simp add: cons_positions_def)
    next
      case (Inr p)
      obtain e' d' where p: "p = (e', d')" by (cases p)
      have pre: "?pre c \<Longrightarrow> d' = d \<and> cons_at h q0 v False e' d any_slot c" for c
        by (simp add: cons_positions_def Inr p)
      have failed: "thr.triple h q0 (tv_id v) ?pre (fail_released False x) (pop_post h q0 v)" for x
        by (rule triple_pop_failed) (auto dest!: pre intro: cons_at_holding)
      have empty: "thr.triple h q0 (tv_id v) ?pre (pop_empty_locked hi) (pop_post h q0 v)"
        by (rule triple_pre [OF triple_pop_empty_locked]) (auto dest!: pre intro: cons_at_holding)
      have go: "thr.triple h q0 (tv_id v) ?pre (pop_committed hi d' n r ps) (pop_post h q0 v)"
        if valid: "validate_queue_positions e' d' cap = Inr u" and "d' \<noteq> e'"
          and t: "validate_ticket_bounds d' cap = Inr (n, r)" for u n r
      proof (cases "d' = d")
        case True
        have "unat d' < unat e'"
          using valid \<open>d' \<noteq> e'\<close> by (auto simp: validate_queue_positions_iff order_less_le word_unat_eq_iff)
        then have "thr.triple h q0 (tv_id v) (cons_at h q0 v False e' d any_slot) (pop_committed hi d n r ps) (pop_post h q0 v)"
          using validate_ticket_bounds_Inr [OF t] True cap
          by (intro triple_pop_committed [OF stride _ _ _ ps]) simp_all
        then show ?thesis unfolding True by (rule triple_pre) (auto dest!: pre)
      next
        case False
        then show ?thesis using pre by (auto simp: thr.triple_def)
      qed
      show ?thesis
        using failed empty go unfolding Inr p by (auto intro!: triple_if split: sum.splits)
    qed
  qed
qed

lemma yields_pop_empty: "yields (\<lambda>r. \<exists>x. r = Inl x) (pop_empty_unlocked hi)"
proof -
  have "yields (\<lambda>r. \<exists>x. r = Inl x) (try_bind (gate_busy_result hi False) (\<lambda>_. Ret (Inr [])))"
    unfolding try_bind_def by (rule yields_seq [OF yields_gate_busy]) auto
  then show ?thesis
    unfolding pop_empty_unlocked_def pop_empty_result_def by (auto intro!: yields_bind)
qed

lemma triple_try_pop:
  assumes stride: "\<And>hi. handle = Some hi \<Longrightarrow> mq_slot_stride hi = mq_slot_stride h"
  shows "thr.triple h q0 (tv_id v) (mpmc_at h q0 v None None) (mpmc_try_pop_impl handle out_null n)
     (pop_post h q0 v)"
proof -
  let ?idle = "mpmc_at h q0 v None None"
  have fail: "thr.triple h q0 (tv_id v) ?idle (Ret (Inl x)) (pop_post h q0 v)" for x
    by (rule thr.triple_Ret) (simp, simp add: pop_post_def)
  have err: "?idle c \<Longrightarrow> pop_post h q0 v (Inl x) c" for x c
    by (simp add: pop_post_def)
  have empty: "thr.triple h q0 (tv_id v) ?idle (pop_empty_unlocked hi) (pop_post h q0 v)" for hi
    by (rule thr.triple_conseq [OF thr.triple_reads_yields [OF reads_only_pop_empty yields_pop_empty stable_at]])
      (auto simp: pop_post_def)
  have locked: "thr.triple h q0 (tv_id v) ?idle
      (try_bind (dequeue_drain_budget hi) (\<lambda>drain_budget.
        if drain_budget = 0 then Ret (Inl kSequenceExhausted)
        else try_bind (claim_gate hi False) (\<lambda>_. pop_locked hi (mi_capacity (tv_immutable v)) (mi_payload_size (tv_immutable v)))))
      (pop_post h q0 v)"
    if "handle = Some hi" for hi
  proof (rule triple_reads_any [OF reads_only_budget stable_at], rule triple_if, rule fail,
         rule thr.triple_try_bind [OF triple_claim_gate])
    show "thr.triple h q0 (tv_id v) (holding h q0 v False)
        (pop_locked hi (mi_capacity (tv_immutable v)) (mi_payload_size (tv_immutable v))) (pop_post h q0 v)"
      by (rule triple_pop_locked [OF stride [OF that] refl refl])
  qed (simp_all only: err stable_pop_post sum.case)
  have checked: "thr.triple h q0 (tv_id v) (\<lambda>c. im = tv_immutable v \<and> ?idle c)
      (if out_null \<or> n \<noteq> mi_payload_size im then Ret (Inl kInvalidOptions)
       else try_bind snapshot_queue_positions (\<lambda>(enqueue, dequeue).
           case validate_queue_positions enqueue dequeue (mi_capacity im) of Inl x \<Rightarrow> Ret (Inl x)
           | Inr _ \<Rightarrow>
               (case validate_ticket_bounds dequeue (mi_capacity im) of Inl x \<Rightarrow> Ret (Inl x)
                | Inr _ \<Rightarrow>
                    if dequeue = enqueue then pop_empty_unlocked hi
                    else try_bind (dequeue_drain_budget hi) (\<lambda>drain_budget.
                        if drain_budget = 0 then Ret (Inl kSequenceExhausted)
                        else try_bind (claim_gate hi False) (\<lambda>_. pop_locked hi (mi_capacity im) n)))))
      (pop_post h q0 v)" (is "thr.triple _ _ _ _ (?rest hi im) _") if h: "handle = Some hi" for im hi
  proof (cases "im = tv_immutable v")
    case True
    have "thr.triple h q0 (tv_id v) ?idle (?rest hi (tv_immutable v)) (pop_post h q0 v)"
      by (rule triple_if, rule fail, rule triple_reads_any [OF reads_only_positions stable_at], rule triple_case_prod)
        (auto intro!: fail empty locked [OF h] triple_if err split: sum.splits)
    then show ?thesis unfolding True by (rule triple_pre) simp
  qed (simp add: thr.triple_def)
  show ?thesis
    unfolding mpmc_try_pop_impl_def
  proof (rule triple_reads_first [OF reads_only_live_handle yields_live_handle stable_at])
    fix hi assume "handle = Some hi"
    then show "thr.triple h q0 (tv_id v) ?idle
        (bind (shared_load immutable_c) (\<lambda>im. ?rest hi im)) (pop_post h q0 v)"
      by (intro thr.triple_bind [OF triple_read_immutable]) (rule checked)
  qed (simp_all only: err stable_pop_post)
qed

end
