(* ===== verification/ER_Mpmc_History.thy ===== *)
theory ER_Mpmc_History
  imports ER_Mpmc_Pop "HOL-Library.Sublist"
begin

text \<open>
  Any number of threads calling the queue at once. The waiting operations are covered as well; a
  thread is a list of calls. \<open>mpmc_interleavings_fifo\<close> is the correctness of the queue: whatever the
  interleaving of the atomic actions, wherever threads stop for good, there is one order in which
  the messages entered and one in which they left that explain all replies, and the second is a prefix
  of the first.
\<close>

subsection \<open>Waiting among others\<close>

lemma triple_kernel_call:
  "thr.triple h q0 (tv_id v) (mpmc_at h q0 v ve vd) (kernel_call kern_c u f) (\<lambda>_. mpmc_at h q0 v ve vd)"
  unfolding kernel_call_def mpmc_cell_access
proof (rule thr.triple_Act [OF stable_at stable_at])
  fix w g assume at: "mpmc_at h q0 v ve vd (w, g)"
  show "\<exists>g'. mpmc_guar h q0 (tv_id v) (w, g) (w\<lparr>mw_kern := u (mw_kern w)\<rparr>, g') \<and>
      mpmc_at h q0 v ve vd (w\<lparr>mw_kern := u (mw_kern w)\<rparr>, g')"
    by (intro exI [of _ g] conjI guar_kern mpmc_at_step [OF at guar_kern])
      (use at in \<open>auto simp: mpmc_at_def\<close>)
qed

lemma triple_deadline:
  "thr.triple h q0 (tv_id v) (mpmc_at h q0 v ve vd) (deadline_has_time t) (\<lambda>_. mpmc_at h q0 v ve vd)"
  unfolding deadline_has_time_def steady_now_def
  by (rule thr.triple_bind [OF triple_kernel_call], rule thr.triple_Ret) simp_all

lemma triple_wait_notify:
  "thr.triple h q0 (tv_id v) (mpmc_at h q0 v ve vd) (wait_on_notify_epoch t) (\<lambda>_. mpmc_at h q0 v ve vd)"
proof -
  let ?at = "mpmc_at h q0 v ve vd"
  have ret: "thr.triple h q0 (tv_id v) ?at (Ret a) (\<lambda>_. ?at)" for a :: 'z
    by (rule thr.triple_Ret) simp_all
  have left: "thr.triple h q0 (tv_id v) ?at (remaining_wait_ns t) (\<lambda>_. ?at)"
    unfolding remaining_wait_ns_def steady_now_def
    by (rule thr.triple_bind [OF triple_kernel_call]) (intro triple_if ret)
  show ?thesis
    unfolding wait_on_notify_epoch_def futex_wait_def
    by (rule thr.triple_bind [OF left])
      (auto intro!: thr.triple_bind [OF triple_kernel_call] ret triple_if split: option.splits)
qed

definition wait_post where
  "wait_post P r = (case r of None \<Rightarrow> P (Inl kTimeout) | Some x \<Rightarrow> P x)"

lemma triple_wait_push:
  assumes stride: "\<And>hi. handle = Some hi \<Longrightarrow> mq_slot_stride hi = mq_slot_stride h"
    and len: "length b = unat n"
  shows "thr.triple h q0 (tv_id v) (mpmc_at h q0 v None None)
     (mpmc_wait_push_until_impl fuel handle (Some b) n t) (wait_post (push_post h q0 v b))"
proof (induction fuel)
  let ?idle = "mpmc_at h q0 v None None"
  let ?post = "wait_post (push_post h q0 v b) :: unit result option \<Rightarrow> _"
  have attempt: "thr.triple h q0 (tv_id v) ?idle (mpmc_try_push_impl handle (Some b) n) (push_post h q0 v b)"
    by (rule triple_try_push [OF stride len])
  have ret: "thr.triple h q0 (tv_id v) (push_post h q0 v b r) (Ret (Some r)) ?post" for r :: "unit result"
    by (rule thr.triple_Ret) (simp_all add: wait_post_def)
  have fail: "thr.triple h q0 (tv_id v) ?idle (Ret (Some (Inl e))) ?post" for e
    using ret [of "Inl e"] by (simp add: push_post_def)
  have idle: "push_post h q0 v b (Inl e) = ?idle" for e :: ErrorCode
    by (simp add: push_post_def)
  {
    case 0
    show ?case by (simp, rule thr.triple_Ret) (simp_all add: wait_post_def push_post_def)
  next
    case (Suc fuel)
    have again: "thr.triple h q0 (tv_id v) (push_post h q0 v b r)
      (case r of Inr u \<Rightarrow> Ret (Some (Inr u)) | Inl e \<Rightarrow> f e) ?post"
      if "\<And>e. thr.triple h q0 (tv_id v) ?idle (f e) ?post" for r :: "unit result" and f
      using ret [of r] that by (cases r) (simp_all add: idle)
    show ?case
      unfolding mpmc_wait_push_until_impl.simps
      by (intro thr.triple_bind [OF attempt] again triple_if fail thr.triple_bind [OF triple_deadline]
          thr.triple_reads_bind [OF reads_only_load stable_at] Suc.IH thr.triple_bind [OF triple_wait_notify])
        (auto split: sum.splits intro: fail Suc.IH)
  }
qed

lemma triple_wait_pop:
  assumes stride: "\<And>hi. handle = Some hi \<Longrightarrow> mq_slot_stride hi = mq_slot_stride h"
  shows "thr.triple h q0 (tv_id v) (mpmc_at h q0 v None None)
     (mpmc_wait_pop_until_impl fuel handle out_null n t) (wait_post (pop_post h q0 v))"
proof (induction fuel)
  let ?idle = "mpmc_at h q0 v None None"
  let ?post = "wait_post (pop_post h q0 v) :: bytes result option \<Rightarrow> _"
  have attempt: "thr.triple h q0 (tv_id v) ?idle (mpmc_try_pop_impl handle out_null n) (pop_post h q0 v)"
    by (rule triple_try_pop [OF stride])
  have ret: "thr.triple h q0 (tv_id v) (pop_post h q0 v r) (Ret (Some r)) ?post" for r :: "bytes result"
    by (rule thr.triple_Ret) (simp_all add: wait_post_def)
  have fail: "thr.triple h q0 (tv_id v) ?idle (Ret (Some (Inl e))) ?post" for e
    using ret [of "Inl e"] by (simp add: pop_post_def)
  have idle: "pop_post h q0 v (Inl e) = ?idle" for e :: ErrorCode
    by (simp add: pop_post_def)
  have budget: "reads_only (pop_wait_budget handle e)" for e
    unfolding pop_wait_budget_def by (auto intro!: reads_only_intros split: sum.splits)
  {
    case 0
    show ?case by (simp, rule thr.triple_Ret) (simp_all add: wait_post_def pop_post_def)
  next
    case (Suc fuel)
    have again: "thr.triple h q0 (tv_id v) (pop_post h q0 v r)
      (case r of Inr u \<Rightarrow> Ret (Some (Inr u)) | Inl e \<Rightarrow> f e) ?post"
      if "\<And>e. thr.triple h q0 (tv_id v) ?idle (f e) ?post" for r :: "bytes result" and f
      using ret [of r] that by (cases r) (simp_all add: idle)
    have stop: "thr.triple h q0 (tv_id v) ?idle
      (case s of Some e' \<Rightarrow> Ret (Some (Inl e')) | None \<Rightarrow> p) ?post"
      if "thr.triple h q0 (tv_id v) ?idle p ?post" for s p
      using fail that by (cases s) simp_all
    show ?case
      unfolding mpmc_wait_pop_until_impl.simps
      by (intro thr.triple_bind [OF attempt] again triple_if fail stop
          thr.triple_bind [OF triple_deadline] thr.triple_reads_bind [OF budget stable_at]
          thr.triple_reads_bind [OF reads_only_load stable_at] Suc.IH thr.triple_bind [OF triple_wait_notify])
        (auto split: sum.splits intro: fail Suc.IH)
  }
qed

subsection \<open>Threads\<close>

text \<open>
  A thread is a script of calls of the queue's interface, each on a handle of its own choice; the
  waiting calls carry their deadline and the number of rounds they get.
\<close>

datatype mpmc_call =
    TryPush "mpmc_handle option" bytes
  | TryPop "mpmc_handle option" bool u32
  | WaitPush "mpmc_handle option" bytes int nat
  | WaitPop "mpmc_handle option" bool u32 int nat

datatype mpmc_reply = PushReply "unit result option" | PopReply "bytes result option"

fun call_prog :: "mpmc_call \<Rightarrow> (mpmc_world, mpmc_reply) prog" where
  "call_prog (TryPush handle b) =
     bind (mpmc_try_push_impl handle (Some b) (of_nat (length b))) (\<lambda>r. Ret (PushReply (Some r)))"
| "call_prog (TryPop handle out_null n) =
     bind (mpmc_try_pop_impl handle out_null n) (\<lambda>r. Ret (PopReply (Some r)))"
| "call_prog (WaitPush handle b deadline fuel) =
     bind (mpmc_wait_push_until_impl fuel handle (Some b) (of_nat (length b)) deadline) (\<lambda>r. Ret (PushReply r))"
| "call_prog (WaitPop handle out_null n deadline fuel) =
     bind (mpmc_wait_pop_until_impl fuel handle out_null n deadline) (\<lambda>r. Ret (PopReply r))"

primrec script :: "mpmc_call list \<Rightarrow> (mpmc_world, mpmc_reply list) prog" where
  "script [] = Ret []"
| "script (c # cs) = bind (call_prog c) (\<lambda>r. bind (script cs) (\<lambda>rs. Ret (r # rs)))"

fun call_ok :: "mpmc_handle \<Rightarrow> mpmc_call \<Rightarrow> bool" where
  "call_ok h (TryPush handle b) \<longleftrightarrow> pred_option (\<lambda>x. mq_slot_stride x = mq_slot_stride h) handle \<and> length b < 2 ^ 32"
| "call_ok h (TryPop handle out_null n) \<longleftrightarrow> pred_option (\<lambda>x. mq_slot_stride x = mq_slot_stride h) handle"
| "call_ok h (WaitPush handle b deadline fuel) \<longleftrightarrow>
     pred_option (\<lambda>x. mq_slot_stride x = mq_slot_stride h) handle \<and> length b < 2 ^ 32"
| "call_ok h (WaitPop handle out_null n deadline fuel) \<longleftrightarrow>
     pred_option (\<lambda>x. mq_slot_stride x = mq_slot_stride h) handle"

text \<open>The payloads a thread offers, those its replies report as pushed, and those it popped.\<close>

fun offered :: "mpmc_call \<Rightarrow> bytes list" where
  "offered (TryPush _ b) = [b]"
| "offered (WaitPush _ b _ _) = [b]"
| "offered _ = []"

fun asked :: "mpmc_call \<Rightarrow> nat" where
  "asked (TryPop _ _ _) = 1"
| "asked (WaitPop _ _ _ _ _) = 1"
| "asked _ = 0"

fun pushed1 :: "mpmc_call \<Rightarrow> mpmc_reply \<Rightarrow> bytes list" where
  "pushed1 c (PushReply (Some (Inr _))) = offered c"
| "pushed1 c _ = []"

fun popped1 :: "mpmc_call \<Rightarrow> mpmc_reply \<Rightarrow> bytes list" where
  "popped1 c (PopReply (Some (Inr b))) = (if asked c = 0 then [] else [b])"
| "popped1 c _ = []"

fun pushed :: "mpmc_call list \<Rightarrow> mpmc_reply list \<Rightarrow> bytes list" where
  "pushed (c # cs) (r # rs) = pushed1 c r @ pushed cs rs"
| "pushed _ _ = []"

fun popped :: "mpmc_call list \<Rightarrow> mpmc_reply list \<Rightarrow> bytes list" where
  "popped (c # cs) (r # rs) = popped1 c r @ popped cs rs"
| "popped _ _ = []"

lemma pushed1_offered: "subseq (pushed1 c r) (offered c)"
  by (cases "(c, r)" rule: pushed1.cases) auto

lemma popped1_asked: "length (popped1 c r) \<le> asked c"
  by (cases "(c, r)" rule: popped1.cases) auto

lemma pushed_offered: "subseq (pushed cs rs) (concat (map offered cs))"
  by (induction cs rs rule: pushed.induct) (auto intro: list_emb_append_mono pushed1_offered)

lemma popped_asked: "length (popped cs rs) \<le> sum_list (map asked cs)"
proof (induction cs rs rule: popped.induct)
  case (1 c cs r rs)
  then show ?case using popped1_asked [of c r] by simp
qed auto

lemma triple_call:
  assumes "call_ok h c"
  shows "thr.triple h q0 (tv_id v) (mpmc_at h q0 v None None) (call_prog c)
    (\<lambda>r. mpmc_at h q0 (v\<lparr>tv_in := tv_in v @ pushed1 c r, tv_out := tv_out v @ popped1 c r\<rparr>) None None)"
    (is "thr.triple _ _ _ ?idle _ (\<lambda>r. ?at r)")
proof -
  have st: "thr.stable h q0 (tv_id v) (?at r)" for r
    using stable_at [of h q0 "v\<lparr>tv_in := tv_in v @ pushed1 c r, tv_out := tv_out v @ popped1 c r\<rparr>" None None]
    by simp
  have call: "thr.triple h q0 (tv_id v) ?idle (bind p (\<lambda>r. Ret (f r))) (\<lambda>r. ?at r)"
    if "thr.triple h q0 (tv_id v) ?idle p S" and "\<And>r d. S r d \<Longrightarrow> ?at (f r) d"
    for p :: "(mpmc_world, 'z) prog" and S f
    by (rule thr.triple_bind [OF that(1)], rule thr.triple_Ret, rule st, rule that(2))
  have len: "length b = unat (of_nat (length b) :: u32)" if "length b < 2 ^ 32" for b :: bytes
    using that by (simp add: unat_of_nat take_bit_nat_eq_self)
  show ?thesis
  proof (cases c)
    case (TryPush handle b)
    have "call_prog c = bind (mpmc_try_push_impl handle (Some b) (of_nat (length b))) (\<lambda>r. Ret (PushReply (Some r)))"
      by (simp add: TryPush)
    moreover have "length b < 2 ^ 32" using assms by (simp add: TryPush)
    ultimately show ?thesis
      by (simp only:, intro call [OF triple_try_push [OF _ len]])
        (use assms in \<open>auto simp: TryPush push_post_def split: sum.splits\<close>)
  next
    case (TryPop handle out_null n)
    have "call_prog c = bind (mpmc_try_pop_impl handle out_null n) (\<lambda>r. Ret (PopReply (Some r)))"
      by (simp add: TryPop)
    then show ?thesis
      by (simp only:, intro call [OF triple_try_pop])
        (use assms in \<open>auto simp: TryPop pop_post_def split: sum.splits\<close>)
  next
    case (WaitPush handle b deadline fuel)
    have "call_prog c = bind (mpmc_wait_push_until_impl fuel handle (Some b) (of_nat (length b)) deadline)
        (\<lambda>r. Ret (PushReply r))"
      by (simp add: WaitPush)
    moreover have "length b < 2 ^ 32" using assms by (simp add: WaitPush)
    ultimately show ?thesis
      by (simp only:, intro call [OF triple_wait_push [OF _ len]])
        (use assms in \<open>auto simp: WaitPush push_post_def wait_post_def split: sum.splits option.splits\<close>)
  next
    case (WaitPop handle out_null n deadline fuel)
    have "call_prog c = bind (mpmc_wait_pop_until_impl fuel handle out_null n deadline) (\<lambda>r. Ret (PopReply r))"
      by (simp add: WaitPop)
    then show ?thesis
      by (simp only:, intro call [OF triple_wait_pop])
        (use assms in \<open>auto simp: WaitPop pop_post_def wait_post_def split: sum.splits option.splits\<close>)
  qed
qed

lemma triple_script:
  assumes "list_all (call_ok h) cs"
  shows "thr.triple h q0 (tv_id v) (mpmc_at h q0 v None None) (script cs)
    (\<lambda>rs. mpmc_at h q0 (v\<lparr>tv_in := tv_in v @ pushed cs rs, tv_out := tv_out v @ popped cs rs\<rparr>) None None)"
  using assms
proof (induction cs arbitrary: v)
  case Nil
  show ?case by (simp, rule thr.triple_Ret) simp_all
next
  case (Cons c cs)
  let ?v = "\<lambda>r. v\<lparr>tv_in := tv_in v @ pushed1 c r, tv_out := tv_out v @ popped1 c r\<rparr>"
  let ?w = "\<lambda>rs. v\<lparr>tv_in := tv_in v @ pushed (c # cs) rs, tv_out := tv_out v @ popped (c # cs) rs\<rparr>"
  have call: "thr.triple h q0 (tv_id v) (mpmc_at h q0 v None None) (call_prog c)
      (\<lambda>r. mpmc_at h q0 (?v r) None None)"
    using Cons.prems by (intro triple_call) simp
  have rest: "thr.triple h q0 (tv_id v) (mpmc_at h q0 (?v r) None None) (script cs)
      (\<lambda>rs. mpmc_at h q0 (?w (r # rs)) None None)" for r
    using Cons.IH [of "?v r"] Cons.prems by simp
  have st: "thr.stable h q0 (tv_id v) (mpmc_at h q0 (?w rs) None None)" for rs
    using stable_at [of h q0 "?w rs"] by simp
  show ?case
    unfolding script.simps
    by (rule thr.triple_bind [OF call], rule thr.triple_bind [OF rest], rule thr.triple_Ret, rule st)
qed

subsection \<open>Histories\<close>

text \<open>
  \<open>ins\<close> and \<open>outs\<close> are the messages in the order in which they entered and left the queue, each
  with the thread that pushed or popped it.
\<close>

definition fifo_history where
  "fifo_history h q0 scripts ins outs w ps \<longleftrightarrow>
     q0 @ map snd ins = map snd outs @ mpmc_contents h w \<and>
     length (mpmc_contents h w) \<le> cap_nat w \<and>
     (\<forall>x \<in> set ins \<union> set outs. fst x < length scripts) \<and>
     (\<forall>i < length scripts.
        subseq (own i ins) (concat (map offered (scripts ! i))) \<and>
        length (own i outs) \<le> sum_list (map asked (scripts ! i)) \<and>
        (\<forall>rs. ps ! i = Ret rs \<longrightarrow>
           own i ins = pushed (scripts ! i) rs \<and> own i outs = popped (scripts ! i) rs))"

definition logs_grow :: "mpmc_handle \<Rightarrow> bytes list \<Rightarrow> nat \<Rightarrow> mpmc_config \<Rightarrow> mpmc_config \<Rightarrow> bool" where
  "logs_grow h q0 n c d \<longleftrightarrow>
     (mpmc_shared_inv h q0 c \<longrightarrow>
       mpmc_shared_inv h q0 d \<and>
       (\<exists>xs. gh_in (snd d) = gh_in (snd c) @ xs \<and> (\<forall>x \<in> set xs. fst x < n)) \<and>
       (\<exists>xs. gh_out (snd d) = gh_out (snd c) @ xs \<and> (\<forall>x \<in> set xs. fst x < n)))"

lemma logs_grow_refl: "logs_grow h q0 n c c"
  by (simp add: logs_grow_def)

lemma logs_grow_trans: "logs_grow h q0 n c d \<Longrightarrow> logs_grow h q0 n d e \<Longrightarrow> logs_grow h q0 n c e"
  unfolding logs_grow_def by (auto simp: ball_Un)

lemma logs_grow_guar: "i < n \<Longrightarrow> mpmc_guar h q0 i c d \<Longrightarrow> logs_grow h q0 n c d"
  by (auto simp: logs_grow_def mpmc_guar_def log_extends_def)

lemma logs_grow_env:
  assumes "mpmc_env s t" shows "logs_grow h q0 n (s, g) (t, g)"
proof -
  obtain k where "t = s\<lparr>mw_kern := k\<rparr>" using assms by (auto simp: mpmc_env_def)
  then show ?thesis by (simp add: logs_grow_def kern_only)
qed

lemma logs_grow_guars:
  assumes "(mpmc_guar h q0 i)\<^sup>*\<^sup>* c d" and "i < n" shows "logs_grow h q0 n c d"
  using assms(1)
  by (induction rule: rtranclp_induct) (auto intro: logs_grow_refl logs_grow_trans logs_grow_guar assms(2))

definition thread_post where
  "thread_post h q0 im scripts i rs =
     mpmc_at h q0 \<lparr>tv_id = i, tv_immutable = im, tv_in = pushed (scripts ! i) rs, tv_out = popped (scripts ! i) rs\<rparr>
       None None"

definition rest_ghost :: mpmc_ghost where
  "rest_ghost = \<lparr>gh_enq = None, gh_deq = None, gh_in = [], gh_out = []\<rparr>"

lemma shared_inv_at_rest:
  assumes "mpmc_inv h w" shows "mpmc_shared_inv h (mpmc_contents h w) (w, rest_ghost)"
  using assms unfolding mpmc_inv_def shared_inv_simps
  by (auto simp: rest_ghost_def published_def vacant_def readable_def writable_def)

lemma all_safe_scripts:
  assumes inv: "mpmc_inv h w" and ok: "\<forall>cs \<in> set scripts. list_all (call_ok h) cs"
  shows "sys.all_safe h (mpmc_contents h w)
    (thread_post h (mpmc_contents h w) (mh_immutable (mw_hdr w)) scripts) (w, map script scripts) rest_ghost"
  unfolding sys.all_safe_def
proof (intro allI impI)
  fix i assume "i < length (snd (w, map script scripts))"
  then have i: "i < length scripts" by simp
  let ?v = "\<lparr>tv_id = i, tv_immutable = mh_immutable (mw_hdr w), tv_in = [], tv_out = []\<rparr>"
  have "mpmc_at h (mpmc_contents h w) ?v None None (w, rest_ghost)"
    using shared_inv_at_rest [OF inv] by (simp add: mpmc_at_def rest_ghost_def own_def)
  then show "safe (mpmc_rely h (mpmc_contents h w) i) (mpmc_guar h (mpmc_contents h w) i)
      (snd (w, map script scripts) ! i)
      (thread_post h (mpmc_contents h w) (mh_immutable (mw_hdr w)) scripts i) (fst (w, map script scripts), rest_ghost)"
    using triple_script [of h "scripts ! i" "mpmc_contents h w" ?v] ok i
    by (simp add: thr.triple_def thread_post_def [abs_def])
qed

lemma subseq_appendD: "subseq (xs @ ys) zs \<Longrightarrow> subseq xs zs"
  by (meson prefix_imp_subseq prefixI subseq_order.trans)

lemma own_append_list: "own i (xs @ ys) = own i xs @ own i ys"
  by (simp add: own_def)

text \<open>Ghost data for a configuration gives a history of it; unfinished threads are run to their end.\<close>

lemma fifo_history_reached:
  assumes safe: "sys.all_safe h q0 (thread_post h q0 im scripts) (w, ps) g"
    and inv: "mpmc_shared_inv h q0 (w, g)" and len: "length ps = length scripts"
    and tags: "\<forall>x \<in> set (gh_in g) \<union> set (gh_out g). fst x < length scripts"
  shows "fifo_history h q0 scripts (gh_in g) (gh_out g) w ps"
proof -
  have fin: "own i (gh_in g) = pushed (scripts ! i) rs \<and> own i (gh_out g) = popped (scripts ! i) rs"
    if "i < length scripts" "ps ! i = Ret rs" for i rs
    using sys.all_safe_result [OF safe, of i] that len by (auto simp: thread_post_def mpmc_at_def)
  have part: "subseq (own i (gh_in g)) (concat (map offered (scripts ! i))) \<and>
      length (own i (gh_out g)) \<le> sum_list (map asked (scripts ! i))" if i: "i < length scripts" for i
  proof -
    obtain t qs g' rs where "sys.all_safe h q0 (thread_post h q0 im scripts) (t, qs) g'" "i < length qs"
        "qs ! i = Ret rs" and G: "(mpmc_guar h q0 i)\<^sup>*\<^sup>* (w, g) (t, g')"
      using sys.par_finish [OF safe, of i] i len by auto
    then have g': "own i (gh_in g') = pushed (scripts ! i) rs" "own i (gh_out g') = popped (scripts ! i) rs"
      using sys.all_safe_result [of h q0 "thread_post h q0 im scripts" t qs g' i rs] by (auto simp: thread_post_def mpmc_at_def)
    from logs_grow_guars [OF G lessI] inv obtain xs ys where
        "gh_in g' = gh_in g @ xs" "gh_out g' = gh_out g @ ys"
      by (auto simp: logs_grow_def)
    with g' have "pushed (scripts ! i) rs = own i (gh_in g) @ own i xs"
        "popped (scripts ! i) rs = own i (gh_out g) @ own i ys"
      by (simp_all add: own_append_list)
    then show ?thesis
      using pushed_offered [of "scripts ! i" rs] popped_asked [of "scripts ! i" rs]
      by (auto dest: subseq_appendD)
  qed
  have "length (mpmc_contents h w) \<le> cap_nat w"
    using inv by (auto simp: shared_inv_simps length_mpmc_contents)
  then show ?thesis
    unfolding fifo_history_def using inv fin part tags by (auto simp: shared_inv_simps)
qed

lemma scripts_run:
  assumes "(par_step mpmc_env)\<^sup>*\<^sup>* (s, ps) (t, qs)" and "sys.all_safe h q0 Q (s, ps) g" and "length ps = n"
  shows "\<exists>g'. length qs = n \<and> sys.all_safe h q0 Q (t, qs) g' \<and> logs_grow h q0 n (s, g) (t, g')"
proof -
  have "\<exists>g'. length (snd (t, qs)) = length (snd (s, ps)) \<and> sys.all_safe h q0 Q (t, qs) g' \<and>
      logs_grow h q0 n (fst (s, ps), g) (fst (t, qs), g')"
  proof (rule sys.par_run_safe [OF assms(1,2)])
    fix i d d'
    show "i < length (snd (s, ps)) \<Longrightarrow> mpmc_guar h q0 i d d' \<Longrightarrow> logs_grow h q0 n d d'"
      using logs_grow_guar assms(3) by simp
  qed (blast intro: logs_grow_env logs_grow_refl logs_grow_trans)+
  then show ?thesis using assms(3) by simp
qed

text \<open>
  C1. From a queue at rest, any number of threads push and pop, with and without waiting, in any
  interleaving of their atomic actions; a thread that is never scheduled again has crashed. In every
  configuration reached there are two logs, of the messages in the order in which they entered and
  left the queue. What was in the queue, followed by what entered, is what left, followed by the
  contents: no message is lost, duplicated, torn or reordered. A finished thread's successful pushes
  and pops are exactly its own entries, in its order; an unfinished thread has entered only payloads
  it offered, in its order. The logs of a later configuration extend those of an earlier one, so the
  order respects real time.
\<close>

theorem mpmc_interleavings_fifo:
  assumes "mpmc_inv h w0"
    and "\<forall>cs \<in> set scripts. list_all (call_ok h) cs"
    and "(par_step mpmc_env)\<^sup>*\<^sup>* (w0, map script scripts) (w1, ps1)"
    and "(par_step mpmc_env)\<^sup>*\<^sup>* (w1, ps1) (w2, ps2)"
  shows "\<exists>ins1 outs1 ins2 outs2.
    fifo_history h (mpmc_contents h w0) scripts ins1 outs1 w1 ps1 \<and>
    fifo_history h (mpmc_contents h w0) scripts ins2 outs2 w2 ps2 \<and>
    prefix ins1 ins2 \<and> prefix outs1 outs2"
proof -
  let ?q0 = "mpmc_contents h w0"
  let ?post = "thread_post h ?q0 (mh_immutable (mw_hdr w0)) scripts"
  let ?grow = "logs_grow h ?q0 (length scripts)"
  have inv0: "mpmc_shared_inv h ?q0 (w0, rest_ghost)"
    by (rule shared_inv_at_rest [OF assms(1)])
  obtain g1 where l1: "length ps1 = length scripts" and s1: "sys.all_safe h ?q0 ?post (w1, ps1) g1"
    and t1: "?grow (w0, rest_ghost) (w1, g1)"
    using scripts_run [OF assms(3) all_safe_scripts [OF assms(1,2)]] by auto
  obtain g2 where l2: "length ps2 = length scripts" and s2: "sys.all_safe h ?q0 ?post (w2, ps2) g2"
    and t2: "?grow (w1, g1) (w2, g2)"
    using scripts_run [OF assms(4) s1 l1] by auto
  have c1: "mpmc_shared_inv h ?q0 (w1, g1)" "\<forall>x \<in> set (gh_in g1) \<union> set (gh_out g1). fst x < length scripts"
    using t1 inv0 by (auto simp: logs_grow_def rest_ghost_def)
  have c2: "mpmc_shared_inv h ?q0 (w2, g2)" "\<forall>x \<in> set (gh_in g2) \<union> set (gh_out g2). fst x < length scripts"
    using t2 c1 unfolding logs_grow_def fst_conv snd_conv by (metis, metis UnCI UnE set_append)
  have "prefix (gh_in g1) (gh_in g2)" "prefix (gh_out g1) (gh_out g2)"
    using t2 c1(1) by (auto simp: logs_grow_def)
  then show ?thesis
    using fifo_history_reached [OF s1 c1(1) l1 c1(2)] fifo_history_reached [OF s2 c2(1) l2 c2(2)] by blast
qed

definition sample_scripts :: "mpmc_call list list" where
  "sample_scripts = [[TryPush (Some sample_handle) [7], TryPush (Some sample_handle) [8]], [TryPop (Some sample_handle) False 1]]"

theorem mpmc_interleavings_fifo_witness:
  "let w1 = snd (run (script (sample_scripts ! 0)) sample_queue);
       p1 = Ret (fst (run (script (sample_scripts ! 0)) sample_queue));
       w2 = snd (run (script (sample_scripts ! 1)) w1);
       p2 = Ret (fst (run (script (sample_scripts ! 1)) w1))
   in \<exists>ins1 outs1 ins2 outs2.
    fifo_history sample_handle [] sample_scripts ins1 outs1 w1 [p1, script (sample_scripts ! 1)] \<and>
    fifo_history sample_handle [] sample_scripts ins2 outs2 w2 [p1, p2] \<and>
    prefix ins1 ins2 \<and> prefix outs1 outs2"
  unfolding Let_def sample_queue_contents [symmetric]
proof (rule mpmc_interleavings_fifo [OF sample_queue_inv])
  let ?w1 = "snd (run (script (sample_scripts ! 0)) sample_queue)"
  let ?p1 = "Ret (fst (run (script (sample_scripts ! 0)) sample_queue))"
  have two: "map script sample_scripts = [script (sample_scripts ! 0), script (sample_scripts ! 1)]"
    by (simp add: sample_scripts_def)
  show "\<forall>cs \<in> set sample_scripts. list_all (call_ok sample_handle) cs"
    by (simp add: sample_scripts_def)
  show "(par_step mpmc_env)\<^sup>*\<^sup>* (sample_queue, map script sample_scripts) (?w1, [?p1, script (sample_scripts ! 1)])"
    using par_run_solo [of 0 "map script sample_scripts" mpmc_env sample_queue] unfolding two by simp
  show "(par_step mpmc_env)\<^sup>*\<^sup>* (?w1, [?p1, script (sample_scripts ! 1)])
      (snd (run (script (sample_scripts ! 1)) ?w1), [?p1, Ret (fst (run (script (sample_scripts ! 1)) ?w1))])"
    using par_run_solo [of 1 "[?p1, script (sample_scripts ! 1)]" mpmc_env ?w1] by simp
qed

end
