(* ===== verification/ER_Pool_Layout.thy ===== *)
theory ER_Pool_Layout
  imports ER_Owner
begin

text \<open>
  The mapping of the shared buffer pool (\<open>buffer/shared_buffer_pool_layout.hpp\<close>): constants, block
  states, the header, the block header, the descriptor \<open>BufferHandle\<close> that names a block, and the
  size and offset arithmetic. \<open>pool_immutable\<close> has the header fields that are written once, before
  the pool is ready.
\<close>

definition kSharedBufferPoolMagic :: bytes where "kSharedBufferPoolMagic = string_bytes ''ERBPOOL2''"
definition kSharedBufferPoolLegacyMagic :: bytes where
  "kSharedBufferPoolLegacyMagic = string_bytes ''ERBPOOL1''"
definition kSharedBufferPoolAbiMajor :: u16 where "kSharedBufferPoolAbiMajor = 2"
definition kSharedBufferPoolAbiMinor :: u16 where "kSharedBufferPoolAbiMinor = 0"
definition kSharedBufferPoolEndianMarker :: u32 where "kSharedBufferPoolEndianMarker = 0x01020304"
definition kSharedBufferPoolMaxBlockCount :: u32 where "kSharedBufferPoolMaxBlockCount = 4096"
definition kSharedBufferPoolBlockSize4K :: u32 where "kSharedBufferPoolBlockSize4K = 4096"
definition kSharedBufferPoolBlockSize16K :: u32 where "kSharedBufferPoolBlockSize16K = 16384"
definition kSharedBufferPoolMaxNameLength :: nat where "kSharedBufferPoolMaxNameLength = 64"
definition pool_header_size :: u32 where "pool_header_size = 192"
definition pool_block_header_size :: u64 where "pool_block_header_size = 64"

datatype SharedBufferPoolInitState = PoolInitializing | PoolReady

primrec pool_init_word :: "SharedBufferPoolInitState \<Rightarrow> u32" where
  "pool_init_word PoolInitializing = 1"
| "pool_init_word PoolReady = 2"

datatype SharedBufferBlockState =
    BlockFree | BlockWritingClaiming | BlockWriting | BlockPublished | BlockReadingClaiming
  | BlockReading | BlockEpochExhausted | BlockOwnerProtocolFault

primrec block_word :: "SharedBufferBlockState \<Rightarrow> u32" where
  "block_word BlockFree = 0"
| "block_word BlockWritingClaiming = 1"
| "block_word BlockWriting = 2"
| "block_word BlockPublished = 3"
| "block_word BlockReadingClaiming = 4"
| "block_word BlockReading = 5"
| "block_word BlockEpochExhausted = 6"
| "block_word BlockOwnerProtocolFault = 7"

record pool_immutable =
  pi_magic :: bytes
  pi_abi_major :: u16
  pi_abi_minor :: u16
  pi_endian_marker :: u32
  pi_header_size :: u32
  pi_block_size :: u32
  pi_block_count :: u32
  pi_mapping_size :: u64
  pi_generation :: u64
  pi_nonce_hi :: u64
  pi_nonce_lo :: u64
  pi_schema_fingerprint :: bytes
  pi_schema_version :: u32
  pi_creator :: owner_abi
  pi_reserved :: bytes

record pool_header =
  ph_immutable :: pool_immutable
  ph_init_state :: u32
  ph_header_checksum :: u64

record pool_block =
  pb_state :: u32
  pb_generation :: u64
  pb_owner :: owner_abi
  pb_owner_epoch :: u64

record BufferHandle =
  bh_pool_generation :: u64
  bh_block_generation :: u64
  bh_nonce_hi :: u64
  bh_nonce_lo :: u64
  bh_offset :: u64
  bh_block_id :: u32
  bh_length :: u32
  bh_schema_version :: u32
  bh_reserved :: u32
  bh_schema_fingerprint :: bytes

record SharedBufferPoolOptions =
  po_name :: string
  po_block_size :: u32
  po_block_count :: u32
  po_schema :: SchemaDescriptor

text \<open>
  The 192 bytes of the header with \<open>init_state\<close> and \<open>header_checksum\<close> cleared; four bytes of
  padding follow \<open>block_count\<close>.
\<close>

definition pool_header_bytes :: "pool_immutable \<Rightarrow> bytes" where
  "pool_header_bytes h =
     pi_magic h @ le16 (pi_abi_major h) @ le16 (pi_abi_minor h) @ le32 (pi_endian_marker h) @
     le32 (pi_header_size h) @ le32 (pi_block_size h) @ le32 (pi_block_count h) @ [0, 0, 0, 0] @
     le64 (pi_mapping_size h) @ le64 (pi_generation h) @ le64 (pi_nonce_hi h) @
     le64 (pi_nonce_lo h) @ pi_schema_fingerprint h @ le32 (pi_schema_version h) @ le32 0 @ le64 0 @
     owner_bytes (pi_creator h) @ pi_reserved h"

subsection \<open>Sizes and offsets\<close>

definition shared_buffer_pool_block_size_valid :: "u32 \<Rightarrow> bool" where
  "shared_buffer_pool_block_size_valid block_size \<longleftrightarrow>
     block_size = kSharedBufferPoolBlockSize4K \<or> block_size = kSharedBufferPoolBlockSize16K"

definition shared_buffer_pool_stride_for :: "u32 \<Rightarrow> u64 option" where
  "shared_buffer_pool_stride_for block_size =
     (if \<not> shared_buffer_pool_block_size_valid block_size then None
      else round_up_to_multiple_u64 (pool_block_header_size + ucast block_size) 64)"

definition shared_buffer_pool_mapping_size_for :: "u32 \<Rightarrow> u32 \<Rightarrow> u64 option" where
  "shared_buffer_pool_mapping_size_for block_size block_count =
     (if block_count = 0 \<or> block_count > kSharedBufferPoolMaxBlockCount then None
      else
        (case shared_buffer_pool_stride_for block_size of
           None \<Rightarrow> None
         | Some stride \<Rightarrow>
             (case checked_mul_u64 stride (ucast block_count) of
                None \<Rightarrow> None
              | Some blocks_size \<Rightarrow> checked_add_u64 (ucast pool_header_size) blocks_size)))"

text \<open>The offsets of the block header and of the payload.\<close>

definition shared_buffer_pool_block_offset_for :: "u32 \<Rightarrow> u32 \<Rightarrow> u32 \<Rightarrow> (u64 \<times> u64) option" where
  "shared_buffer_pool_block_offset_for block_size block_id block_count =
     (if block_id \<ge> block_count then None
      else
        (case shared_buffer_pool_mapping_size_for block_size block_count of
           None \<Rightarrow> None
         | Some mapping_size \<Rightarrow>
             (case shared_buffer_pool_stride_for block_size of
                None \<Rightarrow> None
              | Some stride \<Rightarrow>
                  (case checked_mul_u64 stride (ucast block_id) of
                     None \<Rightarrow> None
                   | Some index_offset \<Rightarrow>
                       (case checked_add_u64 (ucast pool_header_size) index_offset of
                          None \<Rightarrow> None
                        | Some block_offset \<Rightarrow>
                            (case checked_add_u64 block_offset pool_block_header_size of
                               None \<Rightarrow> None
                             | Some payload_offset \<Rightarrow> Some (block_offset, payload_offset)))))))"

subsection \<open>Geometry\<close>

definition pool_stride :: "u32 \<Rightarrow> nat" where
  "pool_stride block_size = 64 + unat block_size"

definition pool_geometry :: "u32 \<Rightarrow> u32 \<Rightarrow> bool" where
  "pool_geometry block_size block_count \<longleftrightarrow>
     shared_buffer_pool_block_size_valid block_size \<and> 1 \<le> unat block_count \<and> unat block_count \<le> 4096"

lemma pool_stride_for_eq:
  assumes "shared_buffer_pool_block_size_valid bs"
  shows "\<exists>stride. shared_buffer_pool_stride_for bs = Some stride \<and> unat stride = pool_stride bs"
  using assms
  by (auto simp: shared_buffer_pool_stride_for_def shared_buffer_pool_block_size_valid_def
      kSharedBufferPoolBlockSize4K_def kSharedBufferPoolBlockSize16K_def pool_block_header_size_def
      round_up_to_multiple_u64_def checked_add_u64_def U64_MAX_def pool_stride_def Let_def)

lemma pool_stride_bound:
  "shared_buffer_pool_block_size_valid bs \<Longrightarrow> pool_stride bs \<le> 16448 \<and> 4160 \<le> pool_stride bs \<and> 64 dvd pool_stride bs"
  by (auto simp: shared_buffer_pool_block_size_valid_def pool_stride_def
      kSharedBufferPoolBlockSize4K_def kSharedBufferPoolBlockSize16K_def)

lemma pool_mapping_size_eq:
  assumes "pool_geometry bs bc"
  shows "\<exists>sz. shared_buffer_pool_mapping_size_for bs bc = Some sz \<and>
    unat sz = 192 + unat bc * pool_stride bs"
proof -
  have valid: "shared_buffer_pool_block_size_valid bs" and bc: "1 \<le> unat bc" "unat bc \<le> 4096"
    using assms by (auto simp: pool_geometry_def)
  obtain stride where st: "shared_buffer_pool_stride_for bs = Some stride" "unat stride = pool_stride bs"
    using pool_stride_for_eq [OF valid] by blast
  have bound: "pool_stride bs * unat bc \<le> 16448 * 4096"
    using pool_stride_bound [OF valid] bc by (intro mult_le_mono) auto
  have mul: "checked_mul_u64 stride (ucast bc) = Some (stride * ucast bc)"
    and prod: "unat (stride * ucast bc) = pool_stride bs * unat bc"
    using bound st(2) by (simp_all add: checked_mul_u64_Some_iff unat_mult_no_wrap)
  have add: "checked_add_u64 (ucast pool_header_size) (stride * ucast bc)
      = Some (ucast pool_header_size + stride * ucast bc)"
    and sum: "unat (ucast pool_header_size + stride * ucast bc) = 192 + unat bc * pool_stride bs"
    using bound prod by (simp_all add: checked_add_u64_Some_iff unat_add_no_wrap pool_header_size_def mult.commute)
  have "\<not> (bc = 0 \<or> bc > kSharedBufferPoolMaxBlockCount)"
    using bc by (auto simp: kSharedBufferPoolMaxBlockCount_def word_less_nat_alt)
  then show ?thesis
    using st(1) mul add sum by (simp add: shared_buffer_pool_mapping_size_for_def)
qed

lemma pool_block_offset_eq:
  assumes geo: "pool_geometry bs bc" and i: "block_id < bc"
  shows "\<exists>off pay. shared_buffer_pool_block_offset_for bs block_id bc = Some (off, pay) \<and>
    unat off = 192 + unat block_id * pool_stride bs \<and> unat pay = unat off + 64 \<and> pay = off + 64"
proof -
  have valid: "shared_buffer_pool_block_size_valid bs" and bc: "1 \<le> unat bc" "unat bc \<le> 4096"
    using geo by (auto simp: pool_geometry_def)
  obtain sz where sz: "shared_buffer_pool_mapping_size_for bs bc = Some sz"
    using pool_mapping_size_eq [OF geo] by blast
  obtain stride where st: "shared_buffer_pool_stride_for bs = Some stride" "unat stride = pool_stride bs"
    using pool_stride_for_eq [OF valid] by blast
  have ib: "unat block_id < unat bc" using i by (simp add: word_less_nat_alt)
  have bound: "pool_stride bs * unat block_id \<le> 16448 * 4096"
    using pool_stride_bound [OF valid] bc ib by (intro mult_le_mono) auto
  have mul: "checked_mul_u64 stride (ucast block_id) = Some (stride * ucast block_id)"
    and prod: "unat (stride * ucast block_id) = pool_stride bs * unat block_id"
    using bound st(2) by (simp_all add: checked_mul_u64_Some_iff unat_mult_no_wrap)
  let ?off = "ucast pool_header_size + stride * ucast block_id :: u64"
  have add: "checked_add_u64 (ucast pool_header_size) (stride * ucast block_id) = Some ?off"
    and off: "unat ?off = 192 + unat block_id * pool_stride bs"
    using bound prod by (simp_all add: checked_add_u64_Some_iff unat_add_no_wrap pool_header_size_def mult.commute)
  have pay: "checked_add_u64 ?off pool_block_header_size = Some (?off + 64)" "unat (?off + 64) = unat ?off + 64"
    using bound off
    by (simp_all add: checked_add_u64_Some_iff unat_add_no_wrap pool_block_header_size_def mult.commute)
  show ?thesis
    using i sz st(1) mul add off pay by (simp add: shared_buffer_pool_block_offset_for_def not_le)
qed

end
