(* ===== verification/ER_Pool.thy ===== *)
theory ER_Pool
  imports ER_Pool_Layout
begin

text \<open>
  Using a shared buffer pool (\<open>buffer/shared_buffer_pool.cpp\<close>): claiming a free block for writing,
  publishing or aborting it, claiming a published block for reading by its descriptor and giving it
  back, and moving the buffer objects. Blocks are keyed by the byte offset of their header, payloads
  by the byte offset of their first byte. A pool handle is a reference that buffers share, so its
  \<open>removed\<close> flag is in the world.
\<close>

subsection \<open>Memory\<close>

record pool_world =
  pw_hdr :: pool_header
  pw_blocks :: "u64 \<Rightarrow> pool_block"
  pw_payload :: "u64 \<Rightarrow> nat \<Rightarrow> u8"
  pw_removed :: "nat \<Rightarrow> bool"
  pw_kern :: kernel

record pool_handle =
  pl_ref :: nat
  pl_shm_name :: string
  pl_dev :: u64
  pl_ino :: u64
  pl_size :: u64
  pl_self :: ProcessIdentity
  pl_created :: bool

record WriteBuffer =
  wb_pool :: "pool_handle option"
  wb_block :: "u64 option"
  wb_data :: "u64 option"
  wb_size :: u32
  wb_descriptor :: BufferHandle
  wb_active :: bool

record ReadBuffer =
  rb_pool :: "pool_handle option"
  rb_block :: "u64 option"
  rb_data :: "u64 option"
  rb_size :: u32
  rb_descriptor :: BufferHandle
  rb_active :: bool

definition pool_hdr_c :: "(pool_world, pool_header) cell" where
  "pool_hdr_c = \<lparr>rd = pw_hdr, wr = (\<lambda>v w. w\<lparr>pw_hdr := v\<rparr>)\<rparr>"
definition pool_kern_c :: "(pool_world, kernel) cell" where
  "pool_kern_c = \<lparr>rd = pw_kern, wr = (\<lambda>v w. w\<lparr>pw_kern := v\<rparr>)\<rparr>"
definition removed_c :: "pool_handle \<Rightarrow> (pool_world, bool) cell" where
  "removed_c h =
     \<lparr>rd = (\<lambda>w. pw_removed w (pl_ref h)), wr = (\<lambda>v w. w\<lparr>pw_removed := (pw_removed w)(pl_ref h := v)\<rparr>)\<rparr>"
definition block_c :: "u64 \<Rightarrow> (pool_world, pool_block) cell" where
  "block_c off = \<lparr>rd = (\<lambda>w. pw_blocks w off), wr = (\<lambda>v w. w\<lparr>pw_blocks := (pw_blocks w)(off := v)\<rparr>)\<rparr>"
definition pool_payload_c :: "u64 \<Rightarrow> nat \<Rightarrow> (pool_world, u8) cell" where
  "pool_payload_c base i =
     \<lparr>rd = (\<lambda>w. pw_payload w base i),
      wr = (\<lambda>v w. w\<lparr>pw_payload := (pw_payload w)(base := (pw_payload w base)(i := v))\<rparr>)\<rparr>"
definition pool_immutable_c :: "(pool_world, pool_immutable) cell" where
  "pool_immutable_c = field pool_hdr_c \<lparr>rd = ph_immutable, wr = (\<lambda>v h. h\<lparr>ph_immutable := v\<rparr>)\<rparr>"
definition pool_init_state_c :: "(pool_world, u32) cell" where
  "pool_init_state_c = field pool_hdr_c \<lparr>rd = ph_init_state, wr = (\<lambda>v h. h\<lparr>ph_init_state := v\<rparr>)\<rparr>"
definition pool_checksum_c :: "(pool_world, u64) cell" where
  "pool_checksum_c =
     field pool_hdr_c \<lparr>rd = ph_header_checksum, wr = (\<lambda>v h. h\<lparr>ph_header_checksum := v\<rparr>)\<rparr>"
definition block_state_c :: "u64 \<Rightarrow> (pool_world, u32) cell" where
  "block_state_c off = field (block_c off) \<lparr>rd = pb_state, wr = (\<lambda>v x. x\<lparr>pb_state := v\<rparr>)\<rparr>"
definition block_generation_c :: "u64 \<Rightarrow> (pool_world, u64) cell" where
  "block_generation_c off =
     field (block_c off) \<lparr>rd = pb_generation, wr = (\<lambda>v x. x\<lparr>pb_generation := v\<rparr>)\<rparr>"
definition block_owner_c :: "u64 \<Rightarrow> (pool_world, owner_abi) cell" where
  "block_owner_c off = field (block_c off) \<lparr>rd = pb_owner, wr = (\<lambda>v x. x\<lparr>pb_owner := v\<rparr>)\<rparr>"
definition block_owner_epoch_c :: "u64 \<Rightarrow> (pool_world, u64) cell" where
  "block_owner_epoch_c off =
     field (block_c off) \<lparr>rd = pb_owner_epoch, wr = (\<lambda>v x. x\<lparr>pb_owner_epoch := v\<rparr>)\<rparr>"

lemmas pool_cells [cell_defs] =
  pool_hdr_c_def pool_kern_c_def removed_c_def block_c_def pool_payload_c_def pool_immutable_c_def
  pool_init_state_c_def pool_checksum_c_def block_state_c_def block_generation_c_def block_owner_c_def
  block_owner_epoch_c_def

lemma pool_cell_access [run_simps]:
  "rd pool_hdr_c w = pw_hdr w" "wr pool_hdr_c x w = w\<lparr>pw_hdr := x\<rparr>"
  "rd pool_kern_c w = pw_kern w" "wr pool_kern_c k w = w\<lparr>pw_kern := k\<rparr>"
  "rd (removed_c h) w = pw_removed w (pl_ref h)"
  "wr (removed_c h) b w = w\<lparr>pw_removed := (pw_removed w)(pl_ref h := b)\<rparr>"
  "rd (pool_payload_c base i) w = pw_payload w base i"
  "wr (pool_payload_c base i) c w = w\<lparr>pw_payload := (pw_payload w)(base := (pw_payload w base)(i := c))\<rparr>"
  "rd pool_immutable_c w = ph_immutable (pw_hdr w)"
  "wr pool_immutable_c im w = w\<lparr>pw_hdr := (pw_hdr w)\<lparr>ph_immutable := im\<rparr>\<rparr>"
  "rd pool_init_state_c w = ph_init_state (pw_hdr w)"
  "wr pool_init_state_c s w = w\<lparr>pw_hdr := (pw_hdr w)\<lparr>ph_init_state := s\<rparr>\<rparr>"
  "rd pool_checksum_c w = ph_header_checksum (pw_hdr w)"
  "wr pool_checksum_c e w = w\<lparr>pw_hdr := (pw_hdr w)\<lparr>ph_header_checksum := e\<rparr>\<rparr>"
  "rd (block_state_c off) w = pb_state (pw_blocks w off)"
  "wr (block_state_c off) s w = w\<lparr>pw_blocks := (pw_blocks w)(off := (pw_blocks w off)\<lparr>pb_state := s\<rparr>)\<rparr>"
  "rd (block_generation_c off) w = pb_generation (pw_blocks w off)"
  "wr (block_generation_c off) e w =
     w\<lparr>pw_blocks := (pw_blocks w)(off := (pw_blocks w off)\<lparr>pb_generation := e\<rparr>)\<rparr>"
  "rd (block_owner_c off) w = pb_owner (pw_blocks w off)"
  "wr (block_owner_c off) ow w = w\<lparr>pw_blocks := (pw_blocks w)(off := (pw_blocks w off)\<lparr>pb_owner := ow\<rparr>)\<rparr>"
  "rd (block_owner_epoch_c off) w = pb_owner_epoch (pw_blocks w off)"
  "wr (block_owner_epoch_c off) e w =
     w\<lparr>pw_blocks := (pw_blocks w)(off := (pw_blocks w off)\<lparr>pb_owner_epoch := e\<rparr>)\<rparr>"
  by (simp_all add: cell_defs)

subsection \<open>Helpers\<close>

definition classify_block_state :: "u32 \<Rightarrow> OwnerStateKind" where
  "classify_block_state state =
     (if state = block_word BlockFree \<or> state = block_word BlockPublished then StInactive
      else if state = block_word BlockWritingClaiming \<or> state = block_word BlockReadingClaiming
      then StClaiming
      else if state = block_word BlockWriting \<or> state = block_word BlockReading then StOwned
      else if state = block_word BlockEpochExhausted then StEpochExhausted
      else if state = block_word BlockOwnerProtocolFault then StProtocolFault
      else StUnexpected)"

definition snapshot_block_owner :: "u64 \<Rightarrow> (pool_world, OwnerSnapshot) prog" where
  "snapshot_block_owner block =
     snapshot_owner_seq_cst (block_state_c block) (block_owner_epoch_c block) (block_owner_c block)
       classify_block_state owner_valid"

definition pool_header_checksum :: "pool_immutable \<Rightarrow> u64" where
  "pool_header_checksum im = fnv1a64 (pool_header_bytes im)"

definition pool_same_schema :: "pool_immutable \<Rightarrow> SchemaDescriptor \<Rightarrow> bool" where
  "pool_same_schema im schema \<longleftrightarrow>
     pi_schema_version im = sd_version schema \<and> pi_schema_fingerprint im = sd_fingerprint schema"

definition handle_schema_matches :: "pool_immutable \<Rightarrow> BufferHandle \<Rightarrow> bool" where
  "handle_schema_matches im descriptor \<longleftrightarrow>
     bh_schema_version descriptor = pi_schema_version im \<and>
     bh_schema_fingerprint descriptor = pi_schema_fingerprint im"

definition block_at :: "pool_handle \<Rightarrow> u32 \<Rightarrow> (pool_world, u64 option) prog" where
  "block_at handle block_id =
     bind (shared_load pool_immutable_c) (\<lambda>im.
       case shared_buffer_pool_block_offset_for (pi_block_size im) block_id (pi_block_count im) of
         None \<Rightarrow> Ret None
       | Some (block_offset, payload_offset) \<Rightarrow>
           if block_offset > pl_size handle \<or> pool_block_header_size > pl_size handle - block_offset
           then Ret None else Ret (Some block_offset))"

definition payload_at :: "pool_handle \<Rightarrow> u32 \<Rightarrow> (pool_world, u64 option) prog" where
  "payload_at handle block_id =
     bind (shared_load pool_immutable_c) (\<lambda>im.
       case shared_buffer_pool_block_offset_for (pi_block_size im) block_id (pi_block_count im) of
         None \<Rightarrow> Ret None
       | Some (block_offset, payload_offset) \<Rightarrow>
           if payload_offset > pl_size handle \<or> ucast (pi_block_size im) > pl_size handle - payload_offset
           then Ret None else Ret (Some payload_offset))"

definition buffer_handle_zero :: BufferHandle where
  "buffer_handle_zero =
     \<lparr>bh_pool_generation = 0, bh_block_generation = 0, bh_nonce_hi = 0, bh_nonce_lo = 0, bh_offset = 0,
      bh_block_id = 0, bh_length = 0, bh_schema_version = 0, bh_reserved = 0,
      bh_schema_fingerprint = replicate 32 0\<rparr>"

definition make_handle :: "u32 \<Rightarrow> u64 \<Rightarrow> (pool_world, BufferHandle) prog" where
  "make_handle block_id block =
     bind (shared_load pool_immutable_c) (\<lambda>im.
     bind (shared_load (block_generation_c block)) (\<lambda>generation.
       Ret \<lparr>bh_pool_generation = pi_generation im, bh_block_generation = generation,
            bh_nonce_hi = pi_nonce_hi im, bh_nonce_lo = pi_nonce_lo im,
            bh_offset =
              (case shared_buffer_pool_block_offset_for (pi_block_size im) block_id (pi_block_count im) of
                 None \<Rightarrow> 0 | Some (_, payload_offset) \<Rightarrow> payload_offset),
            bh_block_id = block_id, bh_length = pi_block_size im,
            bh_schema_version = pi_schema_version im, bh_reserved = 0,
            bh_schema_fingerprint = pi_schema_fingerprint im\<rparr>))"

definition validate_live_pool :: "pool_handle option \<Rightarrow> (pool_world, pool_handle result) prog" where
  "validate_live_pool handle =
     (case handle of
        None \<Rightarrow> Ret (Inl kStaleHandle)
      | Some h \<Rightarrow>
          bind (shared_load (removed_c h)) (\<lambda>removed.
            if removed then Ret (Inl kStaleHandle)
            else
              bind (shared_load pool_init_state_c) (\<lambda>init.
                if init \<noteq> pool_init_word PoolReady then Ret (Inl kInitializationIncomplete)
                else Ret (Inr h))))"

definition validate_descriptor ::
  "pool_handle option \<Rightarrow> BufferHandle \<Rightarrow> (pool_world, pool_handle result) prog" where
  "validate_descriptor handle descriptor =
     try_bind (validate_live_pool handle) (\<lambda>h.
     bind (shared_load pool_immutable_c) (\<lambda>im.
       if bh_pool_generation descriptor \<noteq> pi_generation im \<or>
          bh_nonce_hi descriptor \<noteq> pi_nonce_hi im \<or> bh_nonce_lo descriptor \<noteq> pi_nonce_lo im
       then Ret (Inl kBufferInvalidHandle)
       else if \<not> handle_schema_matches im descriptor then Ret (Inl kSchemaMismatch)
       else if bh_reserved descriptor \<noteq> 0 \<or> bh_block_id descriptor \<ge> pi_block_count im \<or>
               bh_length descriptor \<noteq> pi_block_size im
       then Ret (Inl kBufferInvalidHandle)
       else
         (case shared_buffer_pool_block_offset_for (pi_block_size im) (bh_block_id descriptor)
                 (pi_block_count im) of
            None \<Rightarrow> Ret (Inl kBufferInvalidHandle)
          | Some (expected_block_offset, expected_payload_offset) \<Rightarrow>
              if bh_offset descriptor \<noteq> expected_payload_offset \<or> bh_block_generation descriptor = 0
              then Ret (Inl kBufferInvalidHandle)
              else
                bind (block_at h (bh_block_id descriptor)) (\<lambda>block.
                  case block of
                    None \<Rightarrow> Ret (Inl kBufferInvalidHandle)
                  | Some off \<Rightarrow>
                      bind (shared_load (block_generation_c off)) (\<lambda>generation.
                        if generation \<noteq> bh_block_generation descriptor
                        then Ret (Inl kBufferInvalidHandle) else Ret (Inr h))))))"

text \<open>Always an error, so the code itself is the result.\<close>

definition classify_active_block :: "pool_handle \<Rightarrow> u64 \<Rightarrow> (pool_world, ErrorCode) prog" where
  "classify_active_block handle block =
     bind (snapshot_block_owner block) (\<lambda>observation.
       case os_kind observation of
         SnapInactive \<Rightarrow> Ret kBufferPoolContention
       | SnapClaiming \<Rightarrow> Ret kBufferPoolContention
       | SnapUnstable \<Rightarrow> Ret kBufferPoolContention
       | SnapCorrupt \<Rightarrow> Ret kRecoveryBlocked
       | SnapEpochExhausted \<Rightarrow> Ret kRecoveryBlocked
       | SnapStable \<Rightarrow>
           if owner_matches (os_owner observation) (pl_self handle) then Ret kConcurrentHandleUse
           else if ow_boot_hi (os_owner observation) \<noteq> id_boot_hi (pl_self handle) \<or>
                   ow_boot_lo (os_owner observation) \<noteq> id_boot_lo (pl_self handle)
           then Ret kRecoveryBlocked
           else
             bind (kernel_query pool_kern_c
                     (\<lambda>k. probe_liveness k (ow_pid (os_owner observation))
                            (ow_ticks (os_owner observation)))) (\<lambda>liveness.
               if liveness = kAlive then Ret kBufferPoolContention else Ret kRecoveryBlocked))"

subsection \<open>Writing\<close>

record acquire_flags =
  saw_contention :: bool
  saw_recovery :: bool
  saw_exhausted :: bool

text \<open>The state of a block whose owner epoch cannot be committed, and the flag it raises.\<close>

definition block_failure_word :: "OwnerCommitResult \<Rightarrow> u32" where
  "block_failure_word r =
     block_word (if r = CommitEpochExhausted then BlockEpochExhausted else BlockOwnerProtocolFault)"

definition block_failure_flag :: "OwnerCommitResult \<Rightarrow> acquire_flags \<Rightarrow> acquire_flags" where
  "block_failure_flag r flags =
     (if r = CommitEpochExhausted then flags\<lparr>saw_exhausted := True\<rparr> else flags\<lparr>saw_recovery := True\<rparr>)"

text \<open>A block in a state other than free or published: only the flags change.\<close>

definition note_active_block ::
  "pool_handle \<Rightarrow> u64 \<Rightarrow> acquire_flags \<Rightarrow> (pool_world, acquire_flags) prog" where
  "note_active_block handle block flags =
     bind (classify_active_block handle block) (\<lambda>code.
       Ret (flags\<lparr>saw_recovery := saw_recovery flags \<or> code = kRecoveryBlocked,
                  saw_contention := saw_contention flags \<or> code = kBufferPoolContention \<or>
                                    code = kConcurrentHandleUse\<rparr>))"

text \<open>
  One round of the loop over the blocks: \<open>Inl\<close> goes on with new flags, \<open>Inr\<close> ends the search.
\<close>

definition commit_write_block ::
  "pool_handle \<Rightarrow> u32 \<Rightarrow> u64 \<Rightarrow> u64 \<Rightarrow> u64 \<Rightarrow> (pool_world, WriteBuffer result) prog" where
  "commit_write_block handle block_id block previous_generation committed_epoch =
     bind (shared_store (block_generation_c block) (previous_generation + 1)) (\<lambda>_.
     bind (set_owner (block_owner_c block) (pl_self handle)) (\<lambda>_.
     bind (shared_store (block_owner_epoch_c block) committed_epoch) (\<lambda>_.
     bind (shared_store (block_state_c block) (block_word BlockWriting)) (\<lambda>_.
     bind (payload_at handle block_id) (\<lambda>payload.
       case payload of
         None \<Rightarrow>
           bind (shared_store (block_state_c block) (block_word BlockFree)) (\<lambda>_.
             Ret (Inl kCorruptSlot))
       | Some data \<Rightarrow>
           bind (make_handle block_id block) (\<lambda>descriptor.
           bind (shared_load pool_immutable_c) (\<lambda>im.
             Ret (Inr \<lparr>wb_pool = Some handle, wb_block = Some block, wb_data = Some data,
                       wb_size = pi_block_size im, wb_descriptor = descriptor,
                       wb_active = True\<rparr>))))))))"

definition claim_write_block ::
  "pool_handle \<Rightarrow> u32 \<Rightarrow> u64 \<Rightarrow> acquire_flags \<Rightarrow> (pool_world, acquire_flags + WriteBuffer result) prog" where
  "claim_write_block handle block_id block flags =
     bind (shared_cas (block_state_c block) (block_word BlockFree) (block_word BlockWritingClaiming)) (\<lambda>won.
       if \<not> won then Ret (Inl (flags\<lparr>saw_contention := True\<rparr>))
       else
         bind (shared_load (block_generation_c block)) (\<lambda>previous_generation.
           if previous_generation = U64_MAX then
             bind (shared_store (block_state_c block) (block_word BlockFree)) (\<lambda>_.
               Ret (Inl (flags\<lparr>saw_exhausted := True\<rparr>)))
           else
             bind (owner_epoch_capacity (block_owner_epoch_c block) 4) (\<lambda>epoch_capacity.
               if epoch_capacity \<noteq> CommitReady then
                 bind (shared_store (block_state_c block) (block_failure_word epoch_capacity)) (\<lambda>_.
                   Ret (Inl (block_failure_flag epoch_capacity flags)))
               else
                 bind (begin_owner_commit (block_owner_epoch_c block) 4) (\<lambda>(owner_commit, committed_epoch).
                   if owner_commit \<noteq> CommitReady then
                     bind (shared_store (block_state_c block) (block_failure_word owner_commit)) (\<lambda>_.
                       Ret (Inl (block_failure_flag owner_commit flags)))
                   else
                     bind (commit_write_block handle block_id block previous_generation committed_epoch) (\<lambda>r.
                       Ret (Inr r))))))"

definition try_acquire_block ::
  "pool_handle \<Rightarrow> u32 \<Rightarrow> u64 \<Rightarrow> acquire_flags \<Rightarrow> (pool_world, acquire_flags + WriteBuffer result) prog" where
  "try_acquire_block handle block_id block flags =
     bind (shared_load (block_state_c block)) (\<lambda>state.
       if state = block_word BlockPublished then Ret (Inl flags)
       else if state \<noteq> block_word BlockFree then
         (if state = block_word BlockEpochExhausted then Ret (Inl (flags\<lparr>saw_exhausted := True\<rparr>))
          else bind (note_active_block handle block flags) (\<lambda>flags'. Ret (Inl flags')))
       else claim_write_block handle block_id block flags)"

definition no_block_error :: "acquire_flags \<Rightarrow> ErrorCode" where
  "no_block_error flags =
     (if saw_recovery flags then kRecoveryBlocked
      else if saw_exhausted flags then kSequenceExhausted
      else if saw_contention flags then kBufferPoolContention
      else kBufferPoolFull)"

text \<open>\<open>n\<close> blocks remain, \<open>block_id\<close> is the next one.\<close>

primrec try_acquire_loop ::
  "pool_handle \<Rightarrow> nat \<Rightarrow> u32 \<Rightarrow> acquire_flags \<Rightarrow> (pool_world, WriteBuffer result) prog" where
  "try_acquire_loop handle 0 block_id flags = Ret (Inl (no_block_error flags))"
| "try_acquire_loop handle (Suc n) block_id flags =
     bind (block_at handle block_id) (\<lambda>block.
       case block of
         None \<Rightarrow> Ret (Inl kCorruptSlot)
       | Some off \<Rightarrow>
           bind (try_acquire_block handle block_id off flags) (\<lambda>r.
             case r of
               Inl flags' \<Rightarrow> try_acquire_loop handle n (block_id + 1) flags'
             | Inr res \<Rightarrow> Ret res))"

definition shared_buffer_pool_try_acquire_write_impl ::
  "pool_handle option \<Rightarrow> (pool_world, WriteBuffer result) prog" where
  "shared_buffer_pool_try_acquire_write_impl handle =
     try_bind (validate_live_pool handle) (\<lambda>h.
     bind (shared_load pool_immutable_c) (\<lambda>im.
       try_acquire_loop h (unat (pi_block_count im)) 0
         \<lparr>saw_contention = False, saw_recovery = False, saw_exhausted = False\<rparr>))"

text \<open>The buffer after it was given up: the descriptor and the size stay.\<close>

definition clear_write_buffer :: "WriteBuffer \<Rightarrow> WriteBuffer" where
  "clear_write_buffer buffer =
     buffer\<lparr>wb_active := False, wb_block := None, wb_data := None, wb_pool := None\<rparr>"

text \<open>The result and the buffer after the call; \<open>None\<close> is the null pointer.\<close>

definition shared_buffer_pool_publish_write_impl ::
  "WriteBuffer option \<Rightarrow> (pool_world, BufferHandle result \<times> WriteBuffer option) prog" where
  "shared_buffer_pool_publish_write_impl buffer =
     (case buffer of
        None \<Rightarrow> Ret (Inl kInvalidOptions, None)
      | Some b \<Rightarrow>
          (let fail = (\<lambda>e. Ret (Inl e, Some b)) in
           case (wb_active b, wb_pool b, wb_block b) of
             (True, Some h, Some block) \<Rightarrow>
               bind (validate_live_pool (Some h)) (\<lambda>valid.
                 case valid of
                   Inl e \<Rightarrow> fail e
                 | Inr _ \<Rightarrow>
                     bind (shared_load (block_state_c block)) (\<lambda>state.
                       if state \<noteq> block_word BlockWriting then fail kBufferStateMismatch
                       else
                         bind (snapshot_block_owner block) (\<lambda>observation.
                           if os_kind observation \<noteq> SnapStable then
                             (if os_kind observation = SnapClaiming \<or> os_kind observation = SnapUnstable
                              then fail kBufferPoolContention else fail kRecoveryBlocked)
                           else if \<not> owner_matches (os_owner observation) (pl_self h)
                           then fail kRecoveryBlocked
                           else
                             bind (shared_load (block_generation_c block)) (\<lambda>generation.
                               if generation \<noteq> bh_block_generation (wb_descriptor b)
                               then fail kBufferInvalidHandle
                               else
                                 bind (shared_store (block_state_c block) (block_word BlockPublished)) (\<lambda>_.
                                   Ret (Inr (wb_descriptor b), Some (clear_write_buffer b)))))))
           | _ \<Rightarrow> fail kInvalidOptions))"

text \<open>
  Giving a block back: it becomes free only if it still has the state, the owner and the generation
  under which it was acquired.
\<close>

definition free_owned_block ::
  "pool_handle \<Rightarrow> u64 \<Rightarrow> SharedBufferBlockState \<Rightarrow> BufferHandle \<Rightarrow> (pool_world, unit) prog" where
  "free_owned_block h block owned descriptor =
     bind (shared_load (removed_c h)) (\<lambda>removed.
       if removed then Ret ()
       else
         bind (snapshot_block_owner block) (\<lambda>observation.
           if os_kind observation = SnapStable \<and> os_state observation = block_word owned \<and>
              owner_matches (os_owner observation) (pl_self h)
           then
             bind (shared_load (block_generation_c block)) (\<lambda>generation.
               if generation = bh_block_generation descriptor
               then shared_store (block_state_c block) (block_word BlockFree) else Ret ())
           else Ret ()))"

definition shared_buffer_pool_abort_write_impl ::
  "WriteBuffer option \<Rightarrow> (pool_world, WriteBuffer option) prog" where
  "shared_buffer_pool_abort_write_impl buffer =
     (case buffer of
        None \<Rightarrow> Ret None
      | Some b \<Rightarrow>
          if \<not> wb_active b then Ret (Some b)
          else
            bind (case (wb_pool b, wb_block b) of
                    (Some h, Some block) \<Rightarrow> free_owned_block h block BlockWriting (wb_descriptor b)
                  | _ \<Rightarrow> Ret ()) (\<lambda>_.
              Ret (Some (clear_write_buffer b))))"

subsection \<open>Reading\<close>

text \<open>Undo a claim for reading; the error tells whether the claim was still there.\<close>

definition rollback_read :: "u64 \<Rightarrow> ErrorCode \<Rightarrow> (pool_world, ReadBuffer result) prog" where
  "rollback_read block e =
     bind (shared_cas (block_state_c block) (block_word BlockReadingClaiming) (block_word BlockPublished))
       (\<lambda>restored. if \<not> restored then Ret (Inl kRecoveryBlocked) else Ret (Inl e))"

definition read_epoch_error :: "OwnerCommitResult \<Rightarrow> ErrorCode" where
  "read_epoch_error r = (if r = CommitEpochExhausted then kSequenceExhausted else kRecoveryBlocked)"

text \<open>From the claim of a published block on.\<close>

definition claim_read_block ::
  "pool_handle \<Rightarrow> u64 \<Rightarrow> u64 \<Rightarrow> BufferHandle \<Rightarrow> (pool_world, ReadBuffer result) prog" where
  "claim_read_block h block data descriptor =
     bind (shared_cas (block_state_c block) (block_word BlockPublished) (block_word BlockReadingClaiming)) (\<lambda>won.
       if \<not> won then Ret (Inl kBufferPoolContention)
       else
         bind (shared_load (block_generation_c block)) (\<lambda>generation.
           if generation \<noteq> bh_block_generation descriptor then rollback_read block kBufferInvalidHandle
           else
             bind (owner_epoch_capacity (block_owner_epoch_c block) 2) (\<lambda>epoch_capacity.
               if epoch_capacity \<noteq> CommitReady then rollback_read block (read_epoch_error epoch_capacity)
               else
                 bind (begin_owner_commit (block_owner_epoch_c block) 2) (\<lambda>(owner_commit, committed_epoch).
                   if owner_commit \<noteq> CommitReady then rollback_read block (read_epoch_error owner_commit)
                   else
                     bind (set_owner (block_owner_c block) (pl_self h)) (\<lambda>_.
                     bind (shared_store (block_owner_epoch_c block) committed_epoch) (\<lambda>_.
                     bind (shared_store (block_state_c block) (block_word BlockReading)) (\<lambda>_.
                       Ret (Inr \<lparr>rb_pool = Some h, rb_block = Some block, rb_data = Some data,
                                 rb_size = bh_length descriptor, rb_descriptor = descriptor,
                                 rb_active = True\<rparr>))))))))"

definition shared_buffer_pool_acquire_read_impl ::
  "pool_handle option \<Rightarrow> BufferHandle \<Rightarrow> (pool_world, ReadBuffer result) prog" where
  "shared_buffer_pool_acquire_read_impl handle descriptor =
     try_bind (validate_descriptor handle descriptor) (\<lambda>h.
     bind (block_at h (bh_block_id descriptor)) (\<lambda>block.
     bind (payload_at h (bh_block_id descriptor)) (\<lambda>payload.
       case (block, payload) of
         (Some off, Some data) \<Rightarrow>
           bind (shared_load (block_state_c off)) (\<lambda>state.
             if state \<noteq> block_word BlockPublished then
               (if state = block_word BlockFree then Ret (Inl kBufferStateMismatch)
                else bind (classify_active_block h off) (\<lambda>e. Ret (Inl e)))
             else
               bind (shared_load (block_generation_c off)) (\<lambda>generation.
                 if generation \<noteq> bh_block_generation descriptor then Ret (Inl kBufferInvalidHandle)
                 else claim_read_block h off data descriptor))
       | _ \<Rightarrow> Ret (Inl kCorruptSlot))))"

definition clear_read_buffer :: "ReadBuffer \<Rightarrow> ReadBuffer" where
  "clear_read_buffer buffer =
     buffer\<lparr>rb_active := False, rb_block := None, rb_data := None, rb_pool := None\<rparr>"

definition shared_buffer_pool_release_read_impl ::
  "ReadBuffer option \<Rightarrow> (pool_world, ReadBuffer option) prog" where
  "shared_buffer_pool_release_read_impl buffer =
     (case buffer of
        None \<Rightarrow> Ret None
      | Some b \<Rightarrow>
          if \<not> rb_active b then Ret (Some b)
          else
            bind (case (rb_pool b, rb_block b) of
                    (Some h, Some block) \<Rightarrow> free_owned_block h block BlockReading (rb_descriptor b)
                  | _ \<Rightarrow> Ret ()) (\<lambda>_.
              Ret (Some (clear_read_buffer b))))"

subsection \<open>Moving buffers\<close>

text \<open>The new buffer and what is left of the old one.\<close>

definition moved_from_write :: "WriteBuffer \<Rightarrow> WriteBuffer" where
  "moved_from_write other =
     other\<lparr>wb_pool := None, wb_block := None, wb_data := None, wb_size := 0,
           wb_descriptor := buffer_handle_zero, wb_active := False\<rparr>"

definition WriteBuffer_move :: "WriteBuffer \<Rightarrow> WriteBuffer \<times> WriteBuffer" where
  "WriteBuffer_move other = (other, moved_from_write other)"

definition WriteBuffer_assign ::
  "bool \<Rightarrow> WriteBuffer \<Rightarrow> WriteBuffer \<Rightarrow> (pool_world, WriteBuffer \<times> WriteBuffer) prog" where
  "WriteBuffer_assign same_object self other =
     (if same_object then Ret (self, self)
      else bind (shared_buffer_pool_abort_write_impl (Some self)) (\<lambda>_.
        Ret (other, moved_from_write other)))"

definition moved_from_read :: "ReadBuffer \<Rightarrow> ReadBuffer" where
  "moved_from_read other =
     other\<lparr>rb_pool := None, rb_block := None, rb_data := None, rb_size := 0,
           rb_descriptor := buffer_handle_zero, rb_active := False\<rparr>"

definition ReadBuffer_move :: "ReadBuffer \<Rightarrow> ReadBuffer \<times> ReadBuffer" where
  "ReadBuffer_move other = (other, moved_from_read other)"

definition ReadBuffer_assign ::
  "bool \<Rightarrow> ReadBuffer \<Rightarrow> ReadBuffer \<Rightarrow> (pool_world, ReadBuffer \<times> ReadBuffer) prog" where
  "ReadBuffer_assign same_object self other =
     (if same_object then Ret (self, self)
      else bind (shared_buffer_pool_release_read_impl (Some self)) (\<lambda>_.
        Ret (other, moved_from_read other)))"

end
