(* ===== verification/ER_Pool_Conc.thy ===== *)
theory ER_Pool_Conc
  imports ER_Pool "HOL-Library.Sublist"
begin

text \<open>
  The buffer pool under arbitrary interleaving. The ghost data names the thread that has a block in
  hand and logs what was published and what was taken for reading, each entry with the block, its
  generation and the whole content. The invariant says that a free or published block is in nobody's
  hand, that a published block has its content in the log and has not been read, and that no
  generation of a block is published twice.
\<close>

type_synonym pool_entry = "(u64 \<times> u64) \<times> bytes"

record pool_ghost =
  pg_holder :: "u64 \<Rightarrow> nat option"
  pg_pubs :: "(nat \<times> pool_entry) list"
  pg_reads :: "(nat \<times> pool_entry) list"

type_synonym pool_config = "pool_world \<times> pool_ghost"

abbreviation log_keys :: "(nat \<times> pool_entry) list \<Rightarrow> (u64 \<times> u64) list" where
  "log_keys l \<equiv> map (\<lambda>x. fst (snd x)) l"

definition pool_content :: "pool_immutable \<Rightarrow> (nat \<Rightarrow> u8) \<Rightarrow> bytes" where
  "pool_content im pl = map pl [0..<unat (pi_block_size im)]"

abbreviation pool_im :: "pool_world \<Rightarrow> pool_immutable" where
  "pool_im w \<equiv> ph_immutable (pw_hdr w)"

text \<open>The entries of a log that are about one block.\<close>

definition at_block :: "u64 \<Rightarrow> (nat \<times> pool_entry) list \<Rightarrow> (nat \<times> pool_entry) list" where
  "at_block off l = filter (\<lambda>x. fst (fst (snd x)) = off) l"

definition by_thread :: "nat \<Rightarrow> (nat \<times> pool_entry) list \<Rightarrow> pool_entry list" where
  "by_thread i l = map snd (filter (\<lambda>x. fst x = i) l)"

definition block_ok :: "pool_immutable \<Rightarrow> u64 \<Rightarrow> pool_block \<Rightarrow> (nat \<Rightarrow> u8) \<Rightarrow> nat option \<Rightarrow>
    (nat \<times> pool_entry) list \<Rightarrow> (nat \<times> pool_entry) list \<Rightarrow> bool" where
  "block_ok im off x pl holder pubs reads \<longleftrightarrow>
     (pb_state x \<in> {block_word BlockFree, block_word BlockPublished} \<longrightarrow> holder = None) \<and>
     (pb_state x = block_word BlockPublished \<longrightarrow>
        ((off, pb_generation x), pool_content im pl) \<in> snd ` set pubs \<and>
        (off, pb_generation x) \<notin> set (log_keys reads)) \<and>
     (\<forall>k \<in> set (log_keys pubs). unat (snd k) \<le> unat (pb_generation x)) \<and>
     distinct (log_keys pubs) \<and> distinct (log_keys reads) \<and> snd ` set reads \<subseteq> snd ` set pubs"

definition pool_shared_inv :: "pool_config \<Rightarrow> bool" where
  "pool_shared_inv c \<longleftrightarrow>
     (let w = fst c; g = snd c in
      \<forall>off. block_ok (pool_im w) off (pw_blocks w off) (pw_payload w (off + 64)) (pg_holder g off)
              (at_block off (pg_pubs g)) (at_block off (pg_reads g)))"

definition pool_log_extends :: "nat \<Rightarrow> pool_ghost \<Rightarrow> pool_ghost \<Rightarrow> bool" where
  "pool_log_extends i g g' \<longleftrightarrow>
     (\<exists>es. pg_pubs g' = pg_pubs g @ map (Pair i) es) \<and> (\<exists>es. pg_reads g' = pg_reads g @ map (Pair i) es)"

definition pool_frame :: "nat \<Rightarrow> pool_config \<Rightarrow> pool_config \<Rightarrow> bool" where
  "pool_frame i c d \<longleftrightarrow>
     (let w = fst c; g = snd c; w' = fst d; g' = snd d in
      pool_im w' = pool_im w \<and>
      by_thread i (pg_pubs g') = by_thread i (pg_pubs g) \<and> by_thread i (pg_reads g') = by_thread i (pg_reads g) \<and>
      (\<forall>off. pg_holder g off = Some i \<longrightarrow>
         pg_holder g' off = Some i \<and> pw_blocks w' off = pw_blocks w off \<and>
         pw_payload w' (off + 64) = pw_payload w (off + 64) \<and>
         at_block off (pg_pubs g') = at_block off (pg_pubs g) \<and>
         at_block off (pg_reads g') = at_block off (pg_reads g)))"

definition pool_rely :: "nat \<Rightarrow> pool_config \<Rightarrow> pool_config \<Rightarrow> bool" where
  "pool_rely i c d \<longleftrightarrow> (pool_shared_inv c \<longrightarrow> pool_shared_inv d \<and> pool_frame i c d)"

definition pool_guar :: "nat \<Rightarrow> pool_config \<Rightarrow> pool_config \<Rightarrow> bool" where
  "pool_guar i c d \<longleftrightarrow>
     (pool_shared_inv c \<longrightarrow>
        pool_shared_inv d \<and> pool_log_extends i (snd c) (snd d) \<and> (\<forall>j. j \<noteq> i \<longrightarrow> pool_frame j c d))"

definition pool_env :: "pool_world \<Rightarrow> pool_world \<Rightarrow> bool" where
  "pool_env w w' \<longleftrightarrow> w' = w\<lparr>pw_kern := pw_kern w', pw_removed := pw_removed w'\<rparr>"

lemma pool_frame_refl: "pool_frame i c c"
  by (simp add: pool_frame_def)

lemma pool_frame_trans: "pool_frame i c d \<Longrightarrow> pool_frame i d e \<Longrightarrow> pool_frame i c e"
  unfolding pool_frame_def Let_def by (elim conjE, intro conjI) simp_all

interpretation pthr: rg_thread "pool_rely i" "pool_guar i" for i
proof unfold_locales
  fix c d e
  show "pool_rely i c c" by (simp add: pool_rely_def pool_frame_refl)
  show "pool_guar i c c"
    by (simp add: pool_guar_def pool_frame_refl pool_log_extends_def)
  show "pool_rely i c d \<Longrightarrow> pool_rely i d e \<Longrightarrow> pool_rely i c e"
    unfolding pool_rely_def by (blast intro: pool_frame_trans)
qed

lemma pool_kern_only:
  "pool_shared_inv (w\<lparr>pw_kern := k, pw_removed := r\<rparr>, g) = pool_shared_inv (w, g)"
  "pool_frame i (w, g) (w\<lparr>pw_kern := k, pw_removed := r\<rparr>, g)"
  by (simp_all add: pool_shared_inv_def pool_frame_def Let_def)

interpretation psys: rely_guarantee pool_rely pool_guar pool_env
proof (rule rely_guarantee.intro)
  fix i j :: nat and c d :: pool_config and s t :: pool_world and g
  show "interference (pool_rely i)" by (rule pthr.interference_axioms)
  show "pool_guar i c d \<Longrightarrow> i \<noteq> j \<Longrightarrow> pool_rely j c d"
    by (auto simp: pool_guar_def pool_rely_def)
  assume "pool_env s t"
  then obtain k r where "t = s\<lparr>pw_kern := k, pw_removed := r\<rparr>"
    by (auto simp: pool_env_def)
  then show "pool_rely j (s, g) (t, g)"
    by (simp add: pool_rely_def pool_kern_only)
qed

subsection \<open>Steps\<close>

lemma at_block_append [simp]:
  "at_block off (l @ [(i, (off', n), b)]) = at_block off l @ (if off' = off then [(i, (off', n), b)] else [])"
  by (simp add: at_block_def)

lemma by_thread_append [simp]:
  "by_thread j (l @ [(i, e)]) = by_thread j l @ (if i = j then [e] else [])"
  by (simp add: by_thread_def)

text \<open>
  A step of thread \<open>i\<close> on one block that it holds or takes: it may change the block, its payload,
  the holder and the logs of the block, as long as the block is in order afterwards.
\<close>

lemma pool_guar_block:
  assumes mine: "pg_holder g off = Some i \<or> pg_holder g off = None \<and> pg_pubs g' = pg_pubs g \<and> pg_reads g' = pg_reads g"
    and holder: "pg_holder g' = (pg_holder g)(off := hol)" "hol = Some i \<or> hol = None"
    and pubs: "pg_pubs g' = pg_pubs g @ map (\<lambda>(n, b). (i, (off, n), b)) ps"
    and reads: "pg_reads g' = pg_reads g @ map (\<lambda>(n, b). (i, (off, n), b)) rs"
    and world: "w' = w\<lparr>pw_blocks := (pw_blocks w)(off := x), pw_payload := (pw_payload w)(off + 64 := pl)\<rparr>"
    and ok: "pool_shared_inv (w, g) \<Longrightarrow>
      block_ok (pool_im w) off x pl hol (at_block off (pg_pubs g')) (at_block off (pg_reads g'))"
  shows "pool_guar i (w, g) (w', g')"
  unfolding pool_guar_def
proof (intro impI conjI allI)
  assume inv: "pool_shared_inv (w, g)"
  have other: "at_block off' (pg_pubs g') = at_block off' (pg_pubs g)"
      "at_block off' (pg_reads g') = at_block off' (pg_reads g)" if "off' \<noteq> off" for off'
    using that by (auto simp: pubs reads at_block_def filter_empty_conv)
  have thread: "by_thread j (pg_pubs g') = by_thread j (pg_pubs g)"
      "by_thread j (pg_reads g') = by_thread j (pg_reads g)" if "j \<noteq> i" for j
    using that by (auto simp: pubs reads by_thread_def filter_empty_conv)
  show "pool_shared_inv (w', g')"
    using inv ok [OF inv] other by (simp add: pool_shared_inv_def world holder)
  show "pool_frame j (w, g) (w', g')" if "j \<noteq> i" for j
    using mine holder(2) other thread that by (auto simp: pool_frame_def Let_def world holder(1))
  have "map (\<lambda>(n, b). (i, (off, n), b)) es = map (Pair i) (map (\<lambda>(n, b). ((off, n), b)) es)" for es :: "(u64 \<times> bytes) list"
    by auto
  then show "pool_log_extends i (snd (w, g)) (snd (w', g'))"
    unfolding pool_log_extends_def snd_conv pubs reads by metis
qed

subsection \<open>Assertions\<close>

record pool_view =
  pv_id :: nat
  pv_im :: pool_immutable
  pv_pubs :: "pool_entry list"
  pv_reads :: "pool_entry list"

definition pool_at :: "pool_view \<Rightarrow> pool_config \<Rightarrow> bool" where
  "pool_at v c \<longleftrightarrow>
     pool_shared_inv c \<and> pool_im (fst c) = pv_im v \<and>
     by_thread (pv_id v) (pg_pubs (snd c)) = pv_pubs v \<and> by_thread (pv_id v) (pg_reads (snd c)) = pv_reads v"

type_synonym block_pred =
  "pool_block \<Rightarrow> (nat \<Rightarrow> u8) \<Rightarrow> (nat \<times> pool_entry) list \<Rightarrow> (nat \<times> pool_entry) list \<Rightarrow> bool"

definition pool_hold :: "pool_view \<Rightarrow> u64 \<Rightarrow> block_pred \<Rightarrow> pool_config \<Rightarrow> bool" where
  "pool_hold v off P c \<longleftrightarrow>
     pool_at v c \<and> pg_holder (snd c) off = Some (pv_id v) \<and>
     P (pw_blocks (fst c) off) (pw_payload (fst c) (off + 64))
       (at_block off (pg_pubs (snd c))) (at_block off (pg_reads (snd c)))"

lemma pool_at_rely:
  assumes "pool_at v c" and "pool_rely (pv_id v) c d"
  shows "pool_at v d" and "pool_frame (pv_id v) c d"
proof -
  show fr: "pool_frame (pv_id v) c d"
    using assms by (simp add: pool_at_def pool_rely_def)
  show "pool_at v d"
    using assms fr by (simp add: pool_at_def pool_rely_def pool_frame_def Let_def)
qed

lemma stable_pool_at [simp]: "pthr.stable (pv_id v) (pool_at v)"
  by (rule pthr.stableI) (rule pool_at_rely)

lemma stable_pool_hold [simp]: "pthr.stable (pv_id v) (pool_hold v off P)"
proof (rule pthr.stableI)
  fix c d assume hold: "pool_hold v off P c" and R: "pool_rely (pv_id v) c d"
  then have "pool_at v d" and "pool_frame (pv_id v) c d"
    using pool_at_rely [of v c d] by (auto simp: pool_hold_def)
  then show "pool_hold v off P d"
    using hold by (simp add: pool_hold_def pool_frame_def Let_def)
qed

lemma stable_pool_conj [simp]: "pthr.stable i P \<Longrightarrow> pthr.stable i (\<lambda>c. b \<and> P c)"
  by (auto simp: pthr.stable_def)

lemma pool_at_block_ok:
  "pool_at v (w, g) \<Longrightarrow> block_ok (pv_im v) off (pw_blocks w off) (pw_payload w (off + 64)) (pg_holder g off)
     (at_block off (pg_pubs g)) (at_block off (pg_reads g))"
  by (auto simp: pool_at_def pool_shared_inv_def Let_def)

lemma pool_at_step:
  assumes "pool_at v (w, g)" and "pool_guar (pv_id v) (w, g) (w', g')"
    and "pool_im w' = pool_im w" and "pv_id v' = pv_id v" and "pv_im v' = pv_im v"
    and "by_thread (pv_id v) (pg_pubs g') = pv_pubs v'" and "by_thread (pv_id v) (pg_reads g') = pv_reads v'"
  shows "pool_at v' (w', g')"
  using assms by (simp add: pool_at_def pool_guar_def)

text \<open>
  A step on a block in hand, with the block, the payload and the holder afterwards; nothing is logged.
\<close>

lemma hold_step:
  assumes hold: "pool_hold v off P (w, g)" and hol: "hol = Some (pv_id v) \<or> hol = None"
    and ok: "P (pw_blocks w off) (pw_payload w (off + 64)) ps rs \<Longrightarrow>
      block_ok (pv_im v) off (pw_blocks w off) (pw_payload w (off + 64)) (Some (pv_id v)) ps rs \<Longrightarrow>
      ps = at_block off (pg_pubs g) \<Longrightarrow> rs = at_block off (pg_reads g) \<Longrightarrow>
      block_ok (pv_im v) off x pl hol ps rs \<and> (hol = Some (pv_id v) \<longrightarrow> P' x pl ps rs)"
    and ps: "ps = at_block off (pg_pubs g)" and rs: "rs = at_block off (pg_reads g)"
  defines "w' \<equiv> w\<lparr>pw_blocks := (pw_blocks w)(off := x), pw_payload := (pw_payload w)(off + 64 := pl)\<rparr>"
    and "g' \<equiv> g\<lparr>pg_holder := (pg_holder g)(off := hol)\<rparr>"
  shows "pool_guar (pv_id v) (w, g) (w', g')" and "pool_at v (w', g')"
    and "hol = Some (pv_id v) \<Longrightarrow> pool_hold v off P' (w', g')"
proof -
  have at: "pool_at v (w, g)" and mine: "pg_holder g off = Some (pv_id v)"
    and P: "P (pw_blocks w off) (pw_payload w (off + 64)) ps rs"
    using hold by (auto simp: pool_hold_def ps rs)
  have im: "pool_im w = pv_im v" using at by (simp add: pool_at_def)
  have new: "block_ok (pv_im v) off x pl hol ps rs \<and> (hol = Some (pv_id v) \<longrightarrow> P' x pl ps rs)"
    using ok [OF P] pool_at_block_ok [OF at, of off] mine ps rs by simp
  show G: "pool_guar (pv_id v) (w, g) (w', g')"
    by (rule pool_guar_block [where hol = hol and ps = "[]" and rs = "[]" and x = x and pl = pl and off = off])
      (use mine hol new ps rs im in \<open>simp_all add: w'_def g'_def\<close>)
  show at': "pool_at v (w', g')"
    by (rule pool_at_step [OF at G]) (use at in \<open>simp_all add: w'_def g'_def pool_at_def\<close>)
  show "hol = Some (pv_id v) \<Longrightarrow> pool_hold v off P' (w', g')"
    using at' new ps rs by (simp add: pool_hold_def w'_def g'_def)
qed

lemma block_ok_keys:
  "block_ok im off x pl hol ps rs \<Longrightarrow> \<forall>k \<in> set (log_keys ps). unat (snd k) \<le> unat (pb_generation x)"
  by (simp add: block_ok_def)

lemma block_ok_keep:
  assumes "block_ok im off x pl hol ps rs"
    and "pb_state y \<notin> {block_word BlockFree, block_word BlockPublished}"
    and "unat (pb_generation x) \<le> unat (pb_generation y)"
  shows "block_ok im off y pl' hol' ps rs"
  using assms unfolding block_ok_def by (auto intro: le_trans)

lemma same_payload:
  "w\<lparr>pw_blocks := f, pw_payload := (pw_payload w)(a := pw_payload w a)\<rparr> = w\<lparr>pw_blocks := f\<rparr>"
  by simp

lemma triple_hold_store:
  assumes "\<And>w. wr c a w = w\<lparr>pw_blocks := (pw_blocks w)(off := f (pw_blocks w off))\<rparr>"
    and "\<And>x pl ps rs. P x pl ps rs \<Longrightarrow>
      pb_state (f x) \<notin> {block_word BlockFree, block_word BlockPublished} \<and>
      unat (pb_generation x) \<le> unat (pb_generation (f x)) \<and>
      ((\<forall>k \<in> set (log_keys ps). unat (snd k) \<le> unat (pb_generation x)) \<longrightarrow> P' (f x) pl ps rs)"
  shows "pthr.triple (pv_id v) (pool_hold v off P) (shared_store c a) (\<lambda>_. pool_hold v off P')"
proof (rule pthr.triple_store [OF stable_pool_hold stable_pool_hold])
  fix w g assume hold: "pool_hold v off P (w, g)"
  note step = hold_step [OF hold, where hol = "Some (pv_id v)" and x = "f (pw_blocks w off)"
      and pl = "pw_payload w (off + 64)" and P' = P' and ps = "at_block off (pg_pubs g)"
      and rs = "at_block off (pg_reads g)"]
  have "block_ok (pv_im v) off (f (pw_blocks w off)) (pw_payload w (off + 64)) (Some (pv_id v)) ps rs \<and>
      P' (f (pw_blocks w off)) (pw_payload w (off + 64)) ps rs"
    if "P (pw_blocks w off) (pw_payload w (off + 64)) ps rs"
      and "block_ok (pv_im v) off (pw_blocks w off) (pw_payload w (off + 64)) (Some (pv_id v)) ps rs" for ps rs
    using assms(2) [OF that(1)] block_ok_keys [OF that(2)] by (blast intro: block_ok_keep [OF that(2)])
  then show "\<exists>g'. pool_guar (pv_id v) (w, g) (wr c a w, g') \<and> pool_hold v off P' (wr c a w, g')"
    using step unfolding assms(1) same_payload by auto
qed

lemma pool_triple_pre: "pthr.triple i P' p Q \<Longrightarrow> (\<And>c. P c \<Longrightarrow> P' c) \<Longrightarrow> pthr.triple i P p Q"
  by (rule pthr.triple_conseq)

lemma pool_triple_if:
  "(b \<Longrightarrow> pthr.triple i P p Q) \<Longrightarrow> (\<not> b \<Longrightarrow> pthr.triple i P q Q) \<Longrightarrow> pthr.triple i P (if b then p else q) Q"
  by simp

lemma pool_triple_ex: "(\<And>x. pthr.triple i (P x) p Q) \<Longrightarrow> pthr.triple i (\<lambda>c. \<exists>x. P x c) p Q"
  by (auto simp: pthr.triple_def)

lemma pool_triple_pure: "(b \<Longrightarrow> pthr.triple i P p Q) \<Longrightarrow> pthr.triple i (\<lambda>c. b \<and> P c) p Q"
  by (auto simp: pthr.triple_def)

lemma pool_hold_at: "pool_hold v off P c \<Longrightarrow> pool_at v c"
  by (simp add: pool_hold_def)

lemma pool_hold_mono:
  "pool_hold v off P c \<Longrightarrow>
   (\<And>x pl ps rs. P x pl ps rs \<Longrightarrow> block_ok (pv_im v) off x pl (Some (pv_id v)) ps rs \<Longrightarrow> P' x pl ps rs) \<Longrightarrow>
   pool_hold v off P' c"
  using pool_at_block_ok [of v "fst c" "snd c" off] by (auto simp: pool_hold_def)

text \<open>Words of the block that no assertion mentions while it is in hand.\<close>

definition owner_free :: "block_pred \<Rightarrow> bool" where
  "owner_free P \<longleftrightarrow>
     (\<forall>x pl ps rs ow. P (x\<lparr>pb_owner := ow\<rparr>) pl ps rs = P x pl ps rs) \<and>
     (\<forall>x pl ps rs e. P (x\<lparr>pb_owner_epoch := e\<rparr>) pl ps rs = P x pl ps rs) \<and>
     (\<forall>x pl ps rs. P x pl ps rs \<longrightarrow> pb_state x \<notin> {block_word BlockFree, block_word BlockPublished})"

lemma owner_freeD:
  assumes "owner_free P"
  shows "P (x\<lparr>pb_owner := ow\<rparr>) pl ps rs = P x pl ps rs"
    and "P (x\<lparr>pb_owner_epoch := e\<rparr>) pl ps rs = P x pl ps rs"
    and "P x pl ps rs \<Longrightarrow> pb_state x \<notin> {block_word BlockFree, block_word BlockPublished}"
  using assms unfolding owner_free_def by blast+

lemma triple_hold_owner:
  assumes "owner_free P"
  shows "pthr.triple (pv_id v) (pool_hold v off P) (set_owner (block_owner_c off) p) (\<lambda>_. pool_hold v off P)"
proof -
  have st: "pthr.triple (pv_id v) (pool_hold v off P) (shared_store (field (block_owner_c off) c) a)
      (\<lambda>_. pool_hold v off P)" for c :: "(owner_abi, u64) cell" and a
    by (rule triple_hold_store [of _ _ _ "\<lambda>x. x\<lparr>pb_owner := wr c a (pb_owner x)\<rparr>"])
      (auto simp: run_simps owner_freeD(1,2) [OF assms] dest: owner_freeD(3) [OF assms])
  show ?thesis
    unfolding set_owner_def store_owner_seq_cst_def by (intro pthr.triple_bind [OF st]) (rule st)
qed

lemma triple_hold_epoch:
  assumes "owner_free P"
  shows "pthr.triple (pv_id v) (pool_hold v off P) (shared_store (block_owner_epoch_c off) e) (\<lambda>_. pool_hold v off P)"
  by (rule triple_hold_store [of _ _ _ "\<lambda>x. x\<lparr>pb_owner_epoch := e\<rparr>"])
    (auto simp: run_simps owner_freeD(1,2) [OF assms] dest: owner_freeD(3) [OF assms])

lemma triple_hold_begin_commit:
  assumes "owner_free P"
  shows "pthr.triple (pv_id v) (pool_hold v off P) (begin_owner_commit (block_owner_epoch_c off) r)
    (\<lambda>_. pool_hold v off P)"
  unfolding begin_owner_commit_def
proof (rule pthr.triple_reads_bind [OF reads_only_load stable_pool_hold], intro pool_triple_if)
  fix a
  have "pthr.triple (pv_id v) (pool_hold v off P) (shared_cas (block_owner_epoch_c off) a (a + 1))
      (\<lambda>_. pool_hold v off P)"
  proof (rule pthr.triple_cas [OF stable_pool_hold stable_pool_hold])
    fix w g assume hold: "pool_hold v off P (w, g)"
    have "block_ok (pv_im v) off ((pw_blocks w off)\<lparr>pb_owner_epoch := a + 1\<rparr>) pl hol ps rs \<and>
        P ((pw_blocks w off)\<lparr>pb_owner_epoch := a + 1\<rparr>) pl ps rs"
      if "P (pw_blocks w off) pl ps rs" and "block_ok (pv_im v) off (pw_blocks w off) pl hol ps rs" for pl hol ps rs
      using owner_freeD(3) [OF assms that(1)] that(1) owner_freeD(2) [OF assms]
      by (auto intro: block_ok_keep [OF that(2)])
    then show "\<exists>g'. pool_guar (pv_id v) (w, g) (wr (block_owner_epoch_c off) (a + 1) w, g') \<and>
        pool_hold v off P (wr (block_owner_epoch_c off) (a + 1) w, g')"
      using hold_step [OF hold, where hol = "Some (pv_id v)" and P' = P
          and x = "(pw_blocks w off)\<lparr>pb_owner_epoch := a + 1\<rparr>" and pl = "pw_payload w (off + 64)"
          and ps = "at_block off (pg_pubs g)" and rs = "at_block off (pg_reads g)"]
      unfolding pool_cell_access same_payload by auto
  qed
  then show "pthr.triple (pv_id v) (pool_hold v off P)
     (bind (shared_cas (block_owner_epoch_c off) a (a + 1))
       (\<lambda>won. if \<not> won then Ret (CommitCorrupt, 0) else Ret (CommitReady, a + 2))) (\<lambda>_. pool_hold v off P)"
    by (rule pthr.triple_bind) (auto intro!: pthr.triple_Ret)
qed (auto intro!: pthr.triple_Ret)

text \<open>Filling the payload.\<close>

lemma triple_hold_byte:
  assumes "\<And>x pl ps rs. P x pl ps rs \<Longrightarrow>
    pb_state x \<notin> {block_word BlockFree, block_word BlockPublished} \<and> P' x (pl(i := b)) ps rs"
  shows "pthr.triple (pv_id v) (pool_hold v off P) (shared_store (pool_payload_c (off + 64) i) b)
    (\<lambda>_. pool_hold v off P')"
proof (rule pthr.triple_store [OF stable_pool_hold stable_pool_hold])
  fix w g assume hold: "pool_hold v off P (w, g)"
  let ?pl = "(pw_payload w (off + 64))(i := b)"
  have "block_ok (pv_im v) off (pw_blocks w off) ?pl (Some (pv_id v)) ps rs \<and> P' (pw_blocks w off) ?pl ps rs"
    if "P (pw_blocks w off) (pw_payload w (off + 64)) ps rs"
      and "block_ok (pv_im v) off (pw_blocks w off) (pw_payload w (off + 64)) (Some (pv_id v)) ps rs" for ps rs
    using assms [OF that(1)] by (auto intro: block_ok_keep [OF that(2)])
  moreover have "(pw_blocks w)(off := pw_blocks w off) = pw_blocks w" by simp
  ultimately show "\<exists>g'. pool_guar (pv_id v) (w, g) (wr (pool_payload_c (off + 64) i) b w, g') \<and>
      pool_hold v off P' (wr (pool_payload_c (off + 64) i) b w, g')"
    using hold_step [OF hold, where hol = "Some (pv_id v)" and P' = P' and x = "pw_blocks w off" and pl = ?pl
        and ps = "at_block off (pg_pubs g)" and rs = "at_block off (pg_reads g)"]
    unfolding pool_cell_access by auto
qed

lemma triple_hold_fill:
  assumes "\<And>x ps rs. P x ps rs \<Longrightarrow> pb_state x \<notin> {block_word BlockFree, block_word BlockPublished}"
  shows "pthr.triple (pv_id v) (pool_hold v off (\<lambda>x pl ps rs. P x ps rs \<and> map pl [0..<i] = d))
    (memcpy_to (pool_payload_c (off + 64)) i b)
    (\<lambda>_. pool_hold v off (\<lambda>x pl ps rs. P x ps rs \<and> map pl [0..<i + length b] = d @ b))"
proof (induction b arbitrary: i d)
  case Nil
  show ?case by (simp, rule pthr.triple_Ret) simp_all
next
  case (Cons y b)
  have upd: "map (pl(i := y)) [0..<i] = map pl [0..<i]" for pl :: "nat \<Rightarrow> u8" by simp
  have one: "pthr.triple (pv_id v) (pool_hold v off (\<lambda>x pl ps rs. P x ps rs \<and> map pl [0..<i] = d))
      (shared_store (pool_payload_c (off + 64) i) y)
      (\<lambda>_. pool_hold v off (\<lambda>x pl ps rs. P x ps rs \<and> map pl [0..<Suc i] = d @ [y]))"
    by (rule triple_hold_byte) (use assms upd in \<open>auto simp del: map_fun_upd\<close>)
  show ?case
    unfolding memcpy_to.simps using pthr.triple_bind [OF one Cons.IH] by simp
qed

text \<open>Reading the payload of a block in hand.\<close>

lemma triple_hold_memcpy:
  "pthr.triple (pv_id v) (pool_hold v off (\<lambda>x pl ps rs. P x pl ps rs \<and> pl = pl0))
     (memcpy_from (pool_payload_c (off + 64)) i n)
     (\<lambda>bs c. bs = map pl0 [i..<i + n] \<and> pool_hold v off (\<lambda>x pl ps rs. P x pl ps rs \<and> pl = pl0) c)"
proof (induction n arbitrary: i)
  case 0
  show ?case by (simp, rule pthr.triple_Ret) simp_all
next
  case (Suc n)
  let ?C = "pool_hold v off (\<lambda>x pl ps rs. P x pl ps rs \<and> pl = pl0)"
  have load: "pthr.triple (pv_id v) ?C (shared_load (pool_payload_c (off + 64) i)) (\<lambda>b c. b = pl0 i \<and> ?C c)"
    by (rule pthr.triple_load, simp, simp) (auto simp: run_simps pool_hold_def)
  have rest: "pthr.triple (pv_id v) ?C
      (bind (memcpy_from (pool_payload_c (off + 64)) (Suc i) n) (\<lambda>bs. Ret (pl0 i # bs)))
      (\<lambda>bs c. bs = map pl0 [i..<i + Suc n] \<and> ?C c)"
    by (rule pthr.triple_bind [OF Suc.IH], rule pthr.triple_Ret)
      (auto simp: upt_conv_Cons simp del: upt_Suc)
  show ?case
    unfolding memcpy_from.simps
    by (rule pthr.triple_bind [OF load], rule pool_triple_pure) (use rest in simp)
qed

text \<open>Giving the block up without publishing.\<close>

lemma block_ok_give:
  assumes "block_ok im off x pl hol ps rs" and "pb_state y \<noteq> block_word BlockPublished"
    and "unat (pb_generation x) \<le> unat (pb_generation y)"
  shows "block_ok im off y pl' None ps rs"
  using assms unfolding block_ok_def by (auto intro: le_trans)

lemma triple_hold_give:
  assumes "s \<noteq> block_word BlockPublished"
  shows "pthr.triple (pv_id v) (pool_hold v off P) (shared_store (block_state_c off) s) (\<lambda>_. pool_at v)"
proof (rule pthr.triple_store [OF stable_pool_hold stable_pool_at])
  fix w g assume hold: "pool_hold v off P (w, g)"
  have "block_ok (pv_im v) off ((pw_blocks w off)\<lparr>pb_state := s\<rparr>) pl None ps rs"
    if "block_ok (pv_im v) off (pw_blocks w off) pl hol ps rs" for pl hol ps rs
    by (rule block_ok_give [OF that]) (use assms in simp_all)
  then show "\<exists>g'. pool_guar (pv_id v) (w, g) (wr (block_state_c off) s w, g') \<and>
      pool_at v (wr (block_state_c off) s w, g')"
    using hold_step(1,2) [OF hold, where hol = None
        and x = "(pw_blocks w off)\<lparr>pb_state := s\<rparr>" and pl = "pw_payload w (off + 64)"
        and ps = "at_block off (pg_pubs g)" and rs = "at_block off (pg_reads g)"]
    unfolding pool_cell_access same_payload by auto
qed

text \<open>Publishing: the entry of a new generation is appended.\<close>

lemma triple_hold_publish:
  fixes n :: u64
  assumes "\<And>x pl ps rs. P x pl ps rs \<Longrightarrow>
    pb_generation x = n \<and> pool_content (pv_im v) pl = b \<and> (\<forall>k \<in> set (log_keys ps). unat (snd k) < unat n)"
  shows "pthr.triple (pv_id v) (pool_hold v off P) (shared_store (block_state_c off) (block_word BlockPublished))
    (\<lambda>_. pool_at (v\<lparr>pv_pubs := pv_pubs v @ [((off, n), b)]\<rparr>))"
proof (rule pthr.triple_store [OF stable_pool_hold])
  let ?v = "v\<lparr>pv_pubs := pv_pubs v @ [((off, n), b)]\<rparr>"
  show "pthr.stable (pv_id v) (pool_at ?v)" using stable_pool_at [of ?v] by simp
  fix w g assume hold: "pool_hold v off P (w, g)"
  have at: "pool_at v (w, g)" and mine: "pg_holder g off = Some (pv_id v)"
    and P: "P (pw_blocks w off) (pw_payload w (off + 64)) (at_block off (pg_pubs g)) (at_block off (pg_reads g))"
    using hold by (simp_all add: pool_hold_def)
  have im: "pool_im w = pv_im v" using at by (simp add: pool_at_def)
  have gen: "pb_generation (pw_blocks w off) = n" and b: "pool_content (pv_im v) (pw_payload w (off + 64)) = b"
    and new: "\<forall>k \<in> set (log_keys (at_block off (pg_pubs g))). unat (snd k) < unat n"
    using assms [OF P] by blast+
  have ok: "block_ok (pv_im v) off (pw_blocks w off) (pw_payload w (off + 64)) (Some (pv_id v))
      (at_block off (pg_pubs g)) (at_block off (pg_reads g))"
    using pool_at_block_ok [OF at, of off] mine by simp
  have fresh: "(off, n) \<notin> set (log_keys (at_block off (pg_pubs g)))"
      "(off, n) \<notin> set (log_keys (at_block off (pg_reads g)))"
    using new ok by (auto simp: block_ok_def image_subset_iff image_iff) force+
  let ?g = "g\<lparr>pg_holder := (pg_holder g)(off := None), pg_pubs := pg_pubs g @ [(pv_id v, (off, n), b)]\<rparr>"
  let ?x = "(pw_blocks w off)\<lparr>pb_state := block_word BlockPublished\<rparr>"
  let ?w = "w\<lparr>pw_blocks := (pw_blocks w)(off := ?x), pw_payload := (pw_payload w)(off + 64 := pw_payload w (off + 64))\<rparr>"
  have "block_ok (pv_im v) off ?x (pw_payload w (off + 64)) None (at_block off (pg_pubs ?g)) (at_block off (pg_reads ?g))"
    using ok fresh new gen b by (auto simp: block_ok_def)
  then have G: "pool_guar (pv_id v) (w, g) (?w, ?g)"
    by (intro pool_guar_block [where hol = None and ps = "[(n, b)]" and rs = "[]" and x = ?x
          and pl = "pw_payload w (off + 64)" and off = off]) (use mine im in simp_all)
  moreover have "pool_at ?v (?w, ?g)"
    by (rule pool_at_step [OF at G]) (use at in \<open>simp_all add: pool_at_def\<close>)
  ultimately show "\<exists>g'. pool_guar (pv_id v) (w, g) (wr (block_state_c off) (block_word BlockPublished) w, g') \<and>
      pool_at ?v (wr (block_state_c off) (block_word BlockPublished) w, g')"
    unfolding pool_cell_access same_payload by blast
qed

text \<open>A block that was published and not yet read.\<close>

definition unread :: "pool_immutable \<Rightarrow> u64 \<Rightarrow> block_pred" where
  "unread im off x pl ps rs \<longleftrightarrow>
     ((off, pb_generation x), pool_content im pl) \<in> snd ` set ps \<and>
     (off, pb_generation x) \<notin> set (log_keys rs)"

text \<open>Taking delivery: the entry is logged as read and the block stays in hand.\<close>

lemma triple_hold_deliver:
  fixes n :: u64
  assumes "\<And>x pl ps rs. P x pl ps rs \<Longrightarrow> unread (pv_im v) off x pl ps rs \<and> pb_generation x = n \<and> pl = pl0"
  shows "pthr.triple (pv_id v) (pool_hold v off P) (shared_store (block_state_c off) (block_word BlockReading))
    (\<lambda>_. pool_hold (v\<lparr>pv_reads := pv_reads v @ [((off, n), pool_content (pv_im v) pl0)]\<rparr>) off
       (\<lambda>x pl ps rs. True \<and> pl = pl0))"
proof (rule pthr.triple_store [OF stable_pool_hold])
  let ?b = "pool_content (pv_im v) pl0"
  let ?v = "v\<lparr>pv_reads := pv_reads v @ [((off, n), ?b)]\<rparr>"
  let ?Q = "\<lambda>x pl ps rs. True \<and> pl = pl0"
  show "pthr.stable (pv_id v) (pool_hold ?v off ?Q)" using stable_pool_hold [of ?v] by simp
  fix w g assume hold: "pool_hold v off P (w, g)"
  have at: "pool_at v (w, g)" and mine: "pg_holder g off = Some (pv_id v)"
    and P: "P (pw_blocks w off) (pw_payload w (off + 64)) (at_block off (pg_pubs g)) (at_block off (pg_reads g))"
    using hold by (simp_all add: pool_hold_def)
  have im: "pool_im w = pv_im v" using at by (simp add: pool_at_def)
  have gen: "pb_generation (pw_blocks w off) = n" and pl: "pw_payload w (off + 64) = pl0"
    and unread: "((off, n), ?b) \<in> snd ` set (at_block off (pg_pubs g))"
      "(off, n) \<notin> set (log_keys (at_block off (pg_reads g)))"
    using assms [OF P] unfolding unread_def by auto
  have ok: "block_ok (pv_im v) off (pw_blocks w off) (pw_payload w (off + 64)) (Some (pv_id v))
      (at_block off (pg_pubs g)) (at_block off (pg_reads g))"
    using pool_at_block_ok [OF at, of off] mine by simp
  let ?g = "g\<lparr>pg_reads := pg_reads g @ [(pv_id v, (off, n), ?b)]\<rparr>"
  let ?x = "(pw_blocks w off)\<lparr>pb_state := block_word BlockReading\<rparr>"
  let ?w = "w\<lparr>pw_blocks := (pw_blocks w)(off := ?x), pw_payload := (pw_payload w)(off + 64 := pw_payload w (off + 64))\<rparr>"
  have "block_ok (pv_im v) off ?x (pw_payload w (off + 64)) (Some (pv_id v)) (at_block off (pg_pubs ?g)) (at_block off (pg_reads ?g))"
    using ok unread gen pl by (auto simp: block_ok_def)
  then have G: "pool_guar (pv_id v) (w, g) (?w, ?g)"
    by (intro pool_guar_block [where hol = "Some (pv_id v)" and ps = "[]" and rs = "[(n, ?b)]" and x = ?x
          and pl = "pw_payload w (off + 64)" and off = off]) (use mine im in \<open>simp_all add: fun_upd_idem\<close>)
  moreover have "pool_at ?v (?w, ?g)"
    by (rule pool_at_step [OF at G]) (use at in \<open>simp_all add: pool_at_def\<close>)
  then have "pool_hold ?v off ?Q (?w, ?g)"
    using mine pl by (simp add: pool_hold_def)
  ultimately show "\<exists>g'. pool_guar (pv_id v) (w, g) (wr (block_state_c off) (block_word BlockReading) w, g') \<and>
      pool_hold ?v off ?Q (wr (block_state_c off) (block_word BlockReading) w, g')"
    unfolding pool_cell_access same_payload by blast
qed

text \<open>Undoing a claim for reading.\<close>

lemma triple_rollback:
  assumes "\<And>x pl ps rs. P x pl ps rs \<Longrightarrow> unread (pv_im v) off x pl ps rs"
  shows "pthr.triple (pv_id v) (pool_hold v off P) (rollback_read off e) (\<lambda>r c. (\<exists>e'. r = Inl e') \<and> pool_at v c)"
  unfolding rollback_read_def
proof (rule pthr.triple_bind)
  show "pthr.triple (pv_id v) (pool_hold v off P)
      (shared_cas (block_state_c off) (block_word BlockReadingClaiming) (block_word BlockPublished)) (\<lambda>_. pool_at v)"
  proof (rule pthr.triple_cas [OF stable_pool_hold stable_pool_at])
    fix w g assume hold: "pool_hold v off P (w, g)"
    have "block_ok (pv_im v) off ((pw_blocks w off)\<lparr>pb_state := block_word BlockPublished\<rparr>) pl None ps rs"
      if "block_ok (pv_im v) off (pw_blocks w off) pl hol ps rs" and "P (pw_blocks w off) pl ps rs" for pl hol ps rs
      using assms [OF that(2)] that(1) by (auto simp: unread_def block_ok_def)
    then show "\<exists>g'. pool_guar (pv_id v) (w, g) (wr (block_state_c off) (block_word BlockPublished) w, g') \<and>
        pool_at v (wr (block_state_c off) (block_word BlockPublished) w, g')"
      using hold_step(1,2) [OF hold, where hol = None
          and x = "(pw_blocks w off)\<lparr>pb_state := block_word BlockPublished\<rparr>" and pl = "pw_payload w (off + 64)"
          and ps = "at_block off (pg_pubs g)" and rs = "at_block off (pg_reads g)"]
      unfolding pool_cell_access same_payload by auto
  qed (rule pool_hold_at)
  show "pthr.triple (pv_id v) (pool_at v) (if \<not> restored then Ret (Inl kRecoveryBlocked) else Ret (Inl e))
      (\<lambda>r c. (\<exists>e'. r = Inl e') \<and> pool_at v c)" for restored
    by (intro pool_triple_if pthr.triple_Ret) simp_all
qed

text \<open>Taking a block that is free or published.\<close>

lemma triple_pool_claim:
  assumes "from = block_word BlockFree \<or> from = block_word BlockPublished"
    and "to \<notin> {block_word BlockFree, block_word BlockPublished}"
  shows "pthr.triple (pv_id v) (pool_at v) (shared_cas (block_state_c off) from to)
    (\<lambda>won. if won then pool_hold v off (\<lambda>x pl ps rs. pb_state x = to \<and>
        (from = block_word BlockPublished \<longrightarrow> unread (pv_im v) off x pl ps rs)) else pool_at v)"
proof (rule pthr.triple_cas)
  fix w g assume at: "pool_at v (w, g)" and st: "rd (block_state_c off) w = from"
  have st': "pb_state (pw_blocks w off) = from" using st by (simp add: run_simps)
  have im: "pool_im w = pv_im v" using at by (simp add: pool_at_def)
  note ok = pool_at_block_ok [OF at, of off]
  have free: "pg_holder g off = None"
    using ok assms(1) st' by (auto simp: block_ok_def)
  let ?x = "(pw_blocks w off)\<lparr>pb_state := to\<rparr>"
  let ?g = "g\<lparr>pg_holder := (pg_holder g)(off := Some (pv_id v))\<rparr>"
  let ?w = "w\<lparr>pw_blocks := (pw_blocks w)(off := ?x), pw_payload := (pw_payload w)(off + 64 := pw_payload w (off + 64))\<rparr>"
  have "block_ok (pv_im v) off ?x (pw_payload w (off + 64)) (Some (pv_id v)) (at_block off (pg_pubs g)) (at_block off (pg_reads g))"
    by (rule block_ok_keep [OF ok]) (use assms(2) in simp_all)
  then have G: "pool_guar (pv_id v) (w, g) (?w, ?g)"
    by (intro pool_guar_block [where hol = "Some (pv_id v)" and ps = "[]" and rs = "[]" and x = ?x
          and pl = "pw_payload w (off + 64)" and off = off]) (use free im in simp_all)
  moreover have "pool_at v (?w, ?g)"
    by (rule pool_at_step [OF at G]) (use at in \<open>simp_all add: pool_at_def\<close>)
  then have "pool_hold v off (\<lambda>x pl ps rs. pb_state x = to \<and>
        (from = block_word BlockPublished \<longrightarrow> unread (pv_im v) off x pl ps rs)) (?w, ?g)"
    using ok st' by (auto simp: pool_hold_def unread_def block_ok_def)
  ultimately show "\<exists>g'. pool_guar (pv_id v) (w, g) (wr (block_state_c off) to w, g') \<and>
      (if True then pool_hold v off (\<lambda>x pl ps rs. pb_state x = to \<and>
        (from = block_word BlockPublished \<longrightarrow> unread (pv_im v) off x pl ps rs)) else pool_at v)
        (wr (block_state_c off) to w, g')"
    unfolding pool_cell_access same_payload if_True by blast
qed simp_all

end
