(* ===== verification/ER_Pool_Ops.thy ===== *)
theory ER_Pool_Ops
  imports ER_Pool_Conc
begin

text \<open>
  Every operation of the buffer pool keeps the shared invariant of \<open>ER_Pool_Conc\<close> at each of its
  atomic steps: what a thread may rely on after \<open>try_acquire_write\<close>, \<open>publish_write\<close>,
  \<open>abort_write\<close>, \<open>acquire_read\<close> and \<open>release_read\<close>, with every other thread running
  between any two actions.
\<close>

subsection \<open>Operations among others\<close>

lemma reads_only_block_at [reads_only_intros]: "reads_only (block_at h i)"
  unfolding block_at_def by (auto intro!: reads_only_intros split: option.splits)

lemma reads_only_payload_at [reads_only_intros]: "reads_only (payload_at h i)"
  unfolding payload_at_def by (auto intro!: reads_only_intros split: option.splits)

lemma reads_only_make_handle [reads_only_intros]: "reads_only (make_handle i b)"
  unfolding make_handle_def by (auto intro!: reads_only_intros)

lemma reads_only_live_pool [reads_only_intros]: "reads_only (validate_live_pool h)"
  unfolding validate_live_pool_def by (auto intro!: reads_only_intros split: option.splits)

lemma reads_only_snapshot_block [reads_only_intros]: "reads_only (snapshot_block_owner b)"
  unfolding snapshot_block_owner_def by (rule reads_only_intros)

lemma reads_only_classify_active [reads_only_intros]: "reads_only (classify_active_block h b)"
  unfolding classify_active_block_def
  by (auto intro!: reads_only_intros split: OwnerSnapshotKind.splits)

lemma reads_only_capacity [reads_only_intros]: "reads_only (owner_epoch_capacity ep r)"
  unfolding owner_epoch_capacity_def by (auto intro!: reads_only_intros)

lemma reads_only_note_active [reads_only_intros]: "reads_only (note_active_block h b f)"
  unfolding note_active_block_def by (auto intro!: reads_only_intros)

lemma block_offset_payload:
  "shared_buffer_pool_block_offset_for bs i bc = Some (off, pay) \<Longrightarrow> pay = off + 64"
  by (auto simp: shared_buffer_pool_block_offset_for_def checked_add_u64_def pool_block_header_size_def
      split: if_splits option.splits)

definition block_offset_in :: "pool_immutable \<Rightarrow> u32 \<Rightarrow> u64 \<Rightarrow> bool" where
  "block_offset_in im i off \<longleftrightarrow>
     shared_buffer_pool_block_offset_for (pi_block_size im) i (pi_block_count im) = Some (off, off + 64)"

lemma pool_hold_im: "pool_hold v off P c \<Longrightarrow> pool_im (fst c) = pv_im v"
  by (simp add: pool_hold_def pool_at_def)

text \<open>An assertion under which the immutable header fields are those of the view.\<close>

definition fixed_im :: "nat \<Rightarrow> pool_immutable \<Rightarrow> (pool_config \<Rightarrow> bool) \<Rightarrow> bool" where
  "fixed_im i im H \<longleftrightarrow> pthr.stable i H \<and> (\<forall>c. H c \<longrightarrow> pool_im (fst c) = im)"

lemma fixed_im_at [simp]: "fixed_im (pv_id v) (pv_im v) (pool_at v)"
  by (simp add: fixed_im_def pool_at_def)

lemma fixed_im_hold [simp]: "fixed_im (pv_id v) (pv_im v) (pool_hold v off P)"
  using pool_hold_im by (auto simp: fixed_im_def)

lemma triple_pool_im:
  assumes "fixed_im i im H"
  shows "pthr.triple i H (shared_load pool_immutable_c) (\<lambda>x c. x = im \<and> H c)"
  using assms by (intro pthr.triple_load) (auto simp: fixed_im_def run_simps)

lemma triple_block_at:
  assumes "fixed_im i im H"
  shows "pthr.triple i H (block_at h n) (\<lambda>r c. (\<forall>off. r = Some off \<longrightarrow> block_offset_in im n off) \<and> H c)"
  unfolding block_at_def
proof (rule pthr.triple_bind [OF triple_pool_im [OF assms]], rule pool_triple_pure)
  have st: "pthr.stable i H" using assms by (simp add: fixed_im_def)
  fix x assume "x = im"
  then show "pthr.triple i H
      (case shared_buffer_pool_block_offset_for (pi_block_size x) n (pi_block_count x) of
         None \<Rightarrow> Ret None
       | Some (block_offset, payload_offset) \<Rightarrow>
           if block_offset > pl_size h \<or> pool_block_header_size > pl_size h - block_offset
           then Ret None else Ret (Some block_offset))
      (\<lambda>r c. (\<forall>off. r = Some off \<longrightarrow> block_offset_in im n off) \<and> H c)"
    by (auto intro!: pthr.triple_Ret st simp: block_offset_in_def dest: block_offset_payload split: option.splits)
qed

lemma triple_payload_at:
  assumes "fixed_im i im H"
  shows "pthr.triple i H (payload_at h n)
    (\<lambda>r c. (\<forall>pay. r = Some pay \<longrightarrow> block_offset_in im n (pay - 64)) \<and> H c)"
  unfolding payload_at_def
proof (rule pthr.triple_bind [OF triple_pool_im [OF assms]], rule pool_triple_pure)
  have st: "pthr.stable i H" using assms by (simp add: fixed_im_def)
  fix x assume "x = im"
  then show "pthr.triple i H
      (case shared_buffer_pool_block_offset_for (pi_block_size x) n (pi_block_count x) of
         None \<Rightarrow> Ret None
       | Some (block_offset, payload_offset) \<Rightarrow>
           if payload_offset > pl_size h \<or> ucast (pi_block_size x) > pl_size h - payload_offset
           then Ret None else Ret (Some payload_offset))
      (\<lambda>r c. (\<forall>pay. r = Some pay \<longrightarrow> block_offset_in im n (pay - 64)) \<and> H c)"
    by (auto intro!: pthr.triple_Ret st simp: block_offset_in_def dest: block_offset_payload split: option.splits)
qed

definition writing :: "u64 \<Rightarrow> block_pred" where
  "writing n x pl ps rs \<longleftrightarrow>
     pb_state x = block_word BlockWriting \<and> pb_generation x = n \<and>
     (\<forall>k \<in> set (log_keys ps). unat (snd k) < unat n)"

lemma triple_make_handle:
  assumes "block_offset_in (pv_im v) n off"
  shows "pthr.triple (pv_id v) (pool_hold v off (writing m)) (make_handle n off)
    (\<lambda>d c. bh_block_generation d = m \<and> bh_offset d = off + 64 \<and> pool_hold v off (writing m) c)"
  unfolding make_handle_def
proof (rule pthr.triple_bind [OF triple_pool_im [OF fixed_im_hold]], rule pool_triple_pure,
       rule pthr.triple_bind)
  show "pthr.triple (pv_id v) (pool_hold v off (writing m)) (shared_load (block_generation_c off))
      (\<lambda>g c. g = m \<and> pool_hold v off (writing m) c)"
    by (rule pthr.triple_load, simp, simp, simp add: run_simps pool_hold_def writing_def)
qed (rule pool_triple_pure, use assms in \<open>auto intro!: pthr.triple_Ret simp: block_offset_in_def\<close>)

text \<open>What a successful acquisition for writing leaves in hand.\<close>

definition holds_write :: "pool_handle \<Rightarrow> pool_view \<Rightarrow> WriteBuffer \<Rightarrow> pool_config \<Rightarrow> bool" where
  "holds_write h v wb c \<longleftrightarrow>
     (\<exists>off. wb_pool wb = Some h \<and> wb_block wb = Some off \<and> wb_data wb = Some (off + 64) \<and> wb_active wb \<and>
        bh_offset (wb_descriptor wb) = off + 64 \<and>
        pool_hold v off (writing (bh_block_generation (wb_descriptor wb))) c)"

lemma stable_ex_pool: "(\<And>x. pthr.stable i (P x)) \<Longrightarrow> pthr.stable i (\<lambda>c. \<exists>x. P x c)"
  unfolding pthr.stable_def by blast

lemma stable_holds_write [simp]: "pthr.stable (pv_id v) (holds_write h v wb)"
  unfolding holds_write_def [abs_def] by (intro stable_ex_pool stable_pool_conj stable_pool_hold)

definition acquired :: "pool_handle \<Rightarrow> pool_view \<Rightarrow> WriteBuffer result \<Rightarrow> pool_config \<Rightarrow> bool" where
  "acquired h v r = (case r of Inl _ \<Rightarrow> pool_at v | Inr wb \<Rightarrow> holds_write h v wb)"

lemma stable_acquired [simp]: "pthr.stable (pv_id v) (acquired h v r)"
  by (cases r) (simp_all add: acquired_def)

lemma acquired_fail: "pool_at v c \<Longrightarrow> acquired h v (Inl e) c"
  by (simp add: acquired_def)

lemma pool_triple_option:
  "(x = None \<Longrightarrow> pthr.triple i P p Q) \<Longrightarrow> (\<And>y. x = Some y \<Longrightarrow> pthr.triple i P (q y) Q) \<Longrightarrow>
     pthr.triple i P (case x of None \<Rightarrow> p | Some y \<Rightarrow> q y) Q"
  by (cases x) simp_all

lemma pool_triple_prod:
  "(\<And>a b. pthr.triple i P (f a b) Q) \<Longrightarrow> pthr.triple i P (case p of (a, b) \<Rightarrow> f a b) Q"
  by (cases p) simp

lemma pool_triple_won:
  "pthr.triple i P q Q \<Longrightarrow> pthr.triple i P' p Q \<Longrightarrow>
     pthr.triple i (if won then P' else P) (if \<not> won then q else p) Q"
  by (cases won) simp_all

abbreviation claimed :: "u32 \<Rightarrow> block_pred" where
  "claimed s \<equiv> \<lambda>x pl ps rs. pb_state x = s"

definition prepared :: "u64 \<Rightarrow> block_pred" where
  "prepared n x pl ps rs \<longleftrightarrow>
     pb_state x = block_word BlockWritingClaiming \<and> pb_generation x = n \<and>
     (\<forall>k \<in> set (log_keys ps). unat (snd k) < unat n)"

lemma owner_free_prepared [simp]: "owner_free (prepared n)"
  unfolding owner_free_def prepared_def by simp

lemma triple_commit_write:
  assumes off: "block_offset_in (pv_im v) n off" and gen: "m \<noteq> U64_MAX"
  shows "pthr.triple (pv_id v)
    (pool_hold v off (\<lambda>x pl ps rs. pb_state x = block_word BlockWritingClaiming \<and> pb_generation x = m))
    (commit_write_block h n off m e) (acquired h v)"
proof -
  let ?w = "writing (m + 1)"
  have suc: "unat (m + 1) = Suc (unat m)" by (rule unat_Suc_no_wrap [OF gen])
  have s1: "pthr.triple (pv_id v)
      (pool_hold v off (\<lambda>x pl ps rs. pb_state x = block_word BlockWritingClaiming \<and> pb_generation x = m))
      (shared_store (block_generation_c off) (m + 1)) (\<lambda>_. pool_hold v off (prepared (m + 1)))"
    by (rule triple_hold_store [of _ _ _ "\<lambda>x. x\<lparr>pb_generation := m + 1\<rparr>"])
      (auto simp: run_simps suc prepared_def)
  have s2: "pthr.triple (pv_id v) (pool_hold v off (prepared (m + 1)))
      (shared_store (block_state_c off) (block_word BlockWriting)) (\<lambda>_. pool_hold v off ?w)"
    by (rule triple_hold_store [of _ _ _ "\<lambda>x. x\<lparr>pb_state := block_word BlockWriting\<rparr>"])
      (simp_all add: run_simps prepared_def writing_def)
  have give: "pthr.triple (pv_id v) (pool_hold v off ?w)
      (bind (shared_store (block_state_c off) (block_word BlockFree)) (\<lambda>_. Ret (Inl kCorruptSlot))) (acquired h v)"
    by (rule pthr.triple_bind [OF triple_hold_give], simp, rule pthr.triple_Ret) (simp_all add: acquired_def)
  have finish: "pthr.triple (pv_id v) (pool_hold v off ?w)
      (bind (make_handle n off) (\<lambda>d. bind (shared_load pool_immutable_c) (\<lambda>im.
         Ret (Inr \<lparr>wb_pool = Some h, wb_block = Some off, wb_data = Some pay, wb_size = pi_block_size im,
                   wb_descriptor = d, wb_active = True\<rparr>))))
      (acquired h v)" if "pay = off + 64" for pay
  proof (rule pthr.triple_bind [OF triple_make_handle [OF off]])
    fix d
    show "pthr.triple (pv_id v)
      (\<lambda>c. bh_block_generation d = m + 1 \<and> bh_offset d = off + 64 \<and> pool_hold v off ?w c)
      (bind (shared_load pool_immutable_c) (\<lambda>im.
         Ret (Inr \<lparr>wb_pool = Some h, wb_block = Some off, wb_data = Some pay, wb_size = pi_block_size im,
                   wb_descriptor = d, wb_active = True\<rparr>)))
      (acquired h v)"
      by (intro pool_triple_pure, rule pthr.triple_reads_bind [OF reads_only_load stable_pool_hold],
          rule pthr.triple_Ret) (use that in \<open>auto simp: acquired_def holds_write_def\<close>)
  qed
  have same: "pay = off + 64" if "block_offset_in (pv_im v) n (pay - 64)" for pay
    using that off by (auto simp: block_offset_in_def)
  show ?thesis
    unfolding commit_write_block_def
    by (rule pthr.triple_bind [OF s1], rule pthr.triple_bind [OF triple_hold_owner], simp,
        rule pthr.triple_bind [OF triple_hold_epoch], simp, rule pthr.triple_bind [OF s2],
        rule pthr.triple_bind [OF triple_payload_at [OF fixed_im_hold]], rule pool_triple_pure,
        rule pool_triple_option, rule give, rule finish, rule same) blast
qed

definition round_post :: "pool_handle \<Rightarrow> pool_view \<Rightarrow> acquire_flags + WriteBuffer result \<Rightarrow> pool_config \<Rightarrow> bool" where
  "round_post h v r = (case r of Inl _ \<Rightarrow> pool_at v | Inr x \<Rightarrow> acquired h v x)"

lemma stable_round_post [simp]: "pthr.stable (pv_id v) (round_post h v r)"
  by (cases r) (simp_all add: round_post_def)

lemma triple_claim_write:
  assumes off: "block_offset_in (pv_im v) n off"
  shows "pthr.triple (pv_id v) (pool_at v) (claim_write_block h n off flags) (round_post h v)"
proof -
  let ?claimed = "claimed (block_word BlockWritingClaiming)"
  let ?gen = "\<lambda>m x pl ps rs. pb_state x = block_word BlockWritingClaiming \<and> pb_generation x = m"
  have ret: "pthr.triple (pv_id v) (pool_at v) (Ret (Inl f)) (round_post h v)" for f
    by (rule pthr.triple_Ret) (simp_all add: round_post_def)
  have give: "pthr.triple (pv_id v) (pool_hold v off P)
      (bind (shared_store (block_state_c off) s) (\<lambda>_. Ret (Inl f))) (round_post h v)"
    if "s \<noteq> block_word BlockPublished" for s f P
    by (rule pthr.triple_bind [OF triple_hold_give [OF that] ret])
  have word: "block_failure_word r \<noteq> block_word BlockPublished" for r
    by (simp add: block_failure_word_def)
  have claim: "pthr.triple (pv_id v) (pool_at v)
      (shared_cas (block_state_c off) (block_word BlockFree) (block_word BlockWritingClaiming))
      (\<lambda>won. if won then pool_hold v off ?claimed else pool_at v)"
    by (rule pthr.triple_conseq [OF triple_pool_claim]) auto
  have gen: "pthr.triple (pv_id v) (pool_hold v off ?claimed) (shared_load (block_generation_c off))
      (\<lambda>m. pool_hold v off (?gen m))"
    by (rule pthr.triple_load, simp, simp, simp add: run_simps pool_hold_def)
  have free: "owner_free (?gen m)" for m
    by (simp add: owner_free_def)
  have committed: "pthr.triple (pv_id v) (pool_hold v off (?gen m))
      (bind (commit_write_block h n off m e) (\<lambda>r. Ret (Inr r))) (round_post h v)" if "m \<noteq> U64_MAX" for m e
    by (rule pthr.triple_bind [OF triple_commit_write [OF off that]], rule pthr.triple_Ret)
      (simp_all add: round_post_def)
  have commit: "pthr.triple (pv_id v) (pool_hold v off (?gen m))
      (bind (begin_owner_commit (block_owner_epoch_c off) 4) (\<lambda>(owner_commit, committed_epoch).
         if owner_commit \<noteq> CommitReady then
           bind (shared_store (block_state_c off) (block_failure_word owner_commit)) (\<lambda>_.
             Ret (Inl (block_failure_flag owner_commit flags)))
         else bind (commit_write_block h n off m committed_epoch) (\<lambda>r. Ret (Inr r))))
      (round_post h v)" if "m \<noteq> U64_MAX" for m
    by (rule pthr.triple_bind [OF triple_hold_begin_commit [OF free]], rule pool_triple_prod,
        rule pool_triple_if, rule give [OF word], rule committed [OF that])
  show ?thesis
    unfolding claim_write_block_def
    by (rule pthr.triple_bind [OF claim], rule pool_triple_won, rule ret, rule pthr.triple_bind [OF gen],
        rule pool_triple_if, rule give, simp,
        rule pthr.triple_reads_bind [OF reads_only_capacity stable_pool_hold],
        rule pool_triple_if, rule give [OF word], rule commit)
qed

lemma triple_try_acquire_block:
  assumes "block_offset_in (pv_im v) n off"
  shows "pthr.triple (pv_id v) (pool_at v) (try_acquire_block h n off flags) (round_post h v)"
proof -
  have ret: "pthr.triple (pv_id v) (pool_at v) (Ret (Inl f)) (round_post h v)" for f
    by (rule pthr.triple_Ret) (simp_all add: round_post_def)
  show ?thesis
    unfolding try_acquire_block_def
    by (rule pthr.triple_reads_bind [OF reads_only_load stable_pool_at])
      (auto intro!: pool_triple_if ret triple_claim_write [OF assms]
        pthr.triple_reads_bind [OF reads_only_note_active stable_pool_at])
qed

lemma triple_acquire_loop:
  "pthr.triple (pv_id v) (pool_at v) (try_acquire_loop h m n flags) (acquired h v)"
proof (induction m arbitrary: n flags)
  case 0
  show ?case by (simp, rule pthr.triple_Ret) (simp_all add: acquired_def)
next
  case (Suc m)
  have next_block: "pthr.triple (pv_id v) (round_post h v r)
      (case r of Inl f \<Rightarrow> try_acquire_loop h m (n + 1) f | Inr res \<Rightarrow> Ret res) (acquired h v)" for r
    by (cases r) (auto simp: round_post_def intro!: Suc.IH pthr.triple_Ret)
  show ?case
    unfolding try_acquire_loop.simps
  proof (rule pthr.triple_bind [OF triple_block_at [OF fixed_im_at]], rule pool_triple_pure)
    fix b assume off: "\<forall>off. b = Some off \<longrightarrow> block_offset_in (pv_im v) n off"
    show "pthr.triple (pv_id v) (pool_at v)
      (case b of None \<Rightarrow> Ret (Inl kCorruptSlot)
       | Some off \<Rightarrow> bind (try_acquire_block h n off flags) (\<lambda>r.
           case r of Inl f \<Rightarrow> try_acquire_loop h m (n + 1) f | Inr res \<Rightarrow> Ret res)) (acquired h v)"
      using off
      by (cases b) (auto intro!: pthr.triple_Ret acquired_fail pthr.triple_bind [OF triple_try_acquire_block] next_block)
  qed
qed

lemma triple_acquire_write:
  "pthr.triple (pv_id v) (pool_at v) (shared_buffer_pool_try_acquire_write_impl handle)
     (\<lambda>r. case r of Inl _ \<Rightarrow> pool_at v | Inr wb \<Rightarrow> \<lambda>c. \<exists>h. holds_write h v wb c)"
proof -
  let ?Q = "\<lambda>r. case r of Inl _ \<Rightarrow> pool_at v | Inr wb \<Rightarrow> \<lambda>c. \<exists>h. holds_write h v wb c"
  have st: "pthr.stable (pv_id v) (?Q r)" for r :: "WriteBuffer result"
    by (cases r) (auto intro: stable_ex_pool)
  have loop: "pthr.triple (pv_id v) (pool_at v) (try_acquire_loop h m n f) ?Q" for h m n f
    by (rule pthr.triple_conseq [OF triple_acquire_loop]) (auto simp: acquired_def split: sum.splits)
  show ?thesis
    unfolding shared_buffer_pool_try_acquire_write_impl_def try_bind_def
    by (rule pthr.triple_reads_bind [OF reads_only_live_pool stable_pool_at])
      (auto intro!: pthr.triple_Ret pthr.triple_reads_bind [OF reads_only_load stable_pool_at] loop
        split: sum.splits)
qed

text \<open>Publishing and aborting.\<close>

definition publish_post ::
  "pool_view \<Rightarrow> WriteBuffer \<Rightarrow> u64 \<Rightarrow> (nat \<Rightarrow> u8) \<Rightarrow> BufferHandle result \<times> WriteBuffer option \<Rightarrow> pool_config \<Rightarrow> bool" where
  "publish_post v wb off pl0 r =
     (case fst r of
        Inl _ \<Rightarrow> (\<lambda>c. snd r = Some wb \<and>
          pool_hold v off (\<lambda>x pl ps rs. writing (bh_block_generation (wb_descriptor wb)) x pl ps rs \<and> pl = pl0) c)
      | Inr d \<Rightarrow> (\<lambda>c. d = wb_descriptor wb \<and> snd r = Some (clear_write_buffer wb) \<and>
          pool_at (v\<lparr>pv_pubs := pv_pubs v @
            [((off, bh_block_generation (wb_descriptor wb)), pool_content (pv_im v) pl0)]\<rparr>) c))"

lemma stable_pool_at_pubs [simp]: "pthr.stable (pv_id v) (pool_at (v\<lparr>pv_pubs := l\<rparr>))"
  using stable_pool_at [of "v\<lparr>pv_pubs := l\<rparr>"] by simp

lemma stable_pool_at_reads [simp]: "pthr.stable (pv_id v) (pool_at (v\<lparr>pv_reads := l\<rparr>))"
  using stable_pool_at [of "v\<lparr>pv_reads := l\<rparr>"] by simp

lemma stable_publish_post [simp]: "pthr.stable (pv_id v) (publish_post v wb off pl0 r)"
  by (cases "fst r") (simp_all add: publish_post_def)

lemma triple_publish_write:
  assumes wb: "wb_pool wb = Some h" "wb_block wb = Some off" "wb_active wb"
  shows "pthr.triple (pv_id v)
    (pool_hold v off (\<lambda>x pl ps rs. writing (bh_block_generation (wb_descriptor wb)) x pl ps rs \<and> pl = pl0))
    (shared_buffer_pool_publish_write_impl (Some wb)) (publish_post v wb off pl0)"
    (is "pthr.triple _ ?H _ _")
proof -
  let ?n = "bh_block_generation (wb_descriptor wb)"
  have fail: "pthr.triple (pv_id v) ?H (Ret (Inl e, Some wb)) (publish_post v wb off pl0)" for e
    by (rule pthr.triple_Ret) (simp_all add: publish_post_def)
  have store: "pthr.triple (pv_id v) ?H (shared_store (block_state_c off) (block_word BlockPublished))
      (\<lambda>_. pool_at (v\<lparr>pv_pubs := pv_pubs v @ [((off, ?n), pool_content (pv_im v) pl0)]\<rparr>))"
    by (rule triple_hold_publish) (simp add: writing_def)
  have ok: "pthr.triple (pv_id v) ?H (bind (shared_store (block_state_c off) (block_word BlockPublished))
      (\<lambda>_. Ret (Inr (wb_descriptor wb), Some (clear_write_buffer wb)))) (publish_post v wb off pl0)"
    by (rule pthr.triple_bind [OF store], rule pthr.triple_Ret) (simp_all add: publish_post_def)
  show ?thesis
    unfolding shared_buffer_pool_publish_write_impl_def option.case wb(1,2) eqTrueI [OF wb(3)] Let_def prod.case bool.case
    by (rule pthr.triple_reads_bind [OF reads_only_live_pool stable_pool_hold], split sum.split,
        intro conjI allI impI, rule fail, rule pthr.triple_reads_bind [OF reads_only_load stable_pool_hold],
        rule pool_triple_if, rule fail,
        rule pthr.triple_reads_bind [OF reads_only_snapshot_block stable_pool_hold],
        intro pool_triple_if fail pthr.triple_reads_bind [OF reads_only_load stable_pool_hold] ok)
qed

lemma triple_free_owned:
  "pthr.triple (pv_id v) (pool_hold v off P) (free_owned_block h off s d) (\<lambda>_. pool_at v)"
proof -
  have ret: "pthr.triple (pv_id v) (pool_hold v off P) (Ret ()) (\<lambda>_. pool_at v)"
    by (rule pthr.triple_Ret) (simp_all add: pool_hold_at)
  have give: "pthr.triple (pv_id v) (pool_hold v off P)
      (shared_store (block_state_c off) (block_word BlockFree)) (\<lambda>_. pool_at v)"
    by (rule triple_hold_give) simp
  show ?thesis
    unfolding free_owned_block_def
    by (rule pthr.triple_reads_bind [OF reads_only_load stable_pool_hold], rule pool_triple_if, rule ret,
        rule pthr.triple_reads_bind [OF reads_only_snapshot_block stable_pool_hold],
        rule pool_triple_if, rule pthr.triple_reads_bind [OF reads_only_load stable_pool_hold],
        rule pool_triple_if, rule give, rule ret, rule ret)
qed

lemma triple_abort_held:
  assumes "wb_pool wb = Some h" "wb_block wb = Some off" "wb_active wb"
  shows "pthr.triple (pv_id v) (pool_hold v off P) (shared_buffer_pool_abort_write_impl (Some wb)) (\<lambda>_. pool_at v)"
  using assms
  by (simp add: shared_buffer_pool_abort_write_impl_def, intro pthr.triple_bind [OF triple_free_owned] pthr.triple_Ret)
    simp_all

lemma triple_abort_cleared:
  "pthr.triple (pv_id v) (pool_at v) (shared_buffer_pool_abort_write_impl (Some (clear_write_buffer wb))) (\<lambda>_. pool_at v)"
  by (simp add: shared_buffer_pool_abort_write_impl_def clear_write_buffer_def, rule pthr.triple_Ret) simp_all

text \<open>Reading.\<close>

definition delivered_post ::
  "pool_view \<Rightarrow> BufferHandle \<Rightarrow> u64 \<Rightarrow> ReadBuffer result \<Rightarrow> pool_config \<Rightarrow> bool" where
  "delivered_post v d off r =
     (case r of
        Inl _ \<Rightarrow> pool_at v
      | Inr rb \<Rightarrow> (\<lambda>c. rb_block rb = Some off \<and> rb_data rb = Some (off + 64) \<and> rb_active rb \<and>
          rb_size rb = bh_length d \<and> (\<exists>h. rb_pool rb = Some h) \<and>
          (\<exists>pl0. pool_hold (v\<lparr>pv_reads := pv_reads v @
                   [((off, bh_block_generation d), pool_content (pv_im v) pl0)]\<rparr>) off
                 (\<lambda>x pl ps rs. True \<and> pl = pl0) c)))"

lemma stable_pool_hold_reads [simp]: "pthr.stable (pv_id v) (pool_hold (v\<lparr>pv_reads := l\<rparr>) off P)"
  using stable_pool_hold [of "v\<lparr>pv_reads := l\<rparr>"] by simp

lemma stable_delivered_post [simp]: "pthr.stable (pv_id v) (delivered_post v d off r)"
  by (cases r) (auto simp: delivered_post_def intro!: stable_pool_conj stable_ex_pool)

lemma triple_claim_read:
  "pthr.triple (pv_id v) (pool_at v) (claim_read_block h off (off + 64) d) (delivered_post v d off)"
proof -
  let ?c = "\<lambda>x pl ps rs. pb_state x = block_word BlockReadingClaiming \<and> unread (pv_im v) off x pl ps rs"
  let ?n = "bh_block_generation d"
  let ?cn = "\<lambda>m pl0 x pl ps rs. ?c x pl ps rs \<and> pb_generation x = m \<and> pl = pl0"
  have ret: "pthr.triple (pv_id v) (pool_at v) (Ret (Inl e)) (delivered_post v d off)" for e
    by (rule pthr.triple_Ret) (simp_all add: delivered_post_def)
  have claim: "pthr.triple (pv_id v) (pool_at v)
      (shared_cas (block_state_c off) (block_word BlockPublished) (block_word BlockReadingClaiming))
      (\<lambda>won. if won then pool_hold v off ?c else pool_at v)"
    by (rule pthr.triple_conseq [OF triple_pool_claim]) auto
  have undo: "pthr.triple (pv_id v) (pool_hold v off P) (rollback_read off e) (delivered_post v d off)"
    if "\<And>x pl ps rs. P x pl ps rs \<Longrightarrow> unread (pv_im v) off x pl ps rs" for P e
    by (rule pthr.triple_conseq [OF triple_rollback [OF that]]) (auto simp: delivered_post_def)
  have gen: "pthr.triple (pv_id v) (pool_hold v off ?c) (shared_load (block_generation_c off))
      (\<lambda>m c. \<exists>pl0. pool_hold v off (?cn m pl0) c)"
    by (rule pthr.triple_load, simp, intro stable_ex_pool stable_pool_hold, simp add: run_simps pool_hold_def)
  have free: "owner_free (?cn m pl0)" for m pl0
    by (simp add: owner_free_def unread_def)
  have deliver: "pthr.triple (pv_id v) (pool_hold v off (?cn ?n pl0))
      (shared_store (block_state_c off) (block_word BlockReading))
      (\<lambda>_. pool_hold (v\<lparr>pv_reads := pv_reads v @ [((off, ?n), pool_content (pv_im v) pl0)]\<rparr>) off
         (\<lambda>x pl ps rs. True \<and> pl = pl0))" for pl0
    by (rule triple_hold_deliver) simp
  have finish: "pthr.triple (pv_id v) (pool_hold v off (?cn ?n pl0))
      (bind (set_owner (block_owner_c off) (pl_self h)) (\<lambda>_.
       bind (shared_store (block_owner_epoch_c off) e) (\<lambda>_.
       bind (shared_store (block_state_c off) (block_word BlockReading)) (\<lambda>_.
         Ret (Inr \<lparr>rb_pool = Some h, rb_block = Some off, rb_data = Some (off + 64),
                   rb_size = bh_length d, rb_descriptor = d, rb_active = True\<rparr>)))))
      (delivered_post v d off)" for e pl0
    by (rule pthr.triple_bind [OF triple_hold_owner [OF free]],
        rule pthr.triple_bind [OF triple_hold_epoch [OF free]], rule pthr.triple_bind [OF deliver],
        rule pthr.triple_Ret, rule stable_delivered_post) (auto simp: delivered_post_def)
  have main: "pthr.triple (pv_id v) (pool_hold v off (?cn m pl0))
      (if m \<noteq> ?n then rollback_read off kBufferInvalidHandle
       else bind (owner_epoch_capacity (block_owner_epoch_c off) 2) (\<lambda>epoch_capacity.
         if epoch_capacity \<noteq> CommitReady then rollback_read off (read_epoch_error epoch_capacity)
         else bind (begin_owner_commit (block_owner_epoch_c off) 2) (\<lambda>(owner_commit, committed_epoch).
           if owner_commit \<noteq> CommitReady then rollback_read off (read_epoch_error owner_commit)
           else bind (set_owner (block_owner_c off) (pl_self h)) (\<lambda>_.
             bind (shared_store (block_owner_epoch_c off) committed_epoch) (\<lambda>_.
             bind (shared_store (block_state_c off) (block_word BlockReading)) (\<lambda>_.
               Ret (Inr \<lparr>rb_pool = Some h, rb_block = Some off, rb_data = Some (off + 64),
                         rb_size = bh_length d, rb_descriptor = d, rb_active = True\<rparr>)))))))
      (delivered_post v d off)" for m pl0
  proof (cases "m = ?n")
    case True
    show ?thesis
      unfolding True
      by (rule pool_triple_if, rule undo, simp,
          rule pthr.triple_reads_bind [OF reads_only_capacity stable_pool_hold], rule pool_triple_if,
          rule undo, simp, rule pthr.triple_bind [OF triple_hold_begin_commit [OF free]],
          rule pool_triple_prod, rule pool_triple_if, rule undo, simp, rule finish)
  next
    case False
    show ?thesis using False by (simp, intro undo) simp
  qed
  show ?thesis
    unfolding claim_read_block_def
    by (rule pthr.triple_bind [OF claim], rule pool_triple_won, rule ret, rule pthr.triple_bind [OF gen],
        rule pool_triple_ex, rule main)
qed

lemma pool_triple_try:
  assumes "pthr.triple i P p (\<lambda>r c. (\<forall>a. r = Inr a \<longrightarrow> S a) \<and> P c)"
    and "\<And>e. pthr.triple i P (Ret (Inl e)) Q" and "\<And>a. S a \<Longrightarrow> pthr.triple i P (f a) Q"
  shows "pthr.triple i P (try_bind p f) Q"
  unfolding try_bind_def
  by (rule pthr.triple_bind [OF assms(1)], rule pool_triple_pure) (use assms(2,3) in \<open>auto split: sum.splits\<close>)

definition descriptor_fits :: "pool_immutable \<Rightarrow> BufferHandle \<Rightarrow> bool" where
  "descriptor_fits im d \<longleftrightarrow>
     bh_length d = pi_block_size im \<and> block_offset_in im (bh_block_id d) (bh_offset d - 64)"

lemma triple_validate_descriptor:
  "pthr.triple (pv_id v) (pool_at v) (validate_descriptor handle d)
     (\<lambda>r c. (\<forall>h. r = Inr h \<longrightarrow> descriptor_fits (pv_im v) d) \<and> pool_at v c)"
proof -
  let ?Q = "\<lambda>r c. (\<forall>h. r = Inr h \<longrightarrow> descriptor_fits (pv_im v) d) \<and> pool_at v c"
  have err: "pthr.triple (pv_id v) (pool_at v) (Ret (Inl e)) ?Q" for e
    by (rule pthr.triple_Ret) simp_all
  have ok: "pthr.triple (pv_id v) (pool_at v) (Ret (Inr h)) ?Q" if "descriptor_fits (pv_im v) d" for h
    using that by (intro pthr.triple_Ret) simp_all
  have fits: "descriptor_fits im d"
    if "shared_buffer_pool_block_offset_for (pi_block_size im) (bh_block_id d) (pi_block_count im) = Some (a, p)"
      "\<not> (bh_offset d \<noteq> p \<or> z)" "\<not> (r \<or> s \<or> bh_length d \<noteq> pi_block_size im)" for im a p z r s
    using that block_offset_payload [OF that(1)] by (simp add: descriptor_fits_def block_offset_in_def)
  show ?thesis
    unfolding validate_descriptor_def try_bind_def
  proof (rule pthr.triple_reads_bind [OF reads_only_live_pool stable_pool_at], split sum.split,
         intro conjI allI impI, rule err, rule pthr.triple_bind [OF triple_pool_im [OF fixed_im_at]],
         rule pool_triple_pure)
    fix live h im assume im: "im = pv_im v"
    have tail: "pthr.triple (pv_id v) (pool_at v)
      (bind (block_at h (bh_block_id d)) (\<lambda>block. case block of None \<Rightarrow> Ret (Inl kBufferInvalidHandle)
         | Some off \<Rightarrow> bind (shared_load (block_generation_c off)) (\<lambda>generation.
             if generation \<noteq> bh_block_generation d then Ret (Inl kBufferInvalidHandle) else Ret (Inr h)))) ?Q"
      if "descriptor_fits (pv_im v) d"
      by (rule pthr.triple_reads_bind [OF reads_only_block_at stable_pool_at], rule pool_triple_option, rule err,
          rule pthr.triple_reads_bind [OF reads_only_load stable_pool_at], rule pool_triple_if, rule err,
          rule ok [OF that])
    show "pthr.triple (pv_id v) (pool_at v)
       (if bh_pool_generation d \<noteq> pi_generation im \<or> bh_nonce_hi d \<noteq> pi_nonce_hi im \<or> bh_nonce_lo d \<noteq> pi_nonce_lo im
        then Ret (Inl kBufferInvalidHandle)
        else if \<not> handle_schema_matches im d then Ret (Inl kSchemaMismatch)
        else if bh_reserved d \<noteq> 0 \<or> bh_block_id d \<ge> pi_block_count im \<or> bh_length d \<noteq> pi_block_size im
        then Ret (Inl kBufferInvalidHandle)
        else (case shared_buffer_pool_block_offset_for (pi_block_size im) (bh_block_id d) (pi_block_count im) of
            None \<Rightarrow> Ret (Inl kBufferInvalidHandle)
          | Some (a, p) \<Rightarrow>
              if bh_offset d \<noteq> p \<or> bh_block_generation d = 0 then Ret (Inl kBufferInvalidHandle)
              else bind (block_at h (bh_block_id d)) (\<lambda>block. case block of None \<Rightarrow> Ret (Inl kBufferInvalidHandle)
                | Some off \<Rightarrow> bind (shared_load (block_generation_c off)) (\<lambda>generation.
                  if generation \<noteq> bh_block_generation d then Ret (Inl kBufferInvalidHandle) else Ret (Inr h))))) ?Q"
      unfolding im
      by (rule pool_triple_if, rule err, rule pool_triple_if, rule err, rule pool_triple_if, rule err,
          rule pool_triple_option, rule err, split prod.split, intro allI impI,
          rule pool_triple_if, rule err, rule tail, rule fits) simp_all
  qed
qed

text \<open>The block a descriptor names, by the offset of its header, and its generation.\<close>

definition descriptor_key :: "BufferHandle \<Rightarrow> u64 \<times> u64" where
  "descriptor_key d = (bh_offset d - 64, bh_block_generation d)"

definition read_post :: "pool_view \<Rightarrow> BufferHandle \<Rightarrow> ReadBuffer result \<Rightarrow> pool_config \<Rightarrow> bool" where
  "read_post v d r c \<longleftrightarrow>
     delivered_post v d (bh_offset d - 64) r c \<and> (\<forall>rb. r = Inr rb \<longrightarrow> descriptor_fits (pv_im v) d)"

lemma stable_read_post [simp]: "pthr.stable (pv_id v) (read_post v d r)"
  using stable_delivered_post [of v d "bh_offset d - 64" r]
  unfolding read_post_def pthr.stable_def by blast

lemma triple_acquire_read:
  "pthr.triple (pv_id v) (pool_at v) (shared_buffer_pool_acquire_read_impl handle d) (read_post v d)"
proof -
  have err: "pthr.triple (pv_id v) (pool_at v) (Ret (Inl e)) (read_post v d)" for e
    by (rule pthr.triple_Ret, rule stable_read_post) (simp add: read_post_def delivered_post_def)
  have read: "pthr.triple (pv_id v) (pool_at v) (claim_read_block h off data d) (read_post v d)"
    if fits: "descriptor_fits (pv_im v) d" and off: "block_offset_in (pv_im v) (bh_block_id d) off"
      and data: "block_offset_in (pv_im v) (bh_block_id d) (data - 64)" for h off data
  proof -
    have "off = bh_offset d - 64" and "data = off + 64"
      using fits off data by (auto simp: descriptor_fits_def block_offset_in_def)
    then have "pthr.triple (pv_id v) (pool_at v) (claim_read_block h off data d) (delivered_post v d (bh_offset d - 64))"
      using triple_claim_read [of v h off d] by simp
    then show ?thesis
      by (rule pthr.triple_conseq) (use fits in \<open>simp_all add: read_post_def\<close>)
  qed
  have busy: "pthr.triple (pv_id v) (pool_at v) (bind (classify_active_block h off) (\<lambda>e. Ret (Inl e))) (read_post v d)" for h off
    by (rule pthr.triple_reads_bind [OF reads_only_classify_active stable_pool_at], rule err)
  show ?thesis
    unfolding shared_buffer_pool_acquire_read_impl_def prod.case
    by (rule pool_triple_try [OF triple_validate_descriptor err],
        rule pthr.triple_bind [OF triple_block_at [OF fixed_im_at]], rule pool_triple_pure,
        rule pthr.triple_bind [OF triple_payload_at [OF fixed_im_at]], rule pool_triple_pure,
        rule pool_triple_option, rule err, rule pool_triple_option, rule err,
        rule pthr.triple_reads_bind [OF reads_only_load stable_pool_at], rule pool_triple_if,
        rule pool_triple_if, rule err, rule busy,
        rule pthr.triple_reads_bind [OF reads_only_load stable_pool_at], rule pool_triple_if, rule err,
        rule read) blast+
qed

end
