(* ===== verification/ER_Pool_History.thy ===== *)
theory ER_Pool_History
  imports ER_Pool_Ops
begin

text \<open>
  Clients of the buffer pool and the histories of their interleavings: every content received was
  sent under the same descriptor, and no sent buffer is received twice.
\<close>

subsection \<open>Clients\<close>

text \<open>
  The two uses of a pool: acquire a buffer, fill it and publish it; acquire a published buffer by its
  descriptor, read it and give it back. The end of the scope of a \<open>WriteBuffer\<close> aborts it.
\<close>

definition pool_send :: "pool_handle option \<Rightarrow> bytes \<Rightarrow> (pool_world, BufferHandle result) prog" where
  "pool_send handle b =
     try_bind (shared_buffer_pool_try_acquire_write_impl handle) (\<lambda>buffer.
     bind (memcpy_to (pool_payload_c (the (wb_data buffer))) 0 b) (\<lambda>_.
     bind (shared_buffer_pool_publish_write_impl (Some buffer)) (\<lambda>(published, left).
     bind (shared_buffer_pool_abort_write_impl left) (\<lambda>_.
       Ret published))))"

definition pool_receive :: "pool_handle option \<Rightarrow> BufferHandle \<Rightarrow> (pool_world, bytes result) prog" where
  "pool_receive handle descriptor =
     try_bind (shared_buffer_pool_acquire_read_impl handle descriptor) (\<lambda>buffer.
     bind (memcpy_from (pool_payload_c (the (rb_data buffer))) 0 (unat (rb_size buffer))) (\<lambda>b.
     bind (shared_buffer_pool_release_read_impl (Some buffer)) (\<lambda>_.
       Ret (Inr b))))"

definition send_post :: "pool_view \<Rightarrow> bytes \<Rightarrow> BufferHandle result \<Rightarrow> pool_config \<Rightarrow> bool" where
  "send_post v b r =
     (case r of
        Inl _ \<Rightarrow> pool_at v
      | Inr d \<Rightarrow> (\<lambda>c. \<exists>content. prefix b content \<and>
          pool_at (v\<lparr>pv_pubs := pv_pubs v @ [(descriptor_key d, content)]\<rparr>) c))"

lemma stable_send_post [simp]: "pthr.stable (pv_id v) (send_post v b r)"
  by (cases r) (auto simp: send_post_def intro!: stable_ex_pool stable_pool_conj)

lemma prefix_pool_content:
  assumes "map pl [0..<length b] = b" and "length b \<le> unat (pi_block_size im)"
  shows "prefix b (pool_content im pl)"
proof -
  have "[0..<unat (pi_block_size im)] = [0..<length b] @ [length b..<unat (pi_block_size im)]"
    using assms(2) by (metis le0 upt_add_eq_append le_add_diff_inverse plus_nat.add_0)
  then show ?thesis
    using assms(1) by (simp add: pool_content_def prefix_def)
qed

lemma triple_send:
  assumes len: "length b \<le> unat (pi_block_size (pv_im v))"
  shows "pthr.triple (pv_id v) (pool_at v) (pool_send handle b) (send_post v b)"
  unfolding pool_send_def
proof (rule pthr.triple_try_bind)
  show "pthr.triple (pv_id v) (pool_at v) (shared_buffer_pool_try_acquire_write_impl handle)
      (case_sum (\<lambda>_. pool_at v) (\<lambda>wb c. \<exists>h. holds_write h v wb c))"
    by (rule triple_acquire_write)
  fix wb :: WriteBuffer
  let ?n = "bh_block_generation (wb_descriptor wb)"
  let ?fill = "\<lambda>x pl ps rs. (pb_state x = block_word BlockWriting \<and> pb_generation x = ?n \<and>
      (\<forall>k \<in> set (log_keys ps). unat (snd k) < unat ?n)) \<and> map pl [0..<0 + length b] = [] @ b"
  let ?wr = "\<lambda>pl0 x pl ps rs. writing ?n x pl ps rs \<and> pl = pl0"
  let ?rest = "bind (shared_buffer_pool_publish_write_impl (Some wb)) (\<lambda>(published, left).
       bind (shared_buffer_pool_abort_write_impl left) (\<lambda>_. Ret published))"
  have held: "pthr.triple (pv_id v)
      (pool_hold v off (\<lambda>x pl ps rs. (pb_state x = block_word BlockWriting \<and> pb_generation x = ?n \<and>
         (\<forall>k \<in> set (log_keys ps). unat (snd k) < unat ?n)) \<and> map pl [0..<0] = []))
      (bind (memcpy_to (pool_payload_c (off + 64)) 0 b) (\<lambda>_. ?rest)) (send_post v b)"
    if wb: "wb_pool wb = Some h" "wb_block wb = Some off" "wb_active wb"
      and key: "bh_offset (wb_descriptor wb) = off + 64" for h off
  proof (rule pthr.triple_bind [OF triple_hold_fill], simp)
    have pub: "pthr.triple (pv_id v) (pool_hold v off (?wr pl0)) ?rest (send_post v b)"
      if "map pl0 [0..<length b] = b" for pl0
    proof (rule pthr.triple_bind [OF triple_publish_write [OF wb]])
      fix r :: "BufferHandle result \<times> WriteBuffer option"
      obtain res l where r: "r = (res, l)" by (cases r)
      show "pthr.triple (pv_id v) (publish_post v wb off pl0 r)
         (case r of (published, left) \<Rightarrow> bind (shared_buffer_pool_abort_write_impl left) (\<lambda>_. Ret published))
         (send_post v b)"
      proof (cases res)
        case (Inl e)
        show ?thesis
          unfolding r Inl publish_post_def prod.case fst_conv snd_conv sum.case
          by (rule pool_triple_pure, simp only:, rule pthr.triple_bind [OF triple_abort_held [OF wb]], rule pthr.triple_Ret)
            (simp_all add: send_post_def)
      next
        case (Inr d)
        let ?v = "v\<lparr>pv_pubs := pv_pubs v @ [((off, ?n), pool_content (pv_im v) pl0)]\<rparr>"
        have "pthr.triple (pv_id ?v) (pool_at ?v)
          (bind (shared_buffer_pool_abort_write_impl (Some (clear_write_buffer wb))) (\<lambda>_. Ret (Inr (wb_descriptor wb))))
          (send_post v b)"
          by (rule pthr.triple_bind [OF triple_abort_cleared], rule pthr.triple_Ret)
            (use prefix_pool_content [OF that len] key in \<open>auto simp: send_post_def descriptor_key_def intro!: stable_ex_pool stable_pool_conj\<close>)
        then show ?thesis
          unfolding r Inr publish_post_def prod.case fst_conv snd_conv sum.case
          by (intro pool_triple_pure) simp
      qed
    qed
    show "pthr.triple (pv_id v) (pool_hold v off ?fill) ?rest (send_post v b)"
      by (rule pool_triple_pre [OF pool_triple_ex [of _ "\<lambda>pl0 c. map pl0 [0..<length b] = b \<and> pool_hold v off (?wr pl0) c"]],
          rule pool_triple_pure, rule pub)
        (auto simp: pool_hold_def writing_def)
  qed
  show "pthr.triple (pv_id v) (\<lambda>c. \<exists>h. holds_write h v wb c)
      (bind (memcpy_to (pool_payload_c (the (wb_data wb))) 0 b) (\<lambda>_. ?rest)) (send_post v b)"
    unfolding holds_write_def
    by (intro pool_triple_ex pool_triple_pure, simp only: option.sel, rule pool_triple_pre [OF held])
      (simp_all add: pool_hold_def writing_def)
qed (simp_all add: send_post_def)

definition receive_post :: "pool_view \<Rightarrow> BufferHandle \<Rightarrow> bytes result \<Rightarrow> pool_config \<Rightarrow> bool" where
  "receive_post v d r =
     (case r of
        Inl _ \<Rightarrow> pool_at v
      | Inr b \<Rightarrow> pool_at (v\<lparr>pv_reads := pv_reads v @ [(descriptor_key d, b)]\<rparr>))"

lemma stable_receive_post [simp]: "pthr.stable (pv_id v) (receive_post v d r)"
  by (cases r) (simp_all add: receive_post_def)

lemma triple_release_held:
  assumes "rb_pool rb = Some h" "rb_block rb = Some off" "rb_active rb"
  shows "pthr.triple (pv_id v) (pool_hold v off P) (shared_buffer_pool_release_read_impl (Some rb)) (\<lambda>_. pool_at v)"
  using assms
  by (simp add: shared_buffer_pool_release_read_impl_def, intro pthr.triple_bind [OF triple_free_owned] pthr.triple_Ret)
    simp_all

lemma triple_receive:
  "pthr.triple (pv_id v) (pool_at v) (pool_receive handle d) (receive_post v d)"
  unfolding pool_receive_def try_bind_def
proof (rule pthr.triple_bind [OF triple_acquire_read])
  fix r :: "ReadBuffer result"
  let ?rest = "\<lambda>rb. bind (memcpy_from (pool_payload_c (the (rb_data rb))) 0 (unat (rb_size rb))) (\<lambda>b.
       bind (shared_buffer_pool_release_read_impl (Some rb)) (\<lambda>_. Ret (Inr b)))"
  let ?off = "bh_offset d - 64"
  have held: "pthr.triple (pv_id v)
      (pool_hold (v\<lparr>pv_reads := pv_reads v @ [((?off, bh_block_generation d), pool_content (pv_im v) pl0)]\<rparr>) ?off
         (\<lambda>x pl ps rs. True \<and> pl = pl0)) (?rest rb) (receive_post v d)"
    if fits: "descriptor_fits (pv_im v) d" and rb: "rb_block rb = Some ?off" "rb_data rb = Some (?off + 64)"
      "rb_active rb" "rb_size rb = bh_length d" "rb_pool rb = Some h" for rb pl0 h
  proof -
    let ?v = "v\<lparr>pv_reads := pv_reads v @ [((?off, bh_block_generation d), pool_content (pv_im v) pl0)]\<rparr>"
    have size: "map pl0 [0..<0 + unat (rb_size rb)] = pool_content (pv_im v) pl0"
      using fits rb(4) by (simp add: descriptor_fits_def pool_content_def)
    have "pthr.triple (pv_id ?v) (pool_hold ?v ?off (\<lambda>x pl ps rs. True \<and> pl = pl0)) (?rest rb) (receive_post v d)"
      unfolding rb(2) option.sel
      by (rule pthr.triple_bind [OF triple_hold_memcpy], rule pool_triple_pure,
          rule pthr.triple_bind [OF triple_release_held [OF rb(5,1,3)]], rule pthr.triple_Ret)
        (use size in \<open>simp_all add: receive_post_def descriptor_key_def\<close>)
    then show ?thesis by simp
  qed
  show "pthr.triple (pv_id v) (read_post v d r)
      (case r of Inl e \<Rightarrow> Ret (Inl e) | Inr rb \<Rightarrow> ?rest rb) (receive_post v d)"
  proof (cases r)
    case (Inl e)
    show ?thesis
      unfolding Inl sum.case
      by (rule pthr.triple_Ret) (simp_all add: receive_post_def read_post_def delivered_post_def)
  next
    case (Inr rb)
    show ?thesis
      unfolding Inr sum.case
      by (rule pool_triple_pre [of _ "\<lambda>c. \<exists>h pl0. (descriptor_fits (pv_im v) d \<and> rb_block rb = Some ?off \<and>
            rb_data rb = Some (?off + 64) \<and> rb_active rb \<and> rb_size rb = bh_length d \<and> rb_pool rb = Some h) \<and>
            pool_hold (v\<lparr>pv_reads := pv_reads v @ [((?off, bh_block_generation d), pool_content (pv_im v) pl0)]\<rparr>)
              ?off (\<lambda>x pl ps rs. True \<and> pl = pl0) c"],
          intro pool_triple_ex pool_triple_pure, elim conjE, rule held, assumption+)
        (auto simp: read_post_def delivered_post_def)
  qed
qed

datatype pool_call = Send "pool_handle option" bytes | Receive "pool_handle option" BufferHandle
datatype pool_reply = Sent "BufferHandle result" | Received "bytes result"

fun pool_call_prog :: "pool_call \<Rightarrow> (pool_world, pool_reply) prog" where
  "pool_call_prog (Send handle b) = bind (pool_send handle b) (\<lambda>r. Ret (Sent r))"
| "pool_call_prog (Receive handle d) = bind (pool_receive handle d) (\<lambda>r. Ret (Received r))"

primrec pool_script :: "pool_call list \<Rightarrow> (pool_world, pool_reply list) prog" where
  "pool_script [] = Ret []"
| "pool_script (c # cs) = bind (pool_call_prog c) (\<lambda>r. bind (pool_script cs) (\<lambda>rs. Ret (r # rs)))"

fun pool_call_ok :: "pool_immutable \<Rightarrow> pool_call \<Rightarrow> bool" where
  "pool_call_ok im (Send handle b) \<longleftrightarrow> length b \<le> unat (pi_block_size im)"
| "pool_call_ok im (Receive handle d) \<longleftrightarrow> True"

text \<open>The payloads a thread has to send, what its replies report as sent, and what it received.\<close>

fun to_send :: "pool_call \<Rightarrow> bytes list" where
  "to_send (Send _ b) = [b]"
| "to_send (Receive _ _) = []"

fun sent1 :: "pool_call \<Rightarrow> pool_reply \<Rightarrow> pool_entry list" where
  "sent1 (Send _ b) (Sent (Inr d)) = [(descriptor_key d, b)]"
| "sent1 _ _ = []"

fun received1 :: "pool_call \<Rightarrow> pool_reply \<Rightarrow> pool_entry list" where
  "received1 (Receive _ d) (Received (Inr b)) = [(descriptor_key d, b)]"
| "received1 _ _ = []"

fun sent :: "pool_call list \<Rightarrow> pool_reply list \<Rightarrow> pool_entry list" where
  "sent (c # cs) (r # rs) = sent1 c r @ sent cs rs"
| "sent _ _ = []"

fun received :: "pool_call list \<Rightarrow> pool_reply list \<Rightarrow> pool_entry list" where
  "received (c # cs) (r # rs) = received1 c r @ received cs rs"
| "received _ _ = []"

text \<open>What is published under a descriptor begins with what was sent.\<close>

definition carries :: "pool_entry \<Rightarrow> pool_entry \<Rightarrow> bool" where
  "carries s e \<longleftrightarrow> fst e = fst s \<and> prefix (snd s) (snd e)"

definition thread_logs :: "pool_view \<Rightarrow> pool_call list \<Rightarrow> pool_reply list \<Rightarrow> pool_config \<Rightarrow> bool" where
  "thread_logs v cs rs c \<longleftrightarrow>
     (\<exists>es. list_all2 carries (sent cs rs) es \<and>
        pool_at (v\<lparr>pv_pubs := pv_pubs v @ es, pv_reads := pv_reads v @ received cs rs\<rparr>) c)"

lemma stable_pool_view [simp]: "pthr.stable (pv_id v) (pool_at (v\<lparr>pv_pubs := l, pv_reads := m\<rparr>))"
  using stable_pool_at [of "v\<lparr>pv_pubs := l, pv_reads := m\<rparr>"] by simp

lemma stable_thread_logs [simp]: "pthr.stable (pv_id v) (thread_logs v cs rs)"
  unfolding thread_logs_def [abs_def] by (intro stable_ex_pool stable_pool_conj stable_pool_view)

lemma sent1_singleton: "sent [c] [r] = sent1 c r" "received [c] [r] = received1 c r"
  by simp_all

lemma triple_pool_call:
  assumes "pool_call_ok (pv_im v) c"
  shows "pthr.triple (pv_id v) (pool_at v) (pool_call_prog c) (\<lambda>r. thread_logs v [c] [r])"
proof (cases c)
  case (Send handle b)
  have "pthr.triple (pv_id v) (pool_at v) (bind (pool_send handle b) (\<lambda>r. Ret (Sent r))) (\<lambda>r. thread_logs v [c] [r])"
  proof (rule pthr.triple_bind [OF triple_send], use assms Send in simp, rule pthr.triple_Ret, simp)
    fix r d assume "send_post v b r d"
    then show "thread_logs v [c] [Sent r] d"
    proof (cases r)
      case (Inr x)
      then obtain content where "prefix b content"
        "pool_at (v\<lparr>pv_pubs := pv_pubs v @ [(descriptor_key x, content)]\<rparr>) d"
        using \<open>send_post v b r d\<close> by (auto simp: send_post_def)
      then show ?thesis
        unfolding thread_logs_def
        by (intro exI [of _ "[(descriptor_key x, content)]"]) (simp add: Send Inr carries_def)
    qed (simp add: Send send_post_def thread_logs_def)
  qed
  then show ?thesis by (simp add: Send)
next
  case (Receive handle x)
  have "pthr.triple (pv_id v) (pool_at v) (bind (pool_receive handle x) (\<lambda>r. Ret (Received r))) (\<lambda>r. thread_logs v [c] [r])"
  proof (rule pthr.triple_bind [OF triple_receive], rule pthr.triple_Ret, simp)
    fix r d assume "receive_post v x r d"
    then show "thread_logs v [c] [Received r] d"
      by (cases r) (auto simp: Receive receive_post_def thread_logs_def)
  qed
  then show ?thesis by (simp add: Receive)
qed

lemma triple_pool_script:
  assumes "list_all (pool_call_ok (pv_im v)) cs"
  shows "pthr.triple (pv_id v) (pool_at v) (pool_script cs) (\<lambda>rs. thread_logs v cs rs)"
  using assms
proof (induction cs arbitrary: v)
  case Nil
  show ?case by (simp, rule pthr.triple_Ret) (simp_all add: thread_logs_def)
next
  case (Cons c cs)
  have call: "pthr.triple (pv_id v) (pool_at v) (pool_call_prog c) (\<lambda>r. thread_logs v [c] [r])"
    using Cons.prems by (intro triple_pool_call) simp
  have rest: "pthr.triple (pv_id v) (thread_logs v [c] [r])
      (bind (pool_script cs) (\<lambda>rs. Ret (r # rs))) (\<lambda>rs. thread_logs v (c # cs) rs)" for r
    unfolding thread_logs_def [of v "[c]"]
  proof (rule pool_triple_ex, rule pool_triple_pure)
    fix es assume es: "list_all2 carries (sent [c] [r]) es"
    let ?v = "v\<lparr>pv_pubs := pv_pubs v @ es, pv_reads := pv_reads v @ received [c] [r]\<rparr>"
    have "pthr.triple (pv_id ?v) (pool_at ?v) (pool_script cs) (thread_logs ?v cs)"
      using Cons by (intro Cons.IH) simp
    moreover have "thread_logs v (c # cs) (r # rs) d" if "thread_logs ?v cs rs d" for rs d
    proof -
      obtain es' where es': "list_all2 carries (sent cs rs) es'"
        "pool_at (v\<lparr>pv_pubs := (pv_pubs v @ es) @ es', pv_reads := (pv_reads v @ received [c] [r]) @ received cs rs\<rparr>) d"
        using \<open>thread_logs ?v cs rs d\<close> by (auto simp: thread_logs_def)
      then show ?thesis
        using es unfolding thread_logs_def by (intro exI [of _ "es @ es'"]) (simp add: list_all2_appendI)
    qed
    ultimately show "pthr.triple (pv_id v) (pool_at ?v) (bind (pool_script cs) (\<lambda>rs. Ret (r # rs)))
        (\<lambda>rs. thread_logs v (c # cs) rs)"
      by (intro pthr.triple_bind [of _ _ _ "thread_logs ?v cs"] pthr.triple_Ret) simp_all
  qed
  show ?case
    unfolding pool_script.simps by (rule pthr.triple_bind [OF call rest])
qed

subsection \<open>Histories\<close>

definition pool_history where
  "pool_history scripts pubs reads ps \<longleftrightarrow>
     distinct (log_keys pubs) \<and> distinct (log_keys reads) \<and> snd ` set reads \<subseteq> snd ` set pubs \<and>
     (\<forall>x \<in> set pubs \<union> set reads. fst x < length scripts) \<and>
     (\<forall>i < length scripts.
        (\<exists>bs. subseq bs (concat (map to_send (scripts ! i))) \<and> list_all2 prefix bs (map snd (by_thread i pubs))) \<and>
        (\<forall>rs. ps ! i = Ret rs \<longrightarrow>
           list_all2 carries (sent (scripts ! i) rs) (by_thread i pubs) \<and>
           by_thread i reads = received (scripts ! i) rs))"

lemma distinct_by_block:
  assumes "\<And>off. distinct (log_keys (at_block off l))"
  shows "distinct (log_keys l)"
  using assms
proof (induction l)
  case (Cons x l)
  have "distinct (log_keys (at_block off l))" for off
    using Cons.prems [of off] by (auto simp: at_block_def split: if_splits)
  moreover have "fst (snd x) \<notin> set (log_keys l)"
    using Cons.prems [of "fst (fst (snd x))"] by (auto simp: at_block_def)
  ultimately show ?case using Cons.IH by simp
qed simp

lemma pool_inv_logs:
  assumes "pool_shared_inv (w, g)"
  shows "distinct (log_keys (pg_pubs g))" and "distinct (log_keys (pg_reads g))"
    and "snd ` set (pg_reads g) \<subseteq> snd ` set (pg_pubs g)"
proof -
  have ok: "distinct (log_keys (at_block off (pg_pubs g)))" "distinct (log_keys (at_block off (pg_reads g)))"
    "snd ` set (at_block off (pg_reads g)) \<subseteq> snd ` set (at_block off (pg_pubs g))" for off
    using assms by (auto simp: pool_shared_inv_def Let_def block_ok_def)
  show "distinct (log_keys (pg_pubs g))" "distinct (log_keys (pg_reads g))"
    by (rule distinct_by_block, rule ok)+
  show "snd ` set (pg_reads g) \<subseteq> snd ` set (pg_pubs g)"
  proof
    fix e assume "e \<in> snd ` set (pg_reads g)"
    then have "e \<in> snd ` set (at_block (fst (fst e)) (pg_reads g))" by (auto simp: at_block_def)
    then show "e \<in> snd ` set (pg_pubs g)" using ok(3) by (fastforce simp: at_block_def)
  qed
qed

definition pool_logs_grow :: "nat \<Rightarrow> pool_config \<Rightarrow> pool_config \<Rightarrow> bool" where
  "pool_logs_grow n c d \<longleftrightarrow>
     (pool_shared_inv c \<longrightarrow>
       pool_shared_inv d \<and>
       (\<exists>xs. pg_pubs (snd d) = pg_pubs (snd c) @ xs \<and> (\<forall>x \<in> set xs. fst x < n)) \<and>
       (\<exists>xs. pg_reads (snd d) = pg_reads (snd c) @ xs \<and> (\<forall>x \<in> set xs. fst x < n)))"

lemma pool_logs_grow_refl: "pool_logs_grow n c c"
  by (simp add: pool_logs_grow_def)

lemma pool_logs_grow_trans: "pool_logs_grow n c d \<Longrightarrow> pool_logs_grow n d e \<Longrightarrow> pool_logs_grow n c e"
  unfolding pool_logs_grow_def by (auto simp: ball_Un)

lemma pool_logs_grow_guar: "i < n \<Longrightarrow> pool_guar i c d \<Longrightarrow> pool_logs_grow n c d"
  by (auto simp: pool_logs_grow_def pool_guar_def pool_log_extends_def)

lemma pool_logs_grow_env:
  assumes "pool_env s t" shows "pool_logs_grow n (s, g) (t, g)"
proof -
  obtain k r where "t = s\<lparr>pw_kern := k, pw_removed := r\<rparr>" using assms by (auto simp: pool_env_def)
  then show ?thesis by (simp add: pool_logs_grow_def pool_kern_only)
qed

lemma pool_logs_grow_guars:
  assumes "(pool_guar i)\<^sup>*\<^sup>* c d" and "i < n" shows "pool_logs_grow n c d"
  using assms(1)
  by (induction rule: rtranclp_induct)
    (auto intro: pool_logs_grow_refl pool_logs_grow_trans pool_logs_grow_guar assms(2))

definition pool_thread_view :: "pool_immutable \<Rightarrow> nat \<Rightarrow> pool_view" where
  "pool_thread_view im i = \<lparr>pv_id = i, pv_im = im, pv_pubs = [], pv_reads = []\<rparr>"

definition pool_thread_post where
  "pool_thread_post im scripts i rs = thread_logs (pool_thread_view im i) (scripts ! i) rs"

definition pool_rest_ghost :: pool_ghost where
  "pool_rest_ghost = \<lparr>pg_holder = (\<lambda>_. None), pg_pubs = [], pg_reads = []\<rparr>"

lemma pool_inv_at_rest:
  assumes "\<And>off. pb_state (pw_blocks w off) \<noteq> block_word BlockPublished"
  shows "pool_shared_inv (w, pool_rest_ghost)"
  using assms by (simp add: pool_shared_inv_def pool_rest_ghost_def block_ok_def at_block_def)

lemma all_safe_pool_scripts:
  assumes rest: "\<And>off. pb_state (pw_blocks w off) \<noteq> block_word BlockPublished"
    and ok: "\<forall>cs \<in> set scripts. list_all (pool_call_ok (pool_im w)) cs"
  shows "psys.all_safe (pool_thread_post (pool_im w) scripts) (w, map pool_script scripts) pool_rest_ghost"
  unfolding psys.all_safe_def
proof (intro allI impI)
  fix i assume "i < length (snd (w, map pool_script scripts))"
  then have i: "i < length scripts" by simp
  let ?v = "pool_thread_view (pool_im w) i"
  have "pool_at ?v (w, pool_rest_ghost)"
    using pool_inv_at_rest [OF rest] by (simp add: pool_at_def pool_thread_view_def pool_rest_ghost_def by_thread_def)
  then show "safe (pool_rely i) (pool_guar i) (snd (w, map pool_script scripts) ! i)
      (pool_thread_post (pool_im w) scripts i) (fst (w, map pool_script scripts), pool_rest_ghost)"
    using triple_pool_script [of ?v "scripts ! i"] ok i
    by (simp add: pthr.triple_def pool_thread_post_def [abs_def] pool_thread_view_def)
qed

lemma by_thread_append_list: "by_thread i (xs @ ys) = by_thread i xs @ by_thread i ys"
  by (simp add: by_thread_def)

lemma sent_to_send: "subseq (map snd (sent cs rs)) (concat (map to_send cs))"
proof (induction cs rs rule: sent.induct)
  case (1 c cs r rs)
  have "subseq (map snd (sent1 c r)) (to_send c)"
    by (cases "(c, r)" rule: sent1.cases) auto
  then show ?case using 1 by (auto intro: list_emb_append_mono)
qed auto

lemma carries_payloads: "list_all2 carries ss es \<Longrightarrow> list_all2 prefix (map snd ss) (map snd es)"
  by (auto simp: list_all2_map1 list_all2_map2 carries_def elim!: list_all2_mono)

lemma thread_logsD:
  assumes "thread_logs (pool_thread_view im i) cs rs (t, g)"
  shows "list_all2 carries (sent cs rs) (by_thread i (pg_pubs g))" and "by_thread i (pg_reads g) = received cs rs"
  using assms by (auto simp: thread_logs_def pool_at_def pool_thread_view_def)

lemma pool_unfinished:
  assumes safe: "psys.all_safe (pool_thread_post im scripts) (w, ps) g"
    and inv: "pool_shared_inv (w, g)" and i: "i < length ps"
  shows "\<exists>bs. subseq bs (concat (map to_send (scripts ! i))) \<and> list_all2 prefix bs (map snd (by_thread i (pg_pubs g)))"
proof -
  obtain t qs g' rs where "psys.all_safe (pool_thread_post im scripts) (t, qs) g'" "i < length qs"
      "qs ! i = Ret rs" and G: "(pool_guar i)\<^sup>*\<^sup>* (w, g) (t, g')"
    using psys.par_finish [OF safe i] by auto
  then have "thread_logs (pool_thread_view im i) (scripts ! i) rs (t, g')"
    using psys.all_safe_result [of "pool_thread_post im scripts" t qs g' i rs] by (simp add: pool_thread_post_def)
  from carries_payloads [OF thread_logsD(1) [OF this]]
  have all: "list_all2 prefix (map snd (sent (scripts ! i) rs)) (map snd (by_thread i (pg_pubs g')))" .
  obtain xs where "pg_pubs g' = pg_pubs g @ xs"
    using pool_logs_grow_guars [OF G lessI] inv by (auto simp: pool_logs_grow_def)
  then have grown: "map snd (by_thread i (pg_pubs g')) = map snd (by_thread i (pg_pubs g)) @ map snd (by_thread i xs)"
    by (simp add: by_thread_append_list)
  obtain us vs where split: "map snd (sent (scripts ! i) rs) = us @ vs" "list_all2 prefix us (map snd (by_thread i (pg_pubs g)))"
    using all grown by (auto simp: list_all2_append2)
  have "subseq us (concat (map to_send (scripts ! i)))"
    using sent_to_send [of "scripts ! i" rs] split(1) by (metis prefixI prefix_imp_subseq subseq_order.trans)
  with split(2) show ?thesis by blast
qed

lemma pool_history_reached:
  assumes safe: "psys.all_safe (pool_thread_post im scripts) (w, ps) g"
    and inv: "pool_shared_inv (w, g)" and len: "length ps = length scripts"
    and tags: "\<forall>x \<in> set (pg_pubs g) \<union> set (pg_reads g). fst x < length scripts"
  shows "pool_history scripts (pg_pubs g) (pg_reads g) ps"
proof -
  have "list_all2 carries (sent (scripts ! i) rs) (by_thread i (pg_pubs g)) \<and>
      by_thread i (pg_reads g) = received (scripts ! i) rs" if "i < length scripts" "ps ! i = Ret rs" for i rs
    using psys.all_safe_result [OF safe, of i rs] that len thread_logsD [of im i "scripts ! i" rs w g]
    by (simp add: pool_thread_post_def)
  moreover have "\<exists>bs. subseq bs (concat (map to_send (scripts ! i))) \<and>
      list_all2 prefix bs (map snd (by_thread i (pg_pubs g)))" if "i < length scripts" for i
    using pool_unfinished [OF safe inv] that len by simp
  ultimately show ?thesis
    unfolding pool_history_def using pool_inv_logs [OF inv] tags by blast
qed

lemma pool_scripts_run:
  assumes "(par_step pool_env)\<^sup>*\<^sup>* (s, ps) (t, qs)" and "psys.all_safe Q (s, ps) g" and "length ps = n"
  shows "\<exists>g'. length qs = n \<and> psys.all_safe Q (t, qs) g' \<and> pool_logs_grow n (s, g) (t, g')"
proof -
  have "\<exists>g'. length (snd (t, qs)) = length (snd (s, ps)) \<and> psys.all_safe Q (t, qs) g' \<and>
      pool_logs_grow n (fst (s, ps), g) (fst (t, qs), g')"
  proof (rule psys.par_run_safe [OF assms(1,2)])
    fix i d d'
    show "i < length (snd (s, ps)) \<Longrightarrow> pool_guar i d d' \<Longrightarrow> pool_logs_grow n d d'"
      using pool_logs_grow_guar assms(3) by simp
  qed (blast intro: pool_logs_grow_env pool_logs_grow_refl pool_logs_grow_trans)+
  then show ?thesis using assms(3) by simp
qed

text \<open>A pool of two free blocks of 4096 bytes, for the examples.\<close>

definition sample_pool_immutable :: pool_immutable where
  "sample_pool_immutable =
     \<lparr>pi_magic = kSharedBufferPoolMagic, pi_abi_major = 2, pi_abi_minor = 0,
      pi_endian_marker = 0x01020304, pi_header_size = 192, pi_block_size = 4096, pi_block_count = 2,
      pi_mapping_size = 8512, pi_generation = 5, pi_nonce_hi = 6, pi_nonce_lo = 7,
      pi_schema_fingerprint = replicate 32 1, pi_schema_version = 1,
      pi_creator = \<lparr>ow_pid = 42, ow_ticks = 777, ow_boot_hi = 1, ow_boot_lo = 2\<rparr>,
      pi_reserved = replicate 24 0\<rparr>"

definition sample_pool :: pool_world where
  "sample_pool =
     \<lparr>pw_hdr = \<lparr>ph_immutable = sample_pool_immutable, ph_init_state = pool_init_word PoolReady,
                ph_header_checksum = pool_header_checksum sample_pool_immutable\<rparr>,
      pw_blocks = (\<lambda>_. \<lparr>pb_state = block_word BlockFree, pb_generation = 0, pb_owner = owner_none,
                         pb_owner_epoch = 0\<rparr>),
      pw_payload = (\<lambda>_ _. 0), pw_removed = (\<lambda>_. False), pw_kern = sample_kernel\<rparr>"

definition sample_pool_handle :: pool_handle where
  "sample_pool_handle =
     \<lparr>pl_ref = 0, pl_shm_name = ''/er_pool_sample'', pl_dev = 1, pl_ino = 2, pl_size = 8512,
      pl_self = \<lparr>id_pid = 42, id_ticks = 777, id_boot_hi = 1, id_boot_lo = 2\<rparr>, pl_created = True\<rparr>"

definition sample_pool_scripts :: "pool_call list list" where
  "sample_pool_scripts =
     [[Send (Some sample_pool_handle) [7, 8], Send (Some sample_pool_handle) [9]],
      [Receive (Some sample_pool_handle) buffer_handle_zero]]"

text \<open>
  C2. Any number of threads send and receive through one pool, interleaved at every atomic access and
  single byte. Every published buffer has its own block and generation; every content that is
  received was published under exactly that block and generation, and none is received twice; what a
  thread published starts with the bytes it was asked to send, in the order of its calls; and the
  replies of a finished thread report exactly its entries of the history.
\<close>

theorem pool_interleavings_deliver_once:
  assumes "\<And>off. pb_state (pw_blocks w0 off) \<noteq> block_word BlockPublished"
    and "\<forall>cs \<in> set scripts. list_all (pool_call_ok (pool_im w0)) cs"
    and "(par_step pool_env)\<^sup>*\<^sup>* (w0, map pool_script scripts) (w, ps)"
  shows "\<exists>pubs reads. pool_history scripts pubs reads ps"
proof -
  have inv0: "pool_shared_inv (w0, pool_rest_ghost)" by (rule pool_inv_at_rest [OF assms(1)])
  obtain g where l: "length ps = length scripts"
    and s: "psys.all_safe (pool_thread_post (pool_im w0) scripts) (w, ps) g"
    and t: "pool_logs_grow (length scripts) (w0, pool_rest_ghost) (w, g)"
    using pool_scripts_run [OF assms(3) all_safe_pool_scripts [OF assms(1,2)]] by auto
  have "pool_shared_inv (w, g)" "\<forall>x \<in> set (pg_pubs g) \<union> set (pg_reads g). fst x < length scripts"
    using t inv0 by (auto simp: pool_logs_grow_def pool_rest_ghost_def)
  from pool_history_reached [OF s this(1) l this(2)] show ?thesis by blast
qed

theorem pool_interleavings_deliver_once_witness:
  "let w1 = snd (run (pool_script (sample_pool_scripts ! 0)) sample_pool);
       r1 = fst (run (pool_script (sample_pool_scripts ! 0)) sample_pool)
   in \<exists>pubs reads. pool_history sample_pool_scripts pubs reads [Ret r1, pool_script (sample_pool_scripts ! 1)]"
  unfolding Let_def
proof (rule pool_interleavings_deliver_once)
  show "pb_state (pw_blocks sample_pool off) \<noteq> block_word BlockPublished" for off
    by (simp add: sample_pool_def)
  show "\<forall>cs \<in> set sample_pool_scripts. list_all (pool_call_ok (pool_im sample_pool)) cs"
    by (simp add: sample_pool_scripts_def sample_pool_def sample_pool_immutable_def)
  have two: "map pool_script sample_pool_scripts =
      [pool_script (sample_pool_scripts ! 0), pool_script (sample_pool_scripts ! 1)]"
    by (simp add: sample_pool_scripts_def)
  show "(par_step pool_env)\<^sup>*\<^sup>* (sample_pool, map pool_script sample_pool_scripts)
      (snd (run (pool_script (sample_pool_scripts ! 0)) sample_pool),
       [Ret (fst (run (pool_script (sample_pool_scripts ! 0)) sample_pool)), pool_script (sample_pool_scripts ! 1)])"
    using par_run_solo [of 0 "map pool_script sample_pool_scripts" pool_env sample_pool] unfolding two by simp
qed

end
