(* ===== verification/ER_Pool_Admin.thy ===== *)
theory ER_Pool_Admin
  imports ER_Pool
begin

text \<open>
  Creating, opening, inspecting and removing a shared buffer pool (\<open>buffer/shared_buffer_pool.cpp\<close>).
\<close>

definition pool_validate_options :: "SharedBufferPoolOptions \<Rightarrow> unit result" where
  "pool_validate_options options =
     (if \<not> validate_channel_name (po_name options) \<or> length (po_name options) > kSharedBufferPoolMaxNameLength
      then Inl kInvalidName
      else if \<not> shared_buffer_pool_block_size_valid (po_block_size options) \<or> po_block_count options = 0 \<or>
              po_block_count options > kSharedBufferPoolMaxBlockCount \<or> sd_version (po_schema options) = 0
      then Inl kInvalidOptions
      else Inr ())"

definition pool_validate_header ::
  "pool_header \<Rightarrow> u64 \<Rightarrow> SharedBufferPoolOptions \<Rightarrow> unit result" where
  "pool_validate_header header actual_size options =
     (let im = ph_immutable header in
      if pi_magic im = kSharedBufferPoolLegacyMagic then Inl kAbiMismatch
      else if pi_magic im \<noteq> kSharedBufferPoolMagic then Inl kCorruptHeader
      else if pi_abi_major im \<noteq> kSharedBufferPoolAbiMajor \<or> pi_abi_minor im > kSharedBufferPoolAbiMinor
      then Inl kAbiMismatch
      else if pi_header_size im \<noteq> pool_header_size \<or> pi_endian_marker im \<noteq> kSharedBufferPoolEndianMarker
      then Inl kCorruptHeader
      else if \<not> shared_buffer_pool_block_size_valid (pi_block_size im) \<or> pi_block_count im = 0 \<or>
              pi_block_count im > kSharedBufferPoolMaxBlockCount \<or> pi_generation im = 0 \<or>
              (pi_nonce_hi im = 0 \<and> pi_nonce_lo im = 0) \<or> pi_schema_version im = 0 \<or>
              \<not> owner_valid (pi_creator im)
      then Inl kCorruptHeader
      else
        (case shared_buffer_pool_mapping_size_for (pi_block_size im) (pi_block_count im) of
           None \<Rightarrow> Inl kCorruptHeader
         | Some expected_size \<Rightarrow>
             if expected_size \<noteq> pi_mapping_size im \<or> actual_size \<noteq> pi_mapping_size im
             then Inl kCorruptHeader
             else if ph_init_state header \<noteq> pool_init_word PoolReady then Inl kInitializationIncomplete
             else if ph_header_checksum header \<noteq> pool_header_checksum im then Inl kCorruptHeader
             else if pi_block_size im \<noteq> po_block_size options \<or> pi_block_count im \<noteq> po_block_count options
             then Inl kInvalidOptions
             else if \<not> pool_same_schema im (po_schema options) then Inl kSchemaMismatch
             else Inr ()))"

text \<open>\<open>ref\<close> is the number of the new handle object, which is not removed.\<close>

definition make_pool_handle :: "pool_handle \<Rightarrow> (pool_world, pool_handle result) prog" where
  "make_pool_handle handle = bind (shared_store (removed_c handle) False) (\<lambda>_. Ret (Inr handle))"

definition pool_open_existing ::
  "nat \<Rightarrow> SharedBufferPoolOptions \<Rightarrow> (pool_world, pool_handle result) prog" where
  "pool_open_existing ref options =
     try_bind (kernel_query pool_kern_c current_identity) (\<lambda>self.
     bind (kernel_query pool_kern_c k_getuid) (\<lambda>uid.
     let shm_name = pool_shm_name uid (po_name options) in
     try_bind (shm_open_existing pool_kern_c shm_name) (\<lambda>fd.
     try_bind (shm_fstat_and_capture pool_kern_c fd) (\<lambda>st.
       if st_size st < ucast pool_header_size then Ret (Inl kInitializationIncomplete)
       else
         try_bind (mmap_region pool_kern_c fd (st_size st)) (\<lambda>_.
         bind (shared_load pool_init_state_c) (\<lambda>init.
           if init \<noteq> pool_init_word PoolReady then Ret (Inl kInitializationIncomplete)
           else
             bind (shared_load pool_hdr_c) (\<lambda>header.
               case pool_validate_header header (st_size st) options of
                 Inl e \<Rightarrow> Ret (Inl e)
               | Inr _ \<Rightarrow>
                   make_pool_handle \<lparr>pl_ref = ref, pl_shm_name = shm_name, pl_dev = st_dev st,
                                     pl_ino = st_ino st, pl_size = st_size st, pl_self = self,
                                     pl_created = False\<rparr>)))))))"

definition shared_buffer_pool_open_impl ::
  "nat \<Rightarrow> SharedBufferPoolOptions \<Rightarrow> (pool_world, pool_handle result) prog" where
  "shared_buffer_pool_open_impl ref options =
     (case pool_validate_options options of
        Inl e \<Rightarrow> Ret (Inl e)
      | Inr _ \<Rightarrow> pool_open_existing ref options)"

subsection \<open>Creation\<close>

definition pool_zero_immutable :: pool_immutable where
  "pool_zero_immutable =
     \<lparr>pi_magic = replicate 8 0, pi_abi_major = 0, pi_abi_minor = 0, pi_endian_marker = 0,
      pi_header_size = 0, pi_block_size = 0, pi_block_count = 0, pi_mapping_size = 0,
      pi_generation = 0, pi_nonce_hi = 0, pi_nonce_lo = 0, pi_schema_fingerprint = replicate 32 0,
      pi_schema_version = 0, pi_creator = owner_none, pi_reserved = replicate 24 0\<rparr>"

definition pool_zero_block :: pool_block where
  "pool_zero_block = \<lparr>pb_state = 0, pb_generation = 0, pb_owner = owner_none, pb_owner_epoch = 0\<rparr>"

text \<open>\<open>memset\<close> of the new mapping, which no other process accepts yet, as one action.\<close>

definition pool_zero_mapping :: "(pool_world, unit) prog" where
  "pool_zero_mapping =
     Act (\<lambda>w. w\<lparr>pw_hdr := \<lparr>ph_immutable = pool_zero_immutable, ph_init_state = 0, ph_header_checksum = 0\<rparr>,
                pw_blocks := (\<lambda>_. pool_zero_block), pw_payload := (\<lambda>_ _. 0)\<rparr>) (\<lambda>_. Ret ())"

definition pool_init_immutable ::
  "SharedBufferPoolOptions \<Rightarrow> u64 \<Rightarrow> u64 \<Rightarrow> u64 \<Rightarrow> ProcessIdentity \<Rightarrow> pool_immutable" where
  "pool_init_immutable options mapping_size nonce_hi nonce_lo self =
     \<lparr>pi_magic = kSharedBufferPoolMagic, pi_abi_major = kSharedBufferPoolAbiMajor,
      pi_abi_minor = kSharedBufferPoolAbiMinor, pi_endian_marker = kSharedBufferPoolEndianMarker,
      pi_header_size = pool_header_size, pi_block_size = po_block_size options,
      pi_block_count = po_block_count options, pi_mapping_size = mapping_size, pi_generation = 1,
      pi_nonce_hi = nonce_hi, pi_nonce_lo = nonce_lo,
      pi_schema_fingerprint = sd_fingerprint (po_schema options),
      pi_schema_version = sd_version (po_schema options), pi_creator = owner_from_process self,
      pi_reserved = replicate 24 0\<rparr>"

text \<open>The loop over the blocks: \<open>n\<close> remain, \<open>block_id\<close> is the next; false when an offset overflows.\<close>

primrec init_blocks :: "u32 \<Rightarrow> u32 \<Rightarrow> nat \<Rightarrow> u32 \<Rightarrow> (pool_world, bool) prog" where
  "init_blocks block_size block_count 0 block_id = Ret True"
| "init_blocks block_size block_count (Suc n) block_id =
     (case shared_buffer_pool_block_offset_for block_size block_id block_count of
        None \<Rightarrow> Ret False
      | Some (block, payload_offset) \<Rightarrow>
          bind (shared_store (block_state_c block) (block_word BlockFree)) (\<lambda>_.
          bind (shared_store (block_generation_c block) 0) (\<lambda>_.
          bind (shared_store (block_owner_epoch_c block) 0) (\<lambda>_.
            init_blocks block_size block_count n (block_id + 1)))))"

text \<open>Everything after the mapping exists; a failure unlinks the object and keeps its own code.\<close>

definition pool_init_mapping ::
  "nat \<Rightarrow> SharedBufferPoolOptions \<Rightarrow> u64 \<Rightarrow> ProcessIdentity \<Rightarrow> string \<Rightarrow> u64 \<times> u64 \<Rightarrow>
   (pool_world, pool_handle result) prog" where
  "pool_init_mapping ref options mapping_size self shm_name dev_ino =
     (let abandon = (\<lambda>e. bind (cleanup_created pool_kern_c shm_name (fst dev_ino) (snd dev_ino)) (\<lambda>_.
            Ret (Inl e)))
      in
      bind pool_zero_mapping (\<lambda>_.
        if \<not> owner_valid (owner_from_process self) then abandon kSystemError
        else
          bind (random_u64 pool_kern_c) (\<lambda>hi.
            case hi of None \<Rightarrow> abandon kSystemError | Some nonce_hi \<Rightarrow>
          bind (random_u64 pool_kern_c) (\<lambda>lo.
            case lo of None \<Rightarrow> abandon kSystemError | Some nonce_lo \<Rightarrow>
            if nonce_hi = 0 \<and> nonce_lo = 0 then abandon kSystemError
            else
              let im = pool_init_immutable options mapping_size nonce_hi nonce_lo self in
              bind (shared_store pool_immutable_c im) (\<lambda>_.
              bind (shared_store pool_init_state_c (pool_init_word PoolInitializing)) (\<lambda>_.
              bind (init_blocks (po_block_size options) (po_block_count options)
                      (unat (po_block_count options)) 0) (\<lambda>ok.
                if \<not> ok then abandon kInvalidOptions
                else
                  bind (shared_store pool_checksum_c (pool_header_checksum im)) (\<lambda>_.
                  bind (shared_store pool_init_state_c (pool_init_word PoolReady)) (\<lambda>_.
                    make_pool_handle \<lparr>pl_ref = ref, pl_shm_name = shm_name, pl_dev = fst dev_ino,
                                      pl_ino = snd dev_ino, pl_size = mapping_size, pl_self = self,
                                      pl_created = True\<rparr>)))))))))"

definition shared_buffer_pool_create_impl ::
  "nat \<Rightarrow> SharedBufferPoolOptions \<Rightarrow> (pool_world, pool_handle result) prog" where
  "shared_buffer_pool_create_impl ref options =
     (case pool_validate_options options of
        Inl e \<Rightarrow> Ret (Inl e)
      | Inr _ \<Rightarrow>
          try_bind (kernel_query pool_kern_c current_identity) (\<lambda>self.
            case shared_buffer_pool_mapping_size_for (po_block_size options) (po_block_count options) of
              None \<Rightarrow> Ret (Inl kInvalidOptions)
            | Some mapping_size \<Rightarrow>
                bind (kernel_query pool_kern_c k_getuid) (\<lambda>uid.
                let shm_name = pool_shm_name uid (po_name options) in
                try_bind (shm_open_create pool_kern_c shm_name) (\<lambda>fd.
                bind (shm_fstat_and_capture pool_kern_c fd) (\<lambda>stat_before.
                  case stat_before of
                    Inl e \<Rightarrow>
                      try_bind (shm_capture_created_identity pool_kern_c fd) (\<lambda>(dev, ino).
                      bind (shm_unlink_checked pool_kern_c shm_name dev ino) (\<lambda>removed.
                        case removed of
                          Inl e' \<Rightarrow> if e' \<noteq> kNotFound then Ret (Inl e') else Ret (Inl e)
                        | Inr _ \<Rightarrow> Ret (Inl e)))
                  | Inr st \<Rightarrow>
                      bind (shm_truncate pool_kern_c fd mapping_size) (\<lambda>truncated.
                        case truncated of
                          Inl e \<Rightarrow>
                            bind (cleanup_created pool_kern_c shm_name (st_dev st) (st_ino st)) (\<lambda>_.
                              Ret (Inl e))
                        | Inr _ \<Rightarrow>
                            bind (mmap_region pool_kern_c fd mapping_size) (\<lambda>mapping.
                              case mapping of
                                Inl e \<Rightarrow>
                                  bind (cleanup_created pool_kern_c shm_name (st_dev st) (st_ino st)) (\<lambda>_.
                                    Ret (Inl e))
                              | Inr _ \<Rightarrow>
                                  pool_init_mapping ref options mapping_size self shm_name
                                    (st_dev st, st_ino st))))))))"

subsection \<open>Status and removal\<close>

record SharedBufferPoolStatus =
  ps_ready :: bool
  ps_immutable :: pool_immutable
  ps_free_blocks :: u32
  ps_writing_blocks :: u32
  ps_published_blocks :: u32
  ps_reading_blocks :: u32
  ps_recovery_blocked_blocks :: u32
  ps_creator_alive :: bool

text \<open>The count of one block in the states writing and reading, or the error.\<close>

definition count_owned_block ::
  "pool_handle \<Rightarrow> u64 \<Rightarrow> SharedBufferPoolStatus \<Rightarrow> (pool_world, SharedBufferPoolStatus result) prog" where
  "count_owned_block h block status =
     bind (snapshot_block_owner block) (\<lambda>observation.
       case os_kind observation of
         SnapInactive \<Rightarrow> Ret (Inl kBufferPoolContention)
       | SnapClaiming \<Rightarrow> Ret (Inl kBufferPoolContention)
       | SnapUnstable \<Rightarrow> Ret (Inl kBufferPoolContention)
       | SnapCorrupt \<Rightarrow> Ret (Inl kRecoveryBlocked)
       | SnapEpochExhausted \<Rightarrow> Ret (Inl kRecoveryBlocked)
       | SnapStable \<Rightarrow>
           if os_state observation \<noteq> block_word BlockWriting \<and> os_state observation \<noteq> block_word BlockReading
           then Ret (Inl kCorruptSlot)
           else
             let counted =
               (if os_state observation = block_word BlockWriting
                then status\<lparr>ps_writing_blocks := ps_writing_blocks status + 1\<rparr>
                else status\<lparr>ps_reading_blocks := ps_reading_blocks status + 1\<rparr>);
               foreign_boot =
                 (ow_boot_hi (os_owner observation) \<noteq> id_boot_hi (pl_self h) \<or>
                  ow_boot_lo (os_owner observation) \<noteq> id_boot_lo (pl_self h))
             in
             bind (if foreign_boot then Ret kUnverifiable
                   else kernel_query pool_kern_c
                          (\<lambda>k. probe_liveness k (ow_pid (os_owner observation))
                                 (ow_ticks (os_owner observation)))) (\<lambda>liveness.
               Ret (Inr (if foreign_boot \<or> liveness \<noteq> kAlive
                         then counted\<lparr>ps_recovery_blocked_blocks := ps_recovery_blocked_blocks counted + 1\<rparr>
                         else counted))))"

definition count_block ::
  "pool_handle \<Rightarrow> u64 \<Rightarrow> SharedBufferPoolStatus \<Rightarrow> (pool_world, SharedBufferPoolStatus result) prog" where
  "count_block h block status =
     bind (shared_load (block_state_c block)) (\<lambda>state.
       if state = block_word BlockFree
       then Ret (Inr (status\<lparr>ps_free_blocks := ps_free_blocks status + 1\<rparr>))
       else if state = block_word BlockPublished
       then Ret (Inr (status\<lparr>ps_published_blocks := ps_published_blocks status + 1\<rparr>))
       else if state = block_word BlockWriting \<or> state = block_word BlockReading
       then count_owned_block h block status
       else if state = block_word BlockWritingClaiming \<or> state = block_word BlockReadingClaiming
       then Ret (Inl kBufferPoolContention)
       else if state = block_word BlockEpochExhausted \<or> state = block_word BlockOwnerProtocolFault
       then Ret (Inl kRecoveryBlocked)
       else Ret (Inl kCorruptSlot))"

primrec count_blocks ::
  "pool_handle \<Rightarrow> nat \<Rightarrow> u32 \<Rightarrow> SharedBufferPoolStatus \<Rightarrow> (pool_world, SharedBufferPoolStatus result) prog" where
  "count_blocks h 0 block_id status = Ret (Inr status)"
| "count_blocks h (Suc n) block_id status =
     bind (block_at h block_id) (\<lambda>block.
       case block of
         None \<Rightarrow> Ret (Inl kCorruptSlot)
       | Some off \<Rightarrow> try_bind (count_block h off status) (\<lambda>counted. count_blocks h n (block_id + 1) counted))"

definition shared_buffer_pool_status_impl ::
  "pool_handle option \<Rightarrow> (pool_world, SharedBufferPoolStatus result) prog" where
  "shared_buffer_pool_status_impl handle =
     try_bind (validate_live_pool handle) (\<lambda>h.
     bind (shared_load pool_immutable_c) (\<lambda>im.
     bind (if owner_valid (pi_creator im) \<and> ow_boot_hi (pi_creator im) = id_boot_hi (pl_self h) \<and>
              ow_boot_lo (pi_creator im) = id_boot_lo (pl_self h)
           then kernel_query pool_kern_c
                  (\<lambda>k. probe_liveness k (ow_pid (pi_creator im)) (ow_ticks (pi_creator im)) = kAlive)
           else Ret False) (\<lambda>alive.
       count_blocks h (unat (pi_block_count im)) 0
         \<lparr>ps_ready = True, ps_immutable = im, ps_free_blocks = 0, ps_writing_blocks = 0,
          ps_published_blocks = 0, ps_reading_blocks = 0, ps_recovery_blocked_blocks = 0,
          ps_creator_alive = alive\<rparr>)))"

text \<open>Removal requires every block to be free.\<close>

primrec all_blocks_free :: "pool_handle \<Rightarrow> nat \<Rightarrow> u32 \<Rightarrow> (pool_world, unit result) prog" where
  "all_blocks_free h 0 block_id = Ret (Inr ())"
| "all_blocks_free h (Suc n) block_id =
     bind (block_at h block_id) (\<lambda>block.
       case block of
         None \<Rightarrow> Ret (Inl kCorruptSlot)
       | Some off \<Rightarrow>
           bind (shared_load (block_state_c off)) (\<lambda>state.
             if state = block_word BlockFree then all_blocks_free h n (block_id + 1)
             else if state = block_word BlockPublished then Ret (Inl kBufferPoolContention)
             else
               bind (snapshot_block_owner off) (\<lambda>observation.
                 if os_kind observation = SnapCorrupt \<or> os_kind observation = SnapEpochExhausted
                 then Ret (Inl kRecoveryBlocked) else Ret (Inl kBufferPoolContention))))"

definition shared_buffer_pool_remove_if_creator_impl ::
  "pool_handle option \<Rightarrow> (pool_world, unit result) prog" where
  "shared_buffer_pool_remove_if_creator_impl handle =
     try_bind (validate_live_pool handle) (\<lambda>h.
     bind (shared_load pool_immutable_c) (\<lambda>im.
       if \<not> owner_matches (pi_creator im) (pl_self h) then Ret (Inl kPermissionDenied)
       else
         try_bind (all_blocks_free h (unat (pi_block_count im)) 0) (\<lambda>_.
         try_bind (shm_unlink_checked pool_kern_c (pl_shm_name h) (pl_dev h) (pl_ino h)) (\<lambda>_.
         bind (shared_store (removed_c h) True) (\<lambda>_.
           Ret (Inr ()))))))"

text \<open>The accessors: 0 for a missing or removed handle.\<close>

definition pool_field_or_zero :: "(pool_immutable \<Rightarrow> 'a :: zero) \<Rightarrow> pool_handle option \<Rightarrow> (pool_world, 'a) prog" where
  "pool_field_or_zero f handle =
     (case handle of
        None \<Rightarrow> Ret 0
      | Some h \<Rightarrow>
          bind (shared_load (removed_c h)) (\<lambda>removed.
            if removed then Ret 0 else bind (shared_load pool_immutable_c) (\<lambda>im. Ret (f im))))"

definition shared_buffer_pool_block_size_impl :: "pool_handle option \<Rightarrow> (pool_world, u32) prog" where
  "shared_buffer_pool_block_size_impl = pool_field_or_zero pi_block_size"

definition shared_buffer_pool_block_count_impl :: "pool_handle option \<Rightarrow> (pool_world, u32) prog" where
  "shared_buffer_pool_block_count_impl = pool_field_or_zero pi_block_count"

definition shared_buffer_pool_generation_impl :: "pool_handle option \<Rightarrow> (pool_world, u64) prog" where
  "shared_buffer_pool_generation_impl = pool_field_or_zero pi_generation"

end
