(* ===== verification/ER_Pool_Seq.thy ===== *)
theory ER_Pool_Seq
  imports ER_Pool_History ER_Pool_Admin
begin

text \<open>
  The buffer pool without interference: where the blocks lie, what a run of each operation returns and
  leaves behind, the round trip of a buffer from one process to another, and the errors of a pool that
  has no block to write.
\<close>

text \<open>
  C16. In a mapping of the computed size the headers and payloads of two blocks do not overlap, lie after
  the pool header and end inside the mapping, without overflow; payloads are aligned to 64 bytes.
\<close>

theorem pool_blocks_disjoint:
  assumes "shared_buffer_pool_mapping_size_for bs bc = Some sz" and "i < bc" and "j < bc" and "i \<noteq> j"
  shows "\<exists>oi pi oj pj. shared_buffer_pool_block_offset_for bs i bc = Some (oi, pi) \<and>
    shared_buffer_pool_block_offset_for bs j bc = Some (oj, pj) \<and>
    192 \<le> unat oi \<and> unat pi = unat oi + 64 \<and> unat pi mod 64 = 0 \<and> unat pi + unat bs \<le> unat sz \<and>
    {unat oi ..< unat pi + unat bs} \<inter> {unat oj ..< unat pj + unat bs} = {}"
proof -
  have geo: "pool_geometry bs bc"
    using assms(1)
    by (auto simp: shared_buffer_pool_mapping_size_for_def pool_geometry_def shared_buffer_pool_stride_for_def
        kSharedBufferPoolMaxBlockCount_def word_less_nat_alt not_less unat_gt_0 Suc_le_eq
        split: if_splits option.splits)
  have sz: "unat sz = 192 + unat bc * pool_stride bs"
    using pool_mapping_size_eq [OF geo] assms(1) by auto
  obtain oi pi' oj pj where o: "shared_buffer_pool_block_offset_for bs i bc = Some (oi, pi')"
    "unat oi = 192 + unat i * pool_stride bs" "unat pi' = unat oi + 64"
    "shared_buffer_pool_block_offset_for bs j bc = Some (oj, pj)"
    "unat oj = 192 + unat j * pool_stride bs" "unat pj = unat oj + 64"
    using pool_block_offset_eq [OF geo assms(2)] pool_block_offset_eq [OF geo assms(3)] by metis
  have step: "a * s + s \<le> b * s" if "a < b" for a b s :: nat
    using mult_le_mono1 [of "Suc a" b s] that by simp
  have i: "unat i < unat bc" and ij: "unat i < unat j \<or> unat j < unat i"
    using assms(2,4) by (auto simp: word_less_nat_alt word_unat_eq_iff)
  have dvd: "64 dvd pool_stride bs"
    using geo pool_stride_bound [of bs] by (simp add: pool_geometry_def)
  have st: "pool_stride bs = 64 + unat bs" by (simp add: pool_stride_def)
  have "unat pi' mod 64 = 0"
    using o(2,3) dvd by (auto intro!: dvd_add dvd_mult simp flip: dvd_eq_mod_eq_0)
  moreover have "unat pi' + unat bs \<le> unat sz"
    using o(2,3) sz step [OF i, of "pool_stride bs"] st by linarith
  moreover have "unat pi' + unat bs \<le> unat oj \<or> unat pj + unat bs \<le> unat oi"
    using o ij step [of "unat i" "unat j" "pool_stride bs"] step [of "unat j" "unat i" "pool_stride bs"] st
    by linarith
  then have "{unat oi ..< unat pi' + unat bs} \<inter> {unat oj ..< unat pj + unat bs} = {}"
    by auto
  ultimately show ?thesis
    using o by (intro exI [of _ oi] exI [of _ pi'] exI [of _ oj] exI [of _ pj]) simp
qed

theorem pool_blocks_disjoint_witness:
  "\<exists>oi pi oj pj. shared_buffer_pool_block_offset_for 4096 0 2 = Some (oi, pi) \<and>
    shared_buffer_pool_block_offset_for 4096 1 2 = Some (oj, pj) \<and>
    192 \<le> unat oi \<and> unat pi = unat oi + 64 \<and> unat pi mod 64 = 0 \<and> unat pi + unat (4096 :: u32) \<le> unat (8512 :: u64) \<and>
    {unat oi ..< unat pi + unat (4096 :: u32)} \<inter> {unat oj ..< unat pj + unat (4096 :: u32)} = {}"
  by (rule pool_blocks_disjoint)
    (simp_all add: shared_buffer_pool_mapping_size_for_def shared_buffer_pool_stride_for_def
      shared_buffer_pool_block_size_valid_def kSharedBufferPoolBlockSize4K_def
      kSharedBufferPoolMaxBlockCount_def pool_block_header_size_def pool_header_size_def
      round_up_to_multiple_u64_def checked_add_u64_def checked_mul_u64_def U64_MAX_def Let_def)

subsection \<open>A pool without interference\<close>

definition pool_ready :: "pool_handle \<Rightarrow> pool_world \<Rightarrow> bool" where
  "pool_ready h w \<longleftrightarrow>
     pool_geometry (pi_block_size (pool_im w)) (pi_block_count (pool_im w)) \<and>
     unat (pl_size h) = 192 + unat (pi_block_count (pool_im w)) * pool_stride (pi_block_size (pool_im w)) \<and>
     \<not> pw_removed w (pl_ref h) \<and> ph_init_state (pw_hdr w) = pool_init_word PoolReady \<and>
     owner_valid (owner_from_process (pl_self h))"

definition block_off :: "pool_world \<Rightarrow> u32 \<Rightarrow> u64" where
  "block_off w i = fst (the (shared_buffer_pool_block_offset_for (pi_block_size (pool_im w)) i (pi_block_count (pool_im w))))"

lemma pool_block_off:
  assumes "pool_ready h w" and "i < pi_block_count (pool_im w)"
  shows "shared_buffer_pool_block_offset_for (pi_block_size (pool_im w)) i (pi_block_count (pool_im w))
      = Some (block_off w i, block_off w i + 64)"
    and "unat (block_off w i) = 192 + unat i * pool_stride (pi_block_size (pool_im w))"
    and "run (block_at h i) w = (Some (block_off w i), w)"
    and "run (payload_at h i) w = (Some (block_off w i + 64), w)"
proof -
  let ?bs = "pi_block_size (pool_im w)" and ?bc = "pi_block_count (pool_im w)"
  have geo: "pool_geometry ?bs ?bc" and sz: "unat (pl_size h) = 192 + unat ?bc * pool_stride ?bs"
    using assms(1) by (auto simp: pool_ready_def)
  obtain off where o: "shared_buffer_pool_block_offset_for ?bs i ?bc = Some (off, off + 64)"
      "unat off = 192 + unat i * pool_stride ?bs" "unat (off + 64) = unat off + 64"
    using pool_block_offset_eq [OF geo assms(2)] by auto
  then have off: "block_off w i = off" by (simp add: block_off_def)
  show "shared_buffer_pool_block_offset_for ?bs i ?bc = Some (block_off w i, block_off w i + 64)"
    "unat (block_off w i) = 192 + unat i * pool_stride ?bs"
    using o by (simp_all add: off)
  have i: "unat i < unat ?bc" using assms(2) by (simp add: word_less_nat_alt)
  have fits: "unat off + 64 + unat ?bs \<le> unat (pl_size h)"
    using o(2) sz i mult_le_mono1 [of "Suc (unat i)" "unat ?bc" "pool_stride ?bs"] by (simp add: pool_stride_def)
  have le: "off \<le> pl_size h" "off + 64 \<le> pl_size h"
    using fits o(3) by (simp_all add: word_le_nat_alt)
  have "64 \<le> pl_size h - off" "ucast ?bs \<le> pl_size h - (off + 64)"
    using fits o(3) le by (simp_all add: word_le_nat_alt unat_sub_no_wrap)
  then show "run (block_at h i) w = (Some (block_off w i), w)"
    and "run (payload_at h i) w = (Some (block_off w i + 64), w)"
    using le by (simp_all add: block_at_def payload_at_def run_simps o(1) off pool_block_header_size_def not_less)
qed

lemma block_off_inj:
  assumes "pool_ready h w" and "i < pi_block_count (pool_im w)" and "j < pi_block_count (pool_im w)" and "i \<noteq> j"
  shows "block_off w i \<noteq> block_off w j"
proof -
  have "0 < pool_stride (pi_block_size (pool_im w))" by (simp add: pool_stride_def)
  then show ?thesis
    using pool_block_off(2) [OF assms(1,2)] pool_block_off(2) [OF assms(1,3)] assms(4)
    by (auto simp: word_unat_eq_iff)
qed

lemma run_set_block_owner [run_simps]:
  "run (set_owner (block_owner_c off) p) w =
     ((), w\<lparr>pw_blocks := (pw_blocks w)(off := (pw_blocks w off)\<lparr>pb_owner := owner_from_process p\<rparr>)\<rparr>)"
proof -
  have "lens (block_owner_c off)"
    by unfold_locales (simp_all add: cell_defs)
  then show ?thesis by (simp add: set_owner_def run_store_owner run_simps)
qed

definition usable :: "pool_block \<Rightarrow> bool" where
  "usable x \<longleftrightarrow>
     pb_state x = block_word BlockFree \<and> pb_generation x \<noteq> U64_MAX \<and>
     committed_epoch_ok (pb_owner_epoch x) \<and> 4 \<le> kMaxCommittedOwnerEpoch - pb_owner_epoch x"

definition descriptor_of :: "pool_immutable \<Rightarrow> u32 \<Rightarrow> u64 \<Rightarrow> u64 \<Rightarrow> BufferHandle" where
  "descriptor_of im i off n =
     \<lparr>bh_pool_generation = pi_generation im, bh_block_generation = n, bh_nonce_hi = pi_nonce_hi im,
      bh_nonce_lo = pi_nonce_lo im, bh_offset = off + 64, bh_block_id = i, bh_length = pi_block_size im,
      bh_schema_version = pi_schema_version im, bh_reserved = 0,
      bh_schema_fingerprint = pi_schema_fingerprint im\<rparr>"

definition write_buffer_of :: "pool_handle \<Rightarrow> pool_world \<Rightarrow> u32 \<Rightarrow> u64 \<Rightarrow> WriteBuffer" where
  "write_buffer_of h w i n =
     \<lparr>wb_pool = Some h, wb_block = Some (block_off w i), wb_data = Some (block_off w i + 64),
      wb_size = pi_block_size (pool_im w), wb_descriptor = descriptor_of (pool_im w) i (block_off w i) n,
      wb_active = True\<rparr>"

definition acquired_block :: "pool_handle \<Rightarrow> pool_block \<Rightarrow> pool_block" where
  "acquired_block h x =
     x\<lparr>pb_generation := pb_generation x + 1, pb_owner := owner_from_process (pl_self h),
       pb_owner_epoch := pb_owner_epoch x + 2, pb_state := block_word BlockWriting\<rparr>"

definition put_block :: "pool_world \<Rightarrow> u64 \<Rightarrow> pool_block \<Rightarrow> pool_world" where
  "put_block w off x = w\<lparr>pw_blocks := (pw_blocks w)(off := x)\<rparr>"

lemma pool_ready_put [simp]: "pool_ready h (put_block w off x) = pool_ready h w"
  by (simp add: pool_ready_def put_block_def)

lemma put_block_simps [simp]:
  "pool_im (put_block w off x) = pool_im w" "block_off (put_block w off x) i = block_off w i"
  "pw_blocks (put_block w off x) off' = (if off' = off then x else pw_blocks w off')"
  "put_block (put_block w off x) off y = put_block w off y"
  "pw_payload (put_block w off x) = pw_payload w"
  by (simp_all add: put_block_def block_off_def)

text \<open>A round of the search either takes the block or leaves every other block as it was.\<close>

lemma run_try_acquire_block:
  assumes ready: "pool_ready h w" and i: "i < pi_block_count (pool_im w)"
  defines "off \<equiv> block_off w i"
  shows "usable (pw_blocks w off) \<Longrightarrow>
      run (try_acquire_block h i off flags) w =
        (Inr (Inr (write_buffer_of h w i (pb_generation (pw_blocks w off) + 1))),
         put_block w off (acquired_block h (pw_blocks w off)))"
    and "\<not> usable (pw_blocks w off) \<Longrightarrow>
      \<exists>f x. run (try_acquire_block h i off flags) w = (Inl f, put_block w off x)"
proof -
  let ?x = "pw_blocks w off"
  note at = pool_block_off [OF ready i, folded off_def]
  have pay: "run (payload_at h i) w' = (Some (off + 64), w')" if "pw_hdr w' = pw_hdr w" for w'
  proof -
    have "fst (run (payload_at h i) w') = fst (run (payload_at h i) w)"
      using that by (simp add: payload_at_def run_simps split: option.splits)
    moreover have "snd (run (payload_at h i) w') = w'"
      by (simp add: payload_at_def run_simps split: option.splits prod.splits)
    ultimately show ?thesis using at(4) by (simp add: prod_eq_iff)
  qed
  show "run (try_acquire_block h i off flags) w =
      (Inr (Inr (write_buffer_of h w i (pb_generation ?x + 1))), put_block w off (acquired_block h ?x))"
    if u: "usable ?x"
    using u at(1)
    by (simp add: try_acquire_block_def claim_write_block_def commit_write_block_def make_handle_def
        run_simps usable_def committed_epoch_ok_def pay write_buffer_of_def descriptor_of_def acquired_block_def put_block_def off_def not_less)
  have same: "\<exists>x. w = put_block w off x"
    by (intro exI [of _ ?x]) (simp add: put_block_def)
  have upd: "\<exists>x. w\<lparr>pw_blocks := (pw_blocks w)(off := y)\<rparr> = put_block w off x" for y
    by (intro exI [of _ y]) (simp add: put_block_def)
  obtain f where noted: "run (note_active_block h off flags) w = (f, w)"
    using reads_only_run [OF reads_only_note_active] by (metis prod.collapse)
  show "\<exists>f x. run (try_acquire_block h i off flags) w = (Inl f, put_block w off x)" if "\<not> usable ?x"
  proof (cases "pb_state ?x = block_word BlockFree")
    case False
    then show ?thesis
      unfolding try_acquire_block_def by (simp add: run_simps noted same del: block_word.simps)
  next
    case True
    then show ?thesis
      using that
      by (auto simp: try_acquire_block_def claim_write_block_def run_simps usable_def committed_epoch_ok_def not_less not_le intro: upd)
  qed
qed

lemma u32_next:
  assumes "unat (i :: u32) + Suc n = unat c"
  shows "unat (i + 1) + n = unat (c :: u32)" and "i < c"
proof -
  have "unat i + 1 < 2 ^ 32" using assms unat_u32_less [of c] by simp
  then have "unat (i + 1) = unat i + 1" by (simp add: unat_word_ariths(1))
  then show "unat (i + 1) + n = unat c" using assms by simp
  show "i < c" using assms by (simp add: word_less_nat_alt)
qed

text \<open>The search finds a usable block if there is one at or after \<open>i\<close>, and touches blocks only.\<close>

lemma run_acquire_loop:
  assumes "pool_ready h w" and "unat i + n = unat (pi_block_count (pool_im w))"
    and "i \<le> j" and "j < pi_block_count (pool_im w)" and "usable (pw_blocks w (block_off w j))"
  shows "\<exists>k B. i \<le> k \<and> k < pi_block_count (pool_im w) \<and> usable (pw_blocks w (block_off w k)) \<and>
    B (block_off w k) = acquired_block h (pw_blocks w (block_off w k)) \<and>
    run (try_acquire_loop h n i flags) w =
      (Inr (write_buffer_of h w k (pb_generation (pw_blocks w (block_off w k)) + 1)), w\<lparr>pw_blocks := B\<rparr>)"
  using assms
proof (induction n arbitrary: i flags w)
  case 0
  then show ?case by (simp add: word_less_nat_alt word_le_nat_alt)
next
  case (Suc n)
  note next_i = u32_next [OF Suc.prems(2)]
  note at = pool_block_off [OF Suc.prems(1) next_i(2)]
  let ?off = "block_off w i"
  show ?case
  proof (cases "usable (pw_blocks w ?off)")
    case True
    then show ?thesis
      using run_try_acquire_block(1) [OF Suc.prems(1) next_i(2) True] next_i(2)
      by (intro exI [of _ i] exI [of _ "(pw_blocks w)(?off := acquired_block h (pw_blocks w ?off))"])
        (simp add: run_simps at(3) put_block_def fun_upd_def)
  next
    case False
    obtain f x where r: "run (try_acquire_block h i ?off flags) w = (Inl f, put_block w ?off x)"
      using run_try_acquire_block(2) [OF Suc.prems(1) next_i(2) False] by blast
    let ?w = "put_block w ?off x"
    have ij: "i \<noteq> j" using False Suc.prems(5) by auto
    have other: "pw_blocks ?w (block_off w k) = pw_blocks w (block_off w k)"
      if "k < pi_block_count (pool_im w)" "k \<noteq> i" for k
      using block_off_inj [OF Suc.prems(1) that(1) next_i(2) that(2)] by simp
    have j: "i + 1 \<le> j" using Suc.prems(3) ij by (simp add: inc_le)
    have u: "usable (pw_blocks ?w (block_off ?w j))"
      using Suc.prems(5) other [OF Suc.prems(4)] ij by auto
    obtain k B where k: "i + 1 \<le> k" "k < pi_block_count (pool_im w)" "usable (pw_blocks ?w (block_off w k))"
        "B (block_off w k) = acquired_block h (pw_blocks ?w (block_off w k))"
        "run (try_acquire_loop h n (i + 1) f) ?w =
          (Inr (write_buffer_of h ?w k (pb_generation (pw_blocks ?w (block_off w k)) + 1)), ?w\<lparr>pw_blocks := B\<rparr>)"
      using Suc.IH [of ?w "i + 1" f] Suc.prems(1,4) next_i(1) j u by auto
    have ik: "i < k"
      using k(1) next_i Suc.prems(2) by (simp add: word_less_nat_alt word_le_nat_alt)
    have B: "pw_blocks ?w (block_off w k) = pw_blocks w (block_off w k)"
      using other [OF k(2)] ik by auto
    show ?thesis
      using k ik r unfolding B
      by (intro exI [of _ k] exI [of _ B])
        (simp add: run_simps at(3) write_buffer_of_def, simp add: put_block_def)
  qed
qed

lemma run_acquire_write:
  assumes "pool_ready h w" and "j < pi_block_count (pool_im w)" and "usable (pw_blocks w (block_off w j))"
  shows "\<exists>k B. k < pi_block_count (pool_im w) \<and> usable (pw_blocks w (block_off w k)) \<and>
    B (block_off w k) = acquired_block h (pw_blocks w (block_off w k)) \<and>
    run (shared_buffer_pool_try_acquire_write_impl (Some h)) w =
      (Inr (write_buffer_of h w k (pb_generation (pw_blocks w (block_off w k)) + 1)), w\<lparr>pw_blocks := B\<rparr>)"
proof -
  have "run (validate_live_pool (Some h)) w = (Inr h, w)"
    using assms(1) by (simp add: validate_live_pool_def run_simps pool_ready_def)
  then show ?thesis
    using run_acquire_loop [OF assms(1) _ _ assms(2,3), of 0 "unat (pi_block_count (pool_im w))"
        "\<lparr>saw_contention = False, saw_recovery = False, saw_exhausted = False\<rparr>"]
    by (auto simp: shared_buffer_pool_try_acquire_write_impl_def run_simps)
qed

lemma run_memcpy_to_pool [run_simps]:
  "run (memcpy_to (pool_payload_c base) i bs) w =
     ((), w\<lparr>pw_payload := (pw_payload w)(base := store_bytes (pw_payload w base) i bs)\<rparr>)"
  by (induction bs arbitrary: i w) (simp_all add: run_simps)

definition held_block :: "pool_handle \<Rightarrow> u32 \<Rightarrow> pool_block \<Rightarrow> bool" where
  "held_block h st x \<longleftrightarrow>
     pb_state x = st \<and> committed_epoch_ok (pb_owner_epoch x) \<and> pb_owner x = owner_from_process (pl_self h)"

lemma run_snapshot_held:
  assumes "held_block h st (pw_blocks w off)" and "classify_block_state st = StOwned"
    and "owner_valid (owner_from_process (pl_self h))"
  shows "run (snapshot_block_owner off) w =
    (snapshot_of SnapStable st (owner_from_process (pl_self h)) (pb_owner_epoch (pw_blocks w off)), w)"
  using assms
  by (simp add: held_block_def snapshot_block_owner_def run_simps
      observe_owner_def snapshot_of_def committed_epoch_ok_def)


lemma owner_matches_self [simp]: "owner_matches (owner_from_process p) p"
  by (simp add: owner_matches_def owner_from_process_def)

lemma run_publish_write:
  assumes "pool_ready h w" and "wb_active buf" "wb_pool buf = Some h" "wb_block buf = Some off"
    and held: "held_block h (block_word BlockWriting) (pw_blocks w off)"
    and "pb_generation (pw_blocks w off) = bh_block_generation (wb_descriptor buf)"
  shows "run (shared_buffer_pool_publish_write_impl (Some buf)) w =
    ((Inr (wb_descriptor buf), Some (clear_write_buffer buf)),
     put_block w off ((pw_blocks w off)\<lparr>pb_state := block_word BlockPublished\<rparr>))"
proof -
  have "run (validate_live_pool (Some h)) w = (Inr h, w)"
    using assms(1) by (simp add: validate_live_pool_def run_simps pool_ready_def)
  moreover have "pb_state (pw_blocks w off) = block_word BlockWriting"
    using held by (simp add: held_block_def)
  ultimately show ?thesis
    using assms run_snapshot_held [OF held]
    by (simp add: shared_buffer_pool_publish_write_impl_def run_simps pool_ready_def classify_block_state_def
        snapshot_of_def put_block_def)
qed

lemma run_free_owned:
  assumes "pool_ready h w" and held: "held_block h (block_word st) (pw_blocks w off)"
    and "st = BlockWriting \<or> st = BlockReading"
    and "pb_generation (pw_blocks w off) = bh_block_generation d"
  shows "run (free_owned_block h off st d) w =
    ((), put_block w off ((pw_blocks w off)\<lparr>pb_state := block_word BlockFree\<rparr>))"
proof -
  have "classify_block_state (block_word st) = StOwned"
    using assms(3) by (auto simp: classify_block_state_def)
  then show ?thesis
    using assms run_snapshot_held [OF held]
    by (simp add: free_owned_block_def run_simps pool_ready_def snapshot_of_def put_block_def)
qed

lemma acquired_held:
  assumes "usable x"
  shows "held_block h (block_word BlockWriting) (acquired_block h x)"
    and "committed_epoch_ok (pb_owner_epoch x + 2)" and "2 \<le> kMaxCommittedOwnerEpoch - (pb_owner_epoch x + 2)"
proof -
  have ok: "committed_epoch_ok (pb_owner_epoch x)" and four: "unat (pb_owner_epoch x) + 4 \<le> 2 ^ 64 - 2"
    using assms epoch_left_iff [of "pb_owner_epoch x" 4] by (auto simp: usable_def)
  have two: "2 \<le> kMaxCommittedOwnerEpoch - pb_owner_epoch x"
    using four by (simp add: epoch_left_iff [OF ok])
  note next_e = epoch_next [OF ok two]
  show "committed_epoch_ok (pb_owner_epoch x + 2)" by (rule next_e(2))
  then show "held_block h (block_word BlockWriting) (acquired_block h x)"
    by (simp add: held_block_def acquired_block_def)
  show "2 \<le> kMaxCommittedOwnerEpoch - (pb_owner_epoch x + 2)"
    using four by (simp add: epoch_left_iff [OF next_e(2)] next_e(1))
qed

definition sent_block :: "pool_handle \<Rightarrow> pool_block \<Rightarrow> pool_block" where
  "sent_block h x = (acquired_block h x)\<lparr>pb_state := block_word BlockPublished\<rparr>"

lemma run_send:
  assumes "pool_ready h w" and "j < pi_block_count (pool_im w)" and "usable (pw_blocks w (block_off w j))"
  shows "\<exists>k B. k < pi_block_count (pool_im w) \<and> usable (pw_blocks w (block_off w k)) \<and>
    B (block_off w k) = sent_block h (pw_blocks w (block_off w k)) \<and>
    run (pool_send (Some h) b) w =
      (Inr (descriptor_of (pool_im w) k (block_off w k) (pb_generation (pw_blocks w (block_off w k)) + 1)),
       w\<lparr>pw_blocks := B, pw_payload := (pw_payload w)(block_off w k + 64 :=
           store_bytes (pw_payload w (block_off w k + 64)) 0 b)\<rparr>)"
proof -
  obtain k B where k: "k < pi_block_count (pool_im w)" "usable (pw_blocks w (block_off w k))"
      "B (block_off w k) = acquired_block h (pw_blocks w (block_off w k))"
      "run (shared_buffer_pool_try_acquire_write_impl (Some h)) w =
        (Inr (write_buffer_of h w k (pb_generation (pw_blocks w (block_off w k)) + 1)), w\<lparr>pw_blocks := B\<rparr>)"
    using run_acquire_write [OF assms] by blast
  let ?off = "block_off w k" and ?x = "pw_blocks w (block_off w k)"
  let ?buf = "write_buffer_of h w k (pb_generation ?x + 1)"
  let ?w = "w\<lparr>pw_blocks := B, pw_payload := (pw_payload w)(?off + 64 := store_bytes (pw_payload w (?off + 64)) 0 b)\<rparr>"
  have pub: "run (shared_buffer_pool_publish_write_impl (Some ?buf)) ?w =
      ((Inr (wb_descriptor ?buf), Some (clear_write_buffer ?buf)),
       put_block ?w ?off (sent_block h ?x))"
    using run_publish_write [of h ?w ?buf ?off] assms(1) acquired_held(1) [OF k(2), of h] k(3)
    by (simp add: pool_ready_def write_buffer_of_def descriptor_of_def acquired_block_def sent_block_def)
  have "run (pool_send (Some h) b) w = (Inr (wb_descriptor ?buf), put_block ?w ?off (sent_block h ?x))"
    using k(4) pub
    by (simp add: pool_send_def run_simps write_buffer_of_def clear_write_buffer_def
        shared_buffer_pool_abort_write_impl_def)
  then show ?thesis
    using k(1,2)
    by (intro exI [of _ k] exI [of _ "B(?off := sent_block h ?x)"]) (simp add: put_block_def write_buffer_of_def)
qed

definition read_block :: "pool_handle \<Rightarrow> pool_block \<Rightarrow> pool_block" where
  "read_block h x =
     x\<lparr>pb_owner := owner_from_process (pl_self h), pb_owner_epoch := pb_owner_epoch x + 2,
       pb_state := block_word BlockReading\<rparr>"

lemma run_validate_descriptor:
  assumes "pool_ready h w" and "k < pi_block_count (pool_im w)" and "n \<noteq> 0"
  shows "run (validate_descriptor (Some h) (descriptor_of (pool_im w) k (block_off w k) n)) w =
    (if pb_generation (pw_blocks w (block_off w k)) = n then Inr h else Inl kBufferInvalidHandle, w)"
proof -
  have "run (validate_live_pool (Some h)) w = (Inr h, w)"
    using assms(1) by (simp add: validate_live_pool_def run_simps pool_ready_def)
  then show ?thesis
    using assms(2,3) pool_block_off(1,3) [OF assms(1,2)]
    by (simp add: validate_descriptor_def run_simps descriptor_of_def handle_schema_matches_def not_le)
qed

lemma run_acquire_read:
  assumes "pool_ready h w" and "k < pi_block_count (pool_im w)" and "n \<noteq> 0"
  defines "off \<equiv> block_off w k"
  defines "x \<equiv> pw_blocks w off"
  assumes "pb_state x = block_word BlockPublished" and "pb_generation x = n"
    and ok: "committed_epoch_ok (pb_owner_epoch x)" and two: "2 \<le> kMaxCommittedOwnerEpoch - pb_owner_epoch x"
  shows "run (shared_buffer_pool_acquire_read_impl (Some h) (descriptor_of (pool_im w) k off n)) w =
    (Inr \<lparr>rb_pool = Some h, rb_block = Some off, rb_data = Some (off + 64), rb_size = pi_block_size (pool_im w),
          rb_descriptor = descriptor_of (pool_im w) k off n, rb_active = True\<rparr>,
     put_block w off (read_block h x))"
proof -
  have "run (validate_descriptor (Some h) (descriptor_of (pool_im w) k off n)) w = (Inr h, w)"
    using run_validate_descriptor [OF assms(1-3)] assms(7) by (simp add: off_def x_def)
  moreover have "pb_owner_epoch x AND 1 = 0" "\<not> kMaxCommittedOwnerEpoch < pb_owner_epoch x"
      "\<not> kMaxCommittedOwnerEpoch - pb_owner_epoch x < 2"
    using ok two by (auto simp: committed_epoch_ok_def not_less)
  ultimately show ?thesis
    using pool_block_off(3,4) [OF assms(1,2), folded off_def] assms(6,7) two
    by (simp add: shared_buffer_pool_acquire_read_impl_def claim_read_block_def run_simps descriptor_of_def
        read_block_def put_block_def flip: x_def)
qed

lemma u64_next_nonzero: "x \<noteq> U64_MAX \<Longrightarrow> x + 1 \<noteq> 0"
proof -
  have "U64_MAX = - 1" by (simp add: U64_MAX_def)
  then show "x \<noteq> U64_MAX \<Longrightarrow> x + 1 \<noteq> 0" by (metis eq_neg_iff_add_eq_0)
qed

lemma run_receive:
  assumes ready: "pool_ready h w" and k: "k < pi_block_count (pool_im w)" and n: "n \<noteq> 0"
  defines "off \<equiv> block_off w k"
  defines "x \<equiv> pw_blocks w off"
  assumes st: "pb_state x = block_word BlockPublished" and gen: "pb_generation x = n"
    and ok: "committed_epoch_ok (pb_owner_epoch x)" and two: "2 \<le> kMaxCommittedOwnerEpoch - pb_owner_epoch x"
  shows "run (pool_receive (Some h) (descriptor_of (pool_im w) k off n)) w =
    (Inr (pool_content (pool_im w) (pw_payload w (off + 64))),
     put_block w off ((read_block h x)\<lparr>pb_state := block_word BlockFree\<rparr>))"
proof -
  let ?w = "put_block w off (read_block h x)" and ?d = "descriptor_of (pool_im w) k off n"
  note acq = run_acquire_read [OF ready k n, folded off_def, folded x_def, OF st gen ok two]
  have "held_block h (block_word BlockReading) (pw_blocks ?w off)"
    using epoch_next(2) [OF ok two] by (simp add: held_block_def read_block_def)
  then have fin: "run (free_owned_block h off BlockReading ?d) ?w =
      ((), put_block w off ((read_block h x)\<lparr>pb_state := block_word BlockFree\<rparr>))"
    using run_free_owned [of h ?w BlockReading off ?d] ready gen
    by (simp add: read_block_def descriptor_of_def)
  show ?thesis
    using acq fin
    by (simp add: pool_receive_def run_simps shared_buffer_pool_release_read_impl_def pool_content_def)
qed

lemma run_receive_free:
  assumes "pool_ready h w" and "k < pi_block_count (pool_im w)" and "n \<noteq> 0"
    and "pb_state (pw_blocks w (block_off w k)) = block_word BlockFree"
    and "pb_generation (pw_blocks w (block_off w k)) = n"
  shows "run (pool_receive (Some h) (descriptor_of (pool_im w) k (block_off w k) n)) w = (Inl kBufferStateMismatch, w)"
  using run_validate_descriptor [OF assms(1-3)] pool_block_off(3,4) [OF assms(1,2)] assms(4,5)
  by (simp add: pool_receive_def shared_buffer_pool_acquire_read_impl_def run_simps, simp add: descriptor_of_def run_simps)

text \<open>
  C7. Without interference, what one process sends through the pool another process receives under the
  returned descriptor, whenever some block is usable: the received bytes start with the sent ones and fill
  the block. The descriptor then is spent: a second receive fails with \<open>kBufferStateMismatch\<close> and
  changes nothing.
\<close>

theorem pool_roundtrip:
  assumes ready: "pool_ready h w" "pool_ready h' w"
    and j: "j < pi_block_count (pool_im w)" "usable (pw_blocks w (block_off w j))"
    and len: "length b \<le> unat (pi_block_size (pool_im w))"
  shows "\<exists>d w1 content w2. run (pool_send (Some h) b) w = (Inr d, w1) \<and>
    run (pool_receive (Some h') d) w1 = (Inr content, w2) \<and>
    prefix b content \<and> length content = unat (pi_block_size (pool_im w)) \<and>
    run (pool_receive (Some h') d) w2 = (Inl kBufferStateMismatch, w2)"
proof -
  obtain k B where k: "k < pi_block_count (pool_im w)" and u: "usable (pw_blocks w (block_off w k))"
      and B: "B (block_off w k) = sent_block h (pw_blocks w (block_off w k))"
      and s: "run (pool_send (Some h) b) w =
      (Inr (descriptor_of (pool_im w) k (block_off w k) (pb_generation (pw_blocks w (block_off w k)) + 1)),
       w\<lparr>pw_blocks := B, pw_payload := (pw_payload w)(block_off w k + 64 :=
           store_bytes (pw_payload w (block_off w k + 64)) 0 b)\<rparr>)"
    using run_send [OF ready(1) j, of b] by blast
  let ?off = "block_off w k" and ?x = "pw_blocks w (block_off w k)"
  let ?n = "pb_generation ?x + 1"
  let ?w = "w\<lparr>pw_blocks := B, pw_payload := (pw_payload w)(?off + 64 := store_bytes (pw_payload w (?off + 64)) 0 b)\<rparr>"
  let ?d = "descriptor_of (pool_im w) k ?off ?n"
  let ?y = "(read_block h' (sent_block h ?x))\<lparr>pb_state := block_word BlockFree\<rparr>"
  have n: "?n \<noteq> 0"
    using u by (auto simp: usable_def intro!: u64_next_nonzero)
  have same [simp]: "block_off ?w k = ?off" "pool_im ?w = pool_im w" by (simp_all add: block_off_def)
  have r': "pool_ready h' ?w" using ready(2) by (simp add: pool_ready_def)
  have rcv: "run (pool_receive (Some h') ?d) ?w =
      (Inr (pool_content (pool_im w) (pw_payload ?w (?off + 64))), put_block ?w ?off ?y)"
    using run_receive [OF r' _ n, of k] k B acquired_held(2,3) [OF u]
    by (simp add: sent_block_def acquired_block_def)
  have "run (pool_receive (Some h') ?d) (put_block ?w ?off ?y) = (Inl kBufferStateMismatch, put_block ?w ?off ?y)"
    using run_receive_free [of h' "put_block ?w ?off ?y" k ?n] r' k n
    by (simp add: read_block_def sent_block_def acquired_block_def)
  moreover have "prefix b (pool_content (pool_im w) (pw_payload ?w (?off + 64)))"
    using prefix_pool_content [OF _ len, of "pw_payload ?w (?off + 64)"] map_store_bytes [of _ 0 b] by simp
  moreover have "length (pool_content (pool_im w) (pw_payload ?w (?off + 64))) = unat (pi_block_size (pool_im w))"
    by (simp add: pool_content_def)
  ultimately show ?thesis
    using s rcv by blast
qed

lemma sample_pool_ready: "pool_ready sample_pool_handle sample_pool"
  by (simp add: pool_ready_def sample_pool_def sample_pool_handle_def sample_pool_immutable_def pool_geometry_def
      pool_stride_def shared_buffer_pool_block_size_valid_def kSharedBufferPoolBlockSize4K_def
      kSharedBufferPoolMaxBlockCount_def owner_valid_def owner_from_process_def)

lemma sample_pool_usable: "usable (pw_blocks sample_pool off)"
  by (simp add: usable_def sample_pool_def committed_epoch_ok_def kMaxCommittedOwnerEpoch_def U64_MAX_def)

theorem pool_roundtrip_witness:
  "\<exists>d w1 content w2. run (pool_send (Some sample_pool_handle) [7, 8]) sample_pool = (Inr d, w1) \<and>
    run (pool_receive (Some (sample_pool_handle\<lparr>pl_ref := 1\<rparr>)) d) w1 = (Inr content, w2) \<and>
    prefix [7, 8] content \<and> length content = unat (pi_block_size (pool_im sample_pool)) \<and>
    run (pool_receive (Some (sample_pool_handle\<lparr>pl_ref := 1\<rparr>)) d) w2 = (Inl kBufferStateMismatch, w2)"
proof (rule pool_roundtrip [OF sample_pool_ready _ _ sample_pool_usable])
  show "pool_ready (sample_pool_handle\<lparr>pl_ref := 1\<rparr>) sample_pool"
    using sample_pool_ready by (simp add: pool_ready_def sample_pool_def)
  show "0 < pi_block_count (pool_im sample_pool)" "length [7, 8] \<le> unat (pi_block_size (pool_im sample_pool))"
    by (simp_all add: sample_pool_def sample_pool_immutable_def)
qed

subsection \<open>No block to write\<close>

definition spent :: "pool_block \<Rightarrow> bool" where
  "spent x \<longleftrightarrow> pb_state x = block_word BlockFree \<and> pb_generation x = U64_MAX"

lemma run_acquire_none:
  assumes ready: "pool_ready h w" and "unat i + n = unat (pi_block_count (pool_im w))"
    and all: "\<And>j. j < pi_block_count (pool_im w) \<Longrightarrow>
      pb_state (pw_blocks w (block_off w j)) = block_word BlockPublished \<or> spent (pw_blocks w (block_off w j))"
    and "\<not> saw_recovery flags" and "\<not> saw_contention flags"
  shows "run (try_acquire_loop h n i flags) w =
    (Inl (if saw_exhausted flags \<or> (\<exists>j \<ge> i. j < pi_block_count (pool_im w) \<and> spent (pw_blocks w (block_off w j)))
          then kSequenceExhausted else kBufferPoolFull), w)"
  using assms(2,4,5)
proof (induction n arbitrary: i flags)
  case 0
  then have "\<not> (\<exists>j \<ge> i. j < pi_block_count (pool_im w))"
    by (auto simp: word_less_nat_alt word_le_nat_alt)
  then show ?case using 0 by (auto simp: no_block_error_def)
next
  case (Suc n)
  note next_i = u32_next [OF Suc.prems(1)]
  note at = pool_block_off [OF ready next_i(2)]
  let ?x = "pw_blocks w (block_off w i)"
  let ?rest = "\<exists>j \<ge> i + 1. j < pi_block_count (pool_im w) \<and> spent (pw_blocks w (block_off w j))"
  have "w\<lparr>pw_blocks := (pw_blocks w)(block_off w i := ?x\<lparr>pb_state := pb_state ?x\<rparr>)\<rparr> = w" by simp
  then have upd: "w\<lparr>pw_blocks := (pw_blocks w)(block_off w i := ?x\<lparr>pb_state := 0\<rparr>)\<rparr> = w" if "pb_state ?x = 0"
    using that by simp
  have one: "run (try_acquire_block h i (block_off w i) flags) w =
      (Inl (if spent ?x then flags\<lparr>saw_exhausted := True\<rparr> else flags), w)"
    using all [OF next_i(2)]
    by (auto simp: upd try_acquire_block_def claim_write_block_def run_simps spent_def)
  have split: "(\<exists>j \<ge> i. j < pi_block_count (pool_im w) \<and> spent (pw_blocks w (block_off w j))) \<longleftrightarrow> spent ?x \<or> ?rest"
  proof -
    have "j \<ge> i \<longleftrightarrow> j = i \<or> j \<ge> i + 1" for j
      using next_i Suc.prems(1) by (auto simp: word_le_nat_alt word_unat_eq_iff)
    then show ?thesis using next_i(2) by metis
  qed
  show ?case
    unfolding split using one Suc.IH [OF next_i(1)] Suc.prems(2,3) by (auto simp: run_simps at(3))
qed

text \<open>
  C18. When every block is published or has used up its generations, \<open>try_acquire_write\<close> changes nothing.
  It reports a full pool if all are published, and \<open>kSequenceExhausted\<close> as soon as a single block has
  used up its generations, although the published blocks become writable again once they are read.
\<close>

theorem pool_acquire_without_block:
  assumes "pool_ready h w"
    and "\<forall>j < pi_block_count (pool_im w).
      pb_state (pw_blocks w (block_off w j)) = block_word BlockPublished \<or> spent (pw_blocks w (block_off w j))"
  shows "run (shared_buffer_pool_try_acquire_write_impl (Some h)) w =
    (Inl (if \<exists>j < pi_block_count (pool_im w). spent (pw_blocks w (block_off w j))
          then kSequenceExhausted else kBufferPoolFull), w)"
proof -
  have "run (validate_live_pool (Some h)) w = (Inr h, w)"
    using assms(1) by (simp add: validate_live_pool_def run_simps pool_ready_def)
  then show ?thesis
    using run_acquire_none [OF assms(1), of 0 "unat (pi_block_count (pool_im w))"
        "\<lparr>saw_contention = False, saw_recovery = False, saw_exhausted = False\<rparr>"] assms(2)
    by (simp add: shared_buffer_pool_try_acquire_write_impl_def run_simps)
qed

definition spent_pool :: pool_world where
  "spent_pool =
     sample_pool\<lparr>pw_blocks := (\<lambda>off. if off = 192
       then (pw_blocks sample_pool off)\<lparr>pb_generation := U64_MAX\<rparr>
       else (pw_blocks sample_pool off)\<lparr>pb_state := block_word BlockPublished\<rparr>)\<rparr>"

theorem pool_acquire_without_block_witness:
  "run (shared_buffer_pool_try_acquire_write_impl (Some sample_pool_handle)) spent_pool =
    (Inl kSequenceExhausted, spent_pool)"
proof -
  have ready: "pool_ready sample_pool_handle spent_pool"
    using sample_pool_ready by (simp add: pool_ready_def spent_pool_def)
  have "block_off spent_pool 0 = 192"
    using pool_block_off(2) [OF ready, of 0]
    by (simp add: spent_pool_def sample_pool_def sample_pool_immutable_def word_unat_eq_iff)
  then have "0 < pi_block_count (pool_im spent_pool) \<and> spent (pw_blocks spent_pool (block_off spent_pool 0))"
    by (simp add: spent_pool_def sample_pool_def sample_pool_immutable_def spent_def)
  moreover have "\<forall>j < pi_block_count (pool_im spent_pool).
      pb_state (pw_blocks spent_pool (block_off spent_pool j)) = block_word BlockPublished \<or>
      spent (pw_blocks spent_pool (block_off spent_pool j))"
    by (simp add: spent_pool_def sample_pool_def spent_def)
  ultimately show ?thesis
    using pool_acquire_without_block [OF ready] by auto
qed

end
