(* ===== verification/ER_Chan_Layout.thy ===== *)
theory ER_Chan_Layout
  imports ER_Owner
begin

text \<open>
  The shared-memory layout of a channel (\<open>channel/channel_layout.hpp\<close>) and the arithmetic of its
  slot protocol (\<open>channel/slot_protocol.cpp\<close>): states, headers and slots, tickets that pack a
  sequence number and a slot index into one word, and the offsets of the three slots.
\<close>

subsection \<open>Constants and states\<close>

definition kBootstrapMagic :: bytes where "kBootstrapMagic = string_bytes ''EDGBOOT1''"
definition kChannelHeaderMagic :: bytes where "kChannelHeaderMagic = string_bytes ''EDGERT01''"
definition kAbiMajor :: u16 where "kAbiMajor = 1"
definition kAbiMinor :: u16 where "kAbiMinor = 0"
definition kAbiMinorMax :: u16 where "kAbiMinorMax = 1"
definition kHeartbeatStallFactor :: u64 where "kHeartbeatStallFactor = 3"
definition kEndianMarker :: u32 where "kEndianMarker = 0x01020304"
definition kSlotCount :: u32 where "kSlotCount = 3"
definition kMaxPayloadSize :: u32 where "kMaxPayloadSize = 65536"
definition kMaxSampleSequence :: u64 where "kMaxSampleSequence = 2 ^ 62 - 1"
definition kInvalidSlot :: u32 where "kInvalidSlot = 0xFFFFFFFF"
definition kChannelHeaderOffset :: u64 where "kChannelHeaderOffset = 128"
definition kFirstSlotOffset :: u64 where "kFirstSlotOffset = 448"
definition kBootstrapHeaderSize :: u32 where "kBootstrapHeaderSize = 128"
definition kChannelHeaderSize :: u32 where "kChannelHeaderSize = 320"
definition kSlotHeaderSize :: u64 where "kSlotHeaderSize = 64"

datatype InitState = InitEmpty | InitInitializing | InitReady | InitAborted

primrec chan_init_word :: "InitState \<Rightarrow> u32" where
  "chan_init_word InitEmpty = 0"
| "chan_init_word InitInitializing = 1"
| "chan_init_word InitReady = 2"
| "chan_init_word InitAborted = 3"

datatype EndpointState = EndOffline | EndOnline | EndStopping | EndFault

primrec endpoint_word :: "EndpointState \<Rightarrow> u32" where
  "endpoint_word EndOffline = 0"
| "endpoint_word EndOnline = 1"
| "endpoint_word EndStopping = 2"
| "endpoint_word EndFault = 3"

datatype ChanSlotState =
  ChanFree | ChanWriting | ChanPublished | ChanReadingClaiming | ChanReading

primrec chan_word :: "ChanSlotState \<Rightarrow> u32" where
  "chan_word ChanFree = 0"
| "chan_word ChanWriting = 1"
| "chan_word ChanPublished = 2"
| "chan_word ChanReadingClaiming = 3"
| "chan_word ChanReading = 4"

subsection \<open>The shared structures\<close>

record BootstrapHeaderAbi =
  bo_magic :: bytes
  bo_abi_major :: u16
  bo_abi_minor :: u16
  bo_header_size :: u32
  bo_expected_mapping_size :: u64
  bo_nonce_hi :: u64
  bo_nonce_lo :: u64
  bo_pid :: u64
  bo_ticks :: u64
  bo_boot_hi :: u64
  bo_boot_lo :: u64
  bo_init_state :: u32
  bo_reserved0 :: u32
  bo_checksum :: u64
  bo_reserved :: bytes

definition bootstrap_bytes :: "BootstrapHeaderAbi \<Rightarrow> bytes" where
  "bootstrap_bytes b =
     bo_magic b @ le16 (bo_abi_major b) @ le16 (bo_abi_minor b) @ le32 (bo_header_size b) @
     le64 (bo_expected_mapping_size b) @ le64 (bo_nonce_hi b) @ le64 (bo_nonce_lo b) @
     le64 (bo_pid b) @ le64 (bo_ticks b) @ le64 (bo_boot_hi b) @ le64 (bo_boot_lo b) @
     le32 (bo_init_state b) @ le32 (bo_reserved0 b) @ le64 (bo_checksum b) @ bo_reserved b"

record ProcessIdentityAbi =
  pa_role_epoch :: u64
  pa_pid :: u64
  pa_ticks :: u64
  pa_boot_hi :: u64
  pa_boot_lo :: u64
  pa_reserved :: bytes

text \<open>The fields of the channel header that are written once, before it is ready.\<close>

record chan_immutable =
  ci_magic :: bytes
  ci_abi_major :: u16
  ci_abi_minor :: u16
  ci_header_size :: u32
  ci_endian_marker :: u32
  ci_slot_count :: u32
  ci_payload_size :: u32
  ci_max_payload_size :: u32
  ci_schema_version :: u32
  ci_mapping_size :: u64
  ci_schema_fingerprint :: bytes
  ci_generation :: u64
  ci_nonce_hi :: u64
  ci_nonce_lo :: u64
  ci_heartbeat_interval_ns :: u64

record ChannelHeaderAbi =
  ch_immutable :: chan_immutable
  ch_producer :: ProcessIdentityAbi
  ch_consumer :: ProcessIdentityAbi
  ch_latest_ticket :: u64
  ch_notify_epoch :: u32
  ch_init_state :: u32
  ch_producer_state :: u32
  ch_consumer_state :: u32
  ch_publish_count :: u64
  ch_read_count :: u64
  ch_last_publish_boot_ns :: u64
  ch_heartbeat_boot_ns :: u64

record SlotHeaderAbi =
  cs_state :: u32
  cs_payload_size :: u32
  cs_sample_sequence :: u64
  cs_publish_boot_ns :: u64
  cs_payload_checksum :: u64
  cs_reader_role_epoch :: u64
  cs_payload :: "nat \<Rightarrow> u8"

subsection \<open>Tickets and sequence numbers\<close>

definition make_ticket :: "u64 \<Rightarrow> u32 \<Rightarrow> u64" where
  "make_ticket sequence slot_index = push_bit 2 sequence OR ucast (slot_index AND 3)"

definition ticket_slot :: "u64 \<Rightarrow> u32" where
  "ticket_slot ticket = ucast (ticket AND 3)"

definition ticket_sequence :: "u64 \<Rightarrow> u64" where
  "ticket_sequence ticket = drop_bit 2 ticket"

definition checked_next_sequence :: "u64 \<Rightarrow> u64 option" where
  "checked_next_sequence current_ticket =
     (let current_seq = ticket_sequence current_ticket in
      if current_seq \<ge> kMaxSampleSequence then None else Some (current_seq + 1))"

definition saturated_gap :: "u64 \<Rightarrow> u64 \<Rightarrow> u64" where
  "saturated_gap last_sequence current_sequence =
     (if current_sequence \<le> last_sequence then 0 else current_sequence - last_sequence - 1)"

subsection \<open>Sizes and offsets\<close>

definition channel_stride :: "u32 \<Rightarrow> u64 option" where
  "channel_stride payload_size = round_up_to_multiple_u64 (kSlotHeaderSize + ucast payload_size) 64"

definition mapping_size_for_payload :: "u32 \<Rightarrow> u64 option" where
  "mapping_size_for_payload payload_size =
     (case channel_stride payload_size of
        None \<Rightarrow> None
      | Some slot_stride \<Rightarrow>
          (case checked_mul_u64 (ucast kSlotCount) slot_stride of
             None \<Rightarrow> None
           | Some slots_total \<Rightarrow> checked_add_u64 kFirstSlotOffset slots_total))"

definition slot_byte_offset :: "u32 \<Rightarrow> u64 \<Rightarrow> u64 option" where
  "slot_byte_offset slot_index slot_stride =
     (if slot_index \<ge> kSlotCount then None
      else case checked_mul_u64 (ucast slot_index) slot_stride of
        None \<Rightarrow> None
      | Some off \<Rightarrow> checked_add_u64 kFirstSlotOffset off)"

subsection \<open>Facts\<close>

lemma and_3_u64: "(x :: u64) AND 3 = x mod 4"
proof -
  have "x AND mask 2 = take_bit 2 x" by (simp add: take_bit_eq_mask)
  moreover have "mask 2 = (3 :: u64)" by (simp add: mask_eq_exp_minus_1)
  ultimately show ?thesis by (simp add: take_bit_eq_mod)
qed

lemma and_3_u32: "(x :: u32) AND 3 = x mod 4"
proof -
  have "x AND mask 2 = take_bit 2 x" by (simp add: take_bit_eq_mask)
  moreover have "mask 2 = (3 :: u32)" by (simp add: mask_eq_exp_minus_1)
  ultimately show ?thesis by (simp add: take_bit_eq_mod)
qed

lemma unat_ticket_sequence: "unat (ticket_sequence t) = unat t div 4"
  by (simp add: ticket_sequence_def drop_bit_eq_div unat_div)

lemma unat_ticket_slot: "unat (ticket_slot t) = unat t mod 4"
proof -
  have "unat (ucast (t mod 4) :: u32) = unat (t mod 4)"
    by (simp add: unsigned_ucast_eq take_bit_nat_eq_self unat_mod)
  then show ?thesis by (simp add: ticket_slot_def and_3_u64 unat_mod)
qed

lemma unat_kMaxSampleSequence: "unat kMaxSampleSequence = 2 ^ 62 - 1"
  by (simp add: kMaxSampleSequence_def)

lemma unat_make_ticket:
  assumes "s \<le> kMaxSampleSequence" and "i < 4"
  shows "unat (make_ticket s i) = 4 * unat s + unat i"
proof -
  have s: "unat s \<le> 2 ^ 62 - 1"
    using assms(1) by (simp add: word_le_nat_alt unat_kMaxSampleSequence)
  have i: "unat i < 4" using assms(2) by (simp add: word_less_nat_alt)
  have "i AND 3 = i" using i by (simp add: and_3_u32 word_unat_eq_iff unat_mod)
  moreover have "(ucast i :: u64) = take_bit 2 (ucast i)"
    using i by (simp add: take_bit_eq_mod word_unat_eq_iff unat_mod)
  moreover have "push_bit 2 s AND take_bit 2 x = 0" for x
    by (rule bit_word_eqI) (auto simp: bit_simps)
  ultimately have "make_ticket s i = push_bit 2 s + ucast i"
    by (metis make_ticket_def disjunctive_add_eq_or)
  moreover have p: "unat (push_bit 2 s) = 4 * unat s"
    using s by (simp add: push_bit_eq_mult unat_mult_no_wrap)
  ultimately show ?thesis
    using s i by (subst \<open>make_ticket s i = _\<close>, subst unat_add_no_wrap) simp_all
qed

lemma ticket_parts [simp]:
  assumes "s \<le> kMaxSampleSequence" and "i < 4"
  shows "ticket_sequence (make_ticket s i) = s" and "ticket_slot (make_ticket s i) = i"
proof -
  have "unat i < 4" using assms(2) by (simp add: word_less_nat_alt)
  then show "ticket_sequence (make_ticket s i) = s" and "ticket_slot (make_ticket s i) = i"
    by (simp_all add: word_unat_eq_iff unat_ticket_sequence unat_ticket_slot unat_make_ticket [OF assms])
qed

lemma make_ticket_parts: "make_ticket (ticket_sequence t) (ticket_slot t) = t"
proof -
  have "unat (ticket_sequence t) \<le> 2 ^ 62 - 1"
    using unat_u64_less [of t] by (simp add: unat_ticket_sequence)
  then have "ticket_sequence t \<le> kMaxSampleSequence"
    by (simp add: word_le_nat_alt unat_kMaxSampleSequence)
  moreover have "ticket_slot t < 4"
    by (simp add: word_less_nat_alt unat_ticket_slot)
  ultimately show ?thesis
    by (simp add: word_unat_eq_iff unat_make_ticket unat_ticket_sequence unat_ticket_slot)
qed

lemma checked_next_sequence_Some:
  assumes "checked_next_sequence t = Some n"
  shows "unat n = Suc (unat (ticket_sequence t))" and "n \<le> kMaxSampleSequence" and "n \<noteq> 0"
proof -
  have lt: "ticket_sequence t < kMaxSampleSequence" and n: "n = ticket_sequence t + 1"
    using assms by (auto simp: checked_next_sequence_def Let_def not_le split: if_splits)
  have "unat (ticket_sequence t) < 2 ^ 62 - 1"
    using lt by (simp add: word_less_nat_alt unat_kMaxSampleSequence)
  then show u: "unat n = Suc (unat (ticket_sequence t))"
    unfolding n by (subst unat_add_no_wrap) simp_all
  show "n \<le> kMaxSampleSequence"
    using lt by (simp add: word_le_nat_alt word_less_nat_alt u)
  show "n \<noteq> 0" using u by auto
qed

lemma unat_saturated_gap: "unat (saturated_gap a b) = unat b - unat a - 1"
proof (cases "b \<le> a")
  case False
  then have lt: "unat a < unat b" by (simp add: word_le_nat_alt)
  then have s: "unat (b - a) = unat b - unat a"
    by (subst unat_sub_no_wrap) (simp_all add: word_le_nat_alt)
  then have "unat (b - a - 1) = unat (b - a) - 1"
    using lt by (subst unat_sub_no_wrap) (simp_all add: word_le_nat_alt)
  then show ?thesis using False s by (simp add: saturated_gap_def)
qed (simp add: saturated_gap_def word_le_nat_alt)

text \<open>The geometry of a channel whose payload size was accepted.\<close>

definition channel_geometry :: "u32 \<Rightarrow> u64 \<Rightarrow> bool" where
  "channel_geometry payload_size stride \<longleftrightarrow>
     payload_size \<le> kMaxPayloadSize \<and> channel_stride payload_size = Some stride"

lemma channel_geometry_stride:
  assumes "channel_geometry ps st"
  shows "64 dvd unat st" and "64 + unat ps \<le> unat st" and "unat st \<le> 65664"
proof -
  have ps: "unat ps \<le> 65536"
    using assms by (simp add: channel_geometry_def kMaxPayloadSize_def word_le_nat_alt)
  then have u: "unat (kSlotHeaderSize + ucast ps) = 64 + unat ps"
    by (subst unat_add_no_wrap) (simp_all add: kSlotHeaderSize_def)
  show "64 dvd unat st" and "64 + unat ps \<le> unat st" and "unat st \<le> 65664"
    using assms ps round_up_Some [of "kSlotHeaderSize + ucast ps" 64 st]
    by (simp_all add: channel_geometry_def channel_stride_def u)
qed

lemma channel_geometry_exists:
  assumes "ps \<le> kMaxPayloadSize"
  shows "\<exists>st. channel_geometry ps st"
proof -
  have ps: "unat ps \<le> 65536"
    using assms by (simp add: kMaxPayloadSize_def word_le_nat_alt)
  then have "unat (kSlotHeaderSize + ucast ps) = 64 + unat ps"
    by (subst unat_add_no_wrap) (simp_all add: kSlotHeaderSize_def)
  then show ?thesis
    using round_up_defined [of 64 "kSlotHeaderSize + ucast ps"] ps assms
    by (simp add: channel_geometry_def channel_stride_def)
qed

lemma slot_byte_offset_eq:
  assumes "channel_geometry ps st" and "i < kSlotCount"
  shows "\<exists>off. slot_byte_offset i st = Some off \<and> unat off = 448 + unat i * unat st"
proof -
  have i: "unat i < 3" using assms(2) by (simp add: kSlotCount_def word_less_nat_alt)
  have "unat i * unat st \<le> 3 * 65664"
    using i channel_geometry_stride(3) [OF assms(1)] by (intro mult_le_mono) simp_all
  then have "unat (ucast i :: u64) * unat st < 2 ^ 64" "unat (ucast i * st) = unat i * unat st"
    by (simp_all add: unat_mult_no_wrap)
  moreover from this have "unat kFirstSlotOffset + unat (ucast i * st) < 2 ^ 64"
    using \<open>unat i * unat st \<le> 3 * 65664\<close> by (simp add: kFirstSlotOffset_def)
  ultimately show ?thesis
    using assms(2) checked_mul_u64_Some_iff [of "ucast i" st "ucast i * st"]
      checked_add_u64_Some_iff [of kFirstSlotOffset "ucast i * st" "kFirstSlotOffset + ucast i * st"]
    by (auto simp: slot_byte_offset_def not_le unat_add_no_wrap kFirstSlotOffset_def)
qed

lemma mapping_size_eq:
  assumes "channel_geometry ps st"
  shows "\<exists>sz. mapping_size_for_payload ps = Some sz \<and> unat sz = 448 + 3 * unat st"
proof -
  note st = channel_geometry_stride [OF assms]
  have three: "unat (ucast kSlotCount * st) = 3 * unat st" "unat (ucast kSlotCount :: u64) * unat st < 2 ^ 64"
    using st(3) by (simp_all add: kSlotCount_def unat_mult_no_wrap)
  show ?thesis
    using assms three st(3) checked_mul_u64_Some_iff [of "ucast kSlotCount" st "ucast kSlotCount * st"]
      checked_add_u64_Some_iff [of kFirstSlotOffset "ucast kSlotCount * st" "kFirstSlotOffset + ucast kSlotCount * st"]
    by (auto simp: mapping_size_for_payload_def channel_geometry_def unat_add_no_wrap kFirstSlotOffset_def)
qed

text \<open>
  C17. In the mapping a channel is created with, the three slots do not overlap, start after the
  header on a 64 byte boundary and end inside the mapping, without overflow.
\<close>

theorem channel_slots_disjoint:
  assumes "ps \<le> kMaxPayloadSize" and "i < kSlotCount" and "j < kSlotCount" and "i \<noteq> j"
  shows "\<exists>st sz oi oj. channel_stride ps = Some st \<and> mapping_size_for_payload ps = Some sz \<and>
    slot_byte_offset i st = Some oi \<and> slot_byte_offset j st = Some oj \<and>
    448 \<le> unat oi \<and> unat oi mod 64 = 0 \<and> unat oi + 64 + unat ps \<le> unat sz \<and>
    {unat oi ..< unat oi + 64 + unat ps} \<inter> {unat oj ..< unat oj + 64 + unat ps} = {}"
proof -
  obtain st where geo: "channel_geometry ps st" using channel_geometry_exists [OF assms(1)] by auto
  note st = channel_geometry_stride [OF geo]
  obtain oi oj where o: "slot_byte_offset i st = Some oi" "unat oi = 448 + unat i * unat st"
      "slot_byte_offset j st = Some oj" "unat oj = 448 + unat j * unat st"
    using slot_byte_offset_eq [OF geo assms(2)] slot_byte_offset_eq [OF geo assms(3)] by auto
  obtain sz where sz: "mapping_size_for_payload ps = Some sz" "unat sz = 448 + 3 * unat st"
    using mapping_size_eq [OF geo] by blast
  have ij: "unat i < 3" "unat i < unat j \<or> unat j < unat i"
    using assms(2,4) by (auto simp: kSlotCount_def word_less_nat_alt word_unat_eq_iff)
  have step: "a * unat st + unat st \<le> b * unat st" if "a < b" for a b :: nat
    using mult_le_mono1 [of "Suc a" b "unat st"] that by simp
  have "unat oi + 64 + unat ps \<le> unat oj \<or> unat oj + 64 + unat ps \<le> unat oi"
    using o(2,4) ij(2) step [of "unat i" "unat j"] step [of "unat j" "unat i"] st(2) by linarith
  then have "{unat oi ..< unat oi + 64 + unat ps} \<inter> {unat oj ..< unat oj + 64 + unat ps} = {}"
    by auto
  moreover have "unat oi + 64 + unat ps \<le> unat sz"
    using o(2) sz(2) step [OF ij(1)] st(2) by linarith
  moreover have "unat oi mod 64 = 0"
    using o(2) st(1) by (auto intro!: dvd_add dvd_mult simp flip: dvd_eq_mod_eq_0)
  ultimately show ?thesis
    using geo sz(1) o
    by (intro exI [of _ st] exI [of _ sz] exI [of _ oi] exI [of _ oj])
      (simp add: channel_geometry_def)
qed

theorem channel_slots_disjoint_witness:
  "\<exists>st sz oi oj. channel_stride 100 = Some st \<and> mapping_size_for_payload 100 = Some sz \<and>
    slot_byte_offset 0 st = Some oi \<and> slot_byte_offset 2 st = Some oj \<and>
    448 \<le> unat oi \<and> unat oi mod 64 = 0 \<and> unat oi + 64 + unat (100 :: u32) \<le> unat sz \<and>
    {unat oi ..< unat oi + 64 + unat (100 :: u32)} \<inter> {unat oj ..< unat oj + 64 + unat (100 :: u32)} = {}"
  by (rule channel_slots_disjoint) (simp_all add: kMaxPayloadSize_def kSlotCount_def)

end
