(* ===== verification/ER_Broker.thy ===== *)
theory ER_Broker
  imports ER_Chan_Layout
begin

text \<open>
  The messages of the descriptor broker (\<open>transport/fd_broker.cpp\<close>): a client asks the producer of a
  channel for the descriptor of its memory over a Unix socket. Modelled are the records, their
  checksums, the request of a client, the tests of the server and what a client makes of a reply; the
  socket loops that move the bytes are not.
\<close>

subsection \<open>Records of the descriptor broker\<close>

definition kFdBrokerRequestMagic :: bytes where "kFdBrokerRequestMagic = string_bytes ''EDGRQ1''"
definition kFdBrokerReplyMagic :: bytes where "kFdBrokerReplyMagic = string_bytes ''EDGRP1''"
definition kFdBrokerVersion :: u32 where "kFdBrokerVersion = 1"
definition kFdBrokerReplySize :: nat where "kFdBrokerReplySize = 64"
definition kFdBrokerFlagReadonly :: u32 where "kFdBrokerFlagReadonly = 1"

datatype FdBrokerStatus = FdOk | FdNotReady | FdChannelMismatch | FdRefused | FdSystem

primrec fd_status_word :: "FdBrokerStatus \<Rightarrow> u32" where
  "fd_status_word FdOk = 0"
| "fd_status_word FdNotReady = 1"
| "fd_status_word FdChannelMismatch = 2"
| "fd_status_word FdRefused = 3"
| "fd_status_word FdSystem = 4"

record FdBrokerRequestAbi =
  rq_magic :: bytes
  rq_version :: u32
  rq_flags :: u32
  rq_channel_hash :: u32
  rq_reserved0 :: u32
  rq_schema_fingerprint :: bytes
  rq_checksum :: u64

record FdBrokerReplyAbi =
  rp_magic :: bytes
  rp_status :: u32
  rp_reserved0 :: u32
  rp_mapping_size :: u64
  rp_generation :: u64
  rp_nonce_hi :: u64
  rp_nonce_lo :: u64
  rp_abi_major :: u16
  rp_abi_minor :: u16
  rp_reserved1 :: u32
  rp_checksum :: u64

definition request_bytes :: "FdBrokerRequestAbi \<Rightarrow> bytes" where
  "request_bytes r =
     rq_magic r @ le32 (rq_version r) @ le32 (rq_flags r) @ le32 (rq_channel_hash r) @
     le32 (rq_reserved0 r) @ rq_schema_fingerprint r @ le64 (rq_checksum r)"

definition reply_bytes :: "FdBrokerReplyAbi \<Rightarrow> bytes" where
  "reply_bytes r =
     rp_magic r @ le32 (rp_status r) @ le32 (rp_reserved0 r) @ le64 (rp_mapping_size r) @
     le64 (rp_generation r) @ le64 (rp_nonce_hi r) @ le64 (rp_nonce_lo r) @ le16 (rp_abi_major r) @
     le16 (rp_abi_minor r) @ le32 (rp_reserved1 r) @ le64 (rp_checksum r)"

definition request_checksum_of :: "FdBrokerRequestAbi \<Rightarrow> u64" where
  "request_checksum_of r = fnv1a64 (request_bytes (r\<lparr>rq_checksum := 0\<rparr>))"

definition reply_checksum_of :: "FdBrokerReplyAbi \<Rightarrow> u64" where
  "reply_checksum_of r = fnv1a64 (reply_bytes (r\<lparr>rp_checksum := 0\<rparr>))"

definition fd_broker_checksum :: "bytes option \<Rightarrow> u64" where
  "fd_broker_checksum record =
     (case record of
        None \<Rightarrow> 0
      | Some bs \<Rightarrow>
          if length bs < 8 \<or> length bs > kFdBrokerReplySize then 0
          else fnv1a64 (take (length bs - 8) bs @ replicate 8 0))"

definition request_fingerprint_set :: "FdBrokerRequestAbi \<Rightarrow> bool" where
  "request_fingerprint_set r \<longleftrightarrow> list_ex (\<lambda>b. b \<noteq> 0) (rq_schema_fingerprint r)"

text \<open>The request of a client, and the replies of the server before their fields are filled in.\<close>

definition make_request :: "u32 \<Rightarrow> bytes \<Rightarrow> bool \<Rightarrow> FdBrokerRequestAbi" where
  "make_request channel_hash fingerprint readonly =
     (let r = \<lparr>rq_magic = kFdBrokerRequestMagic @ [0, 0], rq_version = kFdBrokerVersion,
               rq_flags = (if readonly then kFdBrokerFlagReadonly else 0),
               rq_channel_hash = channel_hash, rq_reserved0 = 0,
               rq_schema_fingerprint = fingerprint, rq_checksum = 0\<rparr>
      in r\<lparr>rq_checksum := request_checksum_of r\<rparr>)"

definition blank_reply :: "FdBrokerStatus \<Rightarrow> FdBrokerReplyAbi" where
  "blank_reply status =
     \<lparr>rp_magic = kFdBrokerReplyMagic @ [0, 0], rp_status = fd_status_word status, rp_reserved0 = 0,
      rp_mapping_size = 0, rp_generation = 0, rp_nonce_hi = 0, rp_nonce_lo = 0, rp_abi_major = 0,
      rp_abi_minor = 0, rp_reserved1 = 0, rp_checksum = 0\<rparr>"

definition sealed_reply :: "FdBrokerReplyAbi \<Rightarrow> FdBrokerReplyAbi" where
  "sealed_reply r = r\<lparr>rp_checksum := reply_checksum_of r\<rparr>"

text \<open>The tests of the serving loop on a complete request.\<close>

definition request_wellformed :: "FdBrokerRequestAbi \<Rightarrow> bool" where
  "request_wellformed r \<longleftrightarrow>
     take 6 (rq_magic r) = kFdBrokerRequestMagic \<and> rq_version r = kFdBrokerVersion \<and>
     request_checksum_of r = rq_checksum r"

text \<open>
  What a client makes of a complete reply and the descriptor that came with it: the descriptor, an
  error, or another attempt (\<open>None\<close>). The two \<open>fcntl\<close> calls are the argument \<open>cloexec_ok\<close>, the test
  of the remaining time after them is \<open>in_time\<close>.
\<close>

definition accept_reply ::
  "FdBrokerReplyAbi \<Rightarrow> nat option \<Rightarrow> bool \<Rightarrow> bool \<Rightarrow> (nat \<times> FdBrokerReplyAbi) result option" where
  "accept_reply reply received_fd cloexec_ok in_time =
     (if take 6 (rp_magic reply) = kFdBrokerReplyMagic \<and> reply_checksum_of reply = rp_checksum reply
      then case received_fd of
        Some fd \<Rightarrow>
          if rp_status reply = fd_status_word FdOk
          then Some (if \<not> cloexec_ok then Inl kTransportFailed
                     else if \<not> in_time then Inl kProducerOffline else Inr (fd, reply))
          else None
      | None \<Rightarrow>
          if rp_status reply = fd_status_word FdChannelMismatch then Some (Inl kSchemaMismatch)
          else if rp_status reply = fd_status_word FdRefused then Some (Inl kPermissionDenied)
          else None
      else None)"

lemma request_of_client_wellformed: "request_wellformed (make_request hash fp ro)"
  by (simp add: request_wellformed_def make_request_def Let_def request_checksum_of_def
      kFdBrokerRequestMagic_def string_bytes_def)

lemma sealed_reply_checksum [simp]: "reply_checksum_of (sealed_reply r) = rp_checksum (sealed_reply r)"
  by (simp add: sealed_reply_def reply_checksum_of_def)

lemma checksum_agrees:
  "length (request_bytes r) \<le> 64 \<Longrightarrow> request_checksum_of r = fd_broker_checksum (Some (request_bytes r))"
  "length (reply_bytes p) \<le> 64 \<Longrightarrow> reply_checksum_of p = fd_broker_checksum (Some (reply_bytes p))"
proof -
  have z: "le64 0 = replicate 8 0" by (simp add: le64_def numeral_eq_Suc)
  show "length (request_bytes r) \<le> 64 \<Longrightarrow> request_checksum_of r = fd_broker_checksum (Some (request_bytes r))"
    "length (reply_bytes p) \<le> 64 \<Longrightarrow> reply_checksum_of p = fd_broker_checksum (Some (reply_bytes p))"
    by (simp_all add: request_checksum_of_def reply_checksum_of_def fd_broker_checksum_def request_bytes_def
        reply_bytes_def kFdBrokerReplySize_def z)
qed

end
