(* ===== verification/ER_Journal.thy ===== *)
theory ER_Journal
  imports ER_Broker
begin

text \<open>
  The control lock of a channel and its journal (\<open>channel/control_lock.cpp\<close>, and the journal
  functions of \<open>channel/channel_abi.cpp\<close>). The journal is a record of 256 bytes in the lock file, here
  the bytes of the file themselves: a write happens in pieces, so a crash can leave a part of the new
  record over the old one. The locale \<open>journal_file\<close> has what holds of any file that only the holder
  of the lock changes.
\<close>

subsection \<open>Little-endian words from bytes\<close>

definition from_le32 :: "bytes \<Rightarrow> u32" where
  "from_le32 bs =
     ucast (bs ! 0) OR push_bit 8 (ucast (bs ! 1)) OR push_bit 16 (ucast (bs ! 2)) OR
     push_bit 24 (ucast (bs ! 3))"

definition from_le64 :: "bytes \<Rightarrow> u64" where
  "from_le64 bs = ucast (from_le32 (take 4 bs)) OR push_bit 32 (ucast (from_le32 (drop 4 bs)))"

lemma from_le32 [simp]: "from_le32 (le32 w) = w"
proof (rule bit_word_eqI)
  fix n assume "n < LENGTH(32)"
  then have "n < 32" by simp
  then consider "n < 8" | "8 \<le> n" "n < 16" | "16 \<le> n" "n < 24" | "24 \<le> n" "n < 32" by linarith
  then show "bit (from_le32 (le32 w)) n = bit w n"
    by cases (auto simp: from_le32_def le32_def bit_simps)
qed

lemma le32_from [simp]:
  assumes "length bs = 4"
  shows "le32 (from_le32 bs) = bs"
proof -
  obtain a b c d where bs: "bs = [a, b, c, d]"
    using assms by (auto simp: length_Suc_conv numeral_eq_Suc)
  show ?thesis
    unfolding bs le32_def from_le32_def
    by (simp, intro conjI bit_word_eqI; auto simp: bit_simps dest: bit_imp_le_length)
qed

lemma le64_halves: "le64 w = le32 (ucast w) @ le32 (ucast (drop_bit 32 w))"
  unfolding le64_def le32_def
  by (simp, intro conjI bit_word_eqI; simp add: bit_simps)

lemma word_halves: "ucast (ucast w :: u32) OR push_bit 32 (ucast (ucast (drop_bit 32 w) :: u32)) = (w :: u64)"
proof (rule bit_word_eqI)
  fix n assume "n < LENGTH(64)"
  then show "bit (ucast (ucast w :: u32) OR push_bit 32 (ucast (ucast (drop_bit 32 w) :: u32)) :: u64) n = bit w n"
    by (cases "n < 32") (auto simp: bit_simps)
qed

lemma halves_word:
  "ucast (ucast (a :: u32) OR push_bit 32 (ucast (b :: u32)) :: u64) = a"
  "ucast (drop_bit 32 (ucast (a :: u32) OR push_bit 32 (ucast (b :: u32)) :: u64)) = b"
proof -
  have "\<not> bit a (32 + n)" for n
    using bit_imp_le_length [of a "32 + n"] by auto
  then show "ucast (ucast a OR push_bit 32 (ucast b) :: u64) = a"
    "ucast (drop_bit 32 (ucast a OR push_bit 32 (ucast b) :: u64)) = b"
    by (auto intro!: bit_word_eqI simp: bit_simps)
qed

lemma from_le64 [simp]: "from_le64 (le64 w) = w"
  by (simp add: from_le64_def le64_halves word_halves)

lemma le64_from [simp]: "length bs = 8 \<Longrightarrow> le64 (from_le64 bs) = bs"
  unfolding from_le64_def le64_halves halves_word by simp


subsection \<open>The journal record\<close>

datatype JournalState = JIdle | JCreatingPreObject | JCreatingObject | JReplacing | JRemoving

primrec journal_word :: "JournalState \<Rightarrow> u32" where
  "journal_word JIdle = 0"
| "journal_word JCreatingPreObject = 1"
| "journal_word JCreatingObject = 2"
| "journal_word JReplacing = 3"
| "journal_word JRemoving = 4"

definition kJournalMagic :: bytes where "kJournalMagic = string_bytes ''EDGJRN1''"
definition kJournalVersion :: u32 where "kJournalVersion = 1"
definition kJournalRecordSize :: nat where "kJournalRecordSize = 256"

text \<open>\<open>cj_padding\<close> are the 40 bytes between \<open>new_nonce_lo\<close> and the aligned \<open>creator\<close>.\<close>

record ControlJournalV1 =
  cj_magic :: bytes
  cj_version :: u32
  cj_channel_hash :: u32
  cj_state :: u32
  cj_reserved0 :: u32
  cj_target_dev :: u64
  cj_target_ino :: u64
  cj_old_generation :: u64
  cj_new_generation :: u64
  cj_old_nonce_hi :: u64
  cj_old_nonce_lo :: u64
  cj_new_nonce_hi :: u64
  cj_new_nonce_lo :: u64
  cj_padding :: bytes
  cj_creator :: ProcessIdentityAbi
  cj_record_checksum :: u64
  cj_transport :: u32
  cj_reserved :: bytes

definition identity_abi_bytes :: "ProcessIdentityAbi \<Rightarrow> bytes" where
  "identity_abi_bytes p =
     le64 (pa_role_epoch p) @ le64 (pa_pid p) @ le64 (pa_ticks p) @ le64 (pa_boot_hi p) @
     le64 (pa_boot_lo p) @ pa_reserved p"

text \<open>The record in three parts: before the checksum, the checksum, after it.\<close>

definition journal_front :: "ControlJournalV1 \<Rightarrow> bytes" where
  "journal_front j =
     cj_magic j @ le32 (cj_version j) @ le32 (cj_channel_hash j) @ le32 (cj_state j) @
     le32 (cj_reserved0 j) @ le64 (cj_target_dev j) @ le64 (cj_target_ino j) @
     le64 (cj_old_generation j) @ le64 (cj_new_generation j) @ le64 (cj_old_nonce_hi j) @
     le64 (cj_old_nonce_lo j) @ le64 (cj_new_nonce_hi j) @ le64 (cj_new_nonce_lo j) @
     cj_padding j @ identity_abi_bytes (cj_creator j)"

definition journal_back :: "ControlJournalV1 \<Rightarrow> bytes" where
  "journal_back j = le32 (cj_transport j) @ cj_reserved j"

definition journal_bytes :: "ControlJournalV1 \<Rightarrow> bytes" where
  "journal_bytes j = journal_front j @ le64 (cj_record_checksum j) @ journal_back j"

definition slice :: "nat \<Rightarrow> nat \<Rightarrow> bytes \<Rightarrow> bytes" where
  "slice a n bs = take n (drop a bs)"

definition journal_of_bytes :: "bytes \<Rightarrow> ControlJournalV1" where
  "journal_of_bytes bs =
     \<lparr>cj_magic = slice 0 8 bs, cj_version = from_le32 (slice 8 4 bs),
      cj_channel_hash = from_le32 (slice 12 4 bs), cj_state = from_le32 (slice 16 4 bs),
      cj_reserved0 = from_le32 (slice 20 4 bs), cj_target_dev = from_le64 (slice 24 8 bs),
      cj_target_ino = from_le64 (slice 32 8 bs), cj_old_generation = from_le64 (slice 40 8 bs),
      cj_new_generation = from_le64 (slice 48 8 bs), cj_old_nonce_hi = from_le64 (slice 56 8 bs),
      cj_old_nonce_lo = from_le64 (slice 64 8 bs), cj_new_nonce_hi = from_le64 (slice 72 8 bs),
      cj_new_nonce_lo = from_le64 (slice 80 8 bs), cj_padding = slice 88 40 bs,
      cj_creator =
        \<lparr>pa_role_epoch = from_le64 (slice 128 8 bs), pa_pid = from_le64 (slice 136 8 bs),
         pa_ticks = from_le64 (slice 144 8 bs), pa_boot_hi = from_le64 (slice 152 8 bs),
         pa_boot_lo = from_le64 (slice 160 8 bs), pa_reserved = slice 168 24 bs\<rparr>,
      cj_record_checksum = from_le64 (slice 192 8 bs), cj_transport = from_le32 (slice 200 4 bs),
      cj_reserved = slice 204 52 bs\<rparr>"

definition journal_shaped :: "ControlJournalV1 \<Rightarrow> bool" where
  "journal_shaped j \<longleftrightarrow>
     length (cj_magic j) = 8 \<and> length (cj_padding j) = 40 \<and> length (pa_reserved (cj_creator j)) = 24 \<and>
     length (cj_reserved j) = 52"

lemma length_journal_bytes: "journal_shaped j \<Longrightarrow> length (journal_bytes j) = 256"
  by (simp add: journal_bytes_def journal_front_def journal_back_def identity_abi_bytes_def journal_shaped_def)

lemma journal_of_journal_bytes: "journal_shaped j \<Longrightarrow> journal_of_bytes (journal_bytes j) = j"
  by (simp add: journal_of_bytes_def journal_bytes_def journal_front_def journal_back_def
      identity_abi_bytes_def journal_shaped_def slice_def)

lemma length_slice [simp]: "a + n \<le> length bs \<Longrightarrow> length (slice a n bs) = n"
  by (simp add: slice_def)

lemma slice_append: "b = a + n \<Longrightarrow> slice a n bs @ slice b m bs = slice a (n + m) bs"
  unfolding slice_def by (metis add.commute drop_drop take_add)

lemma slice_append': "b = a + n \<Longrightarrow> slice a n bs @ slice b m bs @ r = slice a (n + m) bs @ r"
  by (simp add: slice_append flip: append_assoc)

lemma journal_shaped_of_bytes: "length bs = 256 \<Longrightarrow> journal_shaped (journal_of_bytes bs)"
  by (simp add: journal_shaped_def journal_of_bytes_def)

lemma journal_bytes_of_bytes:
  assumes "length bs = 256"
  shows "journal_bytes (journal_of_bytes bs) = bs"
    and "journal_front (journal_of_bytes bs) = take 192 bs" and "journal_back (journal_of_bytes bs) = drop 200 bs"
proof -
  show "journal_front (journal_of_bytes bs) = take 192 bs"
    using assms
    by (simp add: journal_of_bytes_def journal_front_def identity_abi_bytes_def slice_append slice_append')
      (simp add: slice_def)
  moreover show "journal_back (journal_of_bytes bs) = drop 200 bs"
    using assms by (simp add: journal_of_bytes_def journal_back_def slice_append) (simp add: slice_def)
  moreover have "le64 (cj_record_checksum (journal_of_bytes bs)) = slice 192 8 bs"
    using assms by (simp add: journal_of_bytes_def)
  ultimately show "journal_bytes (journal_of_bytes bs) = bs"
    by (simp add: journal_bytes_def slice_def) (metis append_assoc append_take_drop_id drop_drop numeral_plus_numeral add_num_simps)
qed

subsection \<open>The operating system of the control plane\<close>

text \<open>
  Answers of the calls that only the control plane of a channel makes. A call that is repeated until
  it is not interrupted has the answer of its first attempt that is not. \<open>Inr n\<close> from \<open>os_pread\<close> is
  a read of at most \<open>n\<close> bytes, from \<open>os_pwrite\<close> a write of at most \<open>n + 1\<close>: an empty write is
  repeated like an interrupted one. \<open>os_broker_bind\<close> and \<open>os_broker_request\<close> are the outcomes of
  binding the broker socket and of the exchange with a broker.
\<close>

datatype os_call = CallSocketUnlink string | CallSocketShutdown | CallStartServer

record channel_os =
  os_mkdir :: "string \<Rightarrow> int option"
  os_open_lock :: "string \<Rightarrow> int option"
  os_fstat_lock :: "string \<Rightarrow> int + nat \<times> nat"
  os_flock :: "string \<Rightarrow> int option"
  os_pread :: "nat \<Rightarrow> int + nat"
  os_pwrite :: "nat \<Rightarrow> int + nat"
  os_fdatasync :: "nat \<Rightarrow> int option"
  os_io_calls :: nat
  os_memfd_create :: "string \<Rightarrow> int + nat"
  os_fchmod :: "nat \<Rightarrow> int option"
  os_socket_exists :: "string \<Rightarrow> bool"
  os_broker_bind :: "string \<Rightarrow> nat result"
  os_broker_request :: "string \<Rightarrow> FdBrokerRequestAbi \<Rightarrow> (nat \<times> FdBrokerReplyAbi) result"
  os_thread_starts :: bool
  os_log :: "os_call list"

definition os_query :: "('s, channel_os) cell \<Rightarrow> (channel_os \<Rightarrow> 'a) \<Rightarrow> ('s, 'a) prog" where
  "os_query oc f = Act (\<lambda>s. s) (\<lambda>s. Ret (f (rd oc s)))"

definition os_io :: "('s, channel_os) cell \<Rightarrow> (channel_os \<Rightarrow> nat \<Rightarrow> 'a) \<Rightarrow> ('s, 'a) prog" where
  "os_io oc f =
     Act (\<lambda>s. wr oc ((rd oc s)\<lparr>os_io_calls := Suc (os_io_calls (rd oc s))\<rparr>) s)
       (\<lambda>s. Ret (f (rd oc s) (os_io_calls (rd oc s))))"

definition os_do :: "('s, channel_os) cell \<Rightarrow> os_call \<Rightarrow> ('s, unit) prog" where
  "os_do oc c = Act (\<lambda>s. wr oc ((rd oc s)\<lparr>os_log := os_log (rd oc s) @ [c]\<rparr>) s) (\<lambda>_. Ret ())"

lemma run_os_query [run_simps]: "run (os_query oc f) s = (f (rd oc s), s)"
  by (simp add: os_query_def)

lemma run_os_io [run_simps]:
  "run (os_io oc f) s =
     (f (rd oc s) (os_io_calls (rd oc s)), wr oc ((rd oc s)\<lparr>os_io_calls := Suc (os_io_calls (rd oc s))\<rparr>) s)"
  by (simp add: os_io_def)

lemma run_os_do [run_simps]:
  "run (os_do oc c) s = ((), wr oc ((rd oc s)\<lparr>os_log := os_log (rd oc s) @ [c]\<rparr>) s)"
  by (simp add: os_do_def)

subsection \<open>Reading and writing a file\<close>

text \<open>
  A read of \<open>want\<close> bytes from the start of a file; every pass of the loop but the last takes at least
  one byte, so \<open>want + 1\<close> passes are enough.
\<close>

primrec pread_loop ::
  "('s, bytes) cell \<Rightarrow> ('s, channel_os) cell \<Rightarrow> nat \<Rightarrow> nat \<Rightarrow> bytes \<Rightarrow> ('s, int + bytes) prog" where
  "pread_loop fc oc 0 want got = Ret (Inr got)"
| "pread_loop fc oc (Suc passes) want got =
     (if length got \<ge> want then Ret (Inr got)
      else
        bind (os_io oc os_pread) (\<lambda>answer.
          case answer of
            Inl e \<Rightarrow> Ret (Inl e)
          | Inr n \<Rightarrow>
              bind (shared_load fc) (\<lambda>file.
                let chunk = take (min n (want - length got)) (drop (length got) file) in
                if chunk = [] then Ret (Inr got)
                else pread_loop fc oc passes want (got @ chunk))))"

definition overwrite :: "bytes \<Rightarrow> nat \<Rightarrow> bytes \<Rightarrow> bytes" where
  "overwrite file at chunk =
     take at file @ replicate (at - length file) 0 @ chunk @ drop (at + length chunk) file"

text \<open>Every pass writes at least one byte, so as many passes as bytes are enough.\<close>

primrec pwrite_loop ::
  "('s, bytes) cell \<Rightarrow> ('s, channel_os) cell \<Rightarrow> nat \<Rightarrow> bytes \<Rightarrow> nat \<Rightarrow> ('s, int + unit) prog" where
  "pwrite_loop fc oc 0 src written = Ret (Inr ())"
| "pwrite_loop fc oc (Suc passes) src written =
     (if written \<ge> length src then Ret (Inr ())
      else
        bind (os_io oc os_pwrite) (\<lambda>answer.
          case answer of
            Inl e \<Rightarrow> Ret (Inl e)
          | Inr n \<Rightarrow>
              let chunk = take (Suc n) (drop written src) in
              bind (shared_load fc) (\<lambda>file.
              bind (shared_store fc (overwrite file written chunk)) (\<lambda>_.
                pwrite_loop fc oc passes src (written + length chunk)))))"

subsection \<open>The control lock\<close>

definition journal_checksum :: "ControlJournalV1 \<Rightarrow> u64" where
  "journal_checksum journal = fnv1a64 (journal_bytes (journal\<lparr>cj_record_checksum := 0\<rparr>))"

definition channel_name_hash :: "string \<Rightarrow> u32" where
  "channel_name_hash name =
     foldl (\<lambda>hash c. (hash XOR ucast (char_byte c)) * 16777619) 2166136261 name"

text \<open>The part of a path before its last slash.\<close>

fun before_last_slash :: "string \<Rightarrow> string option" where
  "before_last_slash [] = None"
| "before_last_slash (c # cs) =
     (case before_last_slash cs of
        Some d \<Rightarrow> Some (c # d) | None \<Rightarrow> if c = CHR ''/'' then Some [] else None)"

definition control_lock_acquire ::
  "('s, kernel) cell \<Rightarrow> ('s, channel_os) cell \<Rightarrow> string \<Rightarrow> ('s, unit result) prog" where
  "control_lock_acquire kc oc lock_path =
     (case before_last_slash lock_path of
        None \<Rightarrow> Ret (Inl kInvalidOptions)
      | Some dir \<Rightarrow>
          if dir = [] then Ret (Inl kInvalidOptions)
          else
            bind (os_query oc (\<lambda>k. os_mkdir k dir)) (\<lambda>made.
              if made \<noteq> None \<and> made \<noteq> Some EEXIST then Ret (Inl (classify_errno (the made)))
              else
                bind (os_query oc (\<lambda>k. os_open_lock k lock_path)) (\<lambda>opened.
                  case opened of Some e \<Rightarrow> Ret (Inl (classify_errno e)) | None \<Rightarrow>
                bind (os_query oc (\<lambda>k. os_fstat_lock k lock_path)) (\<lambda>st.
                  case st of
                    Inl e \<Rightarrow> Ret (Inl (classify_errno e))
                  | Inr (uid, nlink) \<Rightarrow>
                      bind (kernel_query kc k_geteuid) (\<lambda>euid.
                        if uid \<noteq> euid then Ret (Inl kPermissionDenied)
                        else if nlink \<noteq> 1 then Ret (Inl kPermissionDenied)
                        else
                          bind (os_query oc (\<lambda>k. os_flock k lock_path)) (\<lambda>locked.
                            case locked of
                              Some e \<Rightarrow> Ret (Inl (classify_errno e))
                            | None \<Rightarrow> Ret (Inr ())))))))"

definition journal_zero :: ControlJournalV1 where
  "journal_zero = journal_of_bytes (replicate kJournalRecordSize 0)"

text \<open>What the record read means: an empty or zero file is a fresh journal.\<close>

definition parse_journal :: "bytes \<Rightarrow> ControlJournalV1 result" where
  "parse_journal got =
     (if got = [] then Inr journal_zero
      else if length got \<noteq> kJournalRecordSize then Inl kRecoveryBlocked
      else
        let journal = journal_of_bytes got in
        if list_all (\<lambda>b. b = 0) got then Inr journal
        else if take 7 (cj_magic journal) \<noteq> kJournalMagic then Inl kRecoveryBlocked
        else if cj_version journal \<noteq> kJournalVersion then Inl kRecoveryBlocked
        else if journal_checksum journal \<noteq> cj_record_checksum journal then Inl kRecoveryBlocked
        else Inr journal)"

definition read_journal ::
  "('s, bytes) cell \<Rightarrow> ('s, channel_os) cell \<Rightarrow> ('s, ControlJournalV1 result) prog" where
  "read_journal fc oc =
     bind (pread_loop fc oc (Suc kJournalRecordSize) kJournalRecordSize []) (\<lambda>r.
       case r of
         Inl e \<Rightarrow> Ret (Inl (classify_errno e))
       | Inr got \<Rightarrow> Ret (parse_journal got))"

definition identity_of_abi :: "ProcessIdentityAbi \<Rightarrow> ProcessIdentity" where
  "identity_of_abi p =
     \<lparr>id_pid = pa_pid p, id_ticks = pa_ticks p, id_boot_hi = pa_boot_hi p, id_boot_lo = pa_boot_lo p\<rparr>"

definition sealed_journal :: "ControlJournalV1 \<Rightarrow> ControlJournalV1" where
  "sealed_journal journal = journal\<lparr>cj_record_checksum := journal_checksum journal\<rparr>"

definition write_journal ::
  "('s, bytes) cell \<Rightarrow> ('s, channel_os) cell \<Rightarrow> ControlJournalV1 \<Rightarrow> ('s, unit result) prog" where
  "write_journal fc oc journal =
     (if cj_state journal \<noteq> journal_word JIdle \<and> \<not> process_identity_valid (identity_of_abi (cj_creator journal))
      then Ret (Inl kRecoveryBlocked)
      else
        bind (pwrite_loop fc oc kJournalRecordSize (journal_bytes (sealed_journal journal)) 0) (\<lambda>r.
          case r of
            Inl e \<Rightarrow> Ret (Inl (classify_errno e))
          | Inr _ \<Rightarrow>
              bind (os_io oc os_fdatasync) (\<lambda>synced.
                case synced of
                  Some e \<Rightarrow> Ret (Inl (classify_errno e))
                | None \<Rightarrow> Ret (Inr ()))))"

text \<open>The generation after a journal, and the journal of a transaction.\<close>

definition next_generation_from_journal :: "ControlJournalV1 \<Rightarrow> u64 option" where
  "next_generation_from_journal journal =
     (let last = (if cj_state journal = journal_word JIdle
                  then max (cj_old_generation journal) (cj_new_generation journal) else 0)
      in if last \<ge> U64_MAX - 1 then None else Some (last + 1))"

definition make_control_journal ::
  "string \<Rightarrow> JournalState \<Rightarrow> u64 \<Rightarrow> u64 \<Rightarrow> u64 \<times> u64 \<Rightarrow> u64 \<times> u64 \<Rightarrow> ProcessIdentity \<Rightarrow> ControlJournalV1" where
  "make_control_journal channel_name state old_gen new_gen old_nonce new_nonce creator =
     \<lparr>cj_magic = kJournalMagic @ [0], cj_version = kJournalVersion,
      cj_channel_hash = channel_name_hash channel_name, cj_state = journal_word state, cj_reserved0 = 0,
      cj_target_dev = 0, cj_target_ino = 0, cj_old_generation = old_gen, cj_new_generation = new_gen,
      cj_old_nonce_hi = fst old_nonce, cj_old_nonce_lo = snd old_nonce, cj_new_nonce_hi = fst new_nonce,
      cj_new_nonce_lo = snd new_nonce, cj_padding = replicate 40 0,
      cj_creator =
        \<lparr>pa_role_epoch = 0, pa_pid = id_pid creator, pa_ticks = id_ticks creator,
         pa_boot_hi = id_boot_hi creator, pa_boot_lo = id_boot_lo creator, pa_reserved = replicate 24 0\<rparr>,
      cj_record_checksum = 0, cj_transport = 0, cj_reserved = replicate 52 0\<rparr>"

subsection \<open>A file that only the holder of the lock changes\<close>

text \<open>Reads that never fail and return nothing only at the end of the file.\<close>

definition os_reads :: "channel_os \<Rightarrow> bool" where
  "os_reads k \<longleftrightarrow> (\<forall>i. \<exists>n. os_pread k i = Inr (Suc n))"

lemma overwrite_next:
  assumes "take k f = take k src" and "k \<le> length f" and "k \<le> length src"
    and "chunk = take (Suc n) (drop k src)"
  shows "overwrite f k chunk = take (k + length chunk) src @ drop (k + length chunk) f"
proof -
  have "take (k + length chunk) src = take k src @ chunk"
    using assms(4) by (simp add: take_add min_def)
  then show ?thesis using assms(1,2) by (simp add: overwrite_def)
qed

lemma parse_sealed:
  assumes "journal_shaped j" and "take 7 (cj_magic j) = kJournalMagic" and "cj_version j = kJournalVersion"
  shows "parse_journal (journal_bytes (sealed_journal j)) = Inr (sealed_journal j)"
proof -
  have shaped: "journal_shaped (sealed_journal j)"
    using assms(1) by (simp add: journal_shaped_def sealed_journal_def)
  have len: "length (journal_bytes (sealed_journal j)) = 256" by (rule length_journal_bytes [OF shaped])
  have "journal_checksum (sealed_journal j) = cj_record_checksum (sealed_journal j)"
    by (simp add: journal_checksum_def sealed_journal_def)
  moreover have "journal_bytes (sealed_journal j) \<noteq> []" using len by auto
  ultimately show ?thesis
    using journal_of_journal_bytes [OF shaped] len assms(2,3)
    by (simp add: parse_journal_def Let_def kJournalRecordSize_def) (simp add: sealed_journal_def)
qed

lemma parse_partial: "bs \<noteq> [] \<Longrightarrow> length bs < 256 \<Longrightarrow> parse_journal bs = Inl kRecoveryBlocked"
  by (simp add: parse_journal_def kJournalRecordSize_def)

text \<open>The checksum of a record that is read is the hash of its bytes with the checksum cleared.\<close>

lemma journal_checksum_of_bytes:
  assumes "length bs = 256"
  shows "journal_checksum (journal_of_bytes bs) = fnv1a64 (take 192 bs @ le64 0 @ drop 200 bs)"
    and "le64 (cj_record_checksum (journal_of_bytes bs)) = take 8 (drop 192 bs)"
proof -
  have "journal_bytes ((journal_of_bytes bs)\<lparr>cj_record_checksum := 0\<rparr>) = take 192 bs @ le64 0 @ drop 200 bs"
    using journal_bytes_of_bytes(2,3) [OF assms]
    by (simp add: journal_bytes_def journal_front_def journal_back_def)
  then show "journal_checksum (journal_of_bytes bs) = fnv1a64 (take 192 bs @ le64 0 @ drop 200 bs)"
    by (simp add: journal_checksum_def)
  show "le64 (cj_record_checksum (journal_of_bytes bs)) = take 8 (drop 192 bs)"
    using assms by (simp add: journal_of_bytes_def) (simp add: slice_def)
qed

lemma fnv1a64_one_byte: "b \<noteq> c \<Longrightarrow> fnv1a64 (xs @ b # ys) \<noteq> fnv1a64 (xs @ c # ys)"
  by (simp add: fnv1a64_def fold_fnv_inj fnv_step_inj_byte)

lemma fnv1a64_update:
  assumes "i < length bs" and "bs ! i \<noteq> c"
  shows "fnv1a64 (bs[i := c]) \<noteq> fnv1a64 bs"
  using assms fnv1a64_one_byte [of "bs ! i" c "take i bs" "drop (Suc i) bs"]
  by (metis id_take_nth_drop upd_conv_take_nth_drop)

lemma parse_one_byte_changed:
  assumes valid: "parse_journal bs = Inr j" "length bs = 256" "\<not> list_all (\<lambda>b. b = 0) (bs[i := c])"
    and "\<not> list_all (\<lambda>b. b = 0) bs" and i: "i < 256" and change: "bs ! i \<noteq> c"
  shows "parse_journal (bs[i := c]) = Inl kRecoveryBlocked"
proof -
  let ?bs = "bs[i := c]"
  let ?sum = "\<lambda>bs. fnv1a64 (take 192 bs @ le64 0 @ drop 200 bs)"
  have ok: "journal_checksum (journal_of_bytes bs) = cj_record_checksum (journal_of_bytes bs)"
    using assms(1,2,4) by (auto simp: parse_journal_def Let_def kJournalRecordSize_def split: if_splits)
  have len: "length ?bs = 256" using assms(2) by simp
  have "journal_checksum (journal_of_bytes ?bs) \<noteq> cj_record_checksum (journal_of_bytes ?bs)"
  proof
    assume eq: "journal_checksum (journal_of_bytes ?bs) = cj_record_checksum (journal_of_bytes ?bs)"
    have field: "le64 (?sum bs) = take 8 (drop 192 bs)" "le64 (?sum ?bs) = take 8 (drop 192 ?bs)"
      using ok eq journal_checksum_of_bytes [OF assms(2)] journal_checksum_of_bytes [OF len] by simp_all
    consider "i < 192" | "192 \<le> i" "i < 200" | "200 \<le> i" by linarith
    then show False
    proof cases
      case 1
      have "take 192 ?bs = (take 192 bs)[i := c]" "drop 200 ?bs = drop 200 bs" "drop 192 ?bs = drop 192 bs"
        using 1 by (simp_all add: take_update_swap)
      then have "?sum ?bs \<noteq> ?sum bs"
        using fnv1a64_update [of i "take 192 bs @ le64 0 @ drop 200 bs" c] 1 assms(2) change
        by (simp add: list_update_append nth_append)
      then show False using field \<open>drop 192 ?bs = drop 192 bs\<close> by (metis from_le64)
    next
      case 2
      have "take 192 ?bs = take 192 bs" "drop 200 ?bs = drop 200 bs"
        using 2 by simp_all
      then have "take 8 (drop 192 ?bs) = take 8 (drop 192 bs)" using field by simp
      then have "take 8 (drop 192 ?bs) ! (i - 192) = take 8 (drop 192 bs) ! (i - 192)" by simp
      then show False using 2 assms(2) change by simp
    next
      case 3
      have "take 192 ?bs = take 192 bs" "take 8 (drop 192 ?bs) = take 8 (drop 192 bs)"
        using 3 by (simp_all add: drop_update_swap)
      moreover have "drop 200 ?bs = (drop 200 bs)[i - 200 := c]"
        using 3 by (simp add: drop_update_swap)
      moreover have "\<not> i - 192 < 8" "i - 192 - 8 = i - 200" using 3 by simp_all
      ultimately have "?sum ?bs \<noteq> ?sum bs"
        using fnv1a64_update [of i "take 192 bs @ le64 0 @ drop 200 bs" c] 3 assms(2) change i
        by (simp add: list_update_append nth_append)
      then show False using field \<open>take 8 (drop 192 ?bs) = _\<close> by (metis from_le64)
    qed
  qed
  moreover have "?bs \<noteq> []" using len by auto
  ultimately show ?thesis
    using assms(3) len by (simp add: parse_journal_def Let_def kJournalRecordSize_def)
qed

locale journal_file = fil: lens fc + osc: lens oc
  for fc :: "('s, bytes) cell" and oc :: "('s, channel_os) cell" +
  assumes file_os [simp]: "rd fc (wr oc k s) = rd fc s"
    and os_file [simp]: "rd oc (wr fc b s) = rd oc s"
begin

lemma pread_all:
  assumes "os_reads (rd oc s)" and "want - length got < passes"
    and "got = take (length got) (rd fc s)" and "length got \<le> want"
  shows "fst (run (pread_loop fc oc passes want got) s) = Inr (take want (rd fc s))"
  using assms
proof (induction passes arbitrary: got s)
  case (Suc passes)
  let ?s = "wr oc ((rd oc s)\<lparr>os_io_calls := Suc (os_io_calls (rd oc s))\<rparr>) s"
  obtain n where n: "os_pread (rd oc s) (os_io_calls (rd oc s)) = Inr (Suc n)"
    using Suc.prems(1) by (auto simp: os_reads_def)
  define chunk where "chunk = take (min (Suc n) (want - length got)) (drop (length got) (rd fc s))"
  have sum: "got @ chunk = take (length got + min (Suc n) (want - length got)) (rd fc s)"
    using Suc.prems(3) unfolding chunk_def take_add by simp
  show ?case
  proof (cases "length got \<ge> want")
    case True
    then show ?thesis using Suc.prems(3,4) by simp
  next
    case False
    show ?thesis
    proof (cases "chunk = []")
      case True
      then have "length (rd fc s) \<le> length got" using False by (auto simp: chunk_def)
      then have "take want (rd fc s) = got"
        using False Suc.prems(3) by (metis nat_le_linear order_trans take_all)
      then show ?thesis
        using False True n by (simp add: run_simps chunk_def)
    next
      case nonempty: False
      have "os_reads (rd oc ?s)" using Suc.prems(1) by (simp add: os_reads_def osc.rd_wr)
      moreover have "want - length (got @ chunk) < passes" "length (got @ chunk) \<le> want"
        using nonempty Suc.prems(2) False by (simp_all add: chunk_def)
      moreover have "got @ chunk = take (length (got @ chunk)) (rd fc ?s)"
        unfolding sum by (simp add: min_def)
      ultimately have "fst (run (pread_loop fc oc passes want (got @ chunk)) ?s) = Inr (take want (rd fc ?s))"
        by (intro Suc.IH)
      then show ?thesis
        using False nonempty n by (auto simp: run_simps chunk_def min_def split: if_splits)
    qed
  qed
qed simp

lemma pwrite_crash:
  assumes "take k (rd fc s) = take k src" and "k \<le> length (rd fc s)" and "k \<le> length src"
    and "c \<in> crash_states (pwrite_loop fc oc passes src k) s"
  shows "\<exists>m. k \<le> m \<and> m \<le> length src \<and> rd fc c = take m src @ drop m (rd fc s)"
  using assms
proof (induction passes arbitrary: k s)
  case 0
  then show ?case by (metis append_take_drop_id crash_states.simps(1) order_refl pwrite_loop.simps(1) singletonD)
next
  case (Suc passes)
  let ?f = "rd fc s"
  let ?s = "wr oc ((rd oc s)\<lparr>os_io_calls := Suc (os_io_calls (rd oc s))\<rparr>) s"
  let ?answer = "os_pwrite (rd oc s) (os_io_calls (rd oc s))"
  have here: ?case if "rd fc c = ?f"
    using that Suc.prems(1,2,3) by (intro exI [of _ k]) (metis append_take_drop_id order_refl)
  show ?case
  proof (cases "length src \<le> k")
    case True
    then show ?thesis using Suc.prems(4) here by simp
  next
    case False
    show ?thesis
    proof (cases ?answer)
      case (Inl e)
      then show ?thesis
        using False Suc.prems(4) here by (auto simp: os_io_def crash_states_bind)
    next
      case (Inr n)
      define chunk where "chunk = take (Suc n) (drop k src)"
      have clen: "length chunk = min (length src - k) (Suc n)" by (simp add: chunk_def)
      let ?t = "wr fc (overwrite ?f k chunk) ?s"
      have t: "rd fc ?t = take (k + length chunk) src @ drop (k + length chunk) ?f"
        using overwrite_next [OF Suc.prems(1,2,3) chunk_def] by (simp add: fil.rd_wr)
      have le: "k + length chunk \<le> length src"
        using Suc.prems(3) by (simp add: chunk_def)
      have "c \<in> {s, ?s} \<or> c \<in> crash_states (pwrite_loop fc oc passes src (k + length chunk)) ?t"
        using Suc.prems(4) False Inr
        by (auto simp: os_io_def crash_states_bind run_simps Let_def clen simp flip: chunk_def)
      then show ?thesis
      proof
        assume "c \<in> {s, ?s}"
        then show ?thesis using here by auto
      next
        assume c: "c \<in> crash_states (pwrite_loop fc oc passes src (k + length chunk)) ?t"
        have "take (k + length chunk) (rd fc ?t) = take (k + length chunk) src" "k + length chunk \<le> length (rd fc ?t)"
          using le by (simp_all add: t)
        from Suc.IH [OF this le c] obtain m where m: "k + length chunk \<le> m" "m \<le> length src"
            "rd fc c = take m src @ drop m (rd fc ?t)"
          by blast
        have "drop m (rd fc ?t) = drop m ?f"
          using m(1) le by (simp add: t)
        then show ?thesis using m by (intro exI [of _ m]) simp
      qed
    qed
  qed
qed

lemma pwrite_done:
  assumes "take k (rd fc s) = take k src" and "k \<le> length (rd fc s)" and "k \<le> length src"
    and "length src - k \<le> passes" and "fst (run (pwrite_loop fc oc passes src k) s) = Inr ()"
  shows "rd fc (snd (run (pwrite_loop fc oc passes src k) s)) = src @ drop (length src) (rd fc s)"
  using assms
proof (induction passes arbitrary: k s)
  case 0
  then show ?case by simp (metis append_take_drop_id le_antisym order_refl take_all)
next
  case (Suc passes)
  let ?f = "rd fc s"
  let ?s = "wr oc ((rd oc s)\<lparr>os_io_calls := Suc (os_io_calls (rd oc s))\<rparr>) s"
  let ?answer = "os_pwrite (rd oc s) (os_io_calls (rd oc s))"
  show ?case
  proof (cases "length src \<le> k")
    case True
    then show ?thesis using Suc.prems(1,3) by simp (metis append_take_drop_id le_antisym take_all)
  next
    case False
    then obtain n where n: "?answer = Inr n"
      using Suc.prems(5) by (cases ?answer) (auto simp: run_simps)
    define chunk where "chunk = take (Suc n) (drop k src)"
    have clen: "length chunk = min (length src - k) (Suc n)" by (simp add: chunk_def)
    let ?t = "wr fc (overwrite ?f k chunk) ?s"
    have t: "rd fc ?t = take (k + length chunk) src @ drop (k + length chunk) ?f"
      using overwrite_next [OF Suc.prems(1,2,3) chunk_def] by (simp add: fil.rd_wr)
    have le: "k + length chunk \<le> length src" and len: "0 < length chunk"
      using Suc.prems(3) False by (simp_all add: chunk_def)
    have step: "run (pwrite_loop fc oc (Suc passes) src k) s = run (pwrite_loop fc oc passes src (k + length chunk)) ?t"
      using False n by (simp add: run_simps Let_def clen flip: chunk_def)
    have left: "length src - (k + length chunk) \<le> passes"
      using Suc.prems(4) len by linarith
    have "rd fc (snd (run (pwrite_loop fc oc passes src (k + length chunk)) ?t)) =
        src @ drop (length src) (rd fc ?t)"
      using Suc.prems(5) le left unfolding step by (intro Suc.IH) (simp_all add: t)
    then show ?thesis using le unfolding step by (simp add: t)
  qed
qed

lemma read_parses:
  assumes "os_reads (rd oc s)"
  shows "fst (run (read_journal fc oc) s) = parse_journal (take 256 (rd fc s))"
  using pread_all [OF assms, of kJournalRecordSize "[]" "Suc kJournalRecordSize"]
  by (auto simp: read_journal_def run_simps kJournalRecordSize_def split: prod.splits)

text \<open>A write that returns success left exactly the sealed record.\<close>

lemma write_done:
  assumes "journal_shaped j" and "length (rd fc s) \<le> 256" and w: "fst (run (write_journal fc oc j) s) = Inr ()"
  shows "rd fc (snd (run (write_journal fc oc j) s)) = journal_bytes (sealed_journal j)"
proof -
  let ?rec = "journal_bytes (sealed_journal j)"
  have len: "length ?rec = 256"
    using assms(1) by (intro length_journal_bytes) (simp add: journal_shaped_def sealed_journal_def)
  have "fst (run (pwrite_loop fc oc kJournalRecordSize ?rec 0) s) = Inr ()"
    using w by (auto simp: write_journal_def run_simps split: if_splits prod.splits sum.splits option.splits)
  then have "rd fc (snd (run (pwrite_loop fc oc kJournalRecordSize ?rec 0) s)) = ?rec @ drop (length ?rec) (rd fc s)"
    by (intro pwrite_done) (simp_all add: len kJournalRecordSize_def)
  then show ?thesis
    using w assms(2) len
    by (auto simp: write_journal_def run_simps split: if_splits prod.splits sum.splits option.splits)
qed

lemma write_crash:
  assumes "journal_shaped j" and "c \<in> crash_states (write_journal fc oc j) s"
  shows "\<exists>m \<le> 256. rd fc c = take m (journal_bytes (sealed_journal j)) @ drop m (rd fc s)"
proof -
  let ?rec = "journal_bytes (sealed_journal j)"
  let ?p = "pwrite_loop fc oc kJournalRecordSize ?rec 0"
  have len: "length ?rec = 256"
    using assms(1) by (intro length_journal_bytes) (simp add: journal_shaped_def sealed_journal_def)
  have loop: "\<exists>m \<le> 256. rd fc d = take m ?rec @ drop m (rd fc s)" if "d \<in> crash_states ?p s" for d
    using pwrite_crash [of 0 s ?rec d kJournalRecordSize] that len by auto
  have "c = s \<or> c \<in> crash_states ?p s \<or> rd fc c = rd fc (snd (run ?p s))"
    using assms(2)
    by (auto simp: write_journal_def crash_states_bind os_io_def split: if_splits sum.splits option.splits)
  then show ?thesis
    using loop [OF run_crash_states] loop by (auto intro: exI [of _ 0])
qed

end

end
