(* ===== verification/ER_Chan.thy ===== *)
theory ER_Chan
  imports ER_Journal
begin

text \<open>
  The memory of channels and the functions on it that producers, consumers and observers share
  (\<open>channel/channel_abi.cpp\<close>, \<open>channel/slot_protocol.cpp\<close>, the option and handle types). A world has
  the shared memory objects, the handles of the processes, the lock files and the operating system;
  the bootstrap of an object is its first 128 bytes, since it is also written through the descriptor.
\<close>


subsection \<open>Options and handles\<close>

datatype Transport = PosixShm | MemfdFdPass

primrec transport_word :: "Transport \<Rightarrow> u32" where
  "transport_word PosixShm = 0"
| "transport_word MemfdFdPass = 1"

record ChannelOptions =
  co_name :: string
  co_stale_timeout_ms :: int
  co_reconnect_timeout_ms :: int
  co_enable_payload_checksum :: bool
  co_transport :: u32
  co_heartbeat_interval_ns :: int

text \<open>The object behind a mapping, by device and inode; its first 128 bytes are the bootstrap.\<close>

type_synonym object = "u64 \<times> u64"

record ProducerHandle =
  pd_ref :: nat
  pd_object :: object
  pd_channel_name :: string
  pd_generation :: u64
  pd_role_epoch :: u64
  pd_nonce_hi :: u64
  pd_nonce_lo :: u64
  pd_schema_fingerprint :: bytes
  pd_schema_version :: u32
  pd_payload_size :: u32
  pd_self :: ProcessIdentity
  pd_transport :: u32
  pd_channel_hash :: u32
  pd_socket_path :: string
  pd_heartbeat_interval_ns :: u64

record producer_flags =
  pf_in_use :: bool
  pf_shutdown_pending :: bool
  pf_shutdown_started :: bool
  pf_serve_stop :: bool
  pf_socket_unlinked :: bool

record ConsumerHandle =
  cn_object :: object
  cn_channel_name :: string
  cn_transport :: u32
  cn_generation :: u64
  cn_role_epoch :: u64
  cn_nonce_hi :: u64
  cn_nonce_lo :: u64
  cn_schema_fingerprint :: bytes
  cn_schema_version :: u32
  cn_payload_size :: u32
  cn_self :: ProcessIdentity
  cn_reconnect_timeout_ms :: u64
  cn_last_sequence :: u64
  cn_first_sample :: bool
  cn_in_use :: bool
  cn_shutdown_pending :: bool
  cn_shutdown_started :: bool

record PublishInfo =
  pi_info_generation :: u64
  pi_info_sequence :: u64
  pi_info_publish_boot_ns :: u64

record ReadSnapshot =
  rs_encoded_size :: u32
  rs_checksum_ok :: bool
  rs_sample_sequence :: u64
  rs_publish_boot_ns :: u64
  rs_receive_boot_ns :: u64
  rs_generation :: u64
  rs_instance_nonce :: bytes
  rs_missed_samples :: u64

subsection \<open>Memory\<close>

record chan_seg =
  sg_boot :: bytes
  sg_hdr :: ChannelHeaderAbi
  sg_slots :: "u64 \<Rightarrow> SlotHeaderAbi"

record chan_world =
  cw_segs :: "object \<Rightarrow> chan_seg"
  cw_prods :: "nat \<Rightarrow> producer_flags"
  cw_cons :: "nat \<Rightarrow> ConsumerHandle"
  cw_journals :: "string \<Rightarrow> bytes"
  cw_os :: channel_os
  cw_kern :: kernel

definition chan_seg_c :: "object \<Rightarrow> (chan_world, chan_seg) cell" where
  "chan_seg_c ob = \<lparr>rd = (\<lambda>w. cw_segs w ob), wr = (\<lambda>v w. w\<lparr>cw_segs := (cw_segs w)(ob := v)\<rparr>)\<rparr>"
definition prod_flags_c :: "nat \<Rightarrow> (chan_world, producer_flags) cell" where
  "prod_flags_c r = \<lparr>rd = (\<lambda>w. cw_prods w r), wr = (\<lambda>v w. w\<lparr>cw_prods := (cw_prods w)(r := v)\<rparr>)\<rparr>"
definition cons_c :: "nat \<Rightarrow> (chan_world, ConsumerHandle) cell" where
  "cons_c r = \<lparr>rd = (\<lambda>w. cw_cons w r), wr = (\<lambda>v w. w\<lparr>cw_cons := (cw_cons w)(r := v)\<rparr>)\<rparr>"
definition journal_c :: "string \<Rightarrow> (chan_world, bytes) cell" where
  "journal_c path =
     \<lparr>rd = (\<lambda>w. cw_journals w path), wr = (\<lambda>v w. w\<lparr>cw_journals := (cw_journals w)(path := v)\<rparr>)\<rparr>"
definition chan_os_c :: "(chan_world, channel_os) cell" where
  "chan_os_c = \<lparr>rd = cw_os, wr = (\<lambda>v w. w\<lparr>cw_os := v\<rparr>)\<rparr>"
definition chan_kern_c :: "(chan_world, kernel) cell" where
  "chan_kern_c = \<lparr>rd = cw_kern, wr = (\<lambda>v w. w\<lparr>cw_kern := v\<rparr>)\<rparr>"

definition chan_boot_c :: "object \<Rightarrow> (chan_world, bytes) cell" where
  "chan_boot_c ob = field (chan_seg_c ob) \<lparr>rd = sg_boot, wr = (\<lambda>v g. g\<lparr>sg_boot := v\<rparr>)\<rparr>"
definition boot_init_state_c :: "object \<Rightarrow> (chan_world, u32) cell" where
  "boot_init_state_c ob =
     field (chan_boot_c ob)
       \<lparr>rd = (\<lambda>b. from_le32 (slice 72 4 b)), wr = (\<lambda>v b. take 72 b @ le32 v @ drop 76 b)\<rparr>"
definition chan_hdr_c :: "object \<Rightarrow> (chan_world, ChannelHeaderAbi) cell" where
  "chan_hdr_c ob = field (chan_seg_c ob) \<lparr>rd = sg_hdr, wr = (\<lambda>v g. g\<lparr>sg_hdr := v\<rparr>)\<rparr>"
definition chan_immutable_c :: "object \<Rightarrow> (chan_world, chan_immutable) cell" where
  "chan_immutable_c ob = field (chan_hdr_c ob) \<lparr>rd = ch_immutable, wr = (\<lambda>v h. h\<lparr>ch_immutable := v\<rparr>)\<rparr>"
definition producer_id_c :: "object \<Rightarrow> (chan_world, ProcessIdentityAbi) cell" where
  "producer_id_c ob = field (chan_hdr_c ob) \<lparr>rd = ch_producer, wr = (\<lambda>v h. h\<lparr>ch_producer := v\<rparr>)\<rparr>"
definition consumer_id_c :: "object \<Rightarrow> (chan_world, ProcessIdentityAbi) cell" where
  "consumer_id_c ob = field (chan_hdr_c ob) \<lparr>rd = ch_consumer, wr = (\<lambda>v h. h\<lparr>ch_consumer := v\<rparr>)\<rparr>"
definition latest_ticket_c :: "object \<Rightarrow> (chan_world, u64) cell" where
  "latest_ticket_c ob = field (chan_hdr_c ob) \<lparr>rd = ch_latest_ticket, wr = (\<lambda>v h. h\<lparr>ch_latest_ticket := v\<rparr>)\<rparr>"
definition chan_notify_c :: "object \<Rightarrow> (chan_world, u32) cell" where
  "chan_notify_c ob = field (chan_hdr_c ob) \<lparr>rd = ch_notify_epoch, wr = (\<lambda>v h. h\<lparr>ch_notify_epoch := v\<rparr>)\<rparr>"
definition chan_init_c :: "object \<Rightarrow> (chan_world, u32) cell" where
  "chan_init_c ob = field (chan_hdr_c ob) \<lparr>rd = ch_init_state, wr = (\<lambda>v h. h\<lparr>ch_init_state := v\<rparr>)\<rparr>"
definition producer_state_c :: "object \<Rightarrow> (chan_world, u32) cell" where
  "producer_state_c ob = field (chan_hdr_c ob) \<lparr>rd = ch_producer_state, wr = (\<lambda>v h. h\<lparr>ch_producer_state := v\<rparr>)\<rparr>"
definition consumer_state_c :: "object \<Rightarrow> (chan_world, u32) cell" where
  "consumer_state_c ob = field (chan_hdr_c ob) \<lparr>rd = ch_consumer_state, wr = (\<lambda>v h. h\<lparr>ch_consumer_state := v\<rparr>)\<rparr>"
definition publish_count_c :: "object \<Rightarrow> (chan_world, u64) cell" where
  "publish_count_c ob = field (chan_hdr_c ob) \<lparr>rd = ch_publish_count, wr = (\<lambda>v h. h\<lparr>ch_publish_count := v\<rparr>)\<rparr>"
definition read_count_c :: "object \<Rightarrow> (chan_world, u64) cell" where
  "read_count_c ob = field (chan_hdr_c ob) \<lparr>rd = ch_read_count, wr = (\<lambda>v h. h\<lparr>ch_read_count := v\<rparr>)\<rparr>"
definition last_publish_c :: "object \<Rightarrow> (chan_world, u64) cell" where
  "last_publish_c ob =
     field (chan_hdr_c ob) \<lparr>rd = ch_last_publish_boot_ns, wr = (\<lambda>v h. h\<lparr>ch_last_publish_boot_ns := v\<rparr>)\<rparr>"
definition heartbeat_c :: "object \<Rightarrow> (chan_world, u64) cell" where
  "heartbeat_c ob = field (chan_hdr_c ob) \<lparr>rd = ch_heartbeat_boot_ns, wr = (\<lambda>v h. h\<lparr>ch_heartbeat_boot_ns := v\<rparr>)\<rparr>"

definition chan_slot_c :: "object \<Rightarrow> u64 \<Rightarrow> (chan_world, SlotHeaderAbi) cell" where
  "chan_slot_c ob off =
     field (chan_seg_c ob) \<lparr>rd = (\<lambda>g. sg_slots g off), wr = (\<lambda>v g. g\<lparr>sg_slots := (sg_slots g)(off := v)\<rparr>)\<rparr>"
definition cslot_state_c :: "object \<Rightarrow> u64 \<Rightarrow> (chan_world, u32) cell" where
  "cslot_state_c ob off = field (chan_slot_c ob off) \<lparr>rd = cs_state, wr = (\<lambda>v x. x\<lparr>cs_state := v\<rparr>)\<rparr>"
definition cslot_size_c :: "object \<Rightarrow> u64 \<Rightarrow> (chan_world, u32) cell" where
  "cslot_size_c ob off = field (chan_slot_c ob off) \<lparr>rd = cs_payload_size, wr = (\<lambda>v x. x\<lparr>cs_payload_size := v\<rparr>)\<rparr>"
definition cslot_sequence_c :: "object \<Rightarrow> u64 \<Rightarrow> (chan_world, u64) cell" where
  "cslot_sequence_c ob off =
     field (chan_slot_c ob off) \<lparr>rd = cs_sample_sequence, wr = (\<lambda>v x. x\<lparr>cs_sample_sequence := v\<rparr>)\<rparr>"
definition cslot_publish_ns_c :: "object \<Rightarrow> u64 \<Rightarrow> (chan_world, u64) cell" where
  "cslot_publish_ns_c ob off =
     field (chan_slot_c ob off) \<lparr>rd = cs_publish_boot_ns, wr = (\<lambda>v x. x\<lparr>cs_publish_boot_ns := v\<rparr>)\<rparr>"
definition cslot_checksum_c :: "object \<Rightarrow> u64 \<Rightarrow> (chan_world, u64) cell" where
  "cslot_checksum_c ob off =
     field (chan_slot_c ob off) \<lparr>rd = cs_payload_checksum, wr = (\<lambda>v x. x\<lparr>cs_payload_checksum := v\<rparr>)\<rparr>"
definition cslot_reader_c :: "object \<Rightarrow> u64 \<Rightarrow> (chan_world, u64) cell" where
  "cslot_reader_c ob off =
     field (chan_slot_c ob off) \<lparr>rd = cs_reader_role_epoch, wr = (\<lambda>v x. x\<lparr>cs_reader_role_epoch := v\<rparr>)\<rparr>"
definition cslot_payload_c :: "object \<Rightarrow> u64 \<Rightarrow> nat \<Rightarrow> (chan_world, u8) cell" where
  "cslot_payload_c ob off i =
     field (chan_slot_c ob off) \<lparr>rd = (\<lambda>x. cs_payload x i), wr = (\<lambda>v x. x\<lparr>cs_payload := (cs_payload x)(i := v)\<rparr>)\<rparr>"

definition pf_in_use_c :: "nat \<Rightarrow> (chan_world, bool) cell" where
  "pf_in_use_c r = field (prod_flags_c r) \<lparr>rd = pf_in_use, wr = (\<lambda>v f. f\<lparr>pf_in_use := v\<rparr>)\<rparr>"
definition pf_pending_c :: "nat \<Rightarrow> (chan_world, bool) cell" where
  "pf_pending_c r = field (prod_flags_c r) \<lparr>rd = pf_shutdown_pending, wr = (\<lambda>v f. f\<lparr>pf_shutdown_pending := v\<rparr>)\<rparr>"
definition pf_started_c :: "nat \<Rightarrow> (chan_world, bool) cell" where
  "pf_started_c r = field (prod_flags_c r) \<lparr>rd = pf_shutdown_started, wr = (\<lambda>v f. f\<lparr>pf_shutdown_started := v\<rparr>)\<rparr>"
definition pf_serve_stop_c :: "nat \<Rightarrow> (chan_world, bool) cell" where
  "pf_serve_stop_c r = field (prod_flags_c r) \<lparr>rd = pf_serve_stop, wr = (\<lambda>v f. f\<lparr>pf_serve_stop := v\<rparr>)\<rparr>"
definition pf_unlinked_c :: "nat \<Rightarrow> (chan_world, bool) cell" where
  "pf_unlinked_c r = field (prod_flags_c r) \<lparr>rd = pf_socket_unlinked, wr = (\<lambda>v f. f\<lparr>pf_socket_unlinked := v\<rparr>)\<rparr>"
definition cn_in_use_c :: "nat \<Rightarrow> (chan_world, bool) cell" where
  "cn_in_use_c r = field (cons_c r) \<lparr>rd = cn_in_use, wr = (\<lambda>v f. f\<lparr>cn_in_use := v\<rparr>)\<rparr>"
definition cn_pending_c :: "nat \<Rightarrow> (chan_world, bool) cell" where
  "cn_pending_c r = field (cons_c r) \<lparr>rd = cn_shutdown_pending, wr = (\<lambda>v f. f\<lparr>cn_shutdown_pending := v\<rparr>)\<rparr>"
definition cn_started_c :: "nat \<Rightarrow> (chan_world, bool) cell" where
  "cn_started_c r = field (cons_c r) \<lparr>rd = cn_shutdown_started, wr = (\<lambda>v f. f\<lparr>cn_shutdown_started := v\<rparr>)\<rparr>"
definition cn_last_sequence_c :: "nat \<Rightarrow> (chan_world, u64) cell" where
  "cn_last_sequence_c r = field (cons_c r) \<lparr>rd = cn_last_sequence, wr = (\<lambda>v f. f\<lparr>cn_last_sequence := v\<rparr>)\<rparr>"
definition cn_first_sample_c :: "nat \<Rightarrow> (chan_world, bool) cell" where
  "cn_first_sample_c r = field (cons_c r) \<lparr>rd = cn_first_sample, wr = (\<lambda>v f. f\<lparr>cn_first_sample := v\<rparr>)\<rparr>"

definition pa_role_epoch_c :: "(ProcessIdentityAbi, u64) cell" where
  "pa_role_epoch_c = \<lparr>rd = pa_role_epoch, wr = (\<lambda>v p. p\<lparr>pa_role_epoch := v\<rparr>)\<rparr>"
definition pa_pid_c :: "(ProcessIdentityAbi, u64) cell" where
  "pa_pid_c = \<lparr>rd = pa_pid, wr = (\<lambda>v p. p\<lparr>pa_pid := v\<rparr>)\<rparr>"
definition pa_ticks_c :: "(ProcessIdentityAbi, u64) cell" where
  "pa_ticks_c = \<lparr>rd = pa_ticks, wr = (\<lambda>v p. p\<lparr>pa_ticks := v\<rparr>)\<rparr>"
definition pa_boot_hi_c :: "(ProcessIdentityAbi, u64) cell" where
  "pa_boot_hi_c = \<lparr>rd = pa_boot_hi, wr = (\<lambda>v p. p\<lparr>pa_boot_hi := v\<rparr>)\<rparr>"
definition pa_boot_lo_c :: "(ProcessIdentityAbi, u64) cell" where
  "pa_boot_lo_c = \<lparr>rd = pa_boot_lo, wr = (\<lambda>v p. p\<lparr>pa_boot_lo := v\<rparr>)\<rparr>"

lemmas chan_cells [cell_defs] =
  chan_seg_c_def prod_flags_c_def cons_c_def journal_c_def chan_os_c_def chan_kern_c_def chan_boot_c_def
  boot_init_state_c_def chan_hdr_c_def chan_immutable_c_def producer_id_c_def consumer_id_c_def latest_ticket_c_def
  chan_notify_c_def chan_init_c_def producer_state_c_def consumer_state_c_def publish_count_c_def read_count_c_def
  last_publish_c_def heartbeat_c_def chan_slot_c_def cslot_state_c_def cslot_size_c_def cslot_sequence_c_def
  cslot_publish_ns_c_def cslot_checksum_c_def cslot_reader_c_def cslot_payload_c_def pf_in_use_c_def pf_pending_c_def
  pf_started_c_def pf_serve_stop_c_def pf_unlinked_c_def cn_in_use_c_def cn_pending_c_def cn_started_c_def
  cn_last_sequence_c_def cn_first_sample_c_def pa_role_epoch_c_def pa_pid_c_def pa_ticks_c_def pa_boot_hi_c_def
  pa_boot_lo_c_def

abbreviation seg_hdr :: "chan_world \<Rightarrow> object \<Rightarrow> ChannelHeaderAbi" where
  "seg_hdr w ob \<equiv> sg_hdr (cw_segs w ob)"

abbreviation seg_im :: "chan_world \<Rightarrow> object \<Rightarrow> chan_immutable" where
  "seg_im w ob \<equiv> ch_immutable (seg_hdr w ob)"

abbreviation seg_slot :: "chan_world \<Rightarrow> object \<Rightarrow> u64 \<Rightarrow> SlotHeaderAbi" where
  "seg_slot w ob off \<equiv> sg_slots (cw_segs w ob) off"

abbreviation seg_ticket :: "chan_world \<Rightarrow> object \<Rightarrow> u64" where
  "seg_ticket w ob \<equiv> ch_latest_ticket (seg_hdr w ob)"

text \<open>Updates of one header field and of one slot.\<close>

definition set_hdr :: "object \<Rightarrow> ChannelHeaderAbi \<Rightarrow> chan_world \<Rightarrow> chan_world" where
  "set_hdr ob h w = w\<lparr>cw_segs := (cw_segs w)(ob := (cw_segs w ob)\<lparr>sg_hdr := h\<rparr>)\<rparr>"

definition set_slot :: "object \<Rightarrow> u64 \<Rightarrow> SlotHeaderAbi \<Rightarrow> chan_world \<Rightarrow> chan_world" where
  "set_slot ob off x w =
     w\<lparr>cw_segs := (cw_segs w)(ob := (cw_segs w ob)\<lparr>sg_slots := (sg_slots (cw_segs w ob))(off := x)\<rparr>)\<rparr>"

lemma chan_cell_access [run_simps]:
  "rd (chan_seg_c ob) w = cw_segs w ob" "rd (prod_flags_c r) w = cw_prods w r" "rd (cons_c r) w = cw_cons w r"
  "rd (journal_c path) w = cw_journals w path" "rd chan_os_c w = cw_os w" "rd chan_kern_c w = cw_kern w"
  "wr (chan_seg_c ob) g w = w\<lparr>cw_segs := (cw_segs w)(ob := g)\<rparr>"
  "wr (cons_c r) h w = w\<lparr>cw_cons := (cw_cons w)(r := h)\<rparr>"
  "wr (journal_c path) b w = w\<lparr>cw_journals := (cw_journals w)(path := b)\<rparr>"
  "wr chan_os_c k w = w\<lparr>cw_os := k\<rparr>" "wr chan_kern_c kn w = w\<lparr>cw_kern := kn\<rparr>"
  "rd (chan_boot_c ob) w = sg_boot (cw_segs w ob)" "rd (boot_init_state_c ob) w = from_le32 (slice 72 4 (sg_boot (cw_segs w ob)))"
  "rd (chan_hdr_c ob) w = seg_hdr w ob" "rd (chan_immutable_c ob) w = seg_im w ob"
  "rd (producer_id_c ob) w = ch_producer (seg_hdr w ob)" "rd (consumer_id_c ob) w = ch_consumer (seg_hdr w ob)"
  "rd (latest_ticket_c ob) w = seg_ticket w ob" "rd (chan_notify_c ob) w = ch_notify_epoch (seg_hdr w ob)"
  "rd (chan_init_c ob) w = ch_init_state (seg_hdr w ob)" "rd (producer_state_c ob) w = ch_producer_state (seg_hdr w ob)"
  "rd (consumer_state_c ob) w = ch_consumer_state (seg_hdr w ob)"
  "rd (publish_count_c ob) w = ch_publish_count (seg_hdr w ob)" "rd (read_count_c ob) w = ch_read_count (seg_hdr w ob)"
  "rd (last_publish_c ob) w = ch_last_publish_boot_ns (seg_hdr w ob)"
  "rd (heartbeat_c ob) w = ch_heartbeat_boot_ns (seg_hdr w ob)"
  "wr (chan_hdr_c ob) hd' w = set_hdr ob hd' w"
  "wr (chan_immutable_c ob) im w = set_hdr ob ((seg_hdr w ob)\<lparr>ch_immutable := im\<rparr>) w"
  "wr (producer_id_c ob) p w = set_hdr ob ((seg_hdr w ob)\<lparr>ch_producer := p\<rparr>) w"
  "wr (consumer_id_c ob) p w = set_hdr ob ((seg_hdr w ob)\<lparr>ch_consumer := p\<rparr>) w"
  "wr (latest_ticket_c ob) t w = set_hdr ob ((seg_hdr w ob)\<lparr>ch_latest_ticket := t\<rparr>) w"
  "wr (chan_notify_c ob) e w = set_hdr ob ((seg_hdr w ob)\<lparr>ch_notify_epoch := e\<rparr>) w"
  "wr (chan_init_c ob) i w = set_hdr ob ((seg_hdr w ob)\<lparr>ch_init_state := i\<rparr>) w"
  "wr (producer_state_c ob) i w = set_hdr ob ((seg_hdr w ob)\<lparr>ch_producer_state := i\<rparr>) w"
  "wr (consumer_state_c ob) i w = set_hdr ob ((seg_hdr w ob)\<lparr>ch_consumer_state := i\<rparr>) w"
  "wr (publish_count_c ob) t w = set_hdr ob ((seg_hdr w ob)\<lparr>ch_publish_count := t\<rparr>) w"
  "wr (read_count_c ob) t w = set_hdr ob ((seg_hdr w ob)\<lparr>ch_read_count := t\<rparr>) w"
  "wr (last_publish_c ob) t w = set_hdr ob ((seg_hdr w ob)\<lparr>ch_last_publish_boot_ns := t\<rparr>) w"
  "wr (heartbeat_c ob) t w = set_hdr ob ((seg_hdr w ob)\<lparr>ch_heartbeat_boot_ns := t\<rparr>) w"
  by (simp_all add: cell_defs set_hdr_def)

lemma chan_slot_access [run_simps]:
  "rd (cslot_state_c ob off) w = cs_state (seg_slot w ob off)"
  "rd (cslot_size_c ob off) w = cs_payload_size (seg_slot w ob off)"
  "rd (cslot_sequence_c ob off) w = cs_sample_sequence (seg_slot w ob off)"
  "rd (cslot_publish_ns_c ob off) w = cs_publish_boot_ns (seg_slot w ob off)"
  "rd (cslot_checksum_c ob off) w = cs_payload_checksum (seg_slot w ob off)"
  "rd (cslot_reader_c ob off) w = cs_reader_role_epoch (seg_slot w ob off)"
  "rd (cslot_payload_c ob off i) w = cs_payload (seg_slot w ob off) i"
  "wr (cslot_state_c ob off) a w = set_slot ob off ((seg_slot w ob off)\<lparr>cs_state := a\<rparr>) w"
  "wr (cslot_size_c ob off) a w = set_slot ob off ((seg_slot w ob off)\<lparr>cs_payload_size := a\<rparr>) w"
  "wr (cslot_sequence_c ob off) b w = set_slot ob off ((seg_slot w ob off)\<lparr>cs_sample_sequence := b\<rparr>) w"
  "wr (cslot_publish_ns_c ob off) b w = set_slot ob off ((seg_slot w ob off)\<lparr>cs_publish_boot_ns := b\<rparr>) w"
  "wr (cslot_checksum_c ob off) b w = set_slot ob off ((seg_slot w ob off)\<lparr>cs_payload_checksum := b\<rparr>) w"
  "wr (cslot_reader_c ob off) b w = set_slot ob off ((seg_slot w ob off)\<lparr>cs_reader_role_epoch := b\<rparr>) w"
  "wr (cslot_payload_c ob off i) c w =
     set_slot ob off ((seg_slot w ob off)\<lparr>cs_payload := (cs_payload (seg_slot w ob off))(i := c)\<rparr>) w"
  by (simp_all add: cell_defs set_slot_def)

lemma chan_handle_access [run_simps]:
  "rd (pf_in_use_c r) w = pf_in_use (cw_prods w r)" "rd (pf_pending_c r) w = pf_shutdown_pending (cw_prods w r)"
  "rd (pf_started_c r) w = pf_shutdown_started (cw_prods w r)" "rd (pf_serve_stop_c r) w = pf_serve_stop (cw_prods w r)"
  "rd (pf_unlinked_c r) w = pf_socket_unlinked (cw_prods w r)"
  "wr (pf_in_use_c r) b w = w\<lparr>cw_prods := (cw_prods w)(r := (cw_prods w r)\<lparr>pf_in_use := b\<rparr>)\<rparr>"
  "wr (pf_pending_c r) b w = w\<lparr>cw_prods := (cw_prods w)(r := (cw_prods w r)\<lparr>pf_shutdown_pending := b\<rparr>)\<rparr>"
  "wr (pf_started_c r) b w = w\<lparr>cw_prods := (cw_prods w)(r := (cw_prods w r)\<lparr>pf_shutdown_started := b\<rparr>)\<rparr>"
  "wr (pf_serve_stop_c r) b w = w\<lparr>cw_prods := (cw_prods w)(r := (cw_prods w r)\<lparr>pf_serve_stop := b\<rparr>)\<rparr>"
  "wr (pf_unlinked_c r) b w = w\<lparr>cw_prods := (cw_prods w)(r := (cw_prods w r)\<lparr>pf_socket_unlinked := b\<rparr>)\<rparr>"
  "rd (cn_in_use_c r) w = cn_in_use (cw_cons w r)" "rd (cn_pending_c r) w = cn_shutdown_pending (cw_cons w r)"
  "rd (cn_started_c r) w = cn_shutdown_started (cw_cons w r)" "rd (cn_last_sequence_c r) w = cn_last_sequence (cw_cons w r)"
  "rd (cn_first_sample_c r) w = cn_first_sample (cw_cons w r)"
  "wr (cn_in_use_c r) b w = w\<lparr>cw_cons := (cw_cons w)(r := (cw_cons w r)\<lparr>cn_in_use := b\<rparr>)\<rparr>"
  "wr (cn_pending_c r) b w = w\<lparr>cw_cons := (cw_cons w)(r := (cw_cons w r)\<lparr>cn_shutdown_pending := b\<rparr>)\<rparr>"
  "wr (cn_started_c r) b w = w\<lparr>cw_cons := (cw_cons w)(r := (cw_cons w r)\<lparr>cn_shutdown_started := b\<rparr>)\<rparr>"
  "wr (cn_last_sequence_c r) s w = w\<lparr>cw_cons := (cw_cons w)(r := (cw_cons w r)\<lparr>cn_last_sequence := s\<rparr>)\<rparr>"
  "wr (cn_first_sample_c r) b w = w\<lparr>cw_cons := (cw_cons w)(r := (cw_cons w r)\<lparr>cn_first_sample := b\<rparr>)\<rparr>"
  by (simp_all add: cell_defs)

lemma set_parts [simp]:
  "cw_prods (set_hdr ob h w) = cw_prods w" "cw_cons (set_hdr ob h w) = cw_cons w"
  "cw_journals (set_hdr ob h w) = cw_journals w" "cw_os (set_hdr ob h w) = cw_os w" "cw_kern (set_hdr ob h w) = cw_kern w"
  "seg_hdr (set_hdr ob h w) ob' = (if ob' = ob then h else seg_hdr w ob')"
  "seg_slot (set_hdr ob h w) ob' = seg_slot w ob'" "sg_boot (cw_segs (set_hdr ob h w) ob') = sg_boot (cw_segs w ob')"
  "cw_prods (set_slot ob off x w) = cw_prods w" "cw_cons (set_slot ob off x w) = cw_cons w"
  "cw_journals (set_slot ob off x w) = cw_journals w" "cw_os (set_slot ob off x w) = cw_os w"
  "cw_kern (set_slot ob off x w) = cw_kern w" "seg_hdr (set_slot ob off x w) ob' = seg_hdr w ob'"
  "sg_boot (cw_segs (set_slot ob off x w) ob') = sg_boot (cw_segs w ob')"
  "seg_slot (set_slot ob off x w) ob' off' = (if ob' = ob \<and> off' = off then x else seg_slot w ob' off')"
  by (simp_all add: set_hdr_def set_slot_def)

interpretation journal: journal_file "journal_c path" chan_os_c for path
  by unfold_locales (simp_all add: cell_defs)

interpretation boot: journal_file "chan_boot_c ob" chan_os_c for ob
  by unfold_locales (simp_all add: cell_defs)

subsection \<open>The bootstrap and the header\<close>

definition from_le16 :: "bytes \<Rightarrow> u16" where
  "from_le16 bs = ucast (bs ! 0) OR push_bit 8 (ucast (bs ! 1))"

definition bootstrap_of_bytes :: "bytes \<Rightarrow> BootstrapHeaderAbi" where
  "bootstrap_of_bytes bs =
     \<lparr>bo_magic = slice 0 8 bs, bo_abi_major = from_le16 (slice 8 2 bs), bo_abi_minor = from_le16 (slice 10 2 bs),
      bo_header_size = from_le32 (slice 12 4 bs), bo_expected_mapping_size = from_le64 (slice 16 8 bs),
      bo_nonce_hi = from_le64 (slice 24 8 bs), bo_nonce_lo = from_le64 (slice 32 8 bs),
      bo_pid = from_le64 (slice 40 8 bs), bo_ticks = from_le64 (slice 48 8 bs),
      bo_boot_hi = from_le64 (slice 56 8 bs), bo_boot_lo = from_le64 (slice 64 8 bs),
      bo_init_state = from_le32 (slice 72 4 bs), bo_reserved0 = from_le32 (slice 76 4 bs),
      bo_checksum = from_le64 (slice 80 8 bs), bo_reserved = slice 88 40 bs\<rparr>"

definition bootstrap_checksum_of :: "BootstrapHeaderAbi \<Rightarrow> u64" where
  "bootstrap_checksum_of b = fnv1a64 (bootstrap_bytes (b\<lparr>bo_init_state := 0, bo_checksum := 0\<rparr>))"

definition validate_channel_option_contract :: "ChannelOptions \<Rightarrow> unit result" where
  "validate_channel_option_contract options =
     (if \<not> co_enable_payload_checksum options then Inl kInvalidOptions
      else if co_stale_timeout_ms options \<noteq> 100 then Inl kInvalidOptions
      else Inr ())"

definition validate_bootstrap_parse :: "BootstrapHeaderAbi \<Rightarrow> u64 \<Rightarrow> unit result" where
  "validate_bootstrap_parse b shm_size =
     (if bo_magic b \<noteq> kBootstrapMagic then Inl kCorruptHeader
      else if bo_abi_major b \<noteq> kAbiMajor \<or> bo_abi_minor b > kAbiMinorMax then Inl kAbiMismatch
      else if bo_header_size b \<noteq> kBootstrapHeaderSize then Inl kCorruptHeader
      else if bo_expected_mapping_size b = 0 then Inl kCorruptHeader
      else if bootstrap_checksum_of b \<noteq> bo_checksum b then Inl kCorruptHeader
      else if shm_size \<noteq> 0 \<and> shm_size < ucast kBootstrapHeaderSize then Inl kInitializationIncomplete
      else Inr ())"

definition validate_header_parse :: "ChannelHeaderAbi \<Rightarrow> SchemaDescriptor \<Rightarrow> u32 \<Rightarrow> unit result" where
  "validate_header_parse h schema payload_size =
     (let im = ch_immutable h in
      if ci_magic im \<noteq> kChannelHeaderMagic then Inl kCorruptHeader
      else if ci_abi_major im \<noteq> kAbiMajor \<or> ci_abi_minor im > kAbiMinorMax then Inl kAbiMismatch
      else if ci_header_size im \<noteq> kChannelHeaderSize then Inl kCorruptHeader
      else if ci_endian_marker im \<noteq> kEndianMarker then Inl kCorruptHeader
      else if ci_slot_count im \<noteq> kSlotCount then Inl kCorruptHeader
      else if ci_payload_size im \<noteq> payload_size then Inl kSchemaMismatch
      else if ci_schema_version im \<noteq> sd_version schema then Inl kSchemaMismatch
      else if ci_schema_fingerprint im \<noteq> sd_fingerprint schema then Inl kSchemaMismatch
      else if ci_mapping_size im < kChannelHeaderOffset + kSlotHeaderSize then Inl kCorruptHeader
      else if ci_generation im = 0 then Inl kCorruptHeader
      else if ci_nonce_hi im = 0 \<and> ci_nonce_lo im = 0 then Inl kCorruptHeader
      else Inr ())"

definition validate_header_shape :: "ChannelHeaderAbi \<Rightarrow> unit result" where
  "validate_header_shape h =
     (let im = ch_immutable h in
      if ci_magic im \<noteq> kChannelHeaderMagic then Inl kCorruptHeader
      else if ci_abi_major im \<noteq> kAbiMajor \<or> ci_abi_minor im > kAbiMinorMax then Inl kAbiMismatch
      else if ci_header_size im \<noteq> kChannelHeaderSize then Inl kCorruptHeader
      else if ci_endian_marker im \<noteq> kEndianMarker then Inl kCorruptHeader
      else if ci_slot_count im \<noteq> kSlotCount then Inl kCorruptHeader
      else if ci_mapping_size im < kChannelHeaderOffset + kSlotHeaderSize then Inl kCorruptHeader
      else if ci_generation im = 0 then Inl kCorruptHeader
      else Inr ())"

subsection \<open>Identities in shared memory\<close>

text \<open>
  A seqlock: the writer makes the epoch odd, stores the identity and makes it even again; a reader
  keeps what it read only between two equal even epochs.
\<close>

definition kIdentitySnapshotRetries :: nat where "kIdentitySnapshotRetries = 8"

primrec identity_snapshot_attempts ::
  "('s, ProcessIdentityAbi) cell \<Rightarrow> nat \<Rightarrow> ('s, ProcessIdentityAbi result) prog" where
  "identity_snapshot_attempts abi 0 = Ret (Inl kRecoveryBlocked)"
| "identity_snapshot_attempts abi (Suc n) =
     bind (shared_load (field abi pa_role_epoch_c)) (\<lambda>before.
       if before AND 1 \<noteq> 0 then identity_snapshot_attempts abi n
       else
         bind (shared_load (field abi pa_pid_c)) (\<lambda>pid.
         bind (shared_load (field abi pa_ticks_c)) (\<lambda>ticks.
         bind (shared_load (field abi pa_boot_hi_c)) (\<lambda>hi.
         bind (shared_load (field abi pa_boot_lo_c)) (\<lambda>lo.
         bind (shared_load (field abi pa_role_epoch_c)) (\<lambda>after.
           if after AND 1 \<noteq> 0 then identity_snapshot_attempts abi n
           else if after \<noteq> before then identity_snapshot_attempts abi n
           else
             Ret (Inr \<lparr>pa_role_epoch = after, pa_pid = pid, pa_ticks = ticks, pa_boot_hi = hi,
                       pa_boot_lo = lo, pa_reserved = replicate 24 0\<rparr>)))))))"

definition identity_snapshot_read ::
  "('s, ProcessIdentityAbi) cell \<Rightarrow> ('s, ProcessIdentityAbi result) prog" where
  "identity_snapshot_read abi = identity_snapshot_attempts abi kIdentitySnapshotRetries"

definition identity_snapshot_write ::
  "('s, ProcessIdentityAbi) cell \<Rightarrow> ProcessIdentityAbi \<Rightarrow> ('s, u64 result) prog" where
  "identity_snapshot_write abi snap =
     bind (shared_load (field abi pa_role_epoch_c)) (\<lambda>cur.
       if cur AND 1 \<noteq> 0 then Ret (Inl kRecoveryBlocked)
       else if cur > U64_MAX - 2 then Ret (Inl kRecoveryBlocked)
       else
         bind (shared_store (field abi pa_role_epoch_c) (cur + 1)) (\<lambda>_.
         bind (shared_store (field abi pa_pid_c) (pa_pid snap)) (\<lambda>_.
         bind (shared_store (field abi pa_ticks_c) (pa_ticks snap)) (\<lambda>_.
         bind (shared_store (field abi pa_boot_hi_c) (pa_boot_hi snap)) (\<lambda>_.
         bind (shared_store (field abi pa_boot_lo_c) (pa_boot_lo snap)) (\<lambda>_.
         bind (shared_store (field abi pa_role_epoch_c) (cur + 2)) (\<lambda>_.
           Ret (Inr (cur + 2)))))))))"

subsection \<open>Slots\<close>

definition slot_claim_writable :: "object \<Rightarrow> u64 \<Rightarrow> u32 \<Rightarrow> (chan_world, bool) prog" where
  "slot_claim_writable ob off observed = shared_cas (cslot_state_c ob off) observed (chan_word ChanWriting)"

definition slot_publish :: "object \<Rightarrow> u64 \<Rightarrow> (chan_world, unit) prog" where
  "slot_publish ob off = shared_store (cslot_state_c ob off) (chan_word ChanPublished)"

definition slot_abort_write :: "object \<Rightarrow> u64 \<Rightarrow> (chan_world, unit) prog" where
  "slot_abort_write ob off = shared_store (cslot_state_c ob off) (chan_word ChanFree)"

definition slot_claim_readable :: "object \<Rightarrow> u64 \<Rightarrow> (chan_world, bool) prog" where
  "slot_claim_readable ob off =
     shared_cas (cslot_state_c ob off) (chan_word ChanPublished) (chan_word ChanReadingClaiming)"

definition slot_mark_reading :: "object \<Rightarrow> u64 \<Rightarrow> u64 \<Rightarrow> (chan_world, unit) prog" where
  "slot_mark_reading ob off consumer_role_epoch =
     bind (shared_store (cslot_reader_c ob off) consumer_role_epoch) (\<lambda>_.
       shared_store (cslot_state_c ob off) (chan_word ChanReading))"

definition slot_release_read :: "object \<Rightarrow> u64 \<Rightarrow> (chan_world, unit) prog" where
  "slot_release_read ob off =
     bind (shared_store (cslot_reader_c ob off) 0) (\<lambda>_.
       shared_store (cslot_state_c ob off) (chan_word ChanPublished))"

subsection \<open>Status\<close>

record ChannelStatus =
  ct_ready :: bool
  ct_init_state :: u32
  ct_producer_state :: u32
  ct_consumer_state :: u32
  ct_abi_major :: u16
  ct_abi_minor :: u16
  ct_slot_count :: u32
  ct_payload_size :: u32
  ct_mapping_size :: u64
  ct_generation :: u64
  ct_nonce_hi :: u64
  ct_nonce_lo :: u64
  ct_publish_count :: u64
  ct_read_count :: u64
  ct_last_publish_boot_ns :: u64
  ct_producer_pid :: u64
  ct_consumer_pid :: u64
  ct_producer_alive :: bool
  ct_consumer_alive :: bool
  ct_heartbeat_boot_ns :: u64
  ct_heartbeat_interval_ns :: u64

text \<open>The pid of an endpoint and whether it is alive; zero if its identity cannot be read.\<close>

definition endpoint_alive :: "(chan_world, ProcessIdentityAbi) cell \<Rightarrow> (chan_world, u64 \<times> bool) prog" where
  "endpoint_alive abi =
     bind (identity_snapshot_read abi) (\<lambda>p.
       case p of
         Inl e \<Rightarrow> Ret (0, False)
       | Inr snap \<Rightarrow>
           bind (kernel_query chan_kern_c (\<lambda>k. probe_liveness k (pa_pid snap) (pa_ticks snap))) (\<lambda>live.
             Ret (pa_pid snap, live = kAlive)))"

definition read_channel_status :: "object \<Rightarrow> (chan_world, ChannelStatus result) prog" where
  "read_channel_status ob =
     bind (shared_load (chan_init_c ob)) (\<lambda>ready.
     bind (shared_load (chan_init_c ob)) (\<lambda>init.
     bind (shared_load (producer_state_c ob)) (\<lambda>pstate.
     bind (shared_load (consumer_state_c ob)) (\<lambda>cstate.
     bind (shared_load (chan_immutable_c ob)) (\<lambda>im.
     bind (shared_load (publish_count_c ob)) (\<lambda>publishes.
     bind (shared_load (read_count_c ob)) (\<lambda>reads.
     bind (shared_load (last_publish_c ob)) (\<lambda>last_publish.
     bind (shared_load (heartbeat_c ob)) (\<lambda>beat.
     bind (endpoint_alive (producer_id_c ob)) (\<lambda>(ppid, palive).
     bind (endpoint_alive (consumer_id_c ob)) (\<lambda>(cpid, calive).
       Ret (Inr
         \<lparr>ct_ready = (ready = chan_init_word InitReady), ct_init_state = init, ct_producer_state = pstate,
          ct_consumer_state = cstate, ct_abi_major = ci_abi_major im, ct_abi_minor = ci_abi_minor im,
          ct_slot_count = ci_slot_count im, ct_payload_size = ci_payload_size im,
          ct_mapping_size = ci_mapping_size im, ct_generation = ci_generation im,
          ct_nonce_hi = ci_nonce_hi im, ct_nonce_lo = ci_nonce_lo im, ct_publish_count = publishes,
          ct_read_count = reads, ct_last_publish_boot_ns = last_publish, ct_producer_pid = ppid,
          ct_consumer_pid = cpid, ct_producer_alive = palive, ct_consumer_alive = calive,
          ct_heartbeat_boot_ns = beat, ct_heartbeat_interval_ns = ci_heartbeat_interval_ns im\<rparr>))))))))))))"

lemma kernel_query_reads [reads_only_intros]: "reads_only (kernel_query kc f)"
  by (simp add: kernel_query_def)

lemma os_query_reads [reads_only_intros]: "reads_only (os_query kc f)"
  by (simp add: os_query_def)

lemma identity_attempts_reads [reads_only_intros]: "reads_only (identity_snapshot_attempts abi n)"
  by (induction n) (auto intro!: reads_only_intros)

lemma identity_read_reads [reads_only_intros]: "reads_only (identity_snapshot_read abi)"
  by (simp add: identity_snapshot_read_def identity_attempts_reads)

lemma endpoint_alive_reads [reads_only_intros]: "reads_only (endpoint_alive abi)"
  by (auto simp: endpoint_alive_def intro!: reads_only_intros split: sum.splits)

lemma read_channel_status_reads [reads_only_intros]: "reads_only (read_channel_status ob)"
  by (auto simp: read_channel_status_def intro!: reads_only_intros split: prod.splits)

end
