(* ===== verification/ER_Producer.thy ===== *)
theory ER_Producer
  imports ER_Chan
begin

text \<open>
  The producer of a channel on its data path (\<open>channel/producer_impl.cpp\<close>, \<open>channel/loan.cpp\<close>):
  publishing, loans of a slot, status, heartbeat and shutdown. A producer handle is a value, except for
  its flags, which several threads share and which are in the world under its reference.
\<close>


text \<open>The lock file of the channel of a process with the uid of the kernel.\<close>

definition lock_path_of :: "kernel \<Rightarrow> string \<Rightarrow> string" where
  "lock_path_of k name = channel_lock_path (k_getuid k) name"

subsection \<open>Shutdown\<close>

definition mark_producer_offline :: "ProducerHandle \<Rightarrow> (chan_world, unit) prog" where
  "mark_producer_offline handle =
     bind (identity_snapshot_read (producer_id_c (pd_object handle))) (\<lambda>pid_res.
       case pid_res of
         Inl e \<Rightarrow> Ret ()
       | Inr p \<Rightarrow>
           if pa_role_epoch p \<noteq> pd_role_epoch handle then Ret ()
           else
             bind (shared_store (producer_state_c (pd_object handle)) (endpoint_word EndOffline)) (\<lambda>_.
               if pd_transport handle \<noteq> transport_word MemfdFdPass then Ret ()
               else
                 bind (shared_load (pf_unlinked_c (pd_ref handle))) (\<lambda>unlinked.
                   if unlinked then Ret ()
                   else
                     bind (shared_store (pf_serve_stop_c (pd_ref handle)) True) (\<lambda>_.
                     bind (os_do chan_os_c CallSocketShutdown) (\<lambda>_.
                     bind (kernel_query chan_kern_c (\<lambda>k. lock_path_of k (pd_channel_name handle))) (\<lambda>path.
                     bind (control_lock_acquire chan_kern_c chan_os_c path) (\<lambda>lock_res.
                       case lock_res of
                         Inl e \<Rightarrow> Ret ()
                       | Inr _ \<Rightarrow>
                           bind (read_journal (journal_c path) chan_os_c) (\<lambda>jr.
                             case jr of
                               Inl e \<Rightarrow> Ret ()
                             | Inr j \<Rightarrow>
                                 if cj_new_generation j = pd_generation handle \<and>
                                    cj_new_nonce_hi j = pd_nonce_hi handle \<and>
                                    cj_new_nonce_lo j = pd_nonce_lo handle
                                 then
                                   bind (os_do chan_os_c (CallSocketUnlink (pd_socket_path handle))) (\<lambda>_.
                                     shared_store (pf_unlinked_c (pd_ref handle)) True)
                                 else Ret ()))))))))"

definition service_producer_shutdown :: "ProducerHandle \<Rightarrow> (chan_world, unit) prog" where
  "service_producer_shutdown handle =
     bind (shared_load (pf_pending_c (pd_ref handle))) (\<lambda>pending.
       if \<not> pending then Ret ()
       else
         bind (shared_cas (pf_in_use_c (pd_ref handle)) False True) (\<lambda>idle.
           if \<not> idle then Ret ()
           else
             bind (shared_cas (pf_started_c (pd_ref handle)) False True) (\<lambda>first.
             bind (if first then mark_producer_offline handle else Ret ()) (\<lambda>_.
               shared_store (pf_in_use_c (pd_ref handle)) False))))"

definition release_producer_loan_operation :: "ProducerHandle \<Rightarrow> (chan_world, unit) prog" where
  "release_producer_loan_operation handle =
     bind (shared_store (pf_in_use_c (pd_ref handle)) False) (\<lambda>_. service_producer_shutdown handle)"

definition producer_shutdown_impl :: "ProducerHandle \<Rightarrow> (chan_world, unit) prog" where
  "producer_shutdown_impl handle =
     bind (shared_store (pf_pending_c (pd_ref handle)) True) (\<lambda>_. service_producer_shutdown handle)"

subsection \<open>Publishing\<close>

text \<open>The body of an operation under the exclusive use of the handle (\<open>ProducerUseGuard\<close>).\<close>

definition producer_guarded ::
  "ProducerHandle \<Rightarrow> (chan_world, 'a result) prog \<Rightarrow> (chan_world, 'a result) prog" where
  "producer_guarded handle p =
     bind (shared_exchange (pf_in_use_c (pd_ref handle)) True) (\<lambda>busy.
       if busy then Ret (Inl kConcurrentHandleUse)
       else bind p (\<lambda>r. bind (shared_store (pf_in_use_c (pd_ref handle)) False) (\<lambda>_. Ret r)))"

definition verify_handle_ownership :: "ProducerHandle \<Rightarrow> (chan_world, unit result) prog" where
  "verify_handle_ownership handle =
     bind (shared_load (boot_init_state_c (pd_object handle))) (\<lambda>boot_init.
       if boot_init \<noteq> chan_init_word InitReady then Ret (Inl kStaleHandle)
       else
         bind (shared_load (chan_init_c (pd_object handle))) (\<lambda>init.
           if init \<noteq> chan_init_word InitReady then Ret (Inl kStaleHandle)
           else
             bind (shared_load (chan_immutable_c (pd_object handle))) (\<lambda>im.
               if ci_generation im \<noteq> pd_generation handle \<or> ci_nonce_hi im \<noteq> pd_nonce_hi handle \<or>
                  ci_nonce_lo im \<noteq> pd_nonce_lo handle
               then Ret (Inl kStaleHandle)
               else
                 bind (identity_snapshot_read (producer_id_c (pd_object handle))) (\<lambda>pid_res.
                   case pid_res of
                     Inl e \<Rightarrow> Ret (Inl kStaleHandle)
                   | Inr p \<Rightarrow>
                       if pa_role_epoch p \<noteq> pd_role_epoch handle then Ret (Inl kStaleHandle)
                       else
                         bind (shared_load (producer_state_c (pd_object handle))) (\<lambda>pstate.
                           if pstate \<noteq> endpoint_word EndOnline then Ret (Inl kProducerOffline)
                           else Ret (Inr ()))))))"

definition kSlotIndices :: "u32 list" where
  "kSlotIndices = map of_nat [0..<unat kSlotCount]"

text \<open>The first slot that is not current, free or published, and claimed for writing.\<close>

primrec choose_slot ::
  "object \<Rightarrow> u64 \<Rightarrow> u32 \<Rightarrow> u32 list \<Rightarrow> (chan_world, (u32 \<times> u64) option) prog" where
  "choose_slot ob stride current_slot [] = Ret None"
| "choose_slot ob stride current_slot (i # is) =
     (if i = current_slot then choose_slot ob stride current_slot is
      else case slot_byte_offset i stride of
        None \<Rightarrow> choose_slot ob stride current_slot is
      | Some off \<Rightarrow>
          bind (shared_load (cslot_state_c ob off)) (\<lambda>observed.
            if observed \<noteq> chan_word ChanFree \<and> observed \<noteq> chan_word ChanPublished
            then choose_slot ob stride current_slot is
            else
              bind (slot_claim_writable ob off observed) (\<lambda>claimed.
                if claimed then Ret (Some (i, off)) else choose_slot ob stride current_slot is)))"

text \<open>The header of a claimed slot, its publication and the notification of the consumer.\<close>

definition write_slot_header :: "object \<Rightarrow> u64 \<Rightarrow> u32 \<Rightarrow> u64 \<Rightarrow> u64 \<Rightarrow> (chan_world, unit) prog" where
  "write_slot_header ob off payload_size sequence publish_boot_ns =
     bind (shared_store (cslot_size_c ob off) payload_size) (\<lambda>_.
     bind (shared_store (cslot_sequence_c ob off) sequence) (\<lambda>_.
       shared_store (cslot_publish_ns_c ob off) publish_boot_ns))"

definition publish_slot :: "object \<Rightarrow> u64 \<Rightarrow> u32 \<Rightarrow> u64 \<Rightarrow> u64 \<Rightarrow> u64 \<Rightarrow> (chan_world, unit) prog" where
  "publish_slot ob off slot_index sequence publish_boot_ns checksum =
     bind (shared_store (cslot_checksum_c ob off) checksum) (\<lambda>_.
     bind (slot_publish ob off) (\<lambda>_.
     bind (shared_store (latest_ticket_c ob) (make_ticket sequence slot_index)) (\<lambda>_.
     bind (shared_fetch_add (publish_count_c ob) 1) (\<lambda>_.
     bind (shared_store (last_publish_c ob) publish_boot_ns) (\<lambda>_.
     bind (shared_fetch_add (chan_notify_c ob) 1) (\<lambda>_.
       futex_wake chan_kern_c))))))"

definition current_slot_of :: "u64 \<Rightarrow> u32" where
  "current_slot_of current = (if current = 0 then kInvalidSlot else ticket_slot current)"

text \<open>A publication in two parts: up to the load of the latest ticket, and from there.\<close>

definition publish_after :: "ProducerHandle \<Rightarrow> bytes \<Rightarrow> u64 \<Rightarrow> (chan_world, PublishInfo result) prog" where
  "publish_after handle encoded current =
     (case checked_next_sequence current of
        None \<Rightarrow> Ret (Inl kSequenceExhausted)
      | Some next_sequence \<Rightarrow>
          bind (boottime_now_ns chan_kern_c) (\<lambda>publish_boot_ns.
            if publish_boot_ns = 0 then Ret (Inl kClockAnomaly)
            else case channel_stride (pd_payload_size handle) of
              None \<Rightarrow> Ret (Inl kInvalidOptions)
            | Some stride \<Rightarrow>
                bind (choose_slot (pd_object handle) stride (current_slot_of current) kSlotIndices) (\<lambda>chosen.
                  case chosen of
                    None \<Rightarrow> Ret (Inl kNoWritableSlot)
                  | Some (chosen_index, off) \<Rightarrow>
                      bind (write_slot_header (pd_object handle) off (of_nat (length encoded)) next_sequence
                        publish_boot_ns) (\<lambda>_.
                      bind (memcpy_to (cslot_payload_c (pd_object handle) off) 0 encoded) (\<lambda>_.
                      bind (publish_slot (pd_object handle) off chosen_index next_sequence publish_boot_ns
                        (fnv1a64 encoded)) (\<lambda>_.
                        Ret (Inr \<lparr>pi_info_generation = pd_generation handle, pi_info_sequence = next_sequence,
                                  pi_info_publish_boot_ns = publish_boot_ns\<rparr>)))))))"

definition publish_locked :: "ProducerHandle \<Rightarrow> bytes \<Rightarrow> (chan_world, PublishInfo result) prog" where
  "publish_locked handle encoded =
     (if of_nat (length encoded) \<noteq> pd_payload_size handle then Ret (Inl kPayloadEncodeFailed)
      else
        try_bind (verify_handle_ownership handle) (\<lambda>_.
        bind (shared_load (latest_ticket_c (pd_object handle))) (publish_after handle encoded)))"

definition producer_publish_impl :: "ProducerHandle \<Rightarrow> bytes \<Rightarrow> (chan_world, PublishInfo result) prog" where
  "producer_publish_impl handle encoded = producer_guarded handle (publish_locked handle encoded)"

subsection \<open>Loans\<close>

record WriteLoan =
  wl_handle :: "ProducerHandle option"
  wl_slot :: "u64 option"
  wl_data :: "u64 option"
  wl_size :: u32
  wl_slot_index :: u32
  wl_sequence :: u64
  wl_active :: bool

text \<open>What is left of a loan after its end, and of a loan that was moved from.\<close>

definition ended_write_loan :: "WriteLoan \<Rightarrow> WriteLoan" where
  "ended_write_loan loan = loan\<lparr>wl_active := False, wl_slot := None, wl_data := None, wl_handle := None\<rparr>"

definition moved_write_loan :: WriteLoan where
  "moved_write_loan =
     \<lparr>wl_handle = None, wl_slot = None, wl_data = None, wl_size = 0, wl_slot_index = 0, wl_sequence = 0,
      wl_active = False\<rparr>"

definition producer_loan_impl :: "ProducerHandle \<Rightarrow> (chan_world, WriteLoan result) prog" where
  "producer_loan_impl handle =
     bind (shared_exchange (pf_in_use_c (pd_ref handle)) True) (\<lambda>busy.
       if busy then Ret (Inl kConcurrentHandleUse)
       else
         let release_on_error = (\<lambda>e. bind (shared_store (pf_in_use_c (pd_ref handle)) False) (\<lambda>_. Ret (Inl e))) in
         bind (verify_handle_ownership handle) (\<lambda>verified.
           case verified of
             Inl e \<Rightarrow> release_on_error e
           | Inr _ \<Rightarrow>
               bind (shared_load (latest_ticket_c (pd_object handle))) (\<lambda>current.
                 case checked_next_sequence current of
                   None \<Rightarrow> release_on_error kSequenceExhausted
                 | Some next_sequence \<Rightarrow>
                     (case channel_stride (pd_payload_size handle) of
                        None \<Rightarrow> release_on_error kInvalidOptions
                      | Some stride \<Rightarrow>
                          bind (choose_slot (pd_object handle) stride (current_slot_of current) kSlotIndices)
                            (\<lambda>chosen.
                            case chosen of
                              None \<Rightarrow> release_on_error kNoWritableSlot
                            | Some (chosen_index, off) \<Rightarrow>
                                Ret (Inr
                                  \<lparr>wl_handle = Some handle, wl_slot = Some off, wl_data = Some (off + kSlotHeaderSize),
                                   wl_size = pd_payload_size handle, wl_slot_index = chosen_index,
                                   wl_sequence = next_sequence, wl_active = True\<rparr>))))))"

text \<open>The loan is the caller's own object: the operations return it as they leave it.\<close>

definition producer_commit_loan_impl ::
  "WriteLoan \<Rightarrow> (chan_world, PublishInfo result \<times> WriteLoan) prog" where
  "producer_commit_loan_impl loan =
     (case (wl_active loan, wl_handle loan, wl_slot loan) of
        (True, Some handle, Some off) \<Rightarrow>
          let fail = (\<lambda>e.
                bind (slot_abort_write (pd_object handle) off) (\<lambda>_.
                bind (release_producer_loan_operation handle) (\<lambda>_.
                  Ret (Inl e, ended_write_loan loan)))) in
          bind (verify_handle_ownership handle) (\<lambda>verified.
            case verified of
              Inl e \<Rightarrow> fail e
            | Inr _ \<Rightarrow>
                bind (boottime_now_ns chan_kern_c) (\<lambda>publish_boot_ns.
                  if publish_boot_ns = 0 then fail kClockAnomaly
                  else
                    bind (memcpy_from (cslot_payload_c (pd_object handle) off) 0 (unat (wl_size loan))) (\<lambda>payload.
                    bind (write_slot_header (pd_object handle) off (wl_size loan) (wl_sequence loan)
                      publish_boot_ns) (\<lambda>_.
                    bind (publish_slot (pd_object handle) off (wl_slot_index loan) (wl_sequence loan)
                      publish_boot_ns (fnv1a64 payload)) (\<lambda>_.
                    bind (release_producer_loan_operation handle) (\<lambda>_.
                      Ret (Inr \<lparr>pi_info_generation = pd_generation handle, pi_info_sequence = wl_sequence loan,
                                pi_info_publish_boot_ns = publish_boot_ns\<rparr>, ended_write_loan loan)))))))
      | _ \<Rightarrow> Ret (Inl kInvalidOptions, loan))"

definition producer_abort_loan_impl :: "WriteLoan \<Rightarrow> (chan_world, WriteLoan) prog" where
  "producer_abort_loan_impl loan =
     (case (wl_active loan, wl_handle loan) of
        (True, Some handle) \<Rightarrow>
          bind (case wl_slot loan of Some off \<Rightarrow> slot_abort_write (pd_object handle) off | None \<Rightarrow> Ret ()) (\<lambda>_.
          bind (release_producer_loan_operation handle) (\<lambda>_. Ret (ended_write_loan loan)))
      | _ \<Rightarrow> Ret loan)"

text \<open>
  \<open>WriteLoan(WriteLoan&&)\<close> and \<open>operator=(WriteLoan&&)\<close>: the new loan and what is left of the other;
  \<open>same\<close> says that a loan is assigned to itself.
\<close>

definition write_loan_move :: "WriteLoan \<Rightarrow> WriteLoan \<times> WriteLoan" where
  "write_loan_move other = (other, moved_write_loan)"

definition write_loan_assign ::
  "bool \<Rightarrow> WriteLoan \<Rightarrow> WriteLoan \<Rightarrow> (chan_world, WriteLoan \<times> WriteLoan) prog" where
  "write_loan_assign same loan other =
     (if same then Ret (loan, loan)
      else bind (producer_abort_loan_impl loan) (\<lambda>_. Ret (write_loan_move other)))"

subsection \<open>Status and heartbeat\<close>

definition producer_generation_impl :: "ProducerHandle option \<Rightarrow> u64" where
  "producer_generation_impl handle = (case handle of Some h \<Rightarrow> pd_generation h | None \<Rightarrow> 0)"

text \<open>With named memory, that the name still refers to the object of the handle.\<close>

definition check_name_current :: "u32 \<Rightarrow> string \<Rightarrow> object \<Rightarrow> (chan_world, unit result) prog" where
  "check_name_current transport channel_name ob =
     (if transport \<noteq> transport_word PosixShm then Ret (Inr ())
      else
        bind (kernel_query chan_kern_c (\<lambda>k. channel_shm_name (k_getuid k) channel_name)) (\<lambda>shm_name.
        bind (shm_open_existing chan_kern_c shm_name) (\<lambda>re.
          case re of
            Inl e \<Rightarrow> Ret (Inl kStaleHandle)
          | Inr fd \<Rightarrow>
              try_bind (shm_fstat_and_capture chan_kern_c fd) (\<lambda>st.
                if (st_dev st, st_ino st) \<noteq> ob then Ret (Inl kStaleHandle) else Ret (Inr ())))))"

definition producer_status_impl :: "ProducerHandle \<Rightarrow> (chan_world, ChannelStatus result) prog" where
  "producer_status_impl handle =
     producer_guarded handle
       (try_bind (check_name_current (pd_transport handle) (pd_channel_name handle) (pd_object handle))
         (\<lambda>_. read_channel_status (pd_object handle)))"

definition heartbeat_locked :: "ProducerHandle \<Rightarrow> (chan_world, unit result) prog" where
  "heartbeat_locked handle =
     (if pd_heartbeat_interval_ns handle = 0 then Ret (Inr ())
      else
        try_bind (verify_handle_ownership handle) (\<lambda>_.
        bind (boottime_now_ns chan_kern_c) (\<lambda>now.
          if now = 0 then Ret (Inl kClockAnomaly)
          else bind (shared_store (heartbeat_c (pd_object handle)) now) (\<lambda>_. Ret (Inr ())))))"

definition producer_heartbeat_impl :: "ProducerHandle \<Rightarrow> (chan_world, unit result) prog" where
  "producer_heartbeat_impl handle = producer_guarded handle (heartbeat_locked handle)"

end
