(* ===== verification/ER_Consumer.thy ===== *)
theory ER_Consumer
  imports ER_Producer
begin

text \<open>
  The consumer of a channel on its data path (\<open>channel/consumer_impl.cpp\<close>, \<open>channel/loan.cpp\<close>):
  reading and borrowing the latest sample, waiting for one, status, shutdown, and the slots that a dead
  consumer left behind. A consumer handle is in the world under its reference, since reconnecting
  replaces all of it.
\<close>


definition kMaxReadRetries :: nat where "kMaxReadRetries = 8"

subsection \<open>Shutdown\<close>

definition mark_consumer_offline :: "ConsumerHandle \<Rightarrow> (chan_world, unit) prog" where
  "mark_consumer_offline handle =
     bind (identity_snapshot_read (consumer_id_c (cn_object handle))) (\<lambda>cid_res.
       case cid_res of
         Inl e \<Rightarrow> Ret ()
       | Inr c \<Rightarrow>
           if pa_role_epoch c \<noteq> cn_role_epoch handle then Ret ()
           else shared_store (consumer_state_c (cn_object handle)) (endpoint_word EndOffline))"

definition service_consumer_shutdown :: "nat \<Rightarrow> (chan_world, unit) prog" where
  "service_consumer_shutdown r =
     bind (shared_load (cn_pending_c r)) (\<lambda>pending.
       if \<not> pending then Ret ()
       else
         bind (shared_cas (cn_in_use_c r) False True) (\<lambda>idle.
           if \<not> idle then Ret ()
           else
             bind (shared_cas (cn_started_c r) False True) (\<lambda>first.
             bind (if first then bind (shared_load (cons_c r)) mark_consumer_offline else Ret ()) (\<lambda>_.
               shared_store (cn_in_use_c r) False))))"

definition release_consumer_loan_operation :: "nat \<Rightarrow> (chan_world, unit) prog" where
  "release_consumer_loan_operation r =
     bind (shared_store (cn_in_use_c r) False) (\<lambda>_. service_consumer_shutdown r)"

definition consumer_shutdown_impl :: "nat \<Rightarrow> (chan_world, unit) prog" where
  "consumer_shutdown_impl r =
     bind (shared_store (cn_pending_c r) True) (\<lambda>_. service_consumer_shutdown r)"

text \<open>The body of an operation under the exclusive use of the handle (\<open>ConsumerUseGuard\<close>).\<close>

definition consumer_guarded :: "nat \<Rightarrow> 'b \<Rightarrow> (chan_world, 'b) prog \<Rightarrow> (chan_world, 'b) prog" where
  "consumer_guarded r busy_result p =
     bind (shared_exchange (cn_in_use_c r) True) (\<lambda>busy.
       if busy then Ret busy_result
       else bind p (\<lambda>x. bind (shared_store (cn_in_use_c r) False) (\<lambda>_. Ret x)))"

subsection \<open>Reading the latest sample\<close>

definition pack_nonce :: "ConsumerHandle \<Rightarrow> bytes" where
  "pack_nonce handle = le64 (cn_nonce_hi handle) @ le64 (cn_nonce_lo handle)"

text \<open>A claimed slot, by its offset; its payload starts \<open>kSlotHeaderSize\<close> after it.\<close>

record ClaimedRead =
  cr_slot :: u64
  cr_snapshot :: ReadSnapshot

text \<open>The slot is released and the error returned.\<close>

definition release_with :: "object \<Rightarrow> u64 \<Rightarrow> ErrorCode \<Rightarrow> (chan_world, 'a result) prog" where
  "release_with ob off e = bind (slot_release_read ob off) (\<lambda>_. Ret (Inl e))"

text \<open>What a consumer does with a slot it holds and that has the latest ticket.\<close>

definition take_claimed :: "nat \<Rightarrow> ConsumerHandle \<Rightarrow> u64 \<Rightarrow> (chan_world, ClaimedRead result) prog" where
  "take_claimed r handle off =
     (let ob = cn_object handle in
      bind (shared_load (cslot_size_c ob off)) (\<lambda>slot_payload_size.
      bind (shared_load (cslot_sequence_c ob off)) (\<lambda>sample_sequence.
      bind (shared_load (cslot_publish_ns_c ob off)) (\<lambda>publish_boot_ns.
      bind (shared_load (cslot_checksum_c ob off)) (\<lambda>expected_checksum.
        if slot_payload_size \<noteq> cn_payload_size handle then release_with ob off kPayloadCorrupt
        else
          bind (boottime_now_ns chan_kern_c) (\<lambda>receive_boot_ns.
            if receive_boot_ns = 0 then release_with ob off kClockAnomaly
            else
              bind (memcpy_from (cslot_payload_c ob off) 0 (unat slot_payload_size)) (\<lambda>payload.
                if fnv1a64 payload \<noteq> expected_checksum then release_with ob off kPayloadCorrupt
                else
                  bind (shared_store (cn_last_sequence_c r) sample_sequence) (\<lambda>_.
                  bind (shared_store (cn_first_sample_c r) False) (\<lambda>_.
                  bind (shared_fetch_add (read_count_c ob) 1) (\<lambda>_.
                    Ret (Inr
                      \<lparr>cr_slot = off,
                       cr_snapshot =
                         \<lparr>rs_encoded_size = slot_payload_size, rs_checksum_ok = True,
                          rs_sample_sequence = sample_sequence, rs_publish_boot_ns = publish_boot_ns,
                          rs_receive_boot_ns = receive_boot_ns, rs_generation = cn_generation handle,
                          rs_instance_nonce = pack_nonce handle,
                          rs_missed_samples =
                            (if cn_first_sample handle then 0
                             else saturated_gap (cn_last_sequence handle) sample_sequence)\<rparr>\<rparr>)))))))))))"

primrec claim_attempts :: "nat \<Rightarrow> u64 \<Rightarrow> nat \<Rightarrow> (chan_world, ClaimedRead result) prog" where
  "claim_attempts r stride 0 = Ret (Inl kReadContention)"
| "claim_attempts r stride (Suc n) =
     bind (shared_load (cons_c r)) (\<lambda>handle.
     bind (shared_load (latest_ticket_c (cn_object handle))) (\<lambda>ticket.
       if ticket = 0 \<or> ticket_sequence ticket \<le> cn_last_sequence handle then Ret (Inl kNoNewSample)
       else case slot_byte_offset (ticket_slot ticket) stride of
         None \<Rightarrow> Ret (Inl kCorruptSlot)
       | Some off \<Rightarrow>
           bind (slot_claim_readable (cn_object handle) off) (\<lambda>claimed.
             if \<not> claimed then claim_attempts r stride n
             else
               bind (slot_mark_reading (cn_object handle) off (cn_role_epoch handle)) (\<lambda>_.
               bind (shared_load (cslot_sequence_c (cn_object handle) off)) (\<lambda>sequence.
               bind (shared_load (latest_ticket_c (cn_object handle))) (\<lambda>latest.
                 if latest \<noteq> make_ticket sequence (ticket_slot ticket)
                 then bind (slot_release_read (cn_object handle) off) (\<lambda>_. claim_attempts r stride n)
                 else take_claimed r handle off))))))"

definition claim_latest_unlocked :: "nat \<Rightarrow> (chan_world, ClaimedRead result) prog" where
  "claim_latest_unlocked r =
     bind (shared_load (cons_c r)) (\<lambda>handle.
       case channel_stride (cn_payload_size handle) of
         None \<Rightarrow> Ret (Inl kInvalidOptions)
       | Some stride \<Rightarrow> claim_attempts r stride kMaxReadRetries)"

text \<open>The bytes copied to \<open>encoded_out\<close> are returned with the snapshot.\<close>

definition try_read_latest_unlocked :: "nat \<Rightarrow> u32 \<Rightarrow> (chan_world, (ReadSnapshot \<times> bytes) result) prog" where
  "try_read_latest_unlocked r encoded_cap =
     try_bind (claim_latest_unlocked r) (\<lambda>claimed.
     bind (shared_load (cons_c r)) (\<lambda>handle.
       let ob = cn_object handle; snap = cr_snapshot claimed; off = cr_slot claimed in
       if rs_encoded_size snap > encoded_cap then release_with ob off kPayloadCorrupt
       else
         bind (memcpy_from (cslot_payload_c ob off) 0 (unat (rs_encoded_size snap))) (\<lambda>encoded.
         bind (slot_release_read ob off) (\<lambda>_. Ret (Inr (snap, encoded))))))"

definition consumer_try_read_latest_impl ::
  "nat \<Rightarrow> u32 \<Rightarrow> (chan_world, (ReadSnapshot \<times> bytes) result) prog" where
  "consumer_try_read_latest_impl r encoded_cap =
     consumer_guarded r (Inl kConcurrentHandleUse) (try_read_latest_unlocked r encoded_cap)"

subsection \<open>Waiting\<close>

definition wait_stalled :: "u64 \<Rightarrow> u64 \<Rightarrow> u64 \<Rightarrow> u64 \<Rightarrow> bool" where
  "wait_stalled interval now last_publish last_beat \<longleftrightarrow>
     interval \<noteq> 0 \<and> now \<noteq> 0 \<and> (last_publish = 0 \<or> elapsed_exceeds now last_publish interval) \<and>
     (last_beat = 0 \<or> elapsed_exceeds now last_beat (saturating_mul_u64 interval kHeartbeatStallFactor))"

definition classify_wait_timeout :: "object \<Rightarrow> (chan_world, ErrorCode) prog" where
  "classify_wait_timeout ob =
     bind (shared_load (producer_state_c ob)) (\<lambda>pstate.
       if pstate \<noteq> endpoint_word EndOnline \<and> pstate \<noteq> endpoint_word EndStopping \<and> pstate \<noteq> endpoint_word EndFault
       then Ret kProducerOffline
       else
         bind (identity_snapshot_read (producer_id_c ob)) (\<lambda>pid_res.
           case pid_res of
             Inl e \<Rightarrow> Ret kRecoveryBlocked
           | Inr pid_abi \<Rightarrow>
               if pa_pid pid_abi = 0 then Ret kRecoveryBlocked
               else
                 bind (kernel_query chan_kern_c
                   (\<lambda>k. probe_liveness k (pa_pid pid_abi) (pa_ticks pid_abi))) (\<lambda>live.
                   case live of
                     kAlive \<Rightarrow>
                       bind (shared_load (chan_immutable_c ob)) (\<lambda>im.
                       bind (boottime_now_ns chan_kern_c) (\<lambda>now.
                       bind (shared_load (last_publish_c ob)) (\<lambda>last_publish.
                       bind (shared_load (heartbeat_c ob)) (\<lambda>last_beat.
                         if wait_stalled (ci_heartbeat_interval_ns im) now last_publish last_beat
                         then Ret kProducerStalled else Ret kDataStale))))
                   | kExited \<Rightarrow> Ret kProducerOffline
                   | kPidReused \<Rightarrow> Ret kRecoveryBlocked
                   | kUnverifiable \<Rightarrow> Ret kRecoveryBlocked)))"

text \<open>
  One round of waiting after an attempt found nothing new: \<open>Some e\<close> ends the wait with \<open>e\<close>,
  \<open>None\<close> goes on to the next attempt.
\<close>

definition wait_round :: "nat \<Rightarrow> u64 \<Rightarrow> (chan_world, ErrorCode option) prog" where
  "wait_round r deadline =
     bind (shared_load (cons_c r)) (\<lambda>handle.
     bind (shared_load (chan_notify_c (cn_object handle))) (\<lambda>expected.
     bind (shared_load (latest_ticket_c (cn_object handle))) (\<lambda>ticket.
       if ticket \<noteq> 0 \<and> ticket_sequence ticket > cn_last_sequence handle then Ret None
       else
         bind (monotonic_now_ns chan_kern_c) (\<lambda>now.
           if remaining_time_ns now deadline = 0
           then bind (classify_wait_timeout (cn_object handle)) (\<lambda>e. Ret (Some e))
           else
             bind (futex_wait chan_kern_c) (\<lambda>rc.
               case rc of
                 None \<Rightarrow> Ret None
               | Some e \<Rightarrow>
                   if e = EAGAIN \<or> e = EINTR then Ret None
                   else if e = ETIMEDOUT
                   then bind (classify_wait_timeout (cn_object handle)) (\<lambda>e. Ret (Some e))
                   else Ret (Some kSystemError))))))"

text \<open>The waiting loops, by fuel: \<open>None\<close> says that the loop has not ended within the rounds allowed.\<close>

primrec wait_latest_loop ::
  "nat \<Rightarrow> nat \<Rightarrow> u32 \<Rightarrow> u64 \<Rightarrow> (chan_world, (ReadSnapshot \<times> bytes) result option) prog" where
  "wait_latest_loop 0 r encoded_cap deadline = Ret None"
| "wait_latest_loop (Suc fuel) r encoded_cap deadline =
     bind (try_read_latest_unlocked r encoded_cap) (\<lambda>read.
       case read of
         Inr x \<Rightarrow> Ret (Some (Inr x))
       | Inl ec \<Rightarrow>
           if ec \<noteq> kNoNewSample \<and> ec \<noteq> kReadContention then Ret (Some (Inl ec))
           else
             bind (wait_round r deadline) (\<lambda>stop.
               case stop of
                 Some e \<Rightarrow> Ret (Some (Inl e))
               | None \<Rightarrow> wait_latest_loop fuel r encoded_cap deadline))"

definition consumer_wait_latest_impl ::
  "nat \<Rightarrow> nat \<Rightarrow> u32 \<Rightarrow> u64 \<Rightarrow> (chan_world, (ReadSnapshot \<times> bytes) result option) prog" where
  "consumer_wait_latest_impl fuel r encoded_cap timeout_ns =
     consumer_guarded r (Some (Inl kConcurrentHandleUse))
       (bind (monotonic_now_ns chan_kern_c) (\<lambda>now.
          let deadline = monotonic_deadline_ns now timeout_ns in
          if deadline = 0 then Ret (Some (Inl kClockAnomaly))
          else wait_latest_loop fuel r encoded_cap deadline))"

subsection \<open>Loans\<close>

record ReadLoan =
  rl_handle :: "nat option"
  rl_slot :: "u64 option"
  rl_data :: "u64 option"
  rl_size :: u32
  rl_generation :: u64
  rl_instance_nonce :: bytes
  rl_sequence :: u64
  rl_publish_boot_ns :: u64
  rl_receive_boot_ns :: u64
  rl_missed_samples :: u64
  rl_active :: bool

definition make_read_loan :: "nat \<Rightarrow> ClaimedRead \<Rightarrow> ReadLoan" where
  "make_read_loan r claimed =
     (let snap = cr_snapshot claimed in
      \<lparr>rl_handle = Some r, rl_slot = Some (cr_slot claimed), rl_data = Some (cr_slot claimed + kSlotHeaderSize),
       rl_size = rs_encoded_size snap, rl_generation = rs_generation snap,
       rl_instance_nonce = rs_instance_nonce snap, rl_sequence = rs_sample_sequence snap,
       rl_publish_boot_ns = rs_publish_boot_ns snap, rl_receive_boot_ns = rs_receive_boot_ns snap,
       rl_missed_samples = rs_missed_samples snap, rl_active = True\<rparr>)"

definition ended_read_loan :: "ReadLoan \<Rightarrow> ReadLoan" where
  "ended_read_loan loan = loan\<lparr>rl_active := False, rl_slot := None, rl_data := None, rl_handle := None\<rparr>"

definition moved_read_loan :: ReadLoan where
  "moved_read_loan =
     \<lparr>rl_handle = None, rl_slot = None, rl_data = None, rl_size = 0, rl_generation = 0,
      rl_instance_nonce = replicate 16 0, rl_sequence = 0, rl_publish_boot_ns = 0, rl_receive_boot_ns = 0,
      rl_missed_samples = 0, rl_active = False\<rparr>"

definition consumer_try_loan_latest_impl :: "nat \<Rightarrow> (chan_world, ReadLoan result) prog" where
  "consumer_try_loan_latest_impl r =
     bind (shared_exchange (cn_in_use_c r) True) (\<lambda>busy.
       if busy then Ret (Inl kConcurrentHandleUse)
       else
         bind (claim_latest_unlocked r) (\<lambda>claimed.
           case claimed of
             Inl e \<Rightarrow> bind (release_consumer_loan_operation r) (\<lambda>_. Ret (Inl e))
           | Inr c \<Rightarrow> Ret (Inr (make_read_loan r c))))"

primrec wait_loan_loop :: "nat \<Rightarrow> nat \<Rightarrow> u64 \<Rightarrow> (chan_world, ReadLoan result option) prog" where
  "wait_loan_loop 0 r deadline = Ret None"
| "wait_loan_loop (Suc fuel) r deadline =
     bind (claim_latest_unlocked r) (\<lambda>claimed.
       case claimed of
         Inr c \<Rightarrow> Ret (Some (Inr (make_read_loan r c)))
       | Inl code \<Rightarrow>
           if code \<noteq> kNoNewSample \<and> code \<noteq> kReadContention
           then bind (release_consumer_loan_operation r) (\<lambda>_. Ret (Some (Inl code)))
           else
             bind (wait_round r deadline) (\<lambda>stop.
               case stop of
                 Some e \<Rightarrow> bind (release_consumer_loan_operation r) (\<lambda>_. Ret (Some (Inl e)))
               | None \<Rightarrow> wait_loan_loop fuel r deadline))"

definition consumer_wait_loan_latest_impl ::
  "nat \<Rightarrow> nat \<Rightarrow> u64 \<Rightarrow> (chan_world, ReadLoan result option) prog" where
  "consumer_wait_loan_latest_impl fuel r timeout_ns =
     bind (shared_exchange (cn_in_use_c r) True) (\<lambda>busy.
       if busy then Ret (Some (Inl kConcurrentHandleUse))
       else
         bind (monotonic_now_ns chan_kern_c) (\<lambda>now.
           let deadline = monotonic_deadline_ns now timeout_ns in
           if deadline = 0
           then bind (release_consumer_loan_operation r) (\<lambda>_. Ret (Some (Inl kClockAnomaly)))
           else wait_loan_loop fuel r deadline))"

definition consumer_release_loan_impl :: "ReadLoan \<Rightarrow> (chan_world, ReadLoan) prog" where
  "consumer_release_loan_impl loan =
     (case (rl_active loan, rl_handle loan) of
        (True, Some r) \<Rightarrow>
          bind (shared_load (cons_c r)) (\<lambda>handle.
          bind (case rl_slot loan of Some off \<Rightarrow> slot_release_read (cn_object handle) off | None \<Rightarrow> Ret ()) (\<lambda>_.
          bind (release_consumer_loan_operation r) (\<lambda>_. Ret (ended_read_loan loan))))
      | _ \<Rightarrow> Ret loan)"

definition read_loan_move :: "ReadLoan \<Rightarrow> ReadLoan \<times> ReadLoan" where
  "read_loan_move other = (other, moved_read_loan)"

text \<open>\<open>same\<close> says that a loan is assigned to itself.\<close>

definition read_loan_assign ::
  "bool \<Rightarrow> ReadLoan \<Rightarrow> ReadLoan \<Rightarrow> (chan_world, ReadLoan \<times> ReadLoan) prog" where
  "read_loan_assign same loan other =
     (if same then Ret (loan, loan)
      else bind (consumer_release_loan_impl loan) (\<lambda>_. Ret (read_loan_move other)))"

subsection \<open>Status and the slots of a dead consumer\<close>

definition consumer_status_impl :: "nat \<Rightarrow> (chan_world, ChannelStatus result) prog" where
  "consumer_status_impl r =
     consumer_guarded r (Inl kConcurrentHandleUse)
       (bind (shared_load (cons_c r)) (\<lambda>handle.
          try_bind (check_name_current (cn_transport handle) (cn_channel_name handle) (cn_object handle))
            (\<lambda>_. read_channel_status (cn_object handle))))"

primrec reclaim_slots :: "object \<Rightarrow> u64 \<Rightarrow> u64 \<Rightarrow> u32 list \<Rightarrow> (chan_world, unit result) prog" where
  "reclaim_slots ob stride old_role_epoch [] = Ret (Inr ())"
| "reclaim_slots ob stride old_role_epoch (i # is) =
     (case slot_byte_offset i stride of
        None \<Rightarrow> Ret (Inl kCorruptSlot)
      | Some off \<Rightarrow>
          bind (shared_load (cslot_state_c ob off)) (\<lambda>st.
            if st = chan_word ChanReadingClaiming then
              bind (shared_load (cslot_reader_c ob off)) (\<lambda>epoch.
                if epoch \<noteq> 0 \<and> epoch \<noteq> old_role_epoch then Ret (Inl kRecoveryBlocked)
                else bind (slot_release_read ob off) (\<lambda>_. reclaim_slots ob stride old_role_epoch is))
            else if st = chan_word ChanReading then
              bind (shared_load (cslot_reader_c ob off)) (\<lambda>epoch.
                if epoch \<noteq> old_role_epoch then Ret (Inl kRecoveryBlocked)
                else bind (slot_release_read ob off) (\<lambda>_. reclaim_slots ob stride old_role_epoch is))
            else reclaim_slots ob stride old_role_epoch is))"

definition reclaim_dead_consumer_slots :: "object \<Rightarrow> u64 \<Rightarrow> u32 \<Rightarrow> (chan_world, unit result) prog" where
  "reclaim_dead_consumer_slots ob old_role_epoch payload_size =
     (case channel_stride payload_size of
        None \<Rightarrow> Ret (Inl kInvalidOptions)
      | Some stride \<Rightarrow> reclaim_slots ob stride old_role_epoch kSlotIndices)"

end
