(* ===== verification/ER_Chan_Conc.thy ===== *)
theory ER_Chan_Conc
  imports ER_Consumer "HOL-Library.Sublist"
begin

text \<open>
  A channel under arbitrary interleaving: one producer handle and one consumer handle, each shared by
  any number of threads. The invariant says what the state of a slot means, that the slot of the latest
  ticket always has the sample published last, complete, and that the samples have consecutive sequence
  numbers. The rely of a thread that uses a handle is that nobody touches the slot in its hand.
\<close>

subsection \<open>What the protocol of a channel depends on\<close>

text \<open>A channel with its producer and its consumer handle.\<close>

record chan_ctx =
  cx_object :: object
  cx_prod :: nat
  cx_cons :: nat
  cx_size :: u32
  cx_stride :: u64

record chan_view =
  v_ticket :: u64
  v_slots :: "u64 \<Rightarrow> SlotHeaderAbi"
  v_pin :: bool
  v_cin :: bool
  v_handle :: ConsumerHandle

text \<open>A consumer handle without its flags.\<close>

definition plain_handle :: "ConsumerHandle \<Rightarrow> ConsumerHandle" where
  "plain_handle h = h\<lparr>cn_in_use := False, cn_shutdown_pending := False, cn_shutdown_started := False\<rparr>"

definition chan_view :: "chan_ctx \<Rightarrow> chan_world \<Rightarrow> chan_view" where
  "chan_view K w =
     \<lparr>v_ticket = seg_ticket w (cx_object K), v_slots = seg_slot w (cx_object K),
      v_pin = pf_in_use (cw_prods w (cx_prod K)), v_cin = cn_in_use (cw_cons w (cx_cons K)),
      v_handle = plain_handle (cw_cons w (cx_cons K))\<rparr>"

definition slot_off :: "chan_ctx \<Rightarrow> u32 \<Rightarrow> u64" where
  "slot_off K i = the (slot_byte_offset i (cx_stride K))"

definition is_slot :: "chan_ctx \<Rightarrow> u64 \<Rightarrow> bool" where
  "is_slot K off \<longleftrightarrow> (\<exists>i < kSlotCount. off = slot_off K i)"

lemma slot_off_offset:
  "channel_geometry (cx_size K) (cx_stride K) \<Longrightarrow> i < kSlotCount \<Longrightarrow>
   slot_byte_offset i (cx_stride K) = Some (slot_off K i)"
  using slot_byte_offset_eq by (fastforce simp: slot_off_def)

lemma slot_off_inj:
  assumes "channel_geometry (cx_size K) (cx_stride K)" and "i < kSlotCount" and "j < kSlotCount"
    and "slot_off K i = slot_off K j"
  shows "i = j"
proof -
  have "unat (slot_off K i) = 448 + unat i * unat (cx_stride K)" "unat (slot_off K j) = 448 + unat j * unat (cx_stride K)"
    using slot_byte_offset_eq [OF assms(1,2)] slot_byte_offset_eq [OF assms(1,3)] by (auto simp: slot_off_def)
  moreover have "0 < unat (cx_stride K)"
    using channel_geometry_stride(2) [OF assms(1)] by linarith
  ultimately show ?thesis using assms(4) by (simp add: word_unat_eq_iff)
qed

subsection \<open>Ghost data and invariant\<close>

record sample =
  sm_sequence :: u64
  sm_publish_ns :: u64
  sm_bytes :: bytes

text \<open>
  Who uses the handles, the slot that is written, the slot that is published but not yet the latest,
  the slot of the ticket the consumer read last, the slot in its hand, and the logs of the samples that
  became the latest and of those that were taken.
\<close>

record chan_ghost =
  cg_prod :: "nat option"
  cg_cons :: "nat option"
  cg_write :: "u64 option"
  cg_next :: "(u64 \<times> sample) option"
  cg_target :: "u64 option"
  cg_read :: "u64 option"
  cg_log :: "(nat \<times> sample) list"
  cg_reads :: "(nat \<times> sample) list"

type_synonym chan_config = "chan_world \<times> chan_ghost"

definition slot_holds :: "SlotHeaderAbi \<Rightarrow> sample \<Rightarrow> bool" where
  "slot_holds x m \<longleftrightarrow>
     cs_sample_sequence x = sm_sequence m \<and> cs_publish_boot_ns x = sm_publish_ns m \<and>
     unat (cs_payload_size x) = length (sm_bytes m) \<and>
     map (cs_payload x) [0..<length (sm_bytes m)] = sm_bytes m \<and>
     cs_payload_checksum x = fnv1a64 (sm_bytes m)"

definition in_hand :: "SlotHeaderAbi \<Rightarrow> bool" where
  "in_hand x \<longleftrightarrow> cs_state x = chan_word ChanReadingClaiming \<or> cs_state x = chan_word ChanReading"

definition readable :: "SlotHeaderAbi \<Rightarrow> bool" where
  "readable x \<longleftrightarrow> cs_state x = chan_word ChanPublished \<or> in_hand x"

text \<open>The state of one slot and what it says of the ghost data.\<close>

definition slot_ok :: "chan_ghost \<Rightarrow> u64 \<Rightarrow> SlotHeaderAbi \<Rightarrow> bool" where
  "slot_ok g off x \<longleftrightarrow>
     (cs_state x = chan_word ChanFree \<or> cs_state x = chan_word ChanWriting \<or> readable x) \<and>
     (cs_state x = chan_word ChanWriting \<longleftrightarrow> cg_write g = Some off) \<and>
     (in_hand x \<longleftrightarrow> cg_read g = Some off) \<and>
     (readable x \<longrightarrow> (\<exists>m. slot_holds x m \<and> (m \<in> snd ` set (cg_log g) \<or> cg_next g = Some (off, m))))"

definition log_ok :: "(nat \<times> sample) list \<Rightarrow> bool" where
  "log_ok l \<longleftrightarrow>
     map (\<lambda>e. unat (sm_sequence (snd e))) l = [1..<Suc (length l)] \<and> length l \<le> 2 ^ 62 - 1"

definition latest_ok :: "chan_ctx \<Rightarrow> (nat \<times> sample) list \<Rightarrow> chan_view \<Rightarrow> bool" where
  "latest_ok K l v \<longleftrightarrow>
     (if l = [] then v_ticket v = 0
      else \<exists>i < kSlotCount. v_ticket v = make_ticket (sm_sequence (snd (last l))) i \<and>
        readable (v_slots v (slot_off K i)) \<and> slot_holds (v_slots v (slot_off K i)) (snd (last l)))"

text \<open>The slot of the latest ticket.\<close>

definition latest_slot :: "chan_ctx \<Rightarrow> u64 \<Rightarrow> u64 option" where
  "latest_slot K t = (if t = 0 then None else Some (slot_off K (ticket_slot t)))"

definition prod_ok :: "chan_ctx \<Rightarrow> chan_view \<Rightarrow> chan_ghost \<Rightarrow> bool" where
  "prod_ok K v g \<longleftrightarrow>
     (v_pin v \<longleftrightarrow> cg_prod g \<noteq> None) \<and>
     (cg_prod g = None \<longrightarrow> cg_write g = None \<and> cg_next g = None) \<and>
     (\<forall>off. cg_write g = Some off \<longrightarrow> is_slot K off \<and> latest_slot K (v_ticket v) \<noteq> Some off \<and> cg_next g = None) \<and>
     (\<forall>off m. cg_next g = Some (off, m) \<longrightarrow>
        is_slot K off \<and> readable (v_slots v off) \<and> slot_holds (v_slots v off) m)"

definition reads_ok :: "ConsumerHandle \<Rightarrow> chan_ghost \<Rightarrow> bool" where
  "reads_ok h g \<longleftrightarrow>
     unat (cn_last_sequence h) = (if cg_reads g = [] then 0 else unat (sm_sequence (snd (last (cg_reads g))))) \<and>
     sorted_wrt (<) (map (\<lambda>e. unat (sm_sequence (snd e))) (cg_reads g)) \<and>
     snd ` set (cg_reads g) \<subseteq> snd ` set (cg_log g)"

definition cons_ok :: "chan_ctx \<Rightarrow> chan_view \<Rightarrow> chan_ghost \<Rightarrow> bool" where
  "cons_ok K v g \<longleftrightarrow>
     (v_cin v \<longleftrightarrow> cg_cons g \<noteq> None) \<and> (cg_cons g = None \<longrightarrow> cg_read g = None) \<and>
     (\<forall>off. cg_read g = Some off \<longrightarrow> is_slot K off \<and> cg_target g = Some off) \<and>
     cn_object (v_handle v) = cx_object K \<and> cn_payload_size (v_handle v) = cx_size K \<and>
     reads_ok (v_handle v) g \<and>
     (cg_cons g = None \<longrightarrow> cn_first_sample (v_handle v) = (cg_reads g = []))"

definition chan_vinv :: "chan_ctx \<Rightarrow> chan_view \<Rightarrow> chan_ghost \<Rightarrow> bool" where
  "chan_vinv K v g \<longleftrightarrow>
     channel_geometry (cx_size K) (cx_stride K) \<and> log_ok (cg_log g) \<and> latest_ok K (cg_log g) v \<and>
     (\<forall>off. is_slot K off \<longrightarrow> slot_ok g off (v_slots v off)) \<and> prod_ok K v g \<and> cons_ok K v g \<and>
     (\<forall>off. is_slot K off \<longrightarrow> readable (v_slots v off) \<longrightarrow> cs_payload_size (v_slots v off) = cx_size K)"

definition chan_inv :: "chan_ctx \<Rightarrow> chan_config \<Rightarrow> bool" where
  "chan_inv K c \<longleftrightarrow> chan_vinv K (chan_view K (fst c)) (snd c)"

subsection \<open>Rely and guarantee\<close>

definition logged_by :: "nat \<Rightarrow> (nat \<times> sample) list \<Rightarrow> sample list" where
  "logged_by i l = map snd (filter (\<lambda>x. fst x = i) l)"

definition prod_frame :: "chan_ctx \<Rightarrow> chan_config \<Rightarrow> chan_config \<Rightarrow> bool" where
  "prod_frame K c d \<longleftrightarrow>
     (let v = chan_view K (fst c); g = snd c; v' = chan_view K (fst d); g' = snd d in
      cg_prod g' = cg_prod g \<and> cg_write g' = cg_write g \<and> cg_next g' = cg_next g \<and> cg_log g' = cg_log g \<and>
      v_ticket v' = v_ticket v \<and> (\<forall>off. cg_write g = Some off \<longrightarrow> v_slots v' off = v_slots v off) \<and>
      (\<forall>off. readable (v_slots v' off) = readable (v_slots v off)) \<and>
      (cg_target g' = cg_target g \<or> cg_target g' = latest_slot K (v_ticket v)))"

definition cons_frame :: "chan_ctx \<Rightarrow> chan_config \<Rightarrow> chan_config \<Rightarrow> bool" where
  "cons_frame K c d \<longleftrightarrow>
     (let v = chan_view K (fst c); g = snd c; v' = chan_view K (fst d); g' = snd d in
      cg_cons g' = cg_cons g \<and> cg_read g' = cg_read g \<and> cg_target g' = cg_target g \<and>
      cg_reads g' = cg_reads g \<and> v_handle v' = v_handle v \<and>
      (\<forall>off. cg_read g = Some off \<longrightarrow> v_slots v' off = v_slots v off))"

definition chan_frame :: "chan_ctx \<Rightarrow> nat \<Rightarrow> chan_config \<Rightarrow> chan_config \<Rightarrow> bool" where
  "chan_frame K i c d \<longleftrightarrow>
     prefix (cg_log (snd c)) (cg_log (snd d)) \<and> prefix (cg_reads (snd c)) (cg_reads (snd d)) \<and>
     logged_by i (cg_log (snd d)) = logged_by i (cg_log (snd c)) \<and>
     logged_by i (cg_reads (snd d)) = logged_by i (cg_reads (snd c)) \<and>
     (cg_prod (snd c) = Some i \<longrightarrow> prod_frame K c d) \<and> (cg_cons (snd c) = Some i \<longrightarrow> cons_frame K c d) \<and>
     (cg_prod (snd c) \<noteq> Some i \<longrightarrow> cg_prod (snd d) \<noteq> Some i) \<and>
     (cg_cons (snd c) \<noteq> Some i \<longrightarrow> cg_cons (snd d) \<noteq> Some i)"

definition chan_rely :: "chan_ctx \<Rightarrow> nat \<Rightarrow> chan_config \<Rightarrow> chan_config \<Rightarrow> bool" where
  "chan_rely K i c d \<longleftrightarrow> (chan_inv K c \<longrightarrow> chan_inv K d \<and> chan_frame K i c d)"

definition logs_extend :: "nat \<Rightarrow> chan_ghost \<Rightarrow> chan_ghost \<Rightarrow> bool" where
  "logs_extend i g g' \<longleftrightarrow>
     (\<exists>es. cg_log g' = cg_log g @ map (Pair i) es) \<and> (\<exists>es. cg_reads g' = cg_reads g @ map (Pair i) es)"

definition chan_guar :: "chan_ctx \<Rightarrow> nat \<Rightarrow> chan_config \<Rightarrow> chan_config \<Rightarrow> bool" where
  "chan_guar K i c d \<longleftrightarrow>
     (chan_inv K c \<longrightarrow>
        chan_inv K d \<and> logs_extend i (snd c) (snd d) \<and> (\<forall>j. j \<noteq> i \<longrightarrow> chan_frame K j c d))"

text \<open>The environment is free in everything the protocol does not depend on.\<close>

definition chan_env :: "chan_ctx \<Rightarrow> chan_world \<Rightarrow> chan_world \<Rightarrow> bool" where
  "chan_env K w w' \<longleftrightarrow> chan_view K w' = chan_view K w"

lemma chan_frame_refl: "chan_frame K i c c"
  by (simp add: chan_frame_def prod_frame_def cons_frame_def Let_def)

lemma prod_frame_trans: "prod_frame K c d \<Longrightarrow> prod_frame K d e \<Longrightarrow> prod_frame K c e"
  unfolding prod_frame_def Let_def by auto

lemma cons_frame_trans: "cons_frame K c d \<Longrightarrow> cons_frame K d e \<Longrightarrow> cons_frame K c e"
  unfolding cons_frame_def Let_def by auto

lemma chan_frame_trans:
  assumes "chan_frame K i c d" and "chan_frame K i d e"
  shows "chan_frame K i c e"
proof -
  have "cg_prod (snd d) = Some i" "prod_frame K c d" if "cg_prod (snd c) = Some i"
    using assms(1) that by (auto simp: chan_frame_def prod_frame_def Let_def)
  moreover have "cg_cons (snd d) = Some i" "cons_frame K c d" if "cg_cons (snd c) = Some i"
    using assms(1) that by (auto simp: chan_frame_def cons_frame_def Let_def)
  ultimately show ?thesis
    using assms unfolding chan_frame_def
    by (auto intro: prefix_order.trans prod_frame_trans cons_frame_trans)
qed

interpretation cthr: rg_thread "chan_rely K i" "chan_guar K i" for K i
proof unfold_locales
  fix c d e
  show "chan_rely K i c c" by (simp add: chan_rely_def chan_frame_refl)
  show "chan_guar K i c c" by (simp add: chan_guar_def chan_frame_refl logs_extend_def)
  show "chan_rely K i c d \<Longrightarrow> chan_rely K i d e \<Longrightarrow> chan_rely K i c e"
    unfolding chan_rely_def by (blast intro: chan_frame_trans)
qed

lemma chan_view_only:
  assumes "chan_view K w' = chan_view K w"
  shows "chan_inv K (w', g) = chan_inv K (w, g)" and "chan_frame K i (w, g) (w', g)"
  using assms by (simp_all add: chan_inv_def chan_frame_def prod_frame_def cons_frame_def Let_def)

interpretation csys: rely_guarantee "chan_rely K" "chan_guar K" "chan_env K" for K
proof (rule rely_guarantee.intro)
  fix i j :: nat and c d :: chan_config and s t :: chan_world and g
  show "interference (chan_rely K i)" by (rule cthr.interference_axioms)
  show "chan_guar K i c d \<Longrightarrow> i \<noteq> j \<Longrightarrow> chan_rely K j c d"
    by (auto simp: chan_guar_def chan_rely_def)
  show "chan_env K s t \<Longrightarrow> chan_rely K j (s, g) (t, g)"
    using chan_view_only [of K t s] by (simp add: chan_env_def chan_rely_def)
qed

subsection \<open>Steps that keep the invariant\<close>

lemma chan_vinvD:
  assumes "chan_vinv K v g"
  shows "channel_geometry (cx_size K) (cx_stride K)" and "log_ok (cg_log g)" and "latest_ok K (cg_log g) v"
    and "is_slot K off \<Longrightarrow> slot_ok g off (v_slots v off)" and "prod_ok K v g" and "cons_ok K v g"
    and "is_slot K off \<Longrightarrow> readable (v_slots v off) \<Longrightarrow> cs_payload_size (v_slots v off) = cx_size K"
  using assms by (simp_all add: chan_vinv_def)

lemma chan_vinvI:
  assumes "channel_geometry (cx_size K) (cx_stride K)" and "log_ok (cg_log g)" and "latest_ok K (cg_log g) v"
    and "\<And>off. is_slot K off \<Longrightarrow> slot_ok g off (v_slots v off)" and "prod_ok K v g" and "cons_ok K v g"
    and "\<And>off. is_slot K off \<Longrightarrow> readable (v_slots v off) \<Longrightarrow> cs_payload_size (v_slots v off) = cx_size K"
  shows "chan_vinv K v g"
  using assms by (simp add: chan_vinv_def)

lemma chan_words [simp]:
  "chan_word a = chan_word b \<longleftrightarrow> a = b"
  by (cases a; cases b) simp_all

declare chan_word.simps [simp del]

lemma slot_states [simp]:
  "cs_state x = chan_word ChanPublished \<Longrightarrow> readable x"
  "cs_state x = chan_word ChanPublished \<Longrightarrow> \<not> in_hand x"
  "cs_state x = chan_word ChanWriting \<Longrightarrow> \<not> readable x" "cs_state x = chan_word ChanWriting \<Longrightarrow> \<not> in_hand x"
  "cs_state x = chan_word ChanFree \<Longrightarrow> \<not> readable x" "cs_state x = chan_word ChanFree \<Longrightarrow> \<not> in_hand x"
  "cs_state x = chan_word ChanReadingClaiming \<Longrightarrow> in_hand x" "cs_state x = chan_word ChanReading \<Longrightarrow> in_hand x"
  "in_hand x \<Longrightarrow> readable x"
  by (simp_all add: readable_def in_hand_def)

lemma slot_okD:
  assumes "slot_ok g off x"
  shows "cs_state x = chan_word ChanFree \<or> cs_state x = chan_word ChanWriting \<or> readable x"
    and "cs_state x = chan_word ChanWriting \<longleftrightarrow> cg_write g = Some off" and "in_hand x \<longleftrightarrow> cg_read g = Some off"
    and "readable x \<Longrightarrow> \<exists>m. slot_holds x m \<and> (m \<in> snd ` set (cg_log g) \<or> cg_next g = Some (off, m))"
  using assms unfolding slot_ok_def by blast+

lemma is_slot_index: "i < kSlotCount \<Longrightarrow> is_slot K (slot_off K i)"
  by (auto simp: is_slot_def)

lemma index_less_4: "i < kSlotCount \<Longrightarrow> (i :: u32) < 4"
  by (simp add: kSlotCount_def word_less_nat_alt)

lemma log_ok_last:
  assumes "log_ok l" and "l \<noteq> []"
  shows "unat (sm_sequence (snd (last l))) = length l" and "sm_sequence (snd (last l)) \<le> kMaxSampleSequence"
proof -
  have "unat (sm_sequence (snd (last l))) = last (map (\<lambda>e. unat (sm_sequence (snd e))) l)"
    using assms(2) by (simp add: last_map)
  also have "\<dots> = length l"
    using assms by (simp add: log_ok_def last_upt del: upt_Suc)
  finally show "unat (sm_sequence (snd (last l))) = length l" .
  then show "sm_sequence (snd (last l)) \<le> kMaxSampleSequence"
    using assms(1) by (simp add: word_le_nat_alt unat_kMaxSampleSequence log_ok_def)
qed

lemma ticket_not_0:
  assumes "s \<le> kMaxSampleSequence" and "i < kSlotCount" and "s \<noteq> 0"
  shows "make_ticket s i \<noteq> 0"
proof
  assume "make_ticket s i = 0"
  then have "unat (make_ticket s i) = 0" by simp
  moreover have "0 < unat s" using assms(3) by (simp add: unat_gt_0)
  ultimately show False using unat_make_ticket [OF assms(1) index_less_4 [OF assms(2)]] by simp
qed

text \<open>What the latest ticket says.\<close>

lemma latest_ok_ticket:
  assumes "latest_ok K l v" and "log_ok l"
  shows "l = [] \<Longrightarrow> v_ticket v = 0"
    and "l \<noteq> [] \<Longrightarrow> \<exists>i < kSlotCount. v_ticket v = make_ticket (sm_sequence (snd (last l))) i \<and>
      ticket_slot (v_ticket v) = i \<and> v_ticket v \<noteq> 0 \<and> latest_slot K (v_ticket v) = Some (slot_off K i) \<and>
      readable (v_slots v (slot_off K i)) \<and> slot_holds (v_slots v (slot_off K i)) (snd (last l))"
    and "unat (ticket_sequence (v_ticket v)) = length l"
proof -
  show "l = [] \<Longrightarrow> v_ticket v = 0" using assms(1) by (simp add: latest_ok_def)
  have ne: "\<exists>i < kSlotCount. v_ticket v = make_ticket (sm_sequence (snd (last l))) i \<and>
      ticket_slot (v_ticket v) = i \<and> v_ticket v \<noteq> 0 \<and> latest_slot K (v_ticket v) = Some (slot_off K i) \<and>
      readable (v_slots v (slot_off K i)) \<and> slot_holds (v_slots v (slot_off K i)) (snd (last l))"
      and seq: "unat (ticket_sequence (v_ticket v)) = length l" if nonempty: "l \<noteq> []"
  proof -
    obtain i where i: "i < kSlotCount" "v_ticket v = make_ticket (sm_sequence (snd (last l))) i"
        "readable (v_slots v (slot_off K i))" "slot_holds (v_slots v (slot_off K i)) (snd (last l))"
      using assms(1) nonempty by (auto simp: latest_ok_def)
    note last = log_ok_last [OF assms(2) nonempty]
    have "sm_sequence (snd (last l)) \<noteq> 0" using last(1) nonempty by auto
    then have nz: "v_ticket v \<noteq> 0" using ticket_not_0 [OF last(2) i(1)] i(2) by simp
    moreover have parts: "ticket_slot (v_ticket v) = i" "ticket_sequence (v_ticket v) = sm_sequence (snd (last l))"
      using ticket_parts [OF last(2) index_less_4 [OF i(1)]] i(2) by simp_all
    ultimately show "\<exists>i < kSlotCount. v_ticket v = make_ticket (sm_sequence (snd (last l))) i \<and>
      ticket_slot (v_ticket v) = i \<and> v_ticket v \<noteq> 0 \<and> latest_slot K (v_ticket v) = Some (slot_off K i) \<and>
      readable (v_slots v (slot_off K i)) \<and> slot_holds (v_slots v (slot_off K i)) (snd (last l))"
      using i by (intro exI [of _ i]) (simp add: latest_slot_def)
    show "unat (ticket_sequence (v_ticket v)) = length l" using parts(2) last(1) by simp
  qed
  then show "l \<noteq> [] \<Longrightarrow> \<exists>i < kSlotCount. v_ticket v = make_ticket (sm_sequence (snd (last l))) i \<and>
      ticket_slot (v_ticket v) = i \<and> v_ticket v \<noteq> 0 \<and> latest_slot K (v_ticket v) = Some (slot_off K i) \<and>
      readable (v_slots v (slot_off K i)) \<and> slot_holds (v_slots v (slot_off K i)) (snd (last l))" by blast
  show "unat (ticket_sequence (v_ticket v)) = length l"
    using seq assms(1) by (cases "l = []") (simp_all add: latest_ok_def ticket_sequence_def)
qed

lemma latest_ok_update:
  assumes "latest_ok K l v" and "log_ok l" and "v_ticket v' = v_ticket v"
    and "\<And>i. i < kSlotCount \<Longrightarrow> latest_slot K (v_ticket v) = Some (slot_off K i) \<Longrightarrow>
      readable (v_slots v (slot_off K i)) \<Longrightarrow> slot_holds (v_slots v (slot_off K i)) m \<Longrightarrow>
      readable (v_slots v' (slot_off K i)) \<and> slot_holds (v_slots v' (slot_off K i)) m"
    and "l \<noteq> [] \<Longrightarrow> m = snd (last l)"
  shows "latest_ok K l v'"
proof (cases "l = []")
  case False
  then show ?thesis
    using latest_ok_ticket(2) [OF assms(1,2) False] assms(3-5) by (auto simp: latest_ok_def)
qed (use assms in \<open>simp add: latest_ok_def\<close>)

text \<open>Steps that touch no slot.\<close>

lemma vinv_same:
  assumes "chan_vinv K v g" and "v_ticket v' = v_ticket v" and "v_slots v' = v_slots v"
    and "cg_log g' = cg_log g" and "cg_write g' = cg_write g" and "cg_read g' = cg_read g" and "cg_next g' = cg_next g"
    and "prod_ok K v' g'" and "cons_ok K v' g'"
  shows "chan_vinv K v' g'"
proof -
  have "slot_ok g' off x = slot_ok g off x" for off x
    unfolding slot_ok_def assms(4-7) ..
  moreover have "latest_ok K (cg_log g) v' = latest_ok K (cg_log g) v"
    unfolding latest_ok_def assms(2,3) ..
  ultimately show ?thesis
    using assms(1,8,9) by (simp add: chan_vinv_def assms(3,4))
qed

lemma reads_ok_other [simp]:
  "reads_ok h (g\<lparr>cg_prod := p\<rparr>) = reads_ok h g" "reads_ok h (g\<lparr>cg_cons := p\<rparr>) = reads_ok h g"
  "reads_ok h (g\<lparr>cg_write := o1\<rparr>) = reads_ok h g" "reads_ok h (g\<lparr>cg_next := o2\<rparr>) = reads_ok h g"
  "reads_ok h (g\<lparr>cg_target := o1\<rparr>) = reads_ok h g" "reads_ok h (g\<lparr>cg_read := o1\<rparr>) = reads_ok h g"
  "reads_ok (h\<lparr>cn_first_sample := b\<rparr>) g = reads_ok h g"
  by (simp_all add: reads_ok_def)

lemma vinv_take_prod:
  "chan_vinv K v g \<Longrightarrow> \<not> v_pin v \<Longrightarrow> chan_vinv K (v\<lparr>v_pin := True\<rparr>) (g\<lparr>cg_prod := Some i\<rparr>)"
  by (frule chan_vinvD(5), frule chan_vinvD(6), rule vinv_same) (auto simp: prod_ok_def cons_ok_def)

lemma vinv_drop_prod:
  "chan_vinv K v g \<Longrightarrow> cg_write g = None \<Longrightarrow> cg_next g = None \<Longrightarrow>
   chan_vinv K (v\<lparr>v_pin := False\<rparr>) (g\<lparr>cg_prod := None\<rparr>)"
  by (frule chan_vinvD(5), frule chan_vinvD(6), rule vinv_same) (auto simp: prod_ok_def cons_ok_def)

lemma vinv_take_cons:
  "chan_vinv K v g \<Longrightarrow> \<not> v_cin v \<Longrightarrow> chan_vinv K (v\<lparr>v_cin := True\<rparr>) (g\<lparr>cg_cons := Some i\<rparr>)"
  by (frule chan_vinvD(5), frule chan_vinvD(6), rule vinv_same) (auto simp: prod_ok_def cons_ok_def)

lemma vinv_drop_cons:
  "chan_vinv K v g \<Longrightarrow> cg_read g = None \<Longrightarrow> cn_first_sample (v_handle v) = (cg_reads g = []) \<Longrightarrow>
   chan_vinv K (v\<lparr>v_cin := False\<rparr>) (g\<lparr>cg_cons := None\<rparr>)"
  by (frule chan_vinvD(5), frule chan_vinvD(6), rule vinv_same) (auto simp: prod_ok_def cons_ok_def)

lemma vinv_target:
  "chan_vinv K v g \<Longrightarrow> cg_read g = None \<Longrightarrow> chan_vinv K v (g\<lparr>cg_target := t\<rparr>)"
  by (frule chan_vinvD(5), frule chan_vinvD(6), rule vinv_same) (auto simp: prod_ok_def cons_ok_def)

lemma vinv_first:
  "chan_vinv K v g \<Longrightarrow> cg_cons g = Some i \<Longrightarrow>
   chan_vinv K (v\<lparr>v_handle := (v_handle v)\<lparr>cn_first_sample := b\<rparr>\<rparr>) g"
  by (frule chan_vinvD(5), frule chan_vinvD(6), rule vinv_same) (auto simp: prod_ok_def cons_ok_def)

lemma sorted_le_last: "sorted_wrt (<) ys \<Longrightarrow> y \<in> set ys \<Longrightarrow> y \<le> (last ys :: nat)"
  by (induction ys) (auto intro: less_imp_le)

lemma vinv_take:
  assumes "chan_vinv K v g" and "cg_cons g = Some i" and "m \<in> snd ` set (cg_log g)"
    and "cn_last_sequence (v_handle v) < sm_sequence m"
  shows "chan_vinv K (v\<lparr>v_handle := (v_handle v)\<lparr>cn_last_sequence := sm_sequence m\<rparr>\<rparr>)
    (g\<lparr>cg_reads := cg_reads g @ [(i, m)]\<rparr>)"
proof (rule vinv_same [OF assms(1)])
  have r: "reads_ok (v_handle v) g" using chan_vinvD(6) [OF assms(1)] by (simp add: cons_ok_def)
  have lt: "unat (cn_last_sequence (v_handle v)) < unat (sm_sequence m)"
    using assms(4) by (simp add: word_less_nat_alt)
  have "unat (sm_sequence (snd e)) < unat (sm_sequence m)" if e: "e \<in> set (cg_reads g)" for e
  proof -
    have "unat (sm_sequence (snd e)) \<le> last (map (\<lambda>e. unat (sm_sequence (snd e))) (cg_reads g))"
      using r e by (intro sorted_le_last) (auto simp: reads_ok_def)
    moreover have "cg_reads g \<noteq> []" using e by auto
    ultimately show ?thesis using r lt by (simp add: reads_ok_def last_map)
  qed
  then show "cons_ok K (v\<lparr>v_handle := (v_handle v)\<lparr>cn_last_sequence := sm_sequence m\<rparr>\<rparr>) (g\<lparr>cg_reads := cg_reads g @ [(i, m)]\<rparr>)"
    using chan_vinvD(6) [OF assms(1)] assms(2,3) r
    by (auto simp: cons_ok_def reads_ok_def sorted_wrt_append)
  show "prod_ok K (v\<lparr>v_handle := (v_handle v)\<lparr>cn_last_sequence := sm_sequence m\<rparr>\<rparr>) (g\<lparr>cg_reads := cg_reads g @ [(i, m)]\<rparr>)"
    using chan_vinvD(5) [OF assms(1)] by (simp add: prod_ok_def)
qed simp_all

text \<open>Steps on one slot.\<close>

abbreviation set_vslot :: "u64 \<Rightarrow> SlotHeaderAbi \<Rightarrow> chan_view \<Rightarrow> chan_view" where
  "set_vslot off x v \<equiv> v\<lparr>v_slots := (v_slots v)(off := x)\<rparr>"

lemma vinv_slot:
  assumes inv: "chan_vinv K v g" and same: "cg_log g' = cg_log g"
    and other: "\<And>off'. off' \<noteq> off \<Longrightarrow> (cg_write g' = Some off') = (cg_write g = Some off')"
      "\<And>off'. off' \<noteq> off \<Longrightarrow> (cg_read g' = Some off') = (cg_read g = Some off')"
      "\<And>off' m. off' \<noteq> off \<Longrightarrow> (cg_next g' = Some (off', m)) = (cg_next g = Some (off', m))"
    and ok: "slot_ok g' off x"
    and latest: "\<And>m. latest_slot K (v_ticket v) = Some off \<Longrightarrow> readable (v_slots v off) \<Longrightarrow>
      slot_holds (v_slots v off) m \<Longrightarrow> readable x \<and> slot_holds x m"
    and size: "readable x \<Longrightarrow> cs_payload_size x = cx_size K"
    and "prod_ok K (set_vslot off x v) g'" and "cons_ok K (set_vslot off x v) g'"
  shows "chan_vinv K (set_vslot off x v) g'"
proof (rule chan_vinvI)
  show "channel_geometry (cx_size K) (cx_stride K)" and "log_ok (cg_log g')"
    using chan_vinvD(1,2) [OF inv] same by simp_all
  show "latest_ok K (cg_log g') (set_vslot off x v)"
    unfolding same
    by (rule latest_ok_update [OF chan_vinvD(3,2) [OF inv], where m = "snd (last (cg_log g))"])
      (use latest in auto)
  fix off' assume slot: "is_slot K off'"
  then show "readable (v_slots (set_vslot off x v) off') \<Longrightarrow> cs_payload_size (v_slots (set_vslot off x v) off') = cx_size K"
    using size chan_vinvD(7) [OF inv] by (cases "off' = off") auto
  from slot show "slot_ok g' off' (v_slots (set_vslot off x v) off')"
    using ok chan_vinvD(4) [OF inv] other same by (cases "off' = off") (auto simp: slot_ok_def)
qed fact+

lemma vinv_claim_write:
  assumes inv: "chan_vinv K v g" and "cg_prod g \<noteq> None" and "cg_write g = None" and "cg_next g = None"
    and slot: "is_slot K off" and free: "cs_state (v_slots v off) = chan_word ChanFree \<or> cs_state (v_slots v off) = chan_word ChanPublished"
    and late: "latest_slot K (v_ticket v) \<noteq> Some off"
  shows "chan_vinv K (set_vslot off ((v_slots v off)\<lparr>cs_state := chan_word ChanWriting\<rparr>) v) (g\<lparr>cg_write := Some off\<rparr>)"
proof (rule vinv_slot [OF inv])
  have "cg_read g \<noteq> Some off"
    using chan_vinvD(4) [OF inv slot] free by (auto simp: slot_ok_def)
  then show "slot_ok (g\<lparr>cg_write := Some off\<rparr>) off ((v_slots v off)\<lparr>cs_state := chan_word ChanWriting\<rparr>)"
    by (simp add: slot_ok_def)
qed (use assms chan_vinvD(5,6) [OF inv] in \<open>auto simp: prod_ok_def cons_ok_def\<close>)

lemma vinv_write:
  assumes inv: "chan_vinv K v g" and w: "cg_write g = Some off" and st: "cs_state x = chan_word ChanWriting"
  shows "chan_vinv K (set_vslot off x v) g"
proof (rule vinv_slot [OF inv])
  have slot: "is_slot K off" and late: "latest_slot K (v_ticket v) \<noteq> Some off" and nx: "cg_next g = None"
    using chan_vinvD(5) [OF inv] w by (auto simp: prod_ok_def)
  show "slot_ok g off x"
    using chan_vinvD(4) [OF inv slot] w st by (auto simp: slot_ok_def)
  show "prod_ok K (set_vslot off x v) g"
    using chan_vinvD(5) [OF inv] nx by (simp add: prod_ok_def)
  show "readable x \<and> slot_holds x m" if "latest_slot K (v_ticket v) = Some off" for m
    using that late by simp
qed (use st chan_vinvD(6) [OF inv] in \<open>auto simp: cons_ok_def\<close>)

lemma vinv_publish:
  assumes inv: "chan_vinv K v g" and w: "cg_write g = Some off" and hold: "slot_holds (v_slots v off) m"
    and size: "cs_payload_size (v_slots v off) = cx_size K"
  shows "chan_vinv K (set_vslot off ((v_slots v off)\<lparr>cs_state := chan_word ChanPublished\<rparr>) v)
    (g\<lparr>cg_write := None, cg_next := Some (off, m)\<rparr>)"
proof (rule vinv_slot [OF inv])
  have slot: "is_slot K off" and late: "latest_slot K (v_ticket v) \<noteq> Some off" and nx: "cg_next g = None"
    using chan_vinvD(5) [OF inv] w by (auto simp: prod_ok_def)
  have "cg_read g \<noteq> Some off"
    using chan_vinvD(4) [OF inv slot] w by (auto simp: slot_ok_def)
  then show "slot_ok (g\<lparr>cg_write := None, cg_next := Some (off, m)\<rparr>) off ((v_slots v off)\<lparr>cs_state := chan_word ChanPublished\<rparr>)"
    using hold by (auto simp: slot_ok_def slot_holds_def)
  show "prod_ok K (set_vslot off ((v_slots v off)\<lparr>cs_state := chan_word ChanPublished\<rparr>) v)
      (g\<lparr>cg_write := None, cg_next := Some (off, m)\<rparr>)"
    using chan_vinvD(5) [OF inv] w slot hold by (auto simp: prod_ok_def slot_holds_def)
  show "readable ((v_slots v off)\<lparr>cs_state := chan_word ChanPublished\<rparr>) \<and>
      slot_holds ((v_slots v off)\<lparr>cs_state := chan_word ChanPublished\<rparr>) m'"
    if "latest_slot K (v_ticket v) = Some off" for m'
    using that late by simp
  show "(cg_next (g\<lparr>cg_write := None, cg_next := Some (off, m)\<rparr>) = Some (off', m')) = (cg_next g = Some (off', m'))"
    if "off' \<noteq> off" for off' m'
    using that nx by simp
qed (use w size chan_vinvD(6) [OF inv] in \<open>auto simp: cons_ok_def\<close>)

lemma vinv_abort:
  assumes inv: "chan_vinv K v g" and w: "cg_write g = Some off"
  shows "chan_vinv K (set_vslot off ((v_slots v off)\<lparr>cs_state := chan_word ChanFree\<rparr>) v) (g\<lparr>cg_write := None\<rparr>)"
proof (rule vinv_slot [OF inv])
  have slot: "is_slot K off" and late: "latest_slot K (v_ticket v) \<noteq> Some off" and nx: "cg_next g = None"
    using chan_vinvD(5) [OF inv] w by (auto simp: prod_ok_def)
  have "cg_read g \<noteq> Some off"
    using chan_vinvD(4) [OF inv slot] w by (auto simp: slot_ok_def)
  then show "slot_ok (g\<lparr>cg_write := None\<rparr>) off ((v_slots v off)\<lparr>cs_state := chan_word ChanFree\<rparr>)"
    by (simp add: slot_ok_def)
  show "prod_ok K (set_vslot off ((v_slots v off)\<lparr>cs_state := chan_word ChanFree\<rparr>) v) (g\<lparr>cg_write := None\<rparr>)"
    using chan_vinvD(5) [OF inv] nx by (auto simp: prod_ok_def)
  show "readable ((v_slots v off)\<lparr>cs_state := chan_word ChanFree\<rparr>) \<and>
      slot_holds ((v_slots v off)\<lparr>cs_state := chan_word ChanFree\<rparr>) m'"
    if "latest_slot K (v_ticket v) = Some off" for m'
    using that late by simp
qed (use w chan_vinvD(6) [OF inv] in \<open>auto simp: cons_ok_def\<close>)

text \<open>The consumer's steps on a slot change its state and the epoch of its reader only.\<close>

definition same_content :: "SlotHeaderAbi \<Rightarrow> SlotHeaderAbi \<Rightarrow> bool" where
  "same_content x y \<longleftrightarrow> (\<forall>m. slot_holds x m = slot_holds y m) \<and> cs_payload_size x = cs_payload_size y"

lemma same_content_state [simp]:
  "same_content (x\<lparr>cs_state := s\<rparr>) x" "same_content (x\<lparr>cs_reader_role_epoch := e\<rparr>) x"
  by (simp_all add: same_content_def slot_holds_def)

lemma vinv_reader:
  assumes inv: "chan_vinv K v g" and slot: "is_slot K off"
    and old: "readable (v_slots v off)" and new: "readable x" "same_content x (v_slots v off)"
    and hand: "in_hand x \<longleftrightarrow> hand = Some off" "hand = Some off \<or> hand = None" "cg_read g = Some off \<or> cg_read g = None"
    and tg: "hand = Some off \<Longrightarrow> cg_target g = Some off" and cons: "cg_cons g \<noteq> None"
  shows "chan_vinv K (set_vslot off x v) (g\<lparr>cg_read := hand\<rparr>)"
proof (rule vinv_slot [OF inv])
  have x: "slot_holds x m = slot_holds (v_slots v off) m" for m
    using new(2) by (simp add: same_content_def)
  have "cs_state (v_slots v off) \<noteq> chan_word ChanWriting" "cs_state x \<noteq> chan_word ChanWriting"
    using old new(1) by auto
  then show "slot_ok (g\<lparr>cg_read := hand\<rparr>) off x"
    using chan_vinvD(4) [OF inv slot] old new(1) hand(1) by (auto simp: slot_ok_def x)
  show "prod_ok K (set_vslot off x v) (g\<lparr>cg_read := hand\<rparr>)"
    using chan_vinvD(5) [OF inv] new(1) by (auto simp: prod_ok_def x)
  show "cons_ok K (set_vslot off x v) (g\<lparr>cg_read := hand\<rparr>)"
    using chan_vinvD(6) [OF inv] slot hand(2) tg cons by (auto simp: cons_ok_def)
  show "readable x \<and> slot_holds x m" if "slot_holds (v_slots v off) m" for m
    using that new(1) x by simp
  show "cs_payload_size x = cx_size K"
    using chan_vinvD(7) [OF inv slot old] new(2) by (simp add: same_content_def)
qed (use hand in auto)

lemma vinv_ticket:
  assumes inv: "chan_vinv K v g" and nx: "cg_next g = Some (slot_off K j, m)" and j: "j < kSlotCount"
    and wr: "cg_write g = None"
    and seq: "unat (sm_sequence m) = Suc (length (cg_log g))" "sm_sequence m \<le> kMaxSampleSequence"
  shows "chan_vinv K (v\<lparr>v_ticket := make_ticket (sm_sequence m) j\<rparr>)
    (g\<lparr>cg_next := None, cg_log := cg_log g @ [(i, m)]\<rparr>)"
proof (rule chan_vinvI)
  let ?g = "g\<lparr>cg_next := None, cg_log := cg_log g @ [(i, m)]\<rparr>"
  let ?v = "v\<lparr>v_ticket := make_ticket (sm_sequence m) j\<rparr>"
  show "channel_geometry (cx_size K) (cx_stride K)" by (rule chan_vinvD(1) [OF inv])
  have le: "unat (sm_sequence m) \<le> 2 ^ 62 - 1"
    using seq(2) by (simp add: word_le_nat_alt unat_kMaxSampleSequence)
  show "log_ok (cg_log ?g)"
    using chan_vinvD(2) [OF inv] seq(1) le by (simp add: log_ok_def)
  show "latest_ok K (cg_log ?g) ?v"
    using chan_vinvD(5) [OF inv] nx j by (auto simp: latest_ok_def prod_ok_def)
  show "prod_ok K ?v ?g"
    using chan_vinvD(5) [OF inv] wr by (auto simp: prod_ok_def)
  show "cons_ok K ?v ?g"
    using chan_vinvD(6) [OF inv] by (auto simp: cons_ok_def reads_ok_def)
  fix off assume slot: "is_slot K off"
  then show "readable (v_slots ?v off) \<Longrightarrow> cs_payload_size (v_slots ?v off) = cx_size K"
    using chan_vinvD(7) [OF inv] by simp
  from slot show "slot_ok ?g off (v_slots ?v off)"
    using chan_vinvD(4) [OF inv, of off] nx by (auto simp: slot_ok_def)
qed

subsection \<open>Guarantees\<close>

lemma logged_by_append [simp]:
  "logged_by j (l @ map (Pair i) es) = logged_by j l @ (if i = j then es else [])"
  by (induction es) (auto simp: logged_by_def)

text \<open>A step on the side of the producer and one on the side of the consumer.\<close>

lemma prod_guar:
  assumes view: "chan_view K w' = (set_vslot off x (chan_view K w))\<lparr>v_ticket := t, v_pin := p\<rparr>"
    and ghost: "g' = g\<lparr>cg_prod := po, cg_write := ws, cg_next := nx, cg_log := cg_log g @ map (Pair i) es\<rparr>"
    and mine: "cg_prod g = Some i \<or> cg_prod g = None" "po = Some i \<or> po = None"
    and slot: "chan_inv K (w, g) \<Longrightarrow> cg_read g \<noteq> Some off \<or> x = v_slots (chan_view K w) off"
    and inv: "chan_inv K (w, g) \<Longrightarrow> chan_inv K (w', g')"
  shows "chan_guar K i (w, g) (w', g')"
  unfolding chan_guar_def
proof (intro impI conjI allI)
  assume c: "chan_inv K (w, g)"
  show "chan_inv K (w', g')" by (rule inv [OF c])
  show "logs_extend i (snd (w, g)) (snd (w', g'))"
    by (auto simp: ghost logs_extend_def)
  fix j assume "j \<noteq> i"
  then show "chan_frame K j (w, g) (w', g')"
    using mine slot [OF c] by (auto simp: chan_frame_def cons_frame_def Let_def ghost view)
qed

lemma cons_guar:
  assumes view: "chan_view K w' = (set_vslot off x (chan_view K w))\<lparr>v_handle := h, v_cin := p\<rparr>"
    and ghost: "g' = g\<lparr>cg_cons := po, cg_target := tg, cg_read := hand, cg_reads := cg_reads g @ map (Pair i) es\<rparr>"
    and mine: "cg_cons g = Some i \<or> cg_cons g = None" "po = Some i \<or> po = None"
    and tg: "tg = cg_target g \<or> tg = latest_slot K (v_ticket (chan_view K w))"
    and h: "cg_cons g = Some i \<or> h = v_handle (chan_view K w)"
    and slot: "chan_inv K (w, g) \<Longrightarrow> cg_write g \<noteq> Some off \<or> x = v_slots (chan_view K w) off"
      "readable x = readable (v_slots (chan_view K w) off)"
    and inv: "chan_inv K (w, g) \<Longrightarrow> chan_inv K (w', g')"
  shows "chan_guar K i (w, g) (w', g')"
  unfolding chan_guar_def
proof (intro impI conjI allI)
  assume c: "chan_inv K (w, g)"
  show "chan_inv K (w', g')" by (rule inv [OF c])
  show "logs_extend i (snd (w, g)) (snd (w', g'))"
    by (auto simp: ghost logs_extend_def)
  fix j assume "j \<noteq> i"
  then show "chan_frame K j (w, g) (w', g')"
    using mine slot(1) [OF c] slot(2) tg by (auto simp: chan_frame_def prod_frame_def Let_def ghost view)
qed

lemma same_view_guar:
  assumes "chan_view K w' = chan_view K w"
  shows "chan_guar K i (w, g) (w', g)"
  using chan_view_only [OF assms] by (simp add: chan_guar_def logs_extend_def)

subsection \<open>Assertions\<close>

text \<open>What a thread knows of the logs: its own entries, and a beginning of the log of samples.\<close>

record tview =
  tv_id :: nat
  tv_pubs :: "sample list"
  tv_reads :: "sample list"
  tv_base :: "(nat \<times> sample) list"

definition chan_at :: "chan_ctx \<Rightarrow> tview \<Rightarrow> chan_config \<Rightarrow> bool" where
  "chan_at K v c \<longleftrightarrow>
     chan_inv K c \<and> logged_by (tv_id v) (cg_log (snd c)) = tv_pubs v \<and>
     logged_by (tv_id v) (cg_reads (snd c)) = tv_reads v \<and> prefix (tv_base v) (cg_log (snd c))"

text \<open>The thread uses no handle, the producer handle, or the consumer handle.\<close>

definition chan_idle :: "chan_ctx \<Rightarrow> tview \<Rightarrow> chan_config \<Rightarrow> bool" where
  "chan_idle K v c \<longleftrightarrow> chan_at K v c \<and> cg_prod (snd c) \<noteq> Some (tv_id v) \<and> cg_cons (snd c) \<noteq> Some (tv_id v)"

definition prod_in ::
  "chan_ctx \<Rightarrow> tview \<Rightarrow> (nat \<times> sample) list \<Rightarrow> u64 \<Rightarrow> u64 option \<Rightarrow> (u64 \<times> sample) option \<Rightarrow>
   (SlotHeaderAbi \<Rightarrow> bool) \<Rightarrow> chan_config \<Rightarrow> bool" where
  "prod_in K v l t ws nx S c \<longleftrightarrow>
     chan_at K v c \<and> cg_prod (snd c) = Some (tv_id v) \<and> cg_cons (snd c) \<noteq> Some (tv_id v) \<and>
     cg_log (snd c) = l \<and> v_ticket (chan_view K (fst c)) = t \<and> cg_write (snd c) = ws \<and> cg_next (snd c) = nx \<and>
     (\<forall>off. ws = Some off \<longrightarrow> S (v_slots (chan_view K (fst c)) off))"

definition cons_in ::
  "chan_ctx \<Rightarrow> tview \<Rightarrow> ConsumerHandle \<Rightarrow> (nat \<times> sample) list \<Rightarrow> u64 option \<Rightarrow> u64 option \<Rightarrow>
   (SlotHeaderAbi \<Rightarrow> bool) \<Rightarrow> chan_config \<Rightarrow> bool" where
  "cons_in K v h rs tg hand S c \<longleftrightarrow>
     chan_at K v c \<and> cg_cons (snd c) = Some (tv_id v) \<and> cg_prod (snd c) \<noteq> Some (tv_id v) \<and>
     cg_reads (snd c) = rs \<and> v_handle (chan_view K (fst c)) = h \<and> cg_target (snd c) = tg \<and> cg_read (snd c) = hand \<and>
     (\<forall>off. hand = Some off \<longrightarrow> S (v_slots (chan_view K (fst c)) off))"

lemma chan_at_rely:
  assumes "chan_at K v c" and "chan_rely K (tv_id v) c d"
  shows "chan_at K v d" and "chan_frame K (tv_id v) c d"
proof -
  show fr: "chan_frame K (tv_id v) c d"
    using assms by (simp add: chan_at_def chan_rely_def)
  show "chan_at K v d"
    using assms fr by (auto simp: chan_at_def chan_rely_def chan_frame_def intro: prefix_order.trans)
qed

lemma stable_chan_at [simp]: "cthr.stable K (tv_id v) (chan_at K v)"
  by (rule cthr.stableI) (rule chan_at_rely)

lemma stable_chan_idle [simp]: "cthr.stable K (tv_id v) (chan_idle K v)"
  by (rule cthr.stableI) (auto simp: chan_idle_def chan_frame_def dest: chan_at_rely)

lemma stable_prod_in [simp]: "cthr.stable K (tv_id v) (prod_in K v l t ws nx S)"
proof (rule cthr.stableI)
  fix c d assume P: "prod_in K v l t ws nx S c" and R: "chan_rely K (tv_id v) c d"
  then have "chan_at K v d" and "chan_frame K (tv_id v) c d"
    using chan_at_rely [of K v c d] by (auto simp: prod_in_def)
  then show "prod_in K v l t ws nx S d"
    using P by (simp add: prod_in_def chan_frame_def prod_frame_def Let_def)
qed

lemma stable_cons_in [simp]: "cthr.stable K (tv_id v) (cons_in K v h rs tg hand S)"
proof (rule cthr.stableI)
  fix c d assume P: "cons_in K v h rs tg hand S c" and R: "chan_rely K (tv_id v) c d"
  then have "chan_at K v d" and "chan_frame K (tv_id v) c d"
    using chan_at_rely [of K v c d] by (auto simp: cons_in_def)
  then show "cons_in K v h rs tg hand S d"
    using P by (simp add: cons_in_def chan_frame_def cons_frame_def Let_def)
qed

lemma stable_chan_conj [simp]: "cthr.stable K i P \<Longrightarrow> cthr.stable K i (\<lambda>c. b \<and> P c)"
  by (auto simp: cthr.stable_def)

lemma stable_chan_ex [simp]: "(\<And>x. cthr.stable K i (P x)) \<Longrightarrow> cthr.stable K i (\<lambda>c. \<exists>x. P x c)"
  unfolding cthr.stable_def by blast

lemma stable_chan_if: "cthr.stable K i P \<Longrightarrow> cthr.stable K i Q \<Longrightarrow> cthr.stable K i (\<lambda>c. if b then P c else Q c)"
  by (cases b) simp_all

lemma chan_triple_if:
  "(b \<Longrightarrow> cthr.triple K i P p Q) \<Longrightarrow> (\<not> b \<Longrightarrow> cthr.triple K i P q Q) \<Longrightarrow> cthr.triple K i P (if b then p else q) Q"
  by simp

lemma chan_triple_ex: "(\<And>x. cthr.triple K i (P x) p Q) \<Longrightarrow> cthr.triple K i (\<lambda>c. \<exists>x. P x c) p Q"
  by (auto simp: cthr.triple_def)

lemma chan_triple_pure: "(b \<Longrightarrow> cthr.triple K i P p Q) \<Longrightarrow> cthr.triple K i (\<lambda>c. b \<and> P c) p Q"
  by (auto simp: cthr.triple_def)

lemma chan_triple_pre: "cthr.triple K i P' p Q \<Longrightarrow> (\<And>c. P c \<Longrightarrow> P' c) \<Longrightarrow> cthr.triple K i P p Q"
  by (rule cthr.triple_conseq)

subsection \<open>Programs that do not touch the protocol\<close>

text \<open>An assertion on what the protocol depends on.\<close>

definition view_only :: "chan_ctx \<Rightarrow> (chan_config \<Rightarrow> bool) \<Rightarrow> bool" where
  "view_only K P \<longleftrightarrow> (\<forall>w w' g. chan_view K w' = chan_view K w \<longrightarrow> P (w, g) \<longrightarrow> P (w', g))"

lemma view_only_at [simp]:
  "view_only K (chan_at K v)" "view_only K (chan_idle K v)" "view_only K (prod_in K v l t ws nx S)"
  "view_only K (cons_in K v h rs tg hand S)"
  by (auto simp: view_only_def chan_at_def chan_idle_def prod_in_def cons_in_def chan_inv_def)

lemma view_only_conj [simp]: "view_only K P \<Longrightarrow> view_only K (\<lambda>c. b \<and> P c)"
  by (auto simp: view_only_def)

primrec quiet :: "chan_ctx \<Rightarrow> (chan_world, 'a) prog \<Rightarrow> bool" where
  "quiet K (Ret a) = True"
| "quiet K (Act u k) = ((\<forall>w. chan_view K (u w) = chan_view K w) \<and> (\<forall>w. quiet K (k w)))"

named_theorems quiet_intros \<open>programs that do not touch the protocol\<close>

lemma quiet_bind [quiet_intros]: "quiet K p \<Longrightarrow> (\<And>a. quiet K (f a)) \<Longrightarrow> quiet K (bind p f)"
  by (induction p) auto

lemma quiet_try_bind [quiet_intros]: "quiet K p \<Longrightarrow> (\<And>a. quiet K (f a)) \<Longrightarrow> quiet K (try_bind p f)"
  unfolding try_bind_def by (rule quiet_bind) (auto split: sum.splits)

lemma quiet_Ret [quiet_intros]: "quiet K (Ret a)"
  by simp

lemma quiet_if [quiet_intros]: "(b \<Longrightarrow> quiet K p) \<Longrightarrow> (\<not> b \<Longrightarrow> quiet K q) \<Longrightarrow> quiet K (if b then p else q)"
  by simp

lemma quiet_reads: "reads_only p \<Longrightarrow> quiet K p"
  by (induction p) auto

lemma quiet_store: "(\<And>w. chan_view K (wr c a w) = chan_view K w) \<Longrightarrow> quiet K (shared_store c a)"
  by (simp add: shared_store_def)

lemma triple_quiet_yields:
  assumes "quiet K p" and "yields Y p" and "cthr.stable K i P" and "view_only K P"
  shows "cthr.triple K i P p (\<lambda>a c. Y a \<and> P c)"
  using assms(1,2)
proof (induction p)
  case (Ret a)
  then show ?case by (intro cthr.triple_Ret) (simp_all add: assms(3))
next
  case (Act u k)
  show ?case
    unfolding cthr.triple_def
  proof (intro allI impI, rule cthr.safe_ActI)
    fix c s g assume "P c" and "chan_rely K i c (s, g)"
    then have P: "P (s, g)" by (rule cthr.stableD [OF assms(3)])
    have same: "chan_view K (u s) = chan_view K s" using Act.prems by simp
    then have "P (u s, g)" using P assms(4) unfolding view_only_def by blast
    moreover have "cthr.triple K i P (k s) (\<lambda>a c. Y a \<and> P c)"
      using Act.prems by (intro Act.IH) simp_all
    ultimately show "\<exists>g'. chan_guar K i (s, g) (u s, g') \<and> safe (chan_rely K i) (chan_guar K i) (k s) (\<lambda>a c. Y a \<and> P c) (u s, g')"
      using same_view_guar [OF same] unfolding cthr.triple_def by blast
  qed
qed

lemma triple_quiet:
  assumes "quiet K p" and "cthr.stable K i P" and "view_only K P"
  shows "cthr.triple K i P p (\<lambda>_. P)"
  using triple_quiet_yields [OF assms(1) yields_True assms(2,3)] by simp

lemma triple_quiet_bind:
  assumes "quiet K p" and "cthr.stable K i P" and "view_only K P" and "\<And>a. cthr.triple K i P (f a) Q"
  shows "cthr.triple K i P (bind p f) Q"
  by (rule cthr.triple_bind [OF triple_quiet [OF assms(1-3)] assms(4)])

subsection \<open>The view after an update\<close>

lemma view_updates [simp]:
  "chan_view K (set_slot (cx_object K) off x w) = set_vslot off x (chan_view K w)"
  "chan_view K (set_hdr (cx_object K) h w) = (chan_view K w)\<lparr>v_ticket := ch_latest_ticket h\<rparr>"
  "chan_view K (w\<lparr>cw_prods := f\<rparr>) = (chan_view K w)\<lparr>v_pin := pf_in_use (f (cx_prod K))\<rparr>"
  "chan_view K (w\<lparr>cw_cons := e\<rparr>) =
     (chan_view K w)\<lparr>v_cin := cn_in_use (e (cx_cons K)), v_handle := plain_handle (e (cx_cons K))\<rparr>"
  "chan_view K (w\<lparr>cw_kern := k\<rparr>) = chan_view K w" "chan_view K (w\<lparr>cw_os := os\<rparr>) = chan_view K w"
  "chan_view K (w\<lparr>cw_journals := j\<rparr>) = chan_view K w"
  by (auto simp: chan_view_def)

lemma view_of [simp]:
  "seg_ticket w (cx_object K) = v_ticket (chan_view K w)" "seg_slot w (cx_object K) = v_slots (chan_view K w)"
  "pf_in_use (cw_prods w (cx_prod K)) = v_pin (chan_view K w)"
  "cn_in_use (cw_cons w (cx_cons K)) = v_cin (chan_view K w)"
  "plain_handle (cw_cons w (cx_cons K)) = v_handle (chan_view K w)"
  by (simp_all add: chan_view_def)

lemma view_same [simp]:
  "v\<lparr>v_ticket := v_ticket v\<rparr> = v" "v\<lparr>v_pin := v_pin v\<rparr> = v" "v\<lparr>v_handle := v_handle v\<rparr> = v"
  "v\<lparr>v_cin := v_cin v, v_handle := v_handle v\<rparr> = v"
  by simp_all

lemma plain_handle_flags [simp]:
  "plain_handle (h\<lparr>cn_in_use := b\<rparr>) = plain_handle h" "plain_handle (h\<lparr>cn_shutdown_pending := b\<rparr>) = plain_handle h"
  "plain_handle (h\<lparr>cn_shutdown_started := b\<rparr>) = plain_handle h"
  "plain_handle (h\<lparr>cn_last_sequence := s\<rparr>) = (plain_handle h)\<lparr>cn_last_sequence := s\<rparr>"
  "plain_handle (h\<lparr>cn_first_sample := b\<rparr>) = (plain_handle h)\<lparr>cn_first_sample := b\<rparr>"
  by (simp_all add: plain_handle_def)

lemma quiet_actions [quiet_intros]:
  "quiet K (kernel_query chan_kern_c f)" "quiet K (kernel_call chan_kern_c u f)"
  "quiet K (os_query chan_os_c q)" "quiet K (os_io chan_os_c r)" "quiet K (os_do chan_os_c a)"
  "quiet K (boottime_now_ns chan_kern_c)" "quiet K (monotonic_now_ns chan_kern_c)"
  "quiet K (futex_wake chan_kern_c)" "quiet K (futex_wait chan_kern_c)"
  by (simp_all add: kernel_query_def kernel_call_def os_query_def os_io_def os_do_def boottime_now_ns_def
      monotonic_now_ns_def futex_wake_def futex_wait_def chan_cell_access)

lemma quiet_cells [quiet_intros]:
  "quiet K (shared_store (producer_state_c (cx_object K)) a)" "quiet K (shared_store (consumer_state_c (cx_object K)) a)"
  "quiet K (shared_store (last_publish_c (cx_object K)) b)" "quiet K (shared_store (heartbeat_c (cx_object K)) b)"
  "quiet K (shared_store (pf_pending_c (cx_prod K)) f)" "quiet K (shared_store (pf_serve_stop_c (cx_prod K)) f)"
  "quiet K (shared_store (pf_unlinked_c (cx_prod K)) f)" "quiet K (shared_store (cn_pending_c (cx_cons K)) f)"
  "quiet K (shared_cas (pf_started_c (cx_prod K)) f f')" "quiet K (shared_cas (cn_started_c (cx_cons K)) f f')"
  "quiet K (shared_fetch_add (publish_count_c (cx_object K)) b)" "quiet K (shared_fetch_add (read_count_c (cx_object K)) b)"
  "quiet K (shared_fetch_add (chan_notify_c (cx_object K)) a)"
  by (simp_all add: shared_store_def shared_cas_def shared_fetch_add_def chan_cell_access chan_handle_access)

lemma quiet_load [quiet_intros]: "quiet K (shared_load c)"
  by (simp add: shared_load_def)

lemma quiet_pread [quiet_intros]: "quiet K (pread_loop (journal_c path) chan_os_c passes want got)"
  by (induction passes arbitrary: got)
    (auto intro!: quiet_intros simp: Let_def split: sum.splits)

lemma quiet_control [quiet_intros]:
  "quiet K (read_journal (journal_c path) chan_os_c)" "quiet K (control_lock_acquire chan_kern_c chan_os_c path)"
  by (auto simp: read_journal_def control_lock_acquire_def intro!: quiet_intros split: sum.splits option.splits)

text \<open>The producer handle of the channel.\<close>

definition producer_of :: "chan_ctx \<Rightarrow> ProducerHandle \<Rightarrow> bool" where
  "producer_of K h \<longleftrightarrow> pd_object h = cx_object K \<and> pd_ref h = cx_prod K \<and> pd_payload_size h = cx_size K"

lemma quiet_producer [quiet_intros]:
  assumes "producer_of K h"
  shows "quiet K (mark_producer_offline h)" and "quiet K (verify_handle_ownership h)" and "quiet K (heartbeat_locked h)"
    and "quiet K (check_name_current tr nm ob)" and "quiet K (read_channel_status ob)"
proof -
  have h: "pd_object h = cx_object K" "pd_ref h = cx_prod K" using assms by (simp_all add: producer_of_def)
  show v: "quiet K (verify_handle_ownership h)"
    unfolding verify_handle_ownership_def
    by (auto intro!: quiet_reads reads_only_intros split: sum.splits)
  show "quiet K (mark_producer_offline h)"
    unfolding mark_producer_offline_def h
    by (auto intro!: quiet_intros quiet_reads [OF identity_read_reads] split: sum.splits)
  show "quiet K (heartbeat_locked h)"
    unfolding heartbeat_locked_def h by (auto intro!: quiet_intros v)
  show "quiet K (check_name_current tr nm ob)"
    unfolding check_name_current_def shm_open_existing_def shm_fstat_and_capture_def
    by (auto intro!: quiet_intros split: sum.splits)
  show "quiet K (read_channel_status ob)" by (rule quiet_reads [OF read_channel_status_reads])
qed

lemma chan_at_inv: "chan_at K v (w, g) \<Longrightarrow> chan_vinv K (chan_view K w) g"
  by (simp add: chan_at_def chan_inv_def)

lemma chan_at_step:
  assumes "chan_at K v (w, g)" and "chan_guar K (tv_id v) (w, g) (w', g')" and "tv_id v' = tv_id v"
    and "logged_by (tv_id v) (cg_log g') = tv_pubs v'" and "logged_by (tv_id v) (cg_reads g') = tv_reads v'"
    and "prefix (tv_base v') (cg_log g')"
  shows "chan_at K v' (w', g')"
  using assms by (simp add: chan_at_def chan_guar_def)

end
