(* ===== verification/ER_Chan_Publish.thy ===== *)
theory ER_Chan_Publish
  imports ER_Chan_Conc
begin

text \<open>
  The operations of the producer under interference. A thread that uses the handle always finds a
  writable slot, and every operation either publishes exactly the sample it reports or nothing.
\<close>

subsection \<open>The steps of the producer\<close>

lemma view_keep: "v_ticket v = t \<Longrightarrow> v_pin v = p \<Longrightarrow> v\<lparr>v_ticket := t, v_pin := p\<rparr> = v"
  by auto

text \<open>
  One action of a thread that uses the producer handle or takes it: the view and the ghost data after
  it, and the invariant.
\<close>

lemma prod_step:
  assumes at: "chan_at K v (w, g)" and cons: "cg_cons g \<noteq> Some (tv_id v)"
    and mine: "cg_prod g = Some (tv_id v) \<or> cg_prod g = None" "po = Some (tv_id v) \<or> po = None"
    and view: "chan_view K w' = (set_vslot off x (chan_view K w))\<lparr>v_ticket := t, v_pin := p\<rparr>"
    and ghost: "g' = g\<lparr>cg_prod := po, cg_write := ws, cg_next := nx, cg_log := cg_log g @ map (Pair (tv_id v)) es\<rparr>"
    and slot: "cg_read g \<noteq> Some off \<or> x = v_slots (chan_view K w) off"
    and inv: "chan_vinv K ((set_vslot off x (chan_view K w))\<lparr>v_ticket := t, v_pin := p\<rparr>) g'"
    and v': "v' = v\<lparr>tv_pubs := tv_pubs v @ es\<rparr>"
  shows "chan_guar K (tv_id v) (w, g) (w', g') \<and> (po = None \<longrightarrow> chan_idle K v' (w', g')) \<and>
    (po = Some (tv_id v) \<longrightarrow> (\<forall>off'. ws = Some off' \<longrightarrow> S (v_slots (set_vslot off x (chan_view K w)) off')) \<longrightarrow>
      prod_in K v' (cg_log g @ map (Pair (tv_id v)) es) t ws nx S (w', g'))"
proof (intro conjI impI)
  show G: "chan_guar K (tv_id v) (w, g) (w', g')"
    by (rule prod_guar [OF view ghost mine slot]) (use inv view in \<open>simp add: chan_inv_def\<close>)
  have at': "chan_at K v' (w', g')"
    by (rule chan_at_step [OF at G]) (use at in \<open>simp_all add: v' ghost chan_at_def prefix_prefix\<close>)
  show "po = None \<Longrightarrow> chan_idle K v' (w', g')"
    using at' cons by (simp add: chan_idle_def v' ghost)
  assume "po = Some (tv_id v)" and "\<forall>off'. ws = Some off' \<longrightarrow> S (v_slots (set_vslot off x (chan_view K w)) off')"
  then show "prod_in K v' (cg_log g @ map (Pair (tv_id v)) es) t ws nx S (w', g')"
    using at' cons by (simp add: prod_in_def v' ghost view)
qed

lemma prod_inD:
  assumes "prod_in K v l t ws nx S (w, g)"
  shows "chan_at K v (w, g)" "chan_vinv K (chan_view K w) g" "cg_prod g = Some (tv_id v)" "cg_cons g \<noteq> Some (tv_id v)"
    "cg_log g = l" "v_ticket (chan_view K w) = t" "cg_write g = ws" "cg_next g = nx" "v_pin (chan_view K w)"
    "ws = Some off \<Longrightarrow> S (v_slots (chan_view K w) off)"
  using assms chan_at_inv [of K v w g] chan_vinvD(5) [of K "chan_view K w" g] by (auto simp: prod_in_def prod_ok_def)

text \<open>Taking and giving back the producer handle.\<close>

lemma enter_step:
  assumes "chan_idle K v (w, g)" and "\<not> v_pin (chan_view K w)"
  shows "\<exists>g'. chan_guar K (tv_id v) (w, g) (wr (pf_in_use_c (cx_prod K)) True w, g') \<and>
    (\<exists>l t. prod_in K v l t None None (\<lambda>_. True) (wr (pf_in_use_c (cx_prod K)) True w, g'))"
proof -
  have at: "chan_at K v (w, g)" and cons: "cg_cons g \<noteq> Some (tv_id v)" using assms(1) by (simp_all add: chan_idle_def)
  have none: "cg_prod g = None" "cg_write g = None" "cg_next g = None"
    using chan_vinvD(5) [OF chan_at_inv [OF at]] assms(2) by (auto simp: prod_ok_def)
  let ?g = "g\<lparr>cg_prod := Some (tv_id v)\<rparr>"
  let ?w = "wr (pf_in_use_c (cx_prod K)) True w"
  have view: "chan_view K ?w = (set_vslot 0 (v_slots (chan_view K w) 0) (chan_view K w))\<lparr>v_ticket := v_ticket (chan_view K w), v_pin := True\<rparr>"
    by (simp add: run_simps)
  have inv: "chan_vinv K ((set_vslot 0 (v_slots (chan_view K w) 0) (chan_view K w))\<lparr>v_ticket := v_ticket (chan_view K w), v_pin := True\<rparr>) ?g"
    using vinv_take_prod [OF chan_at_inv [OF at] assms(2)] by simp
  note step = prod_step [OF at cons _ _ view _ _ inv, where po = "Some (tv_id v)" and ws = None and nx = None
      and es = "[]" and v' = v and S = "\<lambda>_. True"]
  show ?thesis
    using step none by (intro exI [of _ ?g]) auto
qed

lemma triple_prod_enter:
  "cthr.triple K (tv_id v) (chan_idle K v) (shared_exchange (pf_in_use_c (cx_prod K)) True)
     (\<lambda>busy c. if busy then chan_idle K v c else \<exists>l t. prod_in K v l t None None (\<lambda>_. True) c)"
  unfolding shared_exchange_def
proof (rule cthr.triple_Act)
  fix w g assume idle: "chan_idle K v (w, g)"
  show "\<exists>g'. chan_guar K (tv_id v) (w, g) (wr (pf_in_use_c (cx_prod K)) True w, g') \<and>
      (if rd (pf_in_use_c (cx_prod K)) w then chan_idle K v (wr (pf_in_use_c (cx_prod K)) True w, g')
       else \<exists>l t. prod_in K v l t None None (\<lambda>_. True) (wr (pf_in_use_c (cx_prod K)) True w, g'))"
  proof (cases "v_pin (chan_view K w)")
    case True
    then have same: "chan_view K (wr (pf_in_use_c (cx_prod K)) True w) = chan_view K w"
      by (simp add: run_simps)
    then have "chan_idle K v (wr (pf_in_use_c (cx_prod K)) True w, g)"
      using view_only_at(2) [of K v] idle unfolding view_only_def by blast
    then show ?thesis using same_view_guar [OF same] True by (auto simp: run_simps)
  next
    case False
    then show ?thesis using enter_step [OF idle False] by (simp add: run_simps)
  qed
next
  fix a show "cthr.stable K (tv_id v) (\<lambda>c. if a then chan_idle K v c else \<exists>l t. prod_in K v l t None None (\<lambda>_. True) c)"
    by (cases a) simp_all
qed simp

lemma triple_prod_try:
  "cthr.triple K (tv_id v) (chan_idle K v) (shared_cas (pf_in_use_c (cx_prod K)) False True)
     (\<lambda>won c. if won then \<exists>l t. prod_in K v l t None None (\<lambda>_. True) c else chan_idle K v c)"
proof (rule cthr.triple_cas)
  fix w g assume "chan_idle K v (w, g)" and "rd (pf_in_use_c (cx_prod K)) w = False"
  then show "\<exists>g'. chan_guar K (tv_id v) (w, g) (wr (pf_in_use_c (cx_prod K)) True w, g') \<and>
      (if True then \<exists>l t. prod_in K v l t None None (\<lambda>_. True) (wr (pf_in_use_c (cx_prod K)) True w, g')
       else chan_idle K v (wr (pf_in_use_c (cx_prod K)) True w, g'))"
    using enter_step [of K v w g] by (simp add: run_simps)
next
  fix a show "cthr.stable K (tv_id v) (\<lambda>c. if a then \<exists>l t. prod_in K v l t None None (\<lambda>_. True) c else chan_idle K v c)"
    by (cases a) simp_all
qed simp_all

lemma triple_prod_leave:
  "cthr.triple K (tv_id v) (prod_in K v l t None None S) (shared_store (pf_in_use_c (cx_prod K)) False) (\<lambda>_. chan_idle K v)"
proof (rule cthr.triple_store)
  fix w g assume P: "prod_in K v l t None None S (w, g)"
  note D = prod_inD [OF P]
  let ?g = "g\<lparr>cg_prod := None\<rparr>"
  let ?w = "wr (pf_in_use_c (cx_prod K)) False w"
  have view: "chan_view K ?w = (set_vslot 0 (v_slots (chan_view K w) 0) (chan_view K w))\<lparr>v_ticket := v_ticket (chan_view K w), v_pin := False\<rparr>"
    by (simp add: run_simps)
  have inv: "chan_vinv K ((set_vslot 0 (v_slots (chan_view K w) 0) (chan_view K w))\<lparr>v_ticket := v_ticket (chan_view K w), v_pin := False\<rparr>) ?g"
    using vinv_drop_prod [OF D(2)] D(7,8) by simp
  show "\<exists>g'. chan_guar K (tv_id v) (w, g) (?w, g') \<and> chan_idle K v (?w, g')"
    using prod_step [OF D(1) D(4) _ _ view _ _ inv, where po = None and ws = None and nx = None and es = "[]" and v' = v]
      D(3,7,8) by (intro exI [of _ ?g]) auto
qed simp_all

text \<open>Stores to the slot that is written.\<close>

lemma triple_prod_slot:
  assumes eff: "\<And>w. wr c a w = set_slot (cx_object K) off (f (seg_slot w (cx_object K) off)) w"
    and st: "\<And>x. cs_state (f x) = cs_state x" and S: "\<And>x. S x \<Longrightarrow> cs_state x = chan_word ChanWriting \<Longrightarrow> S' (f x)"
  shows "cthr.triple K (tv_id v) (prod_in K v l t (Some off) None S) (shared_store c a)
    (\<lambda>_. prod_in K v l t (Some off) None S')"
proof (rule cthr.triple_store)
  fix w g assume P: "prod_in K v l t (Some off) None S (w, g)"
  note D = prod_inD [OF P]
  let ?x = "f (v_slots (chan_view K w) off)"
  have slot: "is_slot K off" using chan_vinvD(5) [OF D(2)] D(7) by (simp add: prod_ok_def)
  have st': "cs_state (v_slots (chan_view K w) off) = chan_word ChanWriting" "cg_read g \<noteq> Some off"
    using chan_vinvD(4) [OF D(2) slot] D(7) by (auto simp: slot_ok_def)
  have view: "chan_view K (wr c a w) = (set_vslot off ?x (chan_view K w))\<lparr>v_ticket := t, v_pin := True\<rparr>"
    using D(6,9) by (subst view_keep) (simp_all add: eff)
  have inv: "chan_vinv K ((set_vslot off ?x (chan_view K w))\<lparr>v_ticket := t, v_pin := True\<rparr>) g"
    using vinv_write [OF D(2,7), of ?x] st st'(1) D(6,9) by (subst view_keep) simp_all
  show "\<exists>g'. chan_guar K (tv_id v) (w, g) (wr c a w, g') \<and> prod_in K v l t (Some off) None S' (wr c a w, g')"
    using prod_step [OF D(1) D(4) _ _ view _ _ inv, where po = "Some (tv_id v)" and ws = "Some off" and nx = None
        and es = "[]" and v' = v and S = S'] D(3,5,7,8) st' S [OF D(10) st'(1)] by (intro exI [of _ g]) auto
qed simp_all

text \<open>Ends of the writing of a slot: publication, the new latest ticket, and giving it up.\<close>

lemma prod_write_slot:
  assumes "prod_in K v l t (Some off) None S (w, g)"
  shows "is_slot K off" and "cs_state (v_slots (chan_view K w) off) = chan_word ChanWriting" and "cg_read g \<noteq> Some off"
proof -
  note D = prod_inD [OF assms]
  show slot: "is_slot K off" using chan_vinvD(5) [OF D(2)] D(7) by (simp add: prod_ok_def)
  show "cs_state (v_slots (chan_view K w) off) = chan_word ChanWriting" "cg_read g \<noteq> Some off"
    using chan_vinvD(4) [OF D(2) slot] D(7) by (auto simp: slot_ok_def)
qed

lemma triple_slot_publish:
  assumes "\<And>x. S x \<Longrightarrow> slot_holds x m" and size: "\<And>x. S x \<Longrightarrow> cs_payload_size x = cx_size K"
  shows "cthr.triple K (tv_id v) (prod_in K v l t (Some off) None S) (slot_publish (cx_object K) off)
    (\<lambda>_. prod_in K v l t None (Some (off, m)) (\<lambda>_. True))"
  unfolding slot_publish_def
proof (rule cthr.triple_store)
  fix w g assume P: "prod_in K v l t (Some off) None S (w, g)"
  note D = prod_inD [OF P] and W = prod_write_slot [OF P]
  let ?x = "(v_slots (chan_view K w) off)\<lparr>cs_state := chan_word ChanPublished\<rparr>"
  let ?w = "wr (cslot_state_c (cx_object K) off) (chan_word ChanPublished) w"
  let ?g = "g\<lparr>cg_write := None, cg_next := Some (off, m)\<rparr>"
  have view: "chan_view K ?w = (set_vslot off ?x (chan_view K w))\<lparr>v_ticket := t, v_pin := True\<rparr>"
    using D(6,9) by (subst view_keep) (simp_all add: run_simps)
  have inv: "chan_vinv K ((set_vslot off ?x (chan_view K w))\<lparr>v_ticket := t, v_pin := True\<rparr>) ?g"
    using vinv_publish [OF D(2,7) assms(1) [OF D(10)] size [OF D(10)]] D(6,9) by (subst view_keep) simp_all
  show "\<exists>g'. chan_guar K (tv_id v) (w, g) (?w, g') \<and> prod_in K v l t None (Some (off, m)) (\<lambda>_. True) (?w, g')"
    using prod_step [OF D(1) D(4) _ _ view _ _ inv, where po = "Some (tv_id v)" and ws = None and nx = "Some (off, m)"
        and es = "[]" and v' = v and S = "\<lambda>_. True"] D(3,5,7,8) W by (intro exI [of _ ?g]) auto
qed simp_all

lemma triple_slot_abort:
  "cthr.triple K (tv_id v) (prod_in K v l t (Some off) None S) (slot_abort_write (cx_object K) off)
    (\<lambda>_. prod_in K v l t None None (\<lambda>_. True))"
  unfolding slot_abort_write_def
proof (rule cthr.triple_store)
  fix w g assume P: "prod_in K v l t (Some off) None S (w, g)"
  note D = prod_inD [OF P] and W = prod_write_slot [OF P]
  let ?x = "(v_slots (chan_view K w) off)\<lparr>cs_state := chan_word ChanFree\<rparr>"
  let ?w = "wr (cslot_state_c (cx_object K) off) (chan_word ChanFree) w"
  let ?g = "g\<lparr>cg_write := None\<rparr>"
  have view: "chan_view K ?w = (set_vslot off ?x (chan_view K w))\<lparr>v_ticket := t, v_pin := True\<rparr>"
    using D(6,9) by (subst view_keep) (simp_all add: run_simps)
  have inv: "chan_vinv K ((set_vslot off ?x (chan_view K w))\<lparr>v_ticket := t, v_pin := True\<rparr>) ?g"
    using vinv_abort [OF D(2,7)] D(6,9) by (subst view_keep) simp_all
  show "\<exists>g'. chan_guar K (tv_id v) (w, g) (?w, g') \<and> prod_in K v l t None None (\<lambda>_. True) (?w, g')"
    using prod_step [OF D(1) D(4) _ _ view _ _ inv, where po = "Some (tv_id v)" and ws = None and nx = None
        and es = "[]" and v' = v and S = "\<lambda>_. True"] D(3,5,7,8) W by (intro exI [of _ ?g]) auto
qed simp_all

lemma triple_latest:
  assumes "off = slot_off K j" and "j < kSlotCount" and "unat (sm_sequence m) = Suc (length l)"
    and "sm_sequence m \<le> kMaxSampleSequence"
  shows "cthr.triple K (tv_id v) (prod_in K v l t None (Some (off, m)) (\<lambda>_. True))
    (shared_store (latest_ticket_c (cx_object K)) (make_ticket (sm_sequence m) j))
    (\<lambda>_. prod_in (K) (v\<lparr>tv_pubs := tv_pubs v @ [m]\<rparr>) (l @ [(tv_id v, m)]) (make_ticket (sm_sequence m) j) None None (\<lambda>_. True))"
proof (rule cthr.triple_store)
  let ?v = "v\<lparr>tv_pubs := tv_pubs v @ [m]\<rparr>"
  show "cthr.stable K (tv_id v) (prod_in K ?v (l @ [(tv_id v, m)]) (make_ticket (sm_sequence m) j) None None (\<lambda>_. True))"
    using stable_prod_in [of K ?v] by simp
  fix w g assume P: "prod_in K v l t None (Some (off, m)) (\<lambda>_. True) (w, g)"
  note D = prod_inD [OF P]
  let ?w = "wr (latest_ticket_c (cx_object K)) (make_ticket (sm_sequence m) j) w"
  let ?g = "g\<lparr>cg_next := None, cg_log := cg_log g @ [(tv_id v, m)]\<rparr>"
  let ?view = "(set_vslot 0 (v_slots (chan_view K w) 0) (chan_view K w))\<lparr>v_ticket := make_ticket (sm_sequence m) j, v_pin := True\<rparr>"
  have pin: "?view = (chan_view K w)\<lparr>v_ticket := make_ticket (sm_sequence m) j\<rparr>"
    using D(9) by simp
  have view: "chan_view K ?w = ?view"
    unfolding pin by (simp add: run_simps)
  have inv: "chan_vinv K ?view ?g"
    unfolding pin by (rule vinv_ticket [OF D(2)]) (use D assms in simp_all)
  show "\<exists>g'. chan_guar K (tv_id v) (w, g) (?w, g') \<and>
      prod_in K ?v (l @ [(tv_id v, m)]) (make_ticket (sm_sequence m) j) None None (\<lambda>_. True) (?w, g')"
    using prod_step [OF D(1) D(4) _ _ view _ _ inv, where po = "Some (tv_id v)" and ws = None and nx = None
        and es = "[m]" and v' = ?v and S = "\<lambda>_. True"] D(3,5,7,8) by (intro exI [of _ ?g]) auto
qed simp

text \<open>Filling the payload of the slot.\<close>

lemma triple_prod_fill:
  assumes S: "\<And>x p. S x \<Longrightarrow> S (x\<lparr>cs_payload := p\<rparr>)"
  shows "cthr.triple K (tv_id v) (prod_in K v l t (Some off) None (\<lambda>x. S x \<and> map (cs_payload x) [0..<i] = d))
    (memcpy_to (cslot_payload_c (cx_object K) off) i b)
    (\<lambda>_. prod_in K v l t (Some off) None (\<lambda>x. S x \<and> map (cs_payload x) [0..<i + length b] = d @ b))"
proof (induction b arbitrary: i d)
  case Nil
  show ?case by (simp, rule cthr.triple_Ret) simp_all
next
  case (Cons y b)
  have one: "cthr.triple K (tv_id v) (prod_in K v l t (Some off) None (\<lambda>x. S x \<and> map (cs_payload x) [0..<i] = d))
      (shared_store (cslot_payload_c (cx_object K) off i) y)
      (\<lambda>_. prod_in K v l t (Some off) None (\<lambda>x. S x \<and> map (cs_payload x) [0..<Suc i] = d @ [y]))"
    by (rule triple_prod_slot [where f = "\<lambda>x. x\<lparr>cs_payload := (cs_payload x)(i := y)\<rparr>"])
      (auto simp: chan_slot_access S simp del: view_of)
  show ?case
    unfolding memcpy_to.simps using cthr.triple_bind [OF one Cons.IH] by simp
qed

text \<open>Reading it back.\<close>

lemma triple_prod_memcpy:
  "cthr.triple K (tv_id v) (prod_in K v l t (Some off) None (\<lambda>x. S x \<and> cs_payload x = pl))
     (memcpy_from (cslot_payload_c (cx_object K) off) i n)
     (\<lambda>bs c. bs = map pl [i..<i + n] \<and> prod_in K v l t (Some off) None (\<lambda>x. S x \<and> cs_payload x = pl) c)"
proof (induction n arbitrary: i)
  case 0
  show ?case by (simp, rule cthr.triple_Ret) simp_all
next
  case (Suc n)
  let ?C = "prod_in K v l t (Some off) None (\<lambda>x. S x \<and> cs_payload x = pl)"
  have load: "cthr.triple K (tv_id v) ?C (shared_load (cslot_payload_c (cx_object K) off i)) (\<lambda>b c. b = pl i \<and> ?C c)"
    by (rule cthr.triple_load, simp, simp) (auto simp: run_simps prod_in_def)
  have rest: "cthr.triple K (tv_id v) ?C
      (bind (memcpy_from (cslot_payload_c (cx_object K) off) (Suc i) n) (\<lambda>bs. Ret (pl i # bs)))
      (\<lambda>bs c. bs = map pl [i..<i + Suc n] \<and> ?C c)"
    by (rule cthr.triple_bind [OF Suc.IH], rule cthr.triple_Ret)
      (auto simp: upt_conv_Cons simp del: upt_Suc)
  show ?case
    unfolding memcpy_from.simps
    by (rule cthr.triple_bind [OF load], rule chan_triple_pure) (use rest in simp)
qed

subsection \<open>The search for a writable slot\<close>

text \<open>
  Among the slots still to be tried there are two that are not the current one, or one that the
  consumer cannot come to hold before the ticket changes.
\<close>

definition scan_ok :: "chan_ctx \<Rightarrow> u32 \<Rightarrow> u32 list \<Rightarrow> u64 option \<Rightarrow> bool" where
  "scan_ok K cur is tg \<longleftrightarrow>
     (\<exists>i \<in> set is. \<exists>j \<in> set is. i \<noteq> j \<and> i \<noteq> cur \<and> j \<noteq> cur) \<or>
     (\<exists>j \<in> set is. j \<noteq> cur \<and> tg \<noteq> Some (slot_off K j))"

definition prod_scan ::
  "chan_ctx \<Rightarrow> tview \<Rightarrow> (nat \<times> sample) list \<Rightarrow> u64 \<Rightarrow> u32 list \<Rightarrow> chan_config \<Rightarrow> bool" where
  "prod_scan K v l t is c \<longleftrightarrow>
     prod_in K v l t None None (\<lambda>_. True) c \<and> (\<forall>i \<in> set is. i < kSlotCount) \<and>
     scan_ok K (current_slot_of t) is (cg_target (snd c))"

lemma current_slot_latest:
  assumes inv: "chan_vinv K v g" and i: "i < kSlotCount" "i \<noteq> current_slot_of (v_ticket v)"
  shows "latest_slot K (v_ticket v) \<noteq> Some (slot_off K i)"
proof
  assume late: "latest_slot K (v_ticket v) = Some (slot_off K i)"
  then have nz: "v_ticket v \<noteq> 0" by (auto simp: latest_slot_def)
  then have "cg_log g \<noteq> []" using latest_ok_ticket(1) [OF chan_vinvD(3,2) [OF inv]] by auto
  then obtain j where j: "j < kSlotCount" "ticket_slot (v_ticket v) = j" "latest_slot K (v_ticket v) = Some (slot_off K j)"
    using latest_ok_ticket(2) [OF chan_vinvD(3,2) [OF inv]] by auto
  then have "i = j" using slot_off_inj [OF chan_vinvD(1) [OF inv] i(1) j(1)] late by simp
  then show False using i(2) j(2) nz by (simp add: current_slot_of_def)
qed

lemma stable_prod_scan [simp]: "cthr.stable K (tv_id v) (prod_scan K v l t is)"
proof (rule cthr.stableI)
  fix c d assume P: "prod_scan K v l t is c" and R: "chan_rely K (tv_id v) c d"
  have pin: "prod_in K v l t None None (\<lambda>_. True) c" using P by (simp add: prod_scan_def)
  then have pin': "prod_in K v l t None None (\<lambda>_. True) d"
    using R by (rule cthr.stableD [OF stable_prod_in])
  have fr: "chan_frame K (tv_id v) c d" and prod: "cg_prod (snd c) = Some (tv_id v)"
      and t: "v_ticket (chan_view K (fst c)) = t" and inv: "chan_vinv K (chan_view K (fst c)) (snd c)"
    using pin R chan_at_rely(2) [of K v c d] by (auto simp: prod_in_def chan_at_def chan_inv_def)
  then have "cg_target (snd d) = cg_target (snd c) \<or> cg_target (snd d) = latest_slot K t"
    by (auto simp: chan_frame_def prod_frame_def Let_def)
  moreover have "latest_slot K t \<noteq> Some (slot_off K j)" if "j \<in> set is" "j \<noteq> current_slot_of t" for j
    using current_slot_latest [OF inv, of j] P that t by (auto simp: prod_scan_def)
  ultimately show "prod_scan K v l t is d"
    using P pin' unfolding prod_scan_def scan_ok_def by metis
qed

lemma scan_rest:
  assumes "scan_ok K cur (i # is) (Some (slot_off K i))" and "channel_geometry (cx_size K) (cx_stride K)"
    and "\<forall>j \<in> set (i # is). j < kSlotCount"
  shows "scan_ok K cur is (Some (slot_off K i))"
proof -
  obtain j where "j \<in> set is" "j \<noteq> cur" "j \<noteq> i"
    using assms(1) by (auto simp: scan_ok_def)
  then show ?thesis
    using slot_off_inj [OF assms(2), of i j] assms(3) by (auto simp: scan_ok_def)
qed

lemma scan_start: "scan_ok K cur kSlotIndices tg"
proof -
  have eq: "kSlotIndices = [0, 1, 2]"
    by (simp add: kSlotIndices_def kSlotCount_def numeral_3_eq_3 [symmetric] upt_rec)
  have "\<exists>i \<in> set [0, 1, 2]. \<exists>j \<in> set [0, 1, 2]. i \<noteq> j \<and> i \<noteq> cur \<and> j \<noteq> cur"
  proof (cases "cur = 0")
    case False
    then show ?thesis by (cases "cur = 1") simp_all
  qed simp
  then show ?thesis unfolding scan_ok_def eq by (rule disjI1)
qed

lemma slot_indices_less: "\<forall>i \<in> set kSlotIndices. i < kSlotCount"
  by (auto simp: kSlotIndices_def kSlotCount_def word_less_nat_alt unat_of_nat)

text \<open>A slot that is neither free nor published is in the hand of the consumer.\<close>

lemma busy_slot:
  assumes P: "prod_scan K v l t (i # is) (w, g)"
    and "cs_state (v_slots (chan_view K w) (slot_off K i)) \<noteq> chan_word ChanFree"
    and "cs_state (v_slots (chan_view K w) (slot_off K i)) \<noteq> chan_word ChanPublished"
  shows "prod_scan K v l t is (w, g)"
proof -
  have pin: "prod_in K v l t None None (\<lambda>_. True) (w, g)" and less: "\<forall>j \<in> set (i # is). j < kSlotCount"
    using P by (auto simp: prod_scan_def)
  note D = prod_inD [OF pin]
  have ok: "slot_ok g (slot_off K i) (v_slots (chan_view K w) (slot_off K i))"
    using less by (intro chan_vinvD(4) [OF D(2)] is_slot_index) simp
  then have "in_hand (v_slots (chan_view K w) (slot_off K i))"
    using assms(2,3) D(7) unfolding slot_ok_def readable_def by (elim conjE disjE) simp_all
  then have "cg_read g = Some (slot_off K i)" using ok by (simp add: slot_ok_def)
  then have "cg_target g = Some (slot_off K i)"
    using chan_vinvD(6) [OF D(2)] by (auto simp: cons_ok_def)
  then show ?thesis
    using P scan_rest [OF _ chan_vinvD(1) [OF D(2)] less] by (auto simp: prod_scan_def)
qed

text \<open>The slot keeps being free, or being published or in hand, while the producer looks at it.\<close>

definition prod_seen ::
  "chan_ctx \<Rightarrow> tview \<Rightarrow> (nat \<times> sample) list \<Rightarrow> u64 \<Rightarrow> u32 \<Rightarrow> u32 list \<Rightarrow> bool \<Rightarrow> chan_config \<Rightarrow> bool" where
  "prod_seen K v l t i is b c \<longleftrightarrow>
     prod_scan K v l t (i # is) c \<and> readable (v_slots (chan_view K (fst c)) (slot_off K i)) = b"

lemma stable_prod_seen [simp]: "cthr.stable K (tv_id v) (prod_seen K v l t i is b)"
proof (rule cthr.stableI)
  fix c d assume P: "prod_seen K v l t i is b c" and R: "chan_rely K (tv_id v) c d"
  have scan: "prod_scan K v l t (i # is) c" using P by (simp add: prod_seen_def)
  then have "prod_scan K v l t (i # is) d" using R by (rule cthr.stableD [OF stable_prod_scan])
  moreover have "prod_frame K c d"
    using scan R chan_at_rely(2) [of K v c d] by (auto simp: prod_scan_def prod_in_def chan_frame_def)
  ultimately show "prod_seen K v l t i is b d"
    using P by (simp add: prod_seen_def prod_frame_def Let_def)
qed

lemma triple_look:
  "cthr.triple K (tv_id v) (prod_scan K v l t (i # is)) (shared_load (cslot_state_c (cx_object K) (slot_off K i)))
     (\<lambda>s c. if s \<noteq> chan_word ChanFree \<and> s \<noteq> chan_word ChanPublished then prod_scan K v l t is c
            else prod_seen K v l t i is (s = chan_word ChanPublished) c)"
proof (rule cthr.triple_load)
  fix s show "cthr.stable K (tv_id v) (\<lambda>c. if s \<noteq> chan_word ChanFree \<and> s \<noteq> chan_word ChanPublished
      then prod_scan K v l t is c else prod_seen K v l t i is (s = chan_word ChanPublished) c)"
    by (intro stable_chan_if) simp_all
next
  fix w g assume "prod_scan K v l t (i # is) (w, g)"
  then show "if rd (cslot_state_c (cx_object K) (slot_off K i)) w \<noteq> chan_word ChanFree \<and>
        rd (cslot_state_c (cx_object K) (slot_off K i)) w \<noteq> chan_word ChanPublished then prod_scan K v l t is (w, g)
      else prod_seen K v l t i is (rd (cslot_state_c (cx_object K) (slot_off K i)) w = chan_word ChanPublished) (w, g)"
    using busy_slot [of K v l t i "is" w g] by (auto simp: run_simps prod_seen_def)
qed simp

lemma triple_claim_writable:
  assumes "s = chan_word ChanFree \<or> s = chan_word ChanPublished" and i: "i \<noteq> current_slot_of t"
  shows "cthr.triple K (tv_id v) (prod_seen K v l t i is (s = chan_word ChanPublished))
    (slot_claim_writable (cx_object K) (slot_off K i) s)
    (\<lambda>won c. if won then prod_in K v l t (Some (slot_off K i)) None (\<lambda>_. True) c else prod_scan K v l t is c)"
  unfolding slot_claim_writable_def
proof (rule cthr.triple_cas)
  fix b show "cthr.stable K (tv_id v) (\<lambda>c. if b then prod_in K v l t (Some (slot_off K i)) None (\<lambda>_. True) c
      else prod_scan K v l t is c)" by (intro stable_chan_if) simp_all
next
  fix w g assume P: "prod_seen K v l t i is (s = chan_word ChanPublished) (w, g)"
    and st: "rd (cslot_state_c (cx_object K) (slot_off K i)) w = s"
  have pin: "prod_in K v l t None None (\<lambda>_. True) (w, g)" and less: "i < kSlotCount"
    using P by (simp_all add: prod_seen_def prod_scan_def)
  note D = prod_inD [OF pin]
  let ?off = "slot_off K i"
  let ?w = "wr (cslot_state_c (cx_object K) ?off) (chan_word ChanWriting) w"
  let ?x = "(v_slots (chan_view K w) ?off)\<lparr>cs_state := chan_word ChanWriting\<rparr>"
  let ?g = "g\<lparr>cg_write := Some ?off\<rparr>"
  have slot: "is_slot K ?off" using less by (rule is_slot_index)
  have free: "cs_state (v_slots (chan_view K w) ?off) = chan_word ChanFree \<or> cs_state (v_slots (chan_view K w) ?off) = chan_word ChanPublished"
    using st assms(1) by (simp add: run_simps)
  then have nr: "cg_read g \<noteq> Some ?off"
    using chan_vinvD(4) [OF D(2) slot] by (auto simp: slot_ok_def)
  have "latest_slot K (v_ticket (chan_view K w)) \<noteq> Some ?off"
    using current_slot_latest [OF D(2) less] i D(6) by simp
  then have inv: "chan_vinv K ((set_vslot ?off ?x (chan_view K w))\<lparr>v_ticket := t, v_pin := True\<rparr>) ?g"
    using vinv_claim_write [OF D(2) _ D(7,8) slot free] D(3,6,9) by (subst view_keep) simp_all
  have view: "chan_view K ?w = (set_vslot ?off ?x (chan_view K w))\<lparr>v_ticket := t, v_pin := True\<rparr>"
    using D(6,9) by (subst view_keep) (simp_all add: run_simps)
  show "\<exists>g'. chan_guar K (tv_id v) (w, g) (?w, g') \<and>
      (if True then prod_in K v l t (Some ?off) None (\<lambda>_. True) (?w, g') else prod_scan K v l t is (?w, g'))"
    using prod_step [OF D(1) D(4) _ _ view _ _ inv, where po = "Some (tv_id v)" and ws = "Some ?off" and nx = None
        and es = "[]" and v' = v and S = "\<lambda>_. True"] D(3,5,7,8) nr by (intro exI [of _ ?g]) auto
next
  fix w g assume P: "prod_seen K v l t i is (s = chan_word ChanPublished) (w, g)"
    and st: "rd (cslot_state_c (cx_object K) (slot_off K i)) w \<noteq> s"
  have scan: "prod_scan K v l t (i # is) (w, g)" using P by (simp add: prod_seen_def)
  then have pin: "prod_in K v l t None None (\<lambda>_. True) (w, g)" and "i < kSlotCount"
    by (simp_all add: prod_scan_def)
  note D = prod_inD [OF pin]
  let ?x = "v_slots (chan_view K w) (slot_off K i)"
  have "cs_state ?x \<noteq> chan_word ChanWriting"
    using chan_vinvD(4) [OF D(2) is_slot_index [OF \<open>i < kSlotCount\<close>]] D(7) by (simp add: slot_ok_def)
  moreover have "cs_state ?x = chan_word ChanFree \<or> cs_state ?x = chan_word ChanWriting \<or> readable ?x"
    by (rule slot_okD(1) [OF chan_vinvD(4) [OF D(2) is_slot_index [OF \<open>i < kSlotCount\<close>]]])
  moreover have "readable ?x = (s = chan_word ChanPublished)" "cs_state ?x \<noteq> s"
    using P st by (simp_all add: prod_seen_def run_simps)
  ultimately have "cs_state ?x \<noteq> chan_word ChanFree" "cs_state ?x \<noteq> chan_word ChanPublished"
    using assms(1) by auto
  then show "if False then prod_in K v l t (Some (slot_off K i)) None (\<lambda>_. True) (w, g) else prod_scan K v l t is (w, g)"
    using busy_slot [OF scan] by simp
qed simp

definition chosen_post where
  "chosen_post K v l t r c \<longleftrightarrow>
     (\<exists>i < kSlotCount. r = Some (i, slot_off K i) \<and> prod_in K v l t (Some (slot_off K i)) None (\<lambda>_. True) c)"

lemma stable_chosen_post [simp]: "cthr.stable K (tv_id v) (chosen_post K v l t r)"
  unfolding chosen_post_def [abs_def] by simp

lemma triple_choose_slot:
  assumes geo: "channel_geometry (cx_size K) (cx_stride K)" and "\<forall>i \<in> set is. i < kSlotCount"
  shows "cthr.triple K (tv_id v) (prod_scan K v l t is)
    (choose_slot (cx_object K) (cx_stride K) (current_slot_of t) is) (chosen_post K v l t)"
  using assms(2)
proof (induction "is")
  case Nil
  show ?case by (simp, rule cthr.triple_Ret) (simp_all add: prod_scan_def scan_ok_def)
next
  case (Cons i "is")
  let ?cur = "current_slot_of t"
  have IH: "cthr.triple K (tv_id v) (prod_scan K v l t is) (choose_slot (cx_object K) (cx_stride K) ?cur is) (chosen_post K v l t)"
    using Cons by simp
  have off: "slot_byte_offset i (cx_stride K) = Some (slot_off K i)"
    using slot_off_offset [OF geo] Cons.prems by simp
  show ?case
  proof (cases "i = ?cur")
    case True
    have "cthr.triple K (tv_id v) (prod_scan K v l t (i # is)) (choose_slot (cx_object K) (cx_stride K) ?cur is) (chosen_post K v l t)"
      by (rule chan_triple_pre [OF IH]) (use True in \<open>auto simp: prod_scan_def scan_ok_def\<close>)
    then show ?thesis using True by simp
  next
    case False
    have claim: "cthr.triple K (tv_id v) (prod_seen K v l t i is (s = chan_word ChanPublished))
        (bind (slot_claim_writable (cx_object K) (slot_off K i) s) (\<lambda>claimed.
           if claimed then Ret (Some (i, slot_off K i)) else choose_slot (cx_object K) (cx_stride K) ?cur is))
        (chosen_post K v l t)" if "s = chan_word ChanFree \<or> s = chan_word ChanPublished" for s
    proof (rule cthr.triple_bind [OF triple_claim_writable [OF that False]])
      fix b
      show "cthr.triple K (tv_id v) (\<lambda>c. if b then prod_in K v l t (Some (slot_off K i)) None (\<lambda>_. True) c else prod_scan K v l t is c)
          (if b then Ret (Some (i, slot_off K i)) else choose_slot (cx_object K) (cx_stride K) ?cur is) (chosen_post K v l t)"
        using IH Cons.prems by (cases b) (auto intro!: cthr.triple_Ret simp: chosen_post_def)
    qed
    have "cthr.triple K (tv_id v) (prod_scan K v l t (i # is))
        (bind (shared_load (cslot_state_c (cx_object K) (slot_off K i))) (\<lambda>observed.
           if observed \<noteq> chan_word ChanFree \<and> observed \<noteq> chan_word ChanPublished
           then choose_slot (cx_object K) (cx_stride K) ?cur is
           else bind (slot_claim_writable (cx_object K) (slot_off K i) observed) (\<lambda>claimed.
             if claimed then Ret (Some (i, slot_off K i)) else choose_slot (cx_object K) (cx_stride K) ?cur is)))
        (chosen_post K v l t)"
      by (rule cthr.triple_bind [OF triple_look]) (use IH claim [of "chan_word ChanFree"] claim [of "chan_word ChanPublished"] in simp)
    then show ?thesis using False off by simp
  qed
qed

subsection \<open>Operations of the producer\<close>

definition info_sample :: "PublishInfo \<Rightarrow> bytes \<Rightarrow> sample" where
  "info_sample info b =
     \<lparr>sm_sequence = pi_info_sequence info, sm_publish_ns = pi_info_publish_boot_ns info, sm_bytes = b\<rparr>"

abbreviation add_pub :: "tview \<Rightarrow> sample \<Rightarrow> tview" where
  "add_pub v m \<equiv> v\<lparr>tv_pubs := tv_pubs v @ [m]\<rparr>"

text \<open>The producer handle is in use and no slot is being written.\<close>

definition prod_free :: "chan_ctx \<Rightarrow> tview \<Rightarrow> chan_config \<Rightarrow> bool" where
  "prod_free K v c \<longleftrightarrow> (\<exists>l t. prod_in K v l t None None (\<lambda>_. True) c)"

lemma stable_prod_free [simp]: "cthr.stable K (tv_id v) (prod_free K v)"
  unfolding prod_free_def [abs_def] by simp

lemma stable_prod_free' [simp]: "tv_id v = i \<Longrightarrow> cthr.stable K i (prod_free K v)"
  using stable_prod_free by blast

lemma stable_chan_idle' [simp]: "tv_id v = i \<Longrightarrow> cthr.stable K i (chan_idle K v)"
  using stable_chan_idle by blast

lemma view_only_free [simp]: "view_only K (prod_free K v)"
  using view_only_at(3) [of K v] unfolding prod_free_def view_only_def by blast

lemma prod_free_seq:
  assumes "prod_in K v l t ws nx S c"
  shows "unat (ticket_sequence t) = length l"
proof -
  have inv: "chan_vinv K (chan_view K (fst c)) (snd c)"
    using assms by (simp add: prod_in_def chan_at_def chan_inv_def)
  show ?thesis
    using latest_ok_ticket(3) [OF chan_vinvD(3,2) [OF inv]] assms by (simp add: prod_in_def)
qed

lemma triple_write_header:
  "cthr.triple K (tv_id v) (prod_in K v l t (Some off) None (\<lambda>x. map (cs_payload x) [0..<n] = b))
     (write_slot_header (cx_object K) off sz s ns)
     (\<lambda>_. prod_in K v l t (Some off) None (\<lambda>x. (cs_payload_size x = sz \<and> cs_sample_sequence x = s \<and> cs_publish_boot_ns x = ns) \<and>
        map (cs_payload x) [0..<n] = b))"
  unfolding write_slot_header_def
  by (rule cthr.triple_bind [OF triple_prod_slot [where f = "\<lambda>x. x\<lparr>cs_payload_size := sz\<rparr>"
          and S' = "\<lambda>x. cs_payload_size x = sz \<and> map (cs_payload x) [0..<n] = b"]],
      (simp_all add: chan_slot_access del: view_of)[3],
      rule cthr.triple_bind [OF triple_prod_slot [where f = "\<lambda>x. x\<lparr>cs_sample_sequence := s\<rparr>"
          and S' = "\<lambda>x. (cs_payload_size x = sz \<and> cs_sample_sequence x = s) \<and> map (cs_payload x) [0..<n] = b"]],
      (simp_all add: chan_slot_access del: view_of)[3],
      rule triple_prod_slot [where f = "\<lambda>x. x\<lparr>cs_publish_boot_ns := ns\<rparr>"])
    (simp_all add: chan_slot_access del: view_of)

lemma triple_publish_slot:
  assumes i: "i < kSlotCount" "off = slot_off K i" and sz: "unat sz = length b" "sz = cx_size K"
    and s: "unat s = Suc (length l)" "s \<le> kMaxSampleSequence"
  shows "cthr.triple K (tv_id v)
    (prod_in K v l t (Some off) None (\<lambda>x. (cs_payload_size x = sz \<and> cs_sample_sequence x = s \<and> cs_publish_boot_ns x = ns) \<and>
       map (cs_payload x) [0..<length b] = b))
    (publish_slot (cx_object K) off i s ns (fnv1a64 b))
    (\<lambda>_. prod_free K (add_pub v \<lparr>sm_sequence = s, sm_publish_ns = ns, sm_bytes = b\<rparr>))"
proof -
  let ?m = "\<lparr>sm_sequence = s, sm_publish_ns = ns, sm_bytes = b\<rparr>"
  let ?v = "add_pub v ?m"
  have sum: "cthr.triple K (tv_id v)
    (prod_in K v l t (Some off) None (\<lambda>x. (cs_payload_size x = sz \<and> cs_sample_sequence x = s \<and> cs_publish_boot_ns x = ns) \<and>
       map (cs_payload x) [0..<length b] = b))
    (shared_store (cslot_checksum_c (cx_object K) off) (fnv1a64 b))
    (\<lambda>_. prod_in K v l t (Some off) None (\<lambda>x. slot_holds x ?m \<and> cs_payload_size x = cx_size K))"
    by (rule triple_prod_slot [where f = "\<lambda>x. x\<lparr>cs_payload_checksum := fnv1a64 b\<rparr>"])
      (use sz in \<open>simp_all add: chan_slot_access slot_holds_def del: view_of\<close>)
  have pub: "cthr.triple K (tv_id v) (prod_in K v l t (Some off) None (\<lambda>x. slot_holds x ?m \<and> cs_payload_size x = cx_size K))
      (slot_publish (cx_object K) off)
      (\<lambda>_. prod_in K v l t None (Some (off, ?m)) (\<lambda>_. True))"
    by (rule triple_slot_publish) simp_all
  have tick: "cthr.triple K (tv_id v) (prod_in K v l t None (Some (off, ?m)) (\<lambda>_. True))
      (shared_store (latest_ticket_c (cx_object K)) (make_ticket s i)) (\<lambda>_. prod_free K ?v)"
    by (rule cthr.triple_conseq [OF triple_latest [OF i(2,1), of ?m l v t, simplified sample.simps, OF s]])
      (auto simp: prod_free_def)
  have rest: "cthr.triple K (tv_id v) (prod_free K ?v)
      (bind (shared_fetch_add (publish_count_c (cx_object K)) 1) (\<lambda>_.
       bind (shared_store (last_publish_c (cx_object K)) ns) (\<lambda>_.
       bind (shared_fetch_add (chan_notify_c (cx_object K)) 1) (\<lambda>_. futex_wake chan_kern_c)))) (\<lambda>_. prod_free K ?v)"
    by (intro triple_quiet) (auto intro!: quiet_intros)
  show ?thesis
    unfolding publish_slot_def
    by (rule cthr.triple_bind [OF sum], rule cthr.triple_bind [OF pub], rule cthr.triple_bind [OF tick], rule rest)
qed

lemma verify_errors: "yields (\<lambda>r. r \<noteq> Inl kNoWritableSlot) (verify_handle_ownership h)"
  unfolding verify_handle_ownership_def by (auto intro!: yields_bind split: sum.splits)

definition pub_view :: "tview \<Rightarrow> bytes \<Rightarrow> PublishInfo result \<Rightarrow> tview" where
  "pub_view v b r = (case r of Inl _ \<Rightarrow> v | Inr info \<Rightarrow> add_pub v (info_sample info b))"

lemma tv_id_pub_view [simp]: "tv_id (pub_view v b r) = tv_id v"
  by (simp add: pub_view_def split: sum.splits)

text \<open>The slot that was chosen is written and published.\<close>

lemma triple_write_chosen:
  assumes i: "i < kSlotCount" and sz: "unat (of_nat (length b) :: u32) = length b" "of_nat (length b) = cx_size K"
    and s: "unat s = Suc (length l)" "s \<le> kMaxSampleSequence"
    and rest: "\<And>a. cthr.triple K (tv_id v)
      (prod_free K (add_pub v \<lparr>sm_sequence = s, sm_publish_ns = ns, sm_bytes = b\<rparr>)) (f a) Q"
  shows "cthr.triple K (tv_id v) (prod_in K v l t (Some (slot_off K i)) None (\<lambda>_. True))
    (bind (write_slot_header (cx_object K) (slot_off K i) (of_nat (length b)) s ns) (\<lambda>_.
     bind (memcpy_to (cslot_payload_c (cx_object K) (slot_off K i)) 0 b) (\<lambda>_.
     bind (publish_slot (cx_object K) (slot_off K i) i s ns (fnv1a64 b)) f))) Q"
proof -
  let ?off = "slot_off K i"
  let ?H = "\<lambda>x. cs_payload_size x = of_nat (length b) \<and> cs_sample_sequence x = s \<and> cs_publish_boot_ns x = ns"
  have head: "cthr.triple K (tv_id v) (prod_in K v l t (Some ?off) None (\<lambda>_. True))
      (write_slot_header (cx_object K) ?off (of_nat (length b)) s ns)
      (\<lambda>_. prod_in K v l t (Some ?off) None (\<lambda>x. ?H x \<and> map (cs_payload x) [0..<0] = []))"
    by (rule cthr.triple_conseq [OF triple_write_header [where n = 0 and b = "[]"]]) (simp_all add: prod_in_def)
  have fill: "cthr.triple K (tv_id v) (prod_in K v l t (Some ?off) None (\<lambda>x. ?H x \<and> map (cs_payload x) [0..<0] = []))
      (memcpy_to (cslot_payload_c (cx_object K) ?off) 0 b)
      (\<lambda>_. prod_in K v l t (Some ?off) None (\<lambda>x. ?H x \<and> map (cs_payload x) [0..<length b] = b))"
    using triple_prod_fill [where S = ?H and i = 0 and d = "[]"] by simp
  show ?thesis
    by (rule cthr.triple_bind [OF head], rule cthr.triple_bind [OF fill],
        rule cthr.triple_bind [OF triple_publish_slot [OF i refl sz s]], rule rest)
qed

definition locked_post :: "chan_ctx \<Rightarrow> tview \<Rightarrow> bytes \<Rightarrow> PublishInfo result \<Rightarrow> chan_config \<Rightarrow> bool" where
  "locked_post K v b r c \<longleftrightarrow> r \<noteq> Inl kNoWritableSlot \<and> prod_free K (pub_view v b r) c"

lemma stable_locked_post [simp]: "cthr.stable K (tv_id v) (locked_post K v b r)"
  unfolding locked_post_def [abs_def] by simp

lemma locked_error:
  "e \<noteq> kNoWritableSlot \<Longrightarrow> cthr.triple K (tv_id v) (prod_free K v) (Ret (Inl e)) (locked_post K v b)"
  by (rule cthr.triple_Ret) (simp_all add: locked_post_def pub_view_def)

lemma triple_publish_after:
  assumes P: "producer_of K h" and len: "of_nat (length b) = pd_payload_size h" "length b < 2 ^ 32"
    and geo: "channel_geometry (cx_size K) (cx_stride K)"
  shows "cthr.triple K (tv_id v) (prod_in K v l t None None (\<lambda>_. True))
    (publish_after h b t)
    (locked_post K v b)" (is "cthr.triple K _ ?pre ?prog _")
proof -
  have free: "cthr.triple K (tv_id v) ?pre (Ret (Inl e)) (locked_post K v b)" if "e \<noteq> kNoWritableSlot" for e
    by (rule chan_triple_pre [OF locked_error [OF that]]) (auto simp: prod_free_def)
  have h: "pd_object h = cx_object K" "pd_payload_size h = cx_size K" using P by (simp_all add: producer_of_def)
  have stride: "channel_stride (cx_size K) = Some (cx_stride K)" using geo by (simp add: channel_geometry_def)
  show ?thesis
  proof (cases "checked_next_sequence t")
    case None
    then show ?thesis using free by (simp add: publish_after_def)
  next
    case (Some s)
    note seq = checked_next_sequence_Some [OF Some]
    have chosen: "cthr.triple K (tv_id v) (chosen_post K v l t r)
        (case r of None \<Rightarrow> Ret (Inl kNoWritableSlot)
         | Some (chosen_index, off) \<Rightarrow>
             bind (write_slot_header (cx_object K) off (of_nat (length b)) s ns) (\<lambda>_.
             bind (memcpy_to (cslot_payload_c (cx_object K) off) 0 b) (\<lambda>_.
             bind (publish_slot (cx_object K) off chosen_index s ns (fnv1a64 b)) (\<lambda>_.
               Ret (Inr \<lparr>pi_info_generation = pd_generation h, pi_info_sequence = s, pi_info_publish_boot_ns = ns\<rparr>)))))
        (locked_post K v b)" if len_l: "unat s = Suc (length l)" for r ns
      unfolding chosen_post_def [abs_def]
    proof (rule chan_triple_ex, rule chan_triple_pure, rule chan_triple_pure)
      fix i assume i: "i < kSlotCount" and r: "r = Some (i, slot_off K i)"
      have "unat (of_nat (length b) :: u32) = length b" using len(2) by (simp add: unat_of_nat)
      note sz = this len(1) [unfolded h(2)]
      show "cthr.triple K (tv_id v) (prod_in K v l t (Some (slot_off K i)) None (\<lambda>_. True))
        (case r of None \<Rightarrow> Ret (Inl kNoWritableSlot)
         | Some (chosen_index, off) \<Rightarrow>
             bind (write_slot_header (cx_object K) off (of_nat (length b)) s ns) (\<lambda>_.
             bind (memcpy_to (cslot_payload_c (cx_object K) off) 0 b) (\<lambda>_.
             bind (publish_slot (cx_object K) off chosen_index s ns (fnv1a64 b)) (\<lambda>_.
               Ret (Inr \<lparr>pi_info_generation = pd_generation h, pi_info_sequence = s, pi_info_publish_boot_ns = ns\<rparr>)))))
        (locked_post K v b)"
        unfolding r option.case prod.case
        by (rule triple_write_chosen [OF i sz len_l seq(2)], rule cthr.triple_Ret)
          (simp_all add: locked_post_def pub_view_def info_sample_def)
    qed
    have scan: "cthr.triple K (tv_id v) ?pre
        (choose_slot (cx_object K) (cx_stride K) (current_slot_of t) kSlotIndices) (chosen_post K v l t)"
      by (rule chan_triple_pre [OF triple_choose_slot [OF geo slot_indices_less]])
        (use scan_start slot_indices_less in \<open>auto simp: prod_scan_def\<close>)
    have "cthr.triple K (tv_id v) (\<lambda>c. unat s = Suc (length l) \<and> ?pre c) ?prog (locked_post K v b)"
      unfolding publish_after_def Some h stride option.case
      by (rule chan_triple_pure, rule triple_quiet_bind, (auto intro!: quiet_intros)[3], rule chan_triple_if, rule free, simp,
          rule cthr.triple_bind [OF scan], rule chosen)
    then show ?thesis
      by (rule chan_triple_pre) (use prod_free_seq seq(1) in auto)
  qed
qed

lemma triple_load_ticket:
  "cthr.triple K (tv_id v) (prod_in K v l t ws nx S) (shared_load (latest_ticket_c (cx_object K)))
     (\<lambda>a c. a = t \<and> prod_in K v l t ws nx S c)"
  by (rule cthr.triple_load) (auto simp: run_simps dest: prod_inD(6))

lemma triple_verify:
  assumes "producer_of K h"
  shows "cthr.triple K (tv_id v) (prod_in K v l t ws nx S) (verify_handle_ownership h)
    (\<lambda>r c. r \<noteq> Inl kNoWritableSlot \<and> prod_in K v l t ws nx S c)"
  by (rule triple_quiet_yields [OF quiet_producer(2) [OF assms] verify_errors]) simp_all

lemma triple_publish_locked:
  assumes P: "producer_of K h" and len: "length b < 2 ^ 32" and geo: "channel_geometry (cx_size K) (cx_stride K)"
  shows "cthr.triple K (tv_id v) (prod_free K v) (publish_locked h b) (locked_post K v b)"
  unfolding publish_locked_def prod_free_def [abs_def]
proof (rule chan_triple_ex, rule chan_triple_ex, rule chan_triple_if)
  fix l t assume ok: "\<not> of_nat (length b) \<noteq> pd_payload_size h"
  have h: "pd_object h = cx_object K" using P by (simp add: producer_of_def)
  show "cthr.triple K (tv_id v) (prod_in K v l t None None (\<lambda>_. True))
     (try_bind (verify_handle_ownership h) (\<lambda>_. bind (shared_load (latest_ticket_c (pd_object h))) (publish_after h b)))
     (locked_post K v b)"
    unfolding try_bind_def
  proof (rule cthr.triple_bind [OF triple_verify [OF P]], rule chan_triple_pure, goal_cases)
    case (1 r)
    show ?case
    proof (cases r)
      case (Inl e)
      then show ?thesis
        using 1 by (simp, intro chan_triple_pre [OF locked_error [of e]]) (auto simp: prod_free_def)
    next
      case (Inr u)
      show ?thesis
        unfolding Inr sum.case h
        by (rule cthr.triple_bind [OF triple_load_ticket], rule chan_triple_pure, simp only:,
            rule triple_publish_after [OF P _ len geo]) (use ok in simp)
    qed
  qed
qed (rule chan_triple_pre [OF locked_error], auto simp: prod_free_def)

lemma triple_prod_leave_free:
  "cthr.triple K (tv_id v) (prod_free K v) (shared_store (pf_in_use_c (cx_prod K)) False) (\<lambda>_. chan_idle K v)"
  unfolding prod_free_def [abs_def] by (intro chan_triple_ex) (rule triple_prod_leave)

text \<open>An operation under the guard: what its body guarantees, and the handle is given back.\<close>

lemma triple_prod_guarded:
  assumes P: "producer_of K h" and id: "\<And>r. tv_id (f r) = tv_id v"
    and body: "cthr.triple K (tv_id v) (prod_free K v) p (\<lambda>r c. Q r \<and> prod_free K (f r) c)"
    and busy: "Q (Inl kConcurrentHandleUse)" "f (Inl kConcurrentHandleUse) = v"
  shows "cthr.triple K (tv_id v) (chan_idle K v) (producer_guarded h p) (\<lambda>r c. Q r \<and> chan_idle K (f r) c)"
proof -
  have h: "pd_ref h = cx_prod K" using P by (simp add: producer_of_def)
  have leave: "cthr.triple K (tv_id v) (prod_free K (f r)) (shared_store (pf_in_use_c (cx_prod K)) False) (\<lambda>_. chan_idle K (f r))" for r
    using triple_prod_leave_free [of K "f r"] id by simp
  have inner: "cthr.triple K (tv_id v) (prod_free K v)
      (bind p (\<lambda>r. bind (shared_store (pf_in_use_c (cx_prod K)) False) (\<lambda>_. Ret r))) (\<lambda>r c. Q r \<and> chan_idle K (f r) c)"
  proof (rule cthr.triple_bind [OF body], rule chan_triple_pure)
    fix r assume Q: "Q r"
    show "cthr.triple K (tv_id v) (prod_free K (f r)) (bind (shared_store (pf_in_use_c (cx_prod K)) False) (\<lambda>_. Ret r))
        (\<lambda>r c. Q r \<and> chan_idle K (f r) c)"
      by (rule cthr.triple_bind [OF leave], rule cthr.triple_Ret) (simp_all add: Q id)
  qed
  show ?thesis
    unfolding producer_guarded_def h
  proof (rule cthr.triple_bind [OF triple_prod_enter])
    fix b
    show "cthr.triple K (tv_id v) (\<lambda>c. if b then chan_idle K v c else \<exists>l t. prod_in K v l t None None (\<lambda>_. True) c)
       (if b then Ret (Inl kConcurrentHandleUse)
        else bind p (\<lambda>r. bind (shared_store (pf_in_use_c (cx_prod K)) False) (\<lambda>_. Ret r)))
       (\<lambda>r c. Q r \<and> chan_idle K (f r) c)"
    proof (cases b)
      case True
      then show ?thesis by (simp, intro cthr.triple_Ret) (simp_all add: busy id)
    qed (use inner in \<open>simp add: prod_free_def [abs_def]\<close>)
  qed
qed

lemma triple_chan_publish:
  assumes "producer_of K h" and "length b < 2 ^ 32" and "channel_geometry (cx_size K) (cx_stride K)"
  shows "cthr.triple K (tv_id v) (chan_idle K v) (producer_publish_impl h b)
    (\<lambda>r c. r \<noteq> Inl kNoWritableSlot \<and> chan_idle K (pub_view v b r) c)"
  unfolding producer_publish_impl_def
  by (rule triple_prod_guarded [OF assms(1)])
    (use triple_publish_locked [OF assms] in \<open>simp_all add: pub_view_def locked_post_def [abs_def] split: sum.splits\<close>)

text \<open>Operations that leave the samples alone.\<close>

lemma triple_prod_quiet:
  assumes "producer_of K h" and "quiet K p"
  shows "cthr.triple K (tv_id v) (chan_idle K v) (producer_guarded h p) (\<lambda>_. chan_idle K v)"
  using triple_prod_guarded [OF assms(1), of "\<lambda>_. v" v p "\<lambda>_. True"] triple_quiet [OF assms(2), of "tv_id v" "prod_free K v"]
  by simp

lemma triple_prod_service:
  assumes P: "producer_of K h"
  shows "cthr.triple K (tv_id v) (chan_idle K v) (service_producer_shutdown h) (\<lambda>_. chan_idle K v)"
proof -
  have h: "pd_ref h = cx_prod K" using P by (simp add: producer_of_def)
  have off: "cthr.triple K (tv_id v) (prod_free K v)
      (bind (shared_cas (pf_started_c (cx_prod K)) False True) (\<lambda>first.
       bind (if first then mark_producer_offline h else Ret ()) (\<lambda>_.
         shared_store (pf_in_use_c (cx_prod K)) False))) (\<lambda>_. chan_idle K v)"
    by (rule triple_quiet_bind [OF quiet_cells(9)], simp, simp, rule triple_quiet_bind)
      (auto intro!: quiet_intros quiet_producer [OF P] triple_prod_leave_free)
  show ?thesis
    unfolding service_producer_shutdown_def h
  proof (rule triple_quiet_bind [OF quiet_load], simp, simp, rule chan_triple_if)
    show "cthr.triple K (tv_id v) (chan_idle K v) (Ret ()) (\<lambda>_. chan_idle K v)"
      by (rule cthr.triple_Ret) simp_all
    show "cthr.triple K (tv_id v) (chan_idle K v)
       (bind (shared_cas (pf_in_use_c (cx_prod K)) False True) (\<lambda>idle.
          if \<not> idle then Ret ()
          else bind (shared_cas (pf_started_c (cx_prod K)) False True) (\<lambda>first.
            bind (if first then mark_producer_offline h else Ret ()) (\<lambda>_.
              shared_store (pf_in_use_c (cx_prod K)) False)))) (\<lambda>_. chan_idle K v)"
    proof (rule cthr.triple_bind [OF triple_prod_try])
      fix b
      show "cthr.triple K (tv_id v) (\<lambda>c. if b then \<exists>l t. prod_in K v l t None None (\<lambda>_. True) c else chan_idle K v c)
         (if \<not> b then Ret ()
          else bind (shared_cas (pf_started_c (cx_prod K)) False True) (\<lambda>first.
            bind (if first then mark_producer_offline h else Ret ()) (\<lambda>_.
              shared_store (pf_in_use_c (cx_prod K)) False))) (\<lambda>_. chan_idle K v)"
      proof (cases b)
        case True
        then show ?thesis using off by (simp add: prod_free_def [abs_def])
      next
        case False
        then show ?thesis by (simp, intro cthr.triple_Ret) simp_all
      qed
    qed
  qed
qed

lemma triple_prod_release:
  assumes P: "producer_of K h"
  shows "cthr.triple K (tv_id v) (prod_free K v) (release_producer_loan_operation h) (\<lambda>_. chan_idle K v)"
proof -
  have h: "pd_ref h = cx_prod K" using P by (simp add: producer_of_def)
  show ?thesis
    unfolding release_producer_loan_operation_def h
    by (rule cthr.triple_bind [OF triple_prod_leave_free]) (rule triple_prod_service [OF P])
qed

lemma triple_prod_shutdown:
  assumes P: "producer_of K h"
  shows "cthr.triple K (tv_id v) (chan_idle K v) (producer_shutdown_impl h) (\<lambda>_. chan_idle K v)"
proof -
  have h: "pd_ref h = cx_prod K" using P by (simp add: producer_of_def)
  show ?thesis
    unfolding producer_shutdown_impl_def h
    by (rule triple_quiet_bind [OF quiet_cells(5)], simp, simp) (rule triple_prod_service [OF P])
qed

subsection \<open>Write loans\<close>

text \<open>A loan of the slot \<open>i\<close> for the sample after the log \<open>l\<close>.\<close>

definition write_loan_of :: "chan_ctx \<Rightarrow> ProducerHandle \<Rightarrow> (nat \<times> sample) list \<Rightarrow> u32 \<Rightarrow> WriteLoan \<Rightarrow> bool" where
  "write_loan_of K h l i loan \<longleftrightarrow>
     i < kSlotCount \<and> wl_active loan \<and> wl_handle loan = Some h \<and> wl_slot loan = Some (slot_off K i) \<and>
     wl_data loan = Some (slot_off K i + kSlotHeaderSize) \<and>
     wl_size loan = cx_size K \<and> wl_slot_index loan = i \<and> unat (wl_sequence loan) = Suc (length l) \<and>
     wl_sequence loan \<le> kMaxSampleSequence"

definition loan_post :: "chan_ctx \<Rightarrow> tview \<Rightarrow> ProducerHandle \<Rightarrow> WriteLoan result \<Rightarrow> chan_config \<Rightarrow> bool" where
  "loan_post K v h r c \<longleftrightarrow>
     (case r of
        Inl e \<Rightarrow> e \<noteq> kNoWritableSlot \<and> chan_idle K v c
      | Inr loan \<Rightarrow> \<exists>l t i. write_loan_of K h l i loan \<and> prod_in K v l t (Some (slot_off K i)) None (\<lambda>_. True) c)"

lemma stable_loan_post [simp]: "cthr.stable K (tv_id v) (loan_post K v h r)"
  by (cases r) (simp_all add: loan_post_def [abs_def])

lemma triple_loan:
  assumes P: "producer_of K h" and geo: "channel_geometry (cx_size K) (cx_stride K)"
  shows "cthr.triple K (tv_id v) (chan_idle K v) (producer_loan_impl h) (loan_post K v h)"
proof -
  have h: "pd_object h = cx_object K" "pd_payload_size h = cx_size K" "pd_ref h = cx_prod K"
    using P by (simp_all add: producer_of_def)
  have stride: "channel_stride (cx_size K) = Some (cx_stride K)" using geo by (simp add: channel_geometry_def)
  let ?err = "\<lambda>e. bind (shared_store (pf_in_use_c (cx_prod K)) False) (\<lambda>_. Ret (Inl e))"
  let ?loan = "\<lambda>i off s. \<lparr>wl_handle = Some h, wl_slot = Some off, wl_data = Some (off + kSlotHeaderSize),
      wl_size = cx_size K, wl_slot_index = i, wl_sequence = s, wl_active = True\<rparr>"
  have err: "cthr.triple K (tv_id v) (prod_in K v l t None None (\<lambda>_. True)) (?err e) (loan_post K v h)"
    if "e \<noteq> kNoWritableSlot" for e l t
    by (rule cthr.triple_bind [OF triple_prod_leave], rule cthr.triple_Ret) (use that in \<open>simp_all add: loan_post_def\<close>)
  have scan: "cthr.triple K (tv_id v) (prod_in K v l t None None (\<lambda>_. True))
      (choose_slot (cx_object K) (cx_stride K) (current_slot_of t) kSlotIndices) (chosen_post K v l t)" for l t
    by (rule chan_triple_pre [OF triple_choose_slot [OF geo slot_indices_less]])
      (use scan_start slot_indices_less in \<open>auto simp: prod_scan_def\<close>)
  have chosen: "cthr.triple K (tv_id v) (chosen_post K v l t r)
      (case r of None \<Rightarrow> ?err kNoWritableSlot | Some (i, off) \<Rightarrow> Ret (Inr (?loan i off s))) (loan_post K v h)"
    if s: "unat s = Suc (length l)" "s \<le> kMaxSampleSequence" for r s l t
    unfolding chosen_post_def [abs_def]
  proof (rule chan_triple_ex, rule chan_triple_pure, rule chan_triple_pure, simp, rule cthr.triple_Ret)
    fix i c assume "i < kSlotCount" and "prod_in K v l t (Some (slot_off K i)) None (\<lambda>_. True) c"
    then show "loan_post K v h (Inr (?loan i (slot_off K i) s)) c"
      using s by (auto simp: loan_post_def write_loan_of_def)
  qed simp
  have found: "cthr.triple K (tv_id v) (prod_in K v l t None None (\<lambda>_. True))
      (case checked_next_sequence t of
         None \<Rightarrow> ?err kSequenceExhausted
       | Some s \<Rightarrow>
           bind (choose_slot (cx_object K) (cx_stride K) (current_slot_of t) kSlotIndices) (\<lambda>chosen.
             case chosen of None \<Rightarrow> ?err kNoWritableSlot | Some (i, off) \<Rightarrow> Ret (Inr (?loan i off s))))
      (loan_post K v h)" (is "cthr.triple K _ ?pre ?prog _") for l t
  proof (cases "checked_next_sequence t")
    case None
    then show ?thesis using err by simp
  next
    case (Some s)
    note seq = checked_next_sequence_Some [OF Some]
    have "cthr.triple K (tv_id v) (\<lambda>c. unat s = Suc (length l) \<and> ?pre c) ?prog (loan_post K v h)"
      unfolding Some option.case
      by (rule chan_triple_pure, rule cthr.triple_bind [OF scan], rule chosen) (use seq(2) in simp_all)
    then show ?thesis by (rule chan_triple_pre) (use prod_free_seq seq(1) in auto)
  qed
  have locked: "cthr.triple K (tv_id v) (prod_in K v l t None None (\<lambda>_. True))
      (bind (verify_handle_ownership h) (\<lambda>verified.
         case verified of Inl e \<Rightarrow> ?err e
         | Inr _ \<Rightarrow> bind (shared_load (latest_ticket_c (cx_object K))) (\<lambda>current.
             case checked_next_sequence current of
               None \<Rightarrow> ?err kSequenceExhausted
             | Some s \<Rightarrow>
                 bind (choose_slot (cx_object K) (cx_stride K) (current_slot_of current) kSlotIndices) (\<lambda>chosen.
                   case chosen of None \<Rightarrow> ?err kNoWritableSlot | Some (i, off) \<Rightarrow> Ret (Inr (?loan i off s))))))
      (loan_post K v h)" for l t
  proof (rule cthr.triple_bind [OF triple_verify [OF P]], rule chan_triple_pure, goal_cases)
    case (1 r)
    show ?case
    proof (cases r)
      case (Inr u)
      show ?thesis
        unfolding Inr sum.case
        by (rule cthr.triple_bind [OF triple_load_ticket], rule chan_triple_pure, simp only:, rule found)
    qed (use err 1 in auto)
  qed
  show ?thesis
    unfolding producer_loan_impl_def h stride Let_def option.case
  proof (rule cthr.triple_bind [OF triple_prod_enter], goal_cases)
    case (1 b)
    show ?case
    proof (cases b)
      case True
      then show ?thesis by (simp, intro cthr.triple_Ret) (simp_all add: loan_post_def)
    next
      case False
      then show ?thesis by (simp, intro chan_triple_ex locked)
    qed
  qed
qed

lemma prod_in_mono:
  "prod_in K v l t ws nx S c \<Longrightarrow> (\<And>x. S x \<Longrightarrow> S' x) \<Longrightarrow> prod_in K v l t ws nx S' c"
  by (auto simp: prod_in_def)

definition commit_post :: "chan_ctx \<Rightarrow> tview \<Rightarrow> bytes \<Rightarrow> PublishInfo result \<times> WriteLoan \<Rightarrow> chan_config \<Rightarrow> bool" where
  "commit_post K v b r c \<longleftrightarrow> fst r \<noteq> Inl kNoWritableSlot \<and> chan_idle K (pub_view v b (fst r)) c"

lemma stable_commit_post [simp]: "cthr.stable K (tv_id v) (commit_post K v b r)"
  unfolding commit_post_def [abs_def] by simp

lemma triple_commit:
  assumes P: "producer_of K h" and loan: "write_loan_of K h l i loan" and b: "length b = unat (cx_size K)"
  shows "cthr.triple K (tv_id v)
    (prod_in K v l t (Some (slot_off K i)) None (\<lambda>x. map (cs_payload x) [0..<length b] = b))
    (producer_commit_loan_impl loan) (commit_post K v b)"
proof -
  have h: "pd_object h = cx_object K" using P by (simp add: producer_of_def)
  have L: "wl_active loan = True" "wl_handle loan = Some h" "wl_slot loan = Some (slot_off K i)" "wl_size loan = cx_size K"
      "wl_slot_index loan = i" "unat (wl_sequence loan) = Suc (length l)" "wl_sequence loan \<le> kMaxSampleSequence"
      "i < kSlotCount"
    using loan by (simp_all add: write_loan_of_def)
  let ?off = "slot_off K i" and ?s = "wl_sequence loan"
  let ?pre = "\<lambda>pl. prod_in K v l t (Some ?off) None (\<lambda>x. True \<and> cs_payload x = pl)"
  let ?fail = "\<lambda>e. bind (slot_abort_write (cx_object K) ?off) (\<lambda>_. bind (release_producer_loan_operation h) (\<lambda>_.
      Ret (Inl e, ended_write_loan loan)))"
  have fail: "cthr.triple K (tv_id v) (?pre pl) (?fail e) (commit_post K v b)" if "e \<noteq> kNoWritableSlot" for e pl
  proof (rule cthr.triple_bind [OF triple_slot_abort], rule cthr.triple_bind)
    show "cthr.triple K (tv_id v) (prod_in K v l t None None (\<lambda>_. True)) (release_producer_loan_operation h) (\<lambda>_. chan_idle K v)"
      by (rule chan_triple_pre [OF triple_prod_release [OF P]]) (auto simp: prod_free_def)
    show "cthr.triple K (tv_id v) (chan_idle K v) (Ret (Inl e, ended_write_loan loan)) (commit_post K v b)" for u :: "unit"
      by (rule cthr.triple_Ret) (use that in \<open>simp_all add: commit_post_def pub_view_def\<close>)
  qed
  have wrote: "cthr.triple K (tv_id v) (?pre pl)
      (bind (write_slot_header (cx_object K) ?off (cx_size K) ?s ns) (\<lambda>_.
       bind (publish_slot (cx_object K) ?off i ?s ns (fnv1a64 b)) (\<lambda>_.
       bind (release_producer_loan_operation h) (\<lambda>_.
         Ret (Inr \<lparr>pi_info_generation = pd_generation h, pi_info_sequence = ?s, pi_info_publish_boot_ns = ns\<rparr>,
              ended_write_loan loan))))) (commit_post K v b)" if pl: "map pl [0..<length b] = b" for ns pl
  proof (rule chan_triple_pre, rule cthr.triple_bind [OF triple_write_header [where n = "length b" and b = b]],
         rule cthr.triple_bind [OF triple_publish_slot])
    let ?v = "add_pub v \<lparr>sm_sequence = ?s, sm_publish_ns = ns, sm_bytes = b\<rparr>"
    have release: "cthr.triple K (tv_id v) (prod_free K ?v) (release_producer_loan_operation h) (\<lambda>_. chan_idle K ?v)"
      using triple_prod_release [OF P, of ?v] by simp
    show "cthr.triple K (tv_id v) (prod_free K ?v)
       (bind (release_producer_loan_operation h) (\<lambda>_.
         Ret (Inr \<lparr>pi_info_generation = pd_generation h, pi_info_sequence = ?s, pi_info_publish_boot_ns = ns\<rparr>,
              ended_write_loan loan))) (commit_post K v b)" for u :: "unit"
      by (rule cthr.triple_bind [OF release], rule cthr.triple_Ret)
        (simp_all add: commit_post_def pub_view_def info_sample_def)
    show "prod_in K v l t (Some ?off) None (\<lambda>x. map (cs_payload x) [0..<length b] = b) c" if "?pre pl c" for c
      by (rule prod_in_mono [OF that]) (use pl in auto)
  qed (use L b in simp_all)
  have body: "cthr.triple K (tv_id v) (?pre pl)
      (bind (memcpy_from (cslot_payload_c (cx_object K) ?off) 0 (unat (cx_size K))) (\<lambda>payload.
       bind (write_slot_header (cx_object K) ?off (cx_size K) ?s ns) (\<lambda>_.
       bind (publish_slot (cx_object K) ?off i ?s ns (fnv1a64 payload)) (\<lambda>_.
       bind (release_producer_loan_operation h) (\<lambda>_.
         Ret (Inr \<lparr>pi_info_generation = pd_generation h, pi_info_sequence = ?s, pi_info_publish_boot_ns = ns\<rparr>,
              ended_write_loan loan)))))) (commit_post K v b)" if "map pl [0..<length b] = b" for ns pl
    by (rule cthr.triple_bind [OF triple_prod_memcpy], rule chan_triple_pure, use wrote [OF that] that b in simp)
  have "cthr.triple K (tv_id v) (?pre pl) (producer_commit_loan_impl loan) (commit_post K v b)"
    if pl: "map pl [0..<length b] = b" for pl
    unfolding producer_commit_loan_impl_def L(1-5) h prod.case option.case bool.case Let_def
  proof (rule cthr.triple_bind [OF triple_verify [OF P]], rule chan_triple_pure, goal_cases)
    case (1 r)
    show ?case
    proof (cases r)
      case (Inr u)
      show ?thesis
        unfolding Inr sum.case
        by (rule triple_quiet_bind, (auto intro!: quiet_intros)[3], rule chan_triple_if, rule fail, simp, rule body [OF pl])
    qed (use fail 1 in auto)
  qed
  then have "cthr.triple K (tv_id v) (\<lambda>c. \<exists>pl. map pl [0..<length b] = b \<and> ?pre pl c)
      (producer_commit_loan_impl loan) (commit_post K v b)"
    by (intro chan_triple_ex chan_triple_pure)
  then show ?thesis
    by (rule chan_triple_pre) (auto simp: prod_in_def)
qed

lemma triple_abort_loan:
  assumes P: "producer_of K h" and loan: "write_loan_of K h l i loan"
  shows "cthr.triple K (tv_id v) (prod_in K v l t (Some (slot_off K i)) None S)
    (producer_abort_loan_impl loan) (\<lambda>_. chan_idle K v)"
proof -
  have h: "pd_object h = cx_object K" using P by (simp add: producer_of_def)
  have L: "wl_active loan = True" "wl_handle loan = Some h" "wl_slot loan = Some (slot_off K i)"
    using loan by (simp_all add: write_loan_of_def)
  have release: "cthr.triple K (tv_id v) (prod_in K v l t None None (\<lambda>_. True)) (release_producer_loan_operation h) (\<lambda>_. chan_idle K v)"
    by (rule chan_triple_pre [OF triple_prod_release [OF P]]) (auto simp: prod_free_def)
  show ?thesis
    unfolding producer_abort_loan_impl_def L h prod.case option.case bool.case
    by (rule cthr.triple_bind [OF triple_slot_abort], rule cthr.triple_bind [OF release], rule cthr.triple_Ret) simp_all
qed

text \<open>Borrowing a slot, encoding into it and committing it, or giving it up.\<close>

definition loan_publish :: "ProducerHandle \<Rightarrow> bytes \<Rightarrow> (chan_world, PublishInfo result) prog" where
  "loan_publish handle encoded =
     try_bind (producer_loan_impl handle) (\<lambda>loan.
     bind (memcpy_to (cslot_payload_c (pd_object handle) (the (wl_slot loan))) 0 encoded) (\<lambda>_.
     bind (producer_commit_loan_impl loan) (\<lambda>(r, left). Ret r)))"

definition loan_abort :: "ProducerHandle \<Rightarrow> bytes \<Rightarrow> (chan_world, unit result) prog" where
  "loan_abort handle encoded =
     try_bind (producer_loan_impl handle) (\<lambda>loan.
     bind (memcpy_to (cslot_payload_c (pd_object handle) (the (wl_slot loan))) 0 encoded) (\<lambda>_.
     bind (producer_abort_loan_impl loan) (\<lambda>_. Ret (Inr ()))))"

lemma triple_loan_fill:
  assumes P: "producer_of K h"
  shows "cthr.triple K (tv_id v) (prod_in K v l t (Some off) None (\<lambda>_. True))
    (memcpy_to (cslot_payload_c (pd_object h) off) 0 b)
    (\<lambda>_. prod_in K v l t (Some off) None (\<lambda>x. map (cs_payload x) [0..<length b] = b))"
proof -
  have h: "pd_object h = cx_object K" using P by (simp add: producer_of_def)
  show ?thesis
    unfolding h
    by (rule cthr.triple_conseq [OF triple_prod_fill [where S = "\<lambda>_. True" and i = 0 and d = "[]"]])
      (auto simp: prod_in_def)
qed

lemma triple_loan_publish:
  assumes P: "producer_of K h" and geo: "channel_geometry (cx_size K) (cx_stride K)" and b: "length b = unat (cx_size K)"
  shows "cthr.triple K (tv_id v) (chan_idle K v) (loan_publish h b)
    (\<lambda>r c. r \<noteq> Inl kNoWritableSlot \<and> chan_idle K (pub_view v b r) c)"
proof -
  have held: "cthr.triple K (tv_id v) (prod_in K v l t (Some (slot_off K i)) None (\<lambda>_. True))
      (bind (memcpy_to (cslot_payload_c (pd_object h) (the (wl_slot loan))) 0 b) (\<lambda>_.
       bind (producer_commit_loan_impl loan) (\<lambda>(r, left). Ret r)))
      (\<lambda>r c. r \<noteq> Inl kNoWritableSlot \<and> chan_idle K (pub_view v b r) c)" if loan: "write_loan_of K h l i loan" for l t i loan
  proof -
    have slot: "the (wl_slot loan) = slot_off K i" using loan by (simp add: write_loan_of_def)
    show ?thesis
      unfolding slot
      by (rule cthr.triple_bind [OF triple_loan_fill [OF P]], rule cthr.triple_bind [OF triple_commit [OF P loan b]])
        (auto intro!: cthr.triple_Ret simp: commit_post_def split: prod.splits)
  qed
  show ?thesis
    unfolding loan_publish_def try_bind_def
  proof (rule cthr.triple_bind [OF triple_loan [OF P geo]], goal_cases)
    case (1 r)
    show ?case
    proof (cases r)
      case (Inl e)
      then show ?thesis
        by (simp add: loan_post_def [abs_def], intro chan_triple_pure cthr.triple_Ret) (simp_all add: pub_view_def)
    next
      case (Inr loan)
      then show ?thesis
        by (simp add: loan_post_def [abs_def], intro chan_triple_ex chan_triple_pure held)
    qed
  qed
qed

lemma triple_loan_abort:
  assumes P: "producer_of K h" and geo: "channel_geometry (cx_size K) (cx_stride K)"
  shows "cthr.triple K (tv_id v) (chan_idle K v) (loan_abort h b) (\<lambda>_. chan_idle K v)"
proof -
  have held: "cthr.triple K (tv_id v) (prod_in K v l t (Some (slot_off K i)) None (\<lambda>_. True))
      (bind (memcpy_to (cslot_payload_c (pd_object h) (the (wl_slot loan))) 0 b) (\<lambda>_.
       bind (producer_abort_loan_impl loan) (\<lambda>_. Ret (Inr ())))) (\<lambda>_. chan_idle K v)"
    if loan: "write_loan_of K h l i loan" for l t i loan
  proof -
    have slot: "the (wl_slot loan) = slot_off K i" using loan by (simp add: write_loan_of_def)
    show ?thesis
      unfolding slot
      by (rule cthr.triple_bind [OF triple_loan_fill [OF P]], rule cthr.triple_bind [OF triple_abort_loan [OF P loan]],
          rule cthr.triple_Ret) simp_all
  qed
  show ?thesis
    unfolding loan_abort_def try_bind_def
  proof (rule cthr.triple_bind [OF triple_loan [OF P geo]], goal_cases)
    case (1 r)
    show ?case
      by (cases r)
        (simp_all add: loan_post_def [abs_def], (intro chan_triple_pure cthr.triple_Ret, simp_all)[1],
         intro chan_triple_ex chan_triple_pure held)
  qed
qed

end
