(* ===== verification/ER_Chan_Take.thy ===== *)
theory ER_Chan_Take
  imports ER_Chan_Publish
begin

text \<open>
  The steps of the consumer of a channel, one lemma per atomic step: taking and leaving the handle,
  reading the latest ticket, claiming a slot, checking the ticket again, taking the sample of the slot
  in hand and giving the slot back.
\<close>


subsection \<open>The steps of the consumer\<close>

lemma handle_keep: "v_handle v = h \<Longrightarrow> v_cin v = p \<Longrightarrow> v\<lparr>v_handle := h, v_cin := p\<rparr> = v"
  by auto

lemma cons_step:
  assumes at: "chan_at K v (w, g)" and prod: "cg_prod g \<noteq> Some (tv_id v)"
    and mine: "cg_cons g = Some (tv_id v) \<or> cg_cons g = None" "po = Some (tv_id v) \<or> po = None"
    and view: "chan_view K w' = (set_vslot off x (chan_view K w))\<lparr>v_handle := h, v_cin := p\<rparr>"
    and ghost: "g' = g\<lparr>cg_cons := po, cg_target := tg, cg_read := hand, cg_reads := cg_reads g @ map (Pair (tv_id v)) es\<rparr>"
    and tg: "tg = cg_target g \<or> tg = latest_slot K (v_ticket (chan_view K w))"
    and h: "cg_cons g = Some (tv_id v) \<or> h = v_handle (chan_view K w)"
    and slot: "cg_write g \<noteq> Some off \<or> x = v_slots (chan_view K w) off"
      "readable x = readable (v_slots (chan_view K w) off)"
    and inv: "chan_vinv K ((set_vslot off x (chan_view K w))\<lparr>v_handle := h, v_cin := p\<rparr>) g'"
    and v': "v' = v\<lparr>tv_reads := tv_reads v @ es, tv_base := l\<rparr>" "prefix l (cg_log g)"
  shows "chan_guar K (tv_id v) (w, g) (w', g') \<and> (po = None \<longrightarrow> chan_idle K v' (w', g')) \<and>
    (po = Some (tv_id v) \<longrightarrow> (\<forall>off'. hand = Some off' \<longrightarrow> S (v_slots (set_vslot off x (chan_view K w)) off')) \<longrightarrow>
      cons_in K v' h (cg_reads g @ map (Pair (tv_id v)) es) tg hand S (w', g'))"
proof (intro conjI impI)
  show G: "chan_guar K (tv_id v) (w, g) (w', g')"
    by (rule cons_guar [OF view ghost mine tg h slot]) (use inv view in \<open>simp add: chan_inv_def\<close>)
  have at': "chan_at K v' (w', g')"
    by (rule chan_at_step [OF at G]) (use at v'(2) in \<open>simp_all add: v'(1) ghost chan_at_def\<close>)
  show "po = None \<Longrightarrow> chan_idle K v' (w', g')"
    using at' prod by (simp add: chan_idle_def v'(1) ghost)
  assume "po = Some (tv_id v)" and "\<forall>off'. hand = Some off' \<longrightarrow> S (v_slots (set_vslot off x (chan_view K w)) off')"
  then show "cons_in K v' h (cg_reads g @ map (Pair (tv_id v)) es) tg hand S (w', g')"
    using at' prod by (simp add: cons_in_def v'(1) ghost view)
qed

lemma cons_inD:
  assumes "cons_in K v h rs tg hand S (w, g)"
  shows "chan_at K v (w, g)" "chan_vinv K (chan_view K w) g" "cg_cons g = Some (tv_id v)" "cg_prod g \<noteq> Some (tv_id v)"
    "cg_reads g = rs" "v_handle (chan_view K w) = h" "cg_target g = tg" "cg_read g = hand" "v_cin (chan_view K w)"
    "hand = Some off \<Longrightarrow> S (v_slots (chan_view K w) off)" "prefix (tv_base v) (cg_log g)"
  using assms chan_at_inv [of K v w g] chan_vinvD(6) [of K "chan_view K w" g]
  by (auto simp: cons_in_def cons_ok_def chan_at_def)

lemma base_same [simp]: "v\<lparr>tv_reads := tv_reads v, tv_base := tv_base v\<rparr> = v" "v\<lparr>tv_reads := tv_reads v @ [], tv_base := tv_base v\<rparr> = v"
  by simp_all

text \<open>The consumer handle is in use and no slot is in hand.\<close>

definition cons_free :: "chan_ctx \<Rightarrow> tview \<Rightarrow> chan_config \<Rightarrow> bool" where
  "cons_free K v c \<longleftrightarrow> (\<exists>h rs tg. cn_first_sample h = (rs = []) \<and> cons_in K v h rs tg None (\<lambda>_. True) c)"

lemma stable_cons_free [simp]: "cthr.stable K (tv_id v) (cons_free K v)"
  unfolding cons_free_def [abs_def] by simp

lemma stable_cons_free' [simp]: "tv_id v = i \<Longrightarrow> cthr.stable K i (cons_free K v)"
  using stable_cons_free by blast

lemma view_only_ex: "(\<And>x. view_only K (P x)) \<Longrightarrow> view_only K (\<lambda>c. \<exists>x. P x c)"
  unfolding view_only_def by blast

lemma view_only_cons_free [simp]: "view_only K (cons_free K v)"
  unfolding cons_free_def [abs_def] by (intro view_only_ex view_only_conj view_only_at)

lemma cons_enter_step:
  assumes "chan_idle K v (w, g)" and "\<not> v_cin (chan_view K w)"
  shows "\<exists>g'. chan_guar K (tv_id v) (w, g) (wr (cn_in_use_c (cx_cons K)) True w, g') \<and>
    cons_free K v (wr (cn_in_use_c (cx_cons K)) True w, g')"
proof -
  have at: "chan_at K v (w, g)" and prod: "cg_prod g \<noteq> Some (tv_id v)" using assms(1) by (simp_all add: chan_idle_def)
  have none: "cg_cons g = None" "cg_read g = None" "cn_first_sample (v_handle (chan_view K w)) = (cg_reads g = [])"
    using chan_vinvD(6) [OF chan_at_inv [OF at]] assms(2) by (auto simp: cons_ok_def)
  have base: "prefix (tv_base v) (cg_log g)" using at by (simp add: chan_at_def)
  let ?g = "g\<lparr>cg_cons := Some (tv_id v)\<rparr>"
  let ?w = "wr (cn_in_use_c (cx_cons K)) True w"
  let ?view = "(set_vslot 0 (v_slots (chan_view K w) 0) (chan_view K w))\<lparr>v_handle := v_handle (chan_view K w), v_cin := True\<rparr>"
  have view: "chan_view K ?w = ?view" by (simp add: run_simps)
  have inv: "chan_vinv K ?view ?g"
    using vinv_take_cons [OF chan_at_inv [OF at] assms(2)] by simp
  note step = cons_step [OF at prod _ _ view _ _ _ _ _ inv _ base, where po = "Some (tv_id v)" and hand = None
      and tg = "cg_target g" and es = "[]" and v' = v and S = "\<lambda>_. True"]
  have "chan_guar K (tv_id v) (w, g) (?w, ?g) \<and> cons_in K v (v_handle (chan_view K w)) (cg_reads g) (cg_target g) None (\<lambda>_. True) (?w, ?g)"
    using step none by auto
  then show ?thesis
    using none(3) unfolding cons_free_def by blast
qed

lemma triple_cons_enter:
  "cthr.triple K (tv_id v) (chan_idle K v) (shared_exchange (cn_in_use_c (cx_cons K)) True)
     (\<lambda>busy c. if busy then chan_idle K v c else cons_free K v c)"
  unfolding shared_exchange_def
proof (rule cthr.triple_Act)
  fix w g assume idle: "chan_idle K v (w, g)"
  show "\<exists>g'. chan_guar K (tv_id v) (w, g) (wr (cn_in_use_c (cx_cons K)) True w, g') \<and>
      (if rd (cn_in_use_c (cx_cons K)) w then chan_idle K v (wr (cn_in_use_c (cx_cons K)) True w, g')
       else cons_free K v (wr (cn_in_use_c (cx_cons K)) True w, g'))"
  proof (cases "v_cin (chan_view K w)")
    case True
    then have same: "chan_view K (wr (cn_in_use_c (cx_cons K)) True w) = chan_view K w"
      by (simp add: run_simps)
    then have "chan_idle K v (wr (cn_in_use_c (cx_cons K)) True w, g)"
      using view_only_at(2) [of K v] idle unfolding view_only_def by blast
    then show ?thesis using same_view_guar [OF same] True by (auto simp: run_simps)
  next
    case False
    then show ?thesis using cons_enter_step [OF idle False] by (simp add: run_simps)
  qed
qed (simp_all add: stable_chan_if)

lemma triple_cons_try:
  "cthr.triple K (tv_id v) (chan_idle K v) (shared_cas (cn_in_use_c (cx_cons K)) False True)
     (\<lambda>won c. if won then cons_free K v c else chan_idle K v c)"
proof (rule cthr.triple_cas)
  fix w g assume "chan_idle K v (w, g)" and "rd (cn_in_use_c (cx_cons K)) w = False"
  then show "\<exists>g'. chan_guar K (tv_id v) (w, g) (wr (cn_in_use_c (cx_cons K)) True w, g') \<and>
      (if True then cons_free K v (wr (cn_in_use_c (cx_cons K)) True w, g')
       else chan_idle K v (wr (cn_in_use_c (cx_cons K)) True w, g'))"
    using cons_enter_step [of K v w g] by (simp add: run_simps)
qed (simp_all add: stable_chan_if)

lemma triple_cons_leave:
  "cthr.triple K (tv_id v) (cons_free K v) (shared_store (cn_in_use_c (cx_cons K)) False) (\<lambda>_. chan_idle K v)"
proof (rule cthr.triple_store)
  fix w g assume "cons_free K v (w, g)"
  then obtain h rs tg where C: "cons_in K v h rs tg None (\<lambda>_. True) (w, g)" and first: "cn_first_sample h = (rs = [])"
    by (auto simp: cons_free_def)
  note D = cons_inD [OF C]
  let ?g = "g\<lparr>cg_cons := None\<rparr>"
  let ?w = "wr (cn_in_use_c (cx_cons K)) False w"
  let ?view = "(set_vslot 0 (v_slots (chan_view K w) 0) (chan_view K w))\<lparr>v_handle := v_handle (chan_view K w), v_cin := False\<rparr>"
  have view: "chan_view K ?w = ?view" by (simp add: run_simps)
  have inv: "chan_vinv K ?view ?g"
  proof -
    have "?view = (chan_view K w)\<lparr>v_cin := False\<rparr>" by simp
    moreover have "cn_first_sample (v_handle (chan_view K w)) = (cg_reads g = [])" using D(5,6) first by simp
    ultimately show ?thesis using vinv_drop_cons [OF D(2,8)] by simp
  qed
  show "\<exists>g'. chan_guar K (tv_id v) (w, g) (?w, g') \<and> chan_idle K v (?w, g')"
    using cons_step [OF D(1) D(4) _ _ view _ _ _ _ _ inv _ D(11), where po = None and hand = None and tg = "cg_target g"
        and es = "[]" and v' = v and S = "\<lambda>_. True"] D(3,5,8) by (intro exI [of _ ?g]) auto
qed simp_all

text \<open>Reading the latest ticket makes its slot the target.\<close>

definition ticket_post ::
  "chan_ctx \<Rightarrow> tview \<Rightarrow> ConsumerHandle \<Rightarrow> (nat \<times> sample) list \<Rightarrow> u64 \<Rightarrow> chan_config \<Rightarrow> bool" where
  "ticket_post K v h rs a c \<longleftrightarrow>
     (\<exists>l. prefix (tv_base v) l \<and> unat (ticket_sequence a) = length l \<and> (a = 0 \<longleftrightarrow> l = []) \<and>
        (a \<noteq> 0 \<longrightarrow> ticket_slot a < kSlotCount) \<and>
        cons_in K (v\<lparr>tv_base := l\<rparr>) h rs (latest_slot K a) None (\<lambda>_. True) c)"

lemma stable_cons_in' [simp]: "tv_id v = i \<Longrightarrow> cthr.stable K i (cons_in K v h rs tg hand S)"
  using stable_cons_in by blast

lemma stable_ticket_post [simp]: "cthr.stable K (tv_id v) (ticket_post K v h rs a)"
  unfolding ticket_post_def [abs_def] by (intro stable_chan_ex stable_chan_conj) simp

lemma latest_facts:
  assumes inv: "chan_vinv K v g"
  shows "unat (ticket_sequence (v_ticket v)) = length (cg_log g)" and "v_ticket v = 0 \<longleftrightarrow> cg_log g = []"
    and "v_ticket v \<noteq> 0 \<Longrightarrow> ticket_slot (v_ticket v) < kSlotCount"
    and "v_ticket v \<noteq> 0 \<Longrightarrow> slot_holds (v_slots v (slot_off K (ticket_slot (v_ticket v)))) (snd (last (cg_log g)))"
proof -
  note T = latest_ok_ticket [OF chan_vinvD(3,2) [OF inv]]
  show "unat (ticket_sequence (v_ticket v)) = length (cg_log g)" by (rule T(3))
  show nz: "v_ticket v = 0 \<longleftrightarrow> cg_log g = []" using T(1,2) by blast
  then show "v_ticket v \<noteq> 0 \<Longrightarrow> ticket_slot (v_ticket v) < kSlotCount"
    and "v_ticket v \<noteq> 0 \<Longrightarrow> slot_holds (v_slots v (slot_off K (ticket_slot (v_ticket v)))) (snd (last (cg_log g)))"
    using T(2) by auto
qed

lemma triple_cons_ticket:
  "cthr.triple K (tv_id v) (cons_in K v h rs tg None (\<lambda>_. True)) (shared_load (latest_ticket_c (cx_object K)))
     (ticket_post K v h rs)"
  unfolding shared_load_def
proof (rule cthr.triple_Act)
  fix w g assume C: "cons_in K v h rs tg None (\<lambda>_. True) (w, g)"
  note D = cons_inD [OF C]
  let ?t = "v_ticket (chan_view K w)"
  let ?g = "g\<lparr>cg_target := latest_slot K ?t\<rparr>"
  let ?v = "v\<lparr>tv_base := cg_log g\<rparr>"
  have keep: "(set_vslot 0 (v_slots (chan_view K w) 0) (chan_view K w))\<lparr>v_handle := h, v_cin := True\<rparr> = chan_view K w"
    using D(6,9) by (subst handle_keep) simp_all
  have inv: "chan_vinv K ((set_vslot 0 (v_slots (chan_view K w) 0) (chan_view K w))\<lparr>v_handle := h, v_cin := True\<rparr>) ?g"
    unfolding keep by (rule vinv_target [OF D(2,8)])
  have "chan_guar K (tv_id v) (w, g) (w, ?g) \<and> cons_in K ?v h rs (latest_slot K ?t) None (\<lambda>_. True) (w, ?g)"
    using cons_step [OF D(1) D(4) _ _ keep [symmetric] _ _ _ _ _ inv _ prefix_order.refl, where po = "Some (tv_id v)" and hand = None
        and tg = "latest_slot K ?t" and es = "[]" and v' = ?v and S = "\<lambda>_. True"] D(3,5,8) by simp
  then show "\<exists>g'. chan_guar K (tv_id v) (w, g) (w, g') \<and> ticket_post K v h rs (rd (latest_ticket_c (cx_object K)) w) (w, g')"
    using latest_facts [OF D(2)] D(11) unfolding ticket_post_def chan_cell_access view_of by blast
qed simp_all

text \<open>Claiming the target.\<close>

lemma triple_cons_claim:
  assumes i: "i < kSlotCount"
  shows "cthr.triple K (tv_id v) (cons_in K v h rs (Some (slot_off K i)) None (\<lambda>_. True))
    (slot_claim_readable (cx_object K) (slot_off K i))
    (\<lambda>won c. if won
       then \<exists>m. length (sm_bytes m) = unat (cx_size K) \<and>
         cons_in K v h rs (Some (slot_off K i)) (Some (slot_off K i)) (\<lambda>y. slot_holds y m) c
       else cons_in K v h rs (Some (slot_off K i)) None (\<lambda>_. True) c)"
  unfolding slot_claim_readable_def
proof (rule cthr.triple_cas)
  fix w g assume C: "cons_in K v h rs (Some (slot_off K i)) None (\<lambda>_. True) (w, g)"
    and st: "rd (cslot_state_c (cx_object K) (slot_off K i)) w = chan_word ChanPublished"
  note D = cons_inD [OF C]
  let ?off = "slot_off K i"
  let ?x = "v_slots (chan_view K w) ?off"
  let ?y = "?x\<lparr>cs_state := chan_word ChanReadingClaiming\<rparr>"
  let ?w = "wr (cslot_state_c (cx_object K) ?off) (chan_word ChanReadingClaiming) w"
  let ?g = "g\<lparr>cg_read := Some ?off\<rparr>"
  let ?view = "(set_vslot ?off ?y (chan_view K w))\<lparr>v_handle := h, v_cin := True\<rparr>"
  have slot: "is_slot K ?off" using i by (rule is_slot_index)
  have pub: "readable ?x" "cg_write g \<noteq> Some ?off"
    using st slot_okD(2) [OF chan_vinvD(4) [OF D(2) slot]] by (auto simp: run_simps)
  obtain m where m: "slot_holds ?x m" using slot_okD(4) [OF chan_vinvD(4) [OF D(2) slot] pub(1)] by blast
  have size: "length (sm_bytes m) = unat (cx_size K)"
    using m chan_vinvD(7) [OF D(2) slot pub(1)] by (simp add: slot_holds_def)
  have keep: "?view = set_vslot ?off ?y (chan_view K w)" using D(6,9) by (subst handle_keep) simp_all
  have view: "chan_view K ?w = ?view" unfolding keep by (simp add: run_simps)
  have inv: "chan_vinv K ?view ?g"
    unfolding keep by (rule vinv_reader [OF D(2) slot pub(1)]) (use D in simp_all)
  have "slot_holds ?y m" using m by (simp add: slot_holds_def)
  then have "chan_guar K (tv_id v) (w, g) (?w, ?g) \<and> cons_in K v h rs (Some ?off) (Some ?off) (\<lambda>y. slot_holds y m) (?w, ?g)"
    using cons_step [OF D(1) D(4) _ _ view _ _ _ _ _ inv _ D(11), where po = "Some (tv_id v)" and hand = "Some ?off"
        and tg = "Some ?off" and es = "[]" and v' = v and S = "\<lambda>y. slot_holds y m"] D(3,5,7) pub by simp
  then show "\<exists>g'. chan_guar K (tv_id v) (w, g) (?w, g') \<and>
      (if True then \<exists>m. length (sm_bytes m) = unat (cx_size K) \<and> cons_in K v h rs (Some ?off) (Some ?off) (\<lambda>y. slot_holds y m) (?w, g')
       else cons_in K v h rs (Some ?off) None (\<lambda>_. True) (?w, g'))"
    using size by auto
qed (simp_all add: stable_chan_if)

text \<open>Steps on the slot in hand.\<close>

lemma cons_hand_slot:
  assumes "cons_in K v h rs tg (Some off) S (w, g)"
  shows "is_slot K off" and "in_hand (v_slots (chan_view K w) off)" and "cg_write g \<noteq> Some off" and "cg_target g = Some off"
proof -
  note D = cons_inD [OF assms]
  show slot: "is_slot K off" and "cg_target g = Some off" using chan_vinvD(6) [OF D(2)] D(8) by (simp_all add: cons_ok_def)
  show hand: "in_hand (v_slots (chan_view K w) off)"
    using slot_okD(3) [OF chan_vinvD(4) [OF D(2) slot]] D(8) by simp
  show "cg_write g \<noteq> Some off"
    using slot_okD(2) [OF chan_vinvD(4) [OF D(2) slot]] hand by (auto simp: in_hand_def)
qed

lemma hand_step:
  assumes C: "cons_in K v h rs tg (Some off) (\<lambda>y. slot_holds y m) (w, g)"
    and y: "same_content y (v_slots (chan_view K w) off)" "readable y" "in_hand y \<longleftrightarrow> hand = Some off"
    and hand: "hand = Some off \<or> hand = None"
    and view: "chan_view K w' = set_vslot off y (chan_view K w)"
  shows "\<exists>g'. chan_guar K (tv_id v) (w, g) (w', g') \<and> cons_in K v h rs tg hand (\<lambda>y. slot_holds y m) (w', g')"
proof -
  note D = cons_inD [OF C] and H = cons_hand_slot [OF C]
  let ?g = "g\<lparr>cg_read := hand\<rparr>"
  let ?view = "(set_vslot off y (chan_view K w))\<lparr>v_handle := h, v_cin := True\<rparr>"
  have keep: "?view = set_vslot off y (chan_view K w)" using D(6,9) by (subst handle_keep) simp_all
  have view': "chan_view K w' = ?view" unfolding keep by (rule view)
  have inv: "chan_vinv K ?view ?g"
    unfolding keep by (rule vinv_reader [OF D(2) H(1)]) (use D H y hand in simp_all)
  have "slot_holds y m" using y(1) D(10) by (simp add: same_content_def)
  then show ?thesis
    using cons_step [OF D(1) D(4) _ _ view' _ _ _ _ _ inv _ D(11), where po = "Some (tv_id v)" and hand = hand
        and tg = tg and es = "[]" and v' = v and S = "\<lambda>y. slot_holds y m"] D(3,5,7) H y(2) hand
    by (intro exI [of _ ?g]) auto
qed

lemma triple_hand_reader:
  "cthr.triple K (tv_id v) (cons_in K v h rs tg (Some off) (\<lambda>y. slot_holds y m))
     (shared_store (cslot_reader_c (cx_object K) off) e) (\<lambda>_. cons_in K v h rs tg (Some off) (\<lambda>y. slot_holds y m))"
proof (rule cthr.triple_store)
  fix w g assume C: "cons_in K v h rs tg (Some off) (\<lambda>y. slot_holds y m) (w, g)"
  show "\<exists>g'. chan_guar K (tv_id v) (w, g) (wr (cslot_reader_c (cx_object K) off) e w, g') \<and>
      cons_in K v h rs tg (Some off) (\<lambda>y. slot_holds y m) (wr (cslot_reader_c (cx_object K) off) e w, g')"
    by (rule hand_step [OF C, where y = "(v_slots (chan_view K w) off)\<lparr>cs_reader_role_epoch := e\<rparr>"])
      (use cons_hand_slot(2) [OF C] in \<open>auto simp: run_simps readable_def in_hand_def\<close>)
qed simp_all

lemma triple_mark_reading:
  "cthr.triple K (tv_id v) (cons_in K v h rs tg (Some off) (\<lambda>y. slot_holds y m))
     (slot_mark_reading (cx_object K) off e) (\<lambda>_. cons_in K v h rs tg (Some off) (\<lambda>y. slot_holds y m))"
  unfolding slot_mark_reading_def
proof (rule cthr.triple_bind [OF triple_hand_reader], rule cthr.triple_store)
  fix w g assume C: "cons_in K v h rs tg (Some off) (\<lambda>y. slot_holds y m) (w, g)"
  show "\<exists>g'. chan_guar K (tv_id v) (w, g) (wr (cslot_state_c (cx_object K) off) (chan_word ChanReading) w, g') \<and>
      cons_in K v h rs tg (Some off) (\<lambda>y. slot_holds y m) (wr (cslot_state_c (cx_object K) off) (chan_word ChanReading) w, g')"
    by (rule hand_step [OF C, where y = "(v_slots (chan_view K w) off)\<lparr>cs_state := chan_word ChanReading\<rparr>"])
      (auto simp: run_simps)
qed simp_all

lemma triple_release_read:
  "cthr.triple K (tv_id v) (cons_in K v h rs tg (Some off) (\<lambda>y. slot_holds y m))
     (slot_release_read (cx_object K) off) (\<lambda>_. cons_in K v h rs tg None (\<lambda>_. True))"
  unfolding slot_release_read_def
proof (rule cthr.triple_bind [OF triple_hand_reader], rule cthr.triple_store)
  fix w g assume C: "cons_in K v h rs tg (Some off) (\<lambda>y. slot_holds y m) (w, g)"
  have "\<exists>g'. chan_guar K (tv_id v) (w, g) (wr (cslot_state_c (cx_object K) off) (chan_word ChanPublished) w, g') \<and>
      cons_in K v h rs tg None (\<lambda>y. slot_holds y m) (wr (cslot_state_c (cx_object K) off) (chan_word ChanPublished) w, g')"
    by (rule hand_step [OF C, where y = "(v_slots (chan_view K w) off)\<lparr>cs_state := chan_word ChanPublished\<rparr>"])
      (auto simp: run_simps)
  then show "\<exists>g'. chan_guar K (tv_id v) (w, g) (wr (cslot_state_c (cx_object K) off) (chan_word ChanPublished) w, g') \<and>
      cons_in K v h rs tg None (\<lambda>_. True) (wr (cslot_state_c (cx_object K) off) (chan_word ChanPublished) w, g')"
    by (auto simp: cons_in_def)
qed simp_all

text \<open>A slot has one sample, and the slot of a ticket can be read off it whatever the sequence.\<close>

lemma slot_holds_unique: "slot_holds x m \<Longrightarrow> slot_holds x m' \<Longrightarrow> m = m'"
  by (cases m, cases m') (auto simp: slot_holds_def)

lemma ticket_slot_make:
  assumes "i < kSlotCount"
  shows "ticket_slot (make_ticket s i) = i"
proof -
  have i: "unat i < 4" using assms by (simp add: kSlotCount_def word_less_nat_alt)
  have mask: "x AND 3 = take_bit 2 x" "y AND 3 = take_bit 2 y" for x :: u64 and y :: u32
    by (simp_all add: and_3_u64 and_3_u32 take_bit_eq_mod)
  have "ticket_slot (make_ticket s i) = take_bit 2 i"
    unfolding ticket_slot_def make_ticket_def mask by (rule bit_word_eqI) (auto simp: bit_simps)
  also have "\<dots> = i" using i by (simp add: take_bit_eq_mod word_unat_eq_iff unat_mod)
  finally show ?thesis .
qed

text \<open>Looking again: if the slot in hand has the latest ticket, it has the sample published last.\<close>

definition recheck_post where
  "recheck_post K v h rs i m a c \<longleftrightarrow>
     (if a = make_ticket (sm_sequence m) i
      then \<exists>l. prefix (tv_base v) l \<and> l \<noteq> [] \<and> snd (last l) = m \<and> unat (sm_sequence m) = length l \<and>
        cons_in K (v\<lparr>tv_base := l\<rparr>) h rs (Some (slot_off K i)) (Some (slot_off K i)) (\<lambda>y. slot_holds y m) c
      else cons_in K v h rs (Some (slot_off K i)) (Some (slot_off K i)) (\<lambda>y. slot_holds y m) c)"

lemma stable_recheck_post [simp]: "cthr.stable K (tv_id v) (recheck_post K v h rs i m a)"
  unfolding recheck_post_def [abs_def] by (intro stable_chan_if stable_chan_ex stable_chan_conj) simp_all

lemma triple_recheck:
  assumes i: "i < kSlotCount" and base: "tv_base v \<noteq> []"
  shows "cthr.triple K (tv_id v) (cons_in K v h rs (Some (slot_off K i)) (Some (slot_off K i)) (\<lambda>y. slot_holds y m))
    (shared_load (latest_ticket_c (cx_object K))) (recheck_post K v h rs i m)"
proof (rule cthr.triple_load)
  let ?off = "slot_off K i"
  fix w g assume C: "cons_in K v h rs (Some ?off) (Some ?off) (\<lambda>y. slot_holds y m) (w, g)"
  note D = cons_inD [OF C]
  let ?t = "v_ticket (chan_view K w)"
  have "\<exists>l. prefix (tv_base v) l \<and> l \<noteq> [] \<and> snd (last l) = m \<and> unat (sm_sequence m) = length l \<and>
      cons_in K (v\<lparr>tv_base := l\<rparr>) h rs (Some ?off) (Some ?off) (\<lambda>y. slot_holds y m) (w, g)"
    if t: "?t = make_ticket (sm_sequence m) i"
  proof (intro exI [of _ "cg_log g"] conjI)
    have idx: "ticket_slot ?t = i" unfolding t by (rule ticket_slot_make [OF i])
    have hold: "slot_holds (v_slots (chan_view K w) ?off) m" using D(10) by simp
    show ne: "cg_log g \<noteq> []" using base D(11) by auto
    then have "slot_holds (v_slots (chan_view K w) ?off) (snd (last (cg_log g)))"
      using latest_facts(2,4) [OF D(2)] idx by auto
    then show m: "snd (last (cg_log g)) = m" using hold by (rule slot_holds_unique)
    show "unat (sm_sequence m) = length (cg_log g)"
      using log_ok_last(1) [OF chan_vinvD(2) [OF D(2)] ne] m by simp
    show "prefix (tv_base v) (cg_log g)" by (rule D(11))
    show "cons_in K (v\<lparr>tv_base := cg_log g\<rparr>) h rs (Some ?off) (Some ?off) (\<lambda>y. slot_holds y m) (w, g)"
      using C by (auto simp: cons_in_def chan_at_def)
  qed
  then show "recheck_post K v h rs i m (rd (latest_ticket_c (cx_object K)) w) (w, g)"
    using C by (simp add: recheck_post_def run_simps)
qed simp_all


text \<open>Taking the sample: the handle remembers its sequence, and the log of reads gets it.\<close>

abbreviation add_read :: "tview \<Rightarrow> sample \<Rightarrow> tview" where
  "add_read v m \<equiv> v\<lparr>tv_reads := tv_reads v @ [m]\<rparr>"

lemma triple_take:
  assumes m: "m \<in> snd ` set (tv_base v)" and seq: "cn_last_sequence h < sm_sequence m"
  shows "cthr.triple K (tv_id v) (cons_in K v h rs tg (Some off) S)
    (shared_store (cn_last_sequence_c (cx_cons K)) (sm_sequence m))
    (\<lambda>_. cons_in K (add_read v m) (h\<lparr>cn_last_sequence := sm_sequence m\<rparr>) (rs @ [(tv_id v, m)]) tg (Some off) S)"
proof (rule cthr.triple_store)
  let ?v = "add_read v m"
  let ?h = "h\<lparr>cn_last_sequence := sm_sequence m\<rparr>"
  fix w g assume C: "cons_in K v h rs tg (Some off) S (w, g)"
  note D = cons_inD [OF C]
  let ?w = "wr (cn_last_sequence_c (cx_cons K)) (sm_sequence m) w"
  let ?g = "g\<lparr>cg_reads := cg_reads g @ [(tv_id v, m)]\<rparr>"
  let ?view = "(set_vslot 0 (v_slots (chan_view K w) 0) (chan_view K w))\<lparr>v_handle := ?h, v_cin := True\<rparr>"
  have keep: "?view = (chan_view K w)\<lparr>v_handle := (v_handle (chan_view K w))\<lparr>cn_last_sequence := sm_sequence m\<rparr>\<rparr>"
    using D(6,9) by simp
  have view: "chan_view K ?w = ?view" unfolding keep by (simp add: run_simps)
  have "m \<in> snd ` set (cg_log g)" using m D(11) by (auto simp: prefix_def)
  then have inv: "chan_vinv K ?view ?g"
    unfolding keep by (intro vinv_take [OF D(2,3)]) (use D(6) seq in simp_all)
  show "\<exists>g'. chan_guar K (tv_id v) (w, g) (?w, g') \<and> cons_in K ?v ?h (rs @ [(tv_id v, m)]) tg (Some off) S (?w, g')"
    using cons_step [OF D(1) D(4) _ _ view _ _ _ _ _ inv _ D(11), where po = "Some (tv_id v)" and hand = "Some off"
        and tg = tg and es = "[m]" and v' = ?v and S = S] D(3,5,7,8,10) by (intro exI [of _ ?g]) auto
qed simp_all

lemma triple_first:
  "cthr.triple K (tv_id v) (cons_in K v h rs tg (Some off) S) (shared_store (cn_first_sample_c (cx_cons K)) b)
    (\<lambda>_. cons_in K v (h\<lparr>cn_first_sample := b\<rparr>) rs tg (Some off) S)"
proof (rule cthr.triple_store)
  let ?h = "h\<lparr>cn_first_sample := b\<rparr>"
  fix w g assume C: "cons_in K v h rs tg (Some off) S (w, g)"
  note D = cons_inD [OF C]
  let ?w = "wr (cn_first_sample_c (cx_cons K)) b w"
  let ?view = "(set_vslot 0 (v_slots (chan_view K w) 0) (chan_view K w))\<lparr>v_handle := ?h, v_cin := True\<rparr>"
  have keep: "?view = (chan_view K w)\<lparr>v_handle := (v_handle (chan_view K w))\<lparr>cn_first_sample := b\<rparr>\<rparr>"
    using D(6,9) by simp
  have view: "chan_view K ?w = ?view" unfolding keep by (simp add: run_simps)
  have inv: "chan_vinv K ?view g"
    unfolding keep by (rule vinv_first [OF D(2,3)])
  show "\<exists>g'. chan_guar K (tv_id v) (w, g) (?w, g') \<and> cons_in K v ?h rs tg (Some off) S (?w, g')"
    using cons_step [OF D(1) D(4) _ _ view _ _ _ _ _ inv _ D(11), where po = "Some (tv_id v)" and hand = "Some off"
        and tg = tg and es = "[]" and v' = v and S = S] D(3,5,7,8,10) by (intro exI [of _ g]) auto
qed simp_all

text \<open>Loads from the slot in hand and from the handle.\<close>

lemma triple_hand_load:
  assumes "\<And>w. S (v_slots (chan_view K w) off) \<Longrightarrow> rd c w = a"
  shows "cthr.triple K (tv_id v) (cons_in K v h rs tg (Some off) S) (shared_load c)
    (\<lambda>x d. x = a \<and> cons_in K v h rs tg (Some off) S d)"
  by (rule cthr.triple_load) (auto intro: assms dest: cons_inD(10))

lemma triple_cons_handle:
  "cthr.triple K (tv_id v) (cons_in K v h rs tg hand S) (shared_load (cons_c (cx_cons K)))
     (\<lambda>x d. plain_handle x = h \<and> cons_in K v h rs tg hand S d)"
  by (rule cthr.triple_load) (auto simp: run_simps dest: cons_inD(6))

lemma triple_hand_memcpy:
  assumes "length (sm_bytes m) = i + n"
  shows "cthr.triple K (tv_id v) (cons_in K v h rs tg (Some off) (\<lambda>y. slot_holds y m))
     (memcpy_from (cslot_payload_c (cx_object K) off) i n)
     (\<lambda>bs c. bs = drop i (sm_bytes m) \<and> cons_in K v h rs tg (Some off) (\<lambda>y. slot_holds y m) c)"
  using assms
proof (induction n arbitrary: i)
  case 0
  then show ?case by (simp, intro cthr.triple_Ret) simp_all
next
  case (Suc n)
  let ?C = "cons_in K v h rs tg (Some off) (\<lambda>y. slot_holds y m)"
  have i: "i < length (sm_bytes m)" using Suc.prems by simp
  have byte: "cs_payload x i = sm_bytes m ! i" if "slot_holds x m" for x
  proof -
    have "cs_payload x i = map (cs_payload x) [0..<length (sm_bytes m)] ! i" using i by simp
    also have "\<dots> = sm_bytes m ! i" using that by (simp only: slot_holds_def)
    finally show ?thesis .
  qed
  have load: "cthr.triple K (tv_id v) ?C (shared_load (cslot_payload_c (cx_object K) off i)) (\<lambda>b c. b = sm_bytes m ! i \<and> ?C c)"
    by (rule triple_hand_load) (use byte in \<open>simp add: run_simps\<close>)
  have rest: "cthr.triple K (tv_id v) ?C
      (bind (memcpy_from (cslot_payload_c (cx_object K) off) (Suc i) n) (\<lambda>bs. Ret (sm_bytes m ! i # bs)))
      (\<lambda>bs c. bs = drop i (sm_bytes m) \<and> ?C c)"
    by (rule cthr.triple_bind [OF Suc.IH], use Suc.prems in simp, rule cthr.triple_Ret)
      (use i in \<open>auto simp: Cons_nth_drop_Suc\<close>)
  show ?case
    unfolding memcpy_from.simps
    by (rule cthr.triple_bind [OF load], rule chan_triple_pure) (use rest in simp)
qed

end
