(* ===== verification/ER_Chan_Read.thy ===== *)
theory ER_Chan_Read
  imports ER_Chan_Take
begin

text \<open>
  Claiming the latest sample and reading it under interference: a claim either finds nothing new or
  puts a slot with a published, complete and newest sample in the hand of the thread, which keeps it
  unchanged until it is given back. Also kept is what the reader is told of the samples it missed.
\<close>


subsection \<open>Operations of the consumer\<close>

text \<open>The snapshot of a sample taken with the handle \<open>h\<close>.\<close>

definition snap_of_sample :: "ConsumerHandle \<Rightarrow> sample \<Rightarrow> ReadSnapshot \<Rightarrow> bool" where
  "snap_of_sample h m snap \<longleftrightarrow>
     unat (rs_encoded_size snap) = length (sm_bytes m) \<and> rs_checksum_ok snap \<and>
     rs_sample_sequence snap = sm_sequence m \<and> rs_publish_boot_ns snap = sm_publish_ns m \<and>
     rs_generation snap = cn_generation h \<and> rs_instance_nonce snap = pack_nonce h \<and>
     rs_missed_samples snap =
       (if cn_first_sample h then 0 else saturated_gap (cn_last_sequence h) (sm_sequence m))"

definition after_take :: "ConsumerHandle \<Rightarrow> sample \<Rightarrow> ConsumerHandle" where
  "after_take h m = h\<lparr>cn_last_sequence := sm_sequence m, cn_first_sample := False\<rparr>"

definition claim_errors :: "ErrorCode set" where
  "claim_errors = {kNoNewSample, kReadContention, kClockAnomaly}"

definition claimed_post ::
  "chan_ctx \<Rightarrow> tview \<Rightarrow> ConsumerHandle \<Rightarrow> (nat \<times> sample) list \<Rightarrow> ClaimedRead result \<Rightarrow> chan_config \<Rightarrow> bool" where
  "claimed_post K v h rs r c \<longleftrightarrow>
     (case r of
        Inl e \<Rightarrow> e \<in> claim_errors \<and> (\<exists>tg. cons_in K v h rs tg None (\<lambda>_. True) c)
      | Inr cr \<Rightarrow> \<exists>m tg. snap_of_sample h m (cr_snapshot cr) \<and> length (sm_bytes m) = unat (cx_size K) \<and>
          length (tv_base v) \<le> unat (sm_sequence m) \<and>
          cons_in K (add_read v m) (after_take h m) (rs @ [(tv_id v, m)]) tg (Some (cr_slot cr)) (\<lambda>y. slot_holds y m) c)"

lemma stable_claimed_post [simp]: "cthr.stable K (tv_id v) (claimed_post K v h rs r)"
  by (cases r) (simp_all add: claimed_post_def [abs_def])

lemma claimed_postI:
  assumes "snap_of_sample h m (cr_snapshot cr)" and "length (sm_bytes m) = unat (cx_size K)"
    and "length (tv_base v) \<le> unat (sm_sequence m)"
    and "cons_in K (add_read v m) (after_take h m) (rs @ [(tv_id v, m)]) tg (Some (cr_slot cr)) (\<lambda>y. slot_holds y m) c"
  shows "claimed_post K v h rs (Inr cr) c"
  using assms unfolding claimed_post_def sum.case by blast

lemma cons_in_base:
  "cons_in K (v\<lparr>tv_base := l\<rparr>) h rs tg hand S c \<Longrightarrow> prefix (tv_base v) l \<Longrightarrow> cons_in K v h rs tg hand S c"
  by (auto simp: cons_in_def chan_at_def intro: prefix_order.trans)

lemma claimed_post_base:
  assumes "claimed_post K (v\<lparr>tv_base := l\<rparr>) h rs r c" and "prefix (tv_base v) l"
  shows "claimed_post K v h rs r c"
proof (cases r)
  case (Inl e)
  then obtain tg where "e \<in> claim_errors" "cons_in K (v\<lparr>tv_base := l\<rparr>) h rs tg None (\<lambda>_. True) c"
    using assms(1) by (auto simp: claimed_post_def)
  then show ?thesis using Inl cons_in_base [OF _ assms(2)] by (simp add: claimed_post_def) blast
next
  case (Inr cr)
  have "\<exists>m tg. snap_of_sample h m (cr_snapshot cr) \<and> length (sm_bytes m) = unat (cx_size K) \<and>
      length l \<le> unat (sm_sequence m) \<and>
      cons_in K (add_read (v\<lparr>tv_base := l\<rparr>) m) (after_take h m) (rs @ [(tv_id v, m)]) tg (Some (cr_slot cr)) (\<lambda>y. slot_holds y m) c"
    using assms(1) Inr by (simp add: claimed_post_def)
  moreover have "length (tv_base v) \<le> length l" using assms(2) by (rule prefix_length_le)
  moreover have "cons_in K (add_read v m) h' rs' tg (Some (cr_slot cr)) S c"
    if "cons_in K (add_read (v\<lparr>tv_base := l\<rparr>) m) h' rs' tg (Some (cr_slot cr)) S c" for m h' rs' tg S
    using that assms(2) by (auto simp: cons_in_def chan_at_def intro: prefix_order.trans)
  ultimately show ?thesis unfolding claimed_post_def Inr sum.case by (meson order.trans)
qed

lemma plain_handle_fields:
  "cn_object (plain_handle x) = cn_object x" "cn_payload_size (plain_handle x) = cn_payload_size x"
  "cn_last_sequence (plain_handle x) = cn_last_sequence x" "cn_first_sample (plain_handle x) = cn_first_sample x"
  "cn_generation (plain_handle x) = cn_generation x" "pack_nonce (plain_handle x) = pack_nonce x"
  "cn_role_epoch (plain_handle x) = cn_role_epoch x"
  by (simp_all add: plain_handle_def pack_nonce_def)

lemma cons_handle:
  assumes "cons_in K v h rs tg hand S c"
  shows "cn_object h = cx_object K" and "cn_payload_size h = cx_size K"
    and "unat (cn_last_sequence h) = (if rs = [] then 0 else unat (sm_sequence (snd (last rs))))"
proof -
  note D = cons_inD [of K v h rs tg hand S "fst c" "snd c", simplified, OF assms]
  have "cons_ok K (chan_view K (fst c)) (snd c)" by (rule chan_vinvD(6) [OF D(2)])
  then show "cn_object h = cx_object K" "cn_payload_size h = cx_size K"
    "unat (cn_last_sequence h) = (if rs = [] then 0 else unat (sm_sequence (snd (last rs))))"
    using D(5,6) by (simp_all add: cons_ok_def reads_ok_def)
qed

lemma triple_release_with:
  assumes "e \<in> claim_errors"
  shows "cthr.triple K (tv_id v) (cons_in K v h rs tg (Some off) (\<lambda>y. slot_holds y m))
    (release_with (cx_object K) off e) (claimed_post K v h rs)"
  unfolding release_with_def
  by (rule cthr.triple_bind [OF triple_release_read], rule cthr.triple_Ret)
    (use assms in \<open>auto simp: claimed_post_def\<close>)

text \<open>Taking the sample of the slot in hand, once it is known to be the latest.\<close>

lemma triple_take_claimed:
  assumes x: "plain_handle x = h" "cn_object x = cx_object K" "cn_payload_size x = cx_size K"
    and m: "length (sm_bytes m) = unat (cx_size K)" "m \<in> snd ` set (tv_base v)"
      "length (tv_base v) \<le> unat (sm_sequence m)" "cn_last_sequence h < sm_sequence m"
  shows "cthr.triple K (tv_id v) (cons_in K v h rs tg (Some off) (\<lambda>y. slot_holds y m))
    (take_claimed (cx_cons K) x off) (claimed_post K v h rs)"
proof -
  let ?C = "cons_in K v h rs tg (Some off) (\<lambda>y. slot_holds y m)"
  have hx: "cn_last_sequence x = cn_last_sequence h" "cn_first_sample x = cn_first_sample h"
      "cn_generation x = cn_generation h" "pack_nonce x = pack_nonce h"
    using x(1) by (auto simp: plain_handle_fields)
  let ?snap = "\<lambda>sz s ns t. \<lparr>cr_slot = off, cr_snapshot = \<lparr>rs_encoded_size = sz, rs_checksum_ok = True,
      rs_sample_sequence = s, rs_publish_boot_ns = ns, rs_receive_boot_ns = t, rs_generation = cn_generation x,
      rs_instance_nonce = pack_nonce x,
      rs_missed_samples = (if cn_first_sample x then 0 else saturated_gap (cn_last_sequence x) s)\<rparr>\<rparr>"
  have size: "cthr.triple K (tv_id v) ?C (shared_load (cslot_size_c (cx_object K) off)) (\<lambda>a c. a = cx_size K \<and> ?C c)"
    by (rule triple_hand_load) (use m(1) in \<open>auto simp: run_simps slot_holds_def word_unat_eq_iff\<close>)
  have seq: "cthr.triple K (tv_id v) ?C (shared_load (cslot_sequence_c (cx_object K) off)) (\<lambda>a c. a = sm_sequence m \<and> ?C c)"
    by (rule triple_hand_load) (auto simp: run_simps slot_holds_def)
  have ns: "cthr.triple K (tv_id v) ?C (shared_load (cslot_publish_ns_c (cx_object K) off)) (\<lambda>a c. a = sm_publish_ns m \<and> ?C c)"
    by (rule triple_hand_load) (auto simp: run_simps slot_holds_def)
  have sum: "cthr.triple K (tv_id v) ?C (shared_load (cslot_checksum_c (cx_object K) off)) (\<lambda>a c. a = fnv1a64 (sm_bytes m) \<and> ?C c)"
    by (rule triple_hand_load) (auto simp: run_simps slot_holds_def)
  have first: "cthr.triple K (tv_id v) (cons_in K (add_read v m) (h\<lparr>cn_last_sequence := sm_sequence m\<rparr>) (rs @ [(tv_id v, m)]) tg (Some off) (\<lambda>y. slot_holds y m))
      (shared_store (cn_first_sample_c (cx_cons K)) False)
      (\<lambda>_. cons_in K (add_read v m) (after_take h m) (rs @ [(tv_id v, m)]) tg (Some off) (\<lambda>y. slot_holds y m))"
    using triple_first [of K "add_read v m" "h\<lparr>cn_last_sequence := sm_sequence m\<rparr>"] by (simp add: after_take_def)
  have finish: "cthr.triple K (tv_id v) ?C
      (bind (shared_store (cn_last_sequence_c (cx_cons K)) (sm_sequence m)) (\<lambda>_.
       bind (shared_store (cn_first_sample_c (cx_cons K)) False) (\<lambda>_.
       bind (shared_fetch_add (read_count_c (cx_object K)) 1) (\<lambda>_. Ret (Inr (?snap (cx_size K) (sm_sequence m) (sm_publish_ns m) t))))))
      (claimed_post K v h rs)" for t
    by (rule cthr.triple_bind [OF triple_take [OF m(2,4)]], rule cthr.triple_bind [OF first],
        rule triple_quiet_bind [OF quiet_cells(12)], simp, simp, rule cthr.triple_Ret, simp,
        rule claimed_postI [where m = m]) (use m in \<open>auto simp: snap_of_sample_def hx\<close>)
  have copy: "cthr.triple K (tv_id v) ?C
      (bind (memcpy_from (cslot_payload_c (cx_object K) off) 0 (unat (cx_size K))) (\<lambda>payload.
         if fnv1a64 payload \<noteq> fnv1a64 (sm_bytes m) then release_with (cx_object K) off kPayloadCorrupt
         else
           bind (shared_store (cn_last_sequence_c (cx_cons K)) (sm_sequence m)) (\<lambda>_.
           bind (shared_store (cn_first_sample_c (cx_cons K)) False) (\<lambda>_.
           bind (shared_fetch_add (read_count_c (cx_object K)) 1) (\<lambda>_. Ret (Inr (?snap (cx_size K) (sm_sequence m) (sm_publish_ns m) t)))))))
      (claimed_post K v h rs)" for t
    by (rule cthr.triple_bind [OF triple_hand_memcpy], use m(1) in simp, rule chan_triple_pure) (use finish in simp)
  show ?thesis
    unfolding take_claimed_def Let_def x(2,3)
    by (rule cthr.triple_bind [OF size], rule chan_triple_pure, hypsubst,
        rule cthr.triple_bind [OF seq], rule chan_triple_pure, hypsubst,
        rule cthr.triple_bind [OF ns], rule chan_triple_pure, hypsubst,
        rule cthr.triple_bind [OF sum], rule chan_triple_pure, hypsubst, simp only: simp_thms if_False,
        rule triple_quiet_bind [OF quiet_actions(6)], simp, simp,
        rule chan_triple_if, rule triple_release_with, simp add: claim_errors_def, rule copy)
qed

lemma chan_triple_fact:
  "(\<And>c. P c \<Longrightarrow> b) \<Longrightarrow> (b \<Longrightarrow> cthr.triple K i P p Q) \<Longrightarrow> cthr.triple K i P p Q"
  by (rule chan_triple_pre [where P' = "\<lambda>c. b \<and> P c", OF chan_triple_pure]) auto

lemma cons_in_free: "cons_in K v h rs tg None S c \<Longrightarrow> cons_in K v h rs tg None (\<lambda>_. True) c"
  by (simp add: cons_in_def)

lemma triple_no_sample:
  assumes "\<And>c. P c \<Longrightarrow> cons_in K v h rs tg None (\<lambda>_. True) c" and "e \<in> claim_errors"
  shows "cthr.triple K (tv_id v) P (Ret (Inl e)) (claimed_post K v h rs)"
  by (rule cthr.triple_Ret) (use assms in \<open>auto simp: claimed_post_def\<close>)

text \<open>The parts of one attempt, \<open>again\<close> being the attempts that follow.\<close>

definition held_attempt where
  "held_attempt r handle off i again =
     bind (slot_mark_reading (cn_object handle) off (cn_role_epoch handle)) (\<lambda>_.
     bind (shared_load (cslot_sequence_c (cn_object handle) off)) (\<lambda>sequence.
     bind (shared_load (latest_ticket_c (cn_object handle))) (\<lambda>latest.
       if latest \<noteq> make_ticket sequence i then bind (slot_release_read (cn_object handle) off) (\<lambda>_. again)
       else take_claimed r handle off)))"

definition claim_attempt where
  "claim_attempt r handle off i again =
     bind (slot_claim_readable (cn_object handle) off) (\<lambda>claimed.
       if \<not> claimed then again else held_attempt r handle off i again)"

lemma claim_attempts_Suc:
  "claim_attempts r stride (Suc n) =
     bind (shared_load (cons_c r)) (\<lambda>handle.
     bind (shared_load (latest_ticket_c (cn_object handle))) (\<lambda>ticket.
       if ticket = 0 \<or> ticket_sequence ticket \<le> cn_last_sequence handle then Ret (Inl kNoNewSample)
       else case slot_byte_offset (ticket_slot ticket) stride of
         None \<Rightarrow> Ret (Inl kCorruptSlot)
       | Some off \<Rightarrow> claim_attempt r handle off (ticket_slot ticket) (claim_attempts r stride n)))"
  by (simp only: claim_attempts.simps claim_attempt_def held_attempt_def)

definition handle_in :: "chan_ctx \<Rightarrow> ConsumerHandle \<Rightarrow> ConsumerHandle \<Rightarrow> bool" where
  "handle_in K h x \<longleftrightarrow> plain_handle x = h \<and> cn_object x = cx_object K \<and> cn_payload_size x = cx_size K"

lemma handle_inD:
  assumes "handle_in K h x"
  shows "plain_handle x = h" "cn_object x = cx_object K" "cn_payload_size x = cx_size K"
    "cn_last_sequence x = cn_last_sequence h"
  using assms plain_handle_fields(3) [of x] by (auto simp: handle_in_def)

lemma triple_handle_in:
  "cthr.triple K (tv_id v) (cons_in K v h rs tg hand S) (shared_load (cons_c (cx_cons K)))
     (\<lambda>x c. handle_in K h x \<and> cons_in K v h rs tg hand S c)"
proof (rule cthr.triple_conseq [OF triple_cons_handle])
  fix x c assume "plain_handle x = h \<and> cons_in K v h rs tg hand S c"
  then show "handle_in K h x \<and> cons_in K v h rs tg hand S c"
    using cons_handle(1,2) [of K v h rs tg hand S c] plain_handle_fields(1,2) [of x] by (auto simp: handle_in_def)
qed

lemma triple_held_attempt:
  assumes again: "\<And>tg. cthr.triple K (tv_id v) (cons_in K v h rs tg None (\<lambda>_. True)) p (claimed_post K v h rs)"
    and i: "i < kSlotCount" and base: "tv_base v \<noteq> []" and new: "unat (cn_last_sequence h) < length (tv_base v)"
    and x: "handle_in K h x" and m: "length (sm_bytes m) = unat (cx_size K)"
  shows "cthr.triple K (tv_id v) (cons_in K v h rs (Some (slot_off K i)) (Some (slot_off K i)) (\<lambda>y. slot_holds y m))
    (held_attempt (cx_cons K) x (slot_off K i) i p) (claimed_post K v h rs)"
proof -
  let ?off = "slot_off K i"
  let ?C = "cons_in K v h rs (Some ?off) (Some ?off) (\<lambda>y. slot_holds y m)"
  have seq: "cthr.triple K (tv_id v) ?C (shared_load (cslot_sequence_c (cx_object K) ?off)) (\<lambda>a c. a = sm_sequence m \<and> ?C c)"
    by (rule triple_hand_load) (auto simp: run_simps slot_holds_def)
  have take: "cthr.triple K (tv_id v)
      (\<lambda>c. \<exists>l. prefix (tv_base v) l \<and> l \<noteq> [] \<and> snd (last l) = m \<and> unat (sm_sequence m) = length l \<and>
        cons_in K (v\<lparr>tv_base := l\<rparr>) h rs (Some ?off) (Some ?off) (\<lambda>y. slot_holds y m) c)
      (take_claimed (cx_cons K) x ?off) (claimed_post K v h rs)"
  proof (intro chan_triple_ex chan_triple_pure)
    fix l assume l: "prefix (tv_base v) l" "l \<noteq> []" "snd (last l) = m" "unat (sm_sequence m) = length l"
    have "length (tv_base v) \<le> length l" using l(1) by (rule prefix_length_le)
    then have "cn_last_sequence h < sm_sequence m" using new l(4) by (simp add: word_less_nat_alt)
    moreover have "m \<in> snd ` set l" using l(2,3) by (metis last_in_set image_eqI)
    ultimately have "cthr.triple K (tv_id v)
        (cons_in K (v\<lparr>tv_base := l\<rparr>) h rs (Some ?off) (Some ?off) (\<lambda>y. slot_holds y m))
        (take_claimed (cx_cons K) x ?off) (claimed_post K (v\<lparr>tv_base := l\<rparr>) h rs)"
      using triple_take_claimed [OF handle_inD(1-3) [OF x] m, of "v\<lparr>tv_base := l\<rparr>"] l(4) by simp
    then show "cthr.triple K (tv_id v)
        (cons_in K (v\<lparr>tv_base := l\<rparr>) h rs (Some ?off) (Some ?off) (\<lambda>y. slot_holds y m))
        (take_claimed (cx_cons K) x ?off) (claimed_post K v h rs)"
      by (rule cthr.triple_conseq) (auto intro: claimed_post_base [OF _ l(1)])
  qed
  have checked: "cthr.triple K (tv_id v) (recheck_post K v h rs i m latest)
      (if latest \<noteq> make_ticket (sm_sequence m) i then bind (slot_release_read (cx_object K) ?off) (\<lambda>_. p)
       else take_claimed (cx_cons K) x ?off) (claimed_post K v h rs)" for latest
  proof (cases "latest = make_ticket (sm_sequence m) i")
    case True
    then show ?thesis using take by (simp add: recheck_post_def [abs_def])
  next
    case False
    then show ?thesis
      using cthr.triple_bind [OF triple_release_read again] by (simp add: recheck_post_def [abs_def])
  qed
  show ?thesis
    unfolding held_attempt_def handle_inD(2) [OF x]
    by (rule cthr.triple_bind [OF triple_mark_reading], rule cthr.triple_bind [OF seq], rule chan_triple_pure, hypsubst,
        rule cthr.triple_bind [OF triple_recheck [OF i base]], rule checked)
qed

lemma triple_claim_attempt:
  assumes again: "\<And>v tg. cthr.triple K (tv_id v) (cons_in K v h rs tg None (\<lambda>_. True)) p (claimed_post K v h rs)"
    and l: "prefix (tv_base v) l" "unat (ticket_sequence t) = length l" "l \<noteq> []"
    and t: "t \<noteq> 0" "ticket_slot t < kSlotCount" "cn_last_sequence h < ticket_sequence t" and x: "handle_in K h x"
  shows "cthr.triple K (tv_id v) (cons_in K (v\<lparr>tv_base := l\<rparr>) h rs (latest_slot K t) None (\<lambda>_. True))
    (claim_attempt (cx_cons K) x (slot_off K (ticket_slot t)) (ticket_slot t) p) (claimed_post K v h rs)"
proof -
  let ?v = "v\<lparr>tv_base := l\<rparr>" and ?off = "slot_off K (ticket_slot t)"
  have tg: "latest_slot K t = Some ?off" using t(1) by (simp add: latest_slot_def)
  have new: "unat (cn_last_sequence h) < length (tv_base ?v)" using t(3) l(2) by (simp add: word_less_nat_alt)
  have held: "cthr.triple K (tv_id ?v) (cons_in K ?v h rs (Some ?off) (Some ?off) (\<lambda>y. slot_holds y m))
      (held_attempt (cx_cons K) x ?off (ticket_slot t) p) (claimed_post K ?v h rs)"
    if "length (sm_bytes m) = unat (cx_size K)" for m
    by (rule triple_held_attempt [OF again t(2) _ new x that]) (use l(3) in simp)
  have "cthr.triple K (tv_id ?v) (cons_in K ?v h rs (latest_slot K t) None (\<lambda>_. True))
      (claim_attempt (cx_cons K) x ?off (ticket_slot t) p) (claimed_post K ?v h rs)"
    unfolding tg claim_attempt_def handle_inD(2) [OF x]
  proof (rule cthr.triple_bind [OF triple_cons_claim [OF t(2)]])
    fix claimed
    show "cthr.triple K (tv_id ?v)
       (\<lambda>c. if claimed then \<exists>m. length (sm_bytes m) = unat (cx_size K) \<and>
            cons_in K ?v h rs (Some ?off) (Some ?off) (\<lambda>y. slot_holds y m) c
          else cons_in K ?v h rs (Some ?off) None (\<lambda>_. True) c)
       (if \<not> claimed then p else held_attempt (cx_cons K) x ?off (ticket_slot t) p) (claimed_post K ?v h rs)"
    proof (cases claimed)
      case True
      then show ?thesis by (simp only: if_True simp_thms if_False) (intro chan_triple_ex chan_triple_pure held)
    next
      case False
      then show ?thesis using again [of ?v] by simp
    qed
  qed
  then have "cthr.triple K (tv_id v) (cons_in K ?v h rs (latest_slot K t) None (\<lambda>_. True))
      (claim_attempt (cx_cons K) x ?off (ticket_slot t) p) (claimed_post K ?v h rs)" by simp
  then show ?thesis by (rule cthr.triple_conseq) (auto intro: claimed_post_base [OF _ l(1)])
qed

lemma triple_claim_attempts:
  "cthr.triple K (tv_id v) (cons_in K v h rs tg None (\<lambda>_. True)) (claim_attempts (cx_cons K) (cx_stride K) n)
     (claimed_post K v h rs)"
proof (induction n arbitrary: v tg)
  case 0
  show ?case by (simp, rule triple_no_sample) (auto simp: claim_errors_def)
next
  case (Suc n)
  have ticket: "cthr.triple K (tv_id v) (ticket_post K v h rs t)
      (if t = 0 \<or> ticket_sequence t \<le> cn_last_sequence x then Ret (Inl kNoNewSample)
       else case slot_byte_offset (ticket_slot t) (cx_stride K) of
         None \<Rightarrow> Ret (Inl kCorruptSlot)
       | Some off \<Rightarrow> claim_attempt (cx_cons K) x off (ticket_slot t) (claim_attempts (cx_cons K) (cx_stride K) n))
      (claimed_post K v h rs)" if x: "handle_in K h x" for t x
    unfolding ticket_post_def
  proof (intro chan_triple_ex chan_triple_pure chan_triple_if)
    fix l assume "prefix (tv_base v) l" and "t = 0 \<or> ticket_sequence t \<le> cn_last_sequence x"
    then show "cthr.triple K (tv_id v) (cons_in K (v\<lparr>tv_base := l\<rparr>) h rs (latest_slot K t) None (\<lambda>_. True))
        (Ret (Inl kNoNewSample)) (claimed_post K v h rs)"
      by (intro triple_no_sample [where tg = "latest_slot K t"]) (blast intro: cons_in_base, simp add: claim_errors_def)
  next
    fix l assume l: "prefix (tv_base v) l" "unat (ticket_sequence t) = length l" "t = 0 \<longleftrightarrow> l = []"
        "t \<noteq> 0 \<longrightarrow> ticket_slot t < kSlotCount" and t: "\<not> (t = 0 \<or> ticket_sequence t \<le> cn_last_sequence x)"
    let ?C = "cons_in K (v\<lparr>tv_base := l\<rparr>) h rs (latest_slot K t) None (\<lambda>_. True)"
    have geo: "channel_geometry (cx_size K) (cx_stride K)" if "?C c" for c
      using that chan_vinvD(1) by (cases c) (auto dest!: cons_inD(2))
    show "cthr.triple K (tv_id v) ?C (case slot_byte_offset (ticket_slot t) (cx_stride K) of
         None \<Rightarrow> Ret (Inl kCorruptSlot)
       | Some off \<Rightarrow> claim_attempt (cx_cons K) x off (ticket_slot t) (claim_attempts (cx_cons K) (cx_stride K) n))
      (claimed_post K v h rs)"
    proof (rule chan_triple_fact [OF geo])
      assume "channel_geometry (cx_size K) (cx_stride K)"
      then have "slot_byte_offset (ticket_slot t) (cx_stride K) = Some (slot_off K (ticket_slot t))"
        using slot_off_offset l(4) t by blast
      then show "cthr.triple K (tv_id v) ?C (case slot_byte_offset (ticket_slot t) (cx_stride K) of
         None \<Rightarrow> Ret (Inl kCorruptSlot)
       | Some off \<Rightarrow> claim_attempt (cx_cons K) x off (ticket_slot t) (claim_attempts (cx_cons K) (cx_stride K) n))
        (claimed_post K v h rs)"
        using triple_claim_attempt [OF Suc.IH l(1,2) _ _ _ _ x] l(3,4) t handle_inD(4) [OF x] by auto
    qed
  qed
  show ?case
    unfolding claim_attempts_Suc
    by (rule cthr.triple_bind [OF triple_handle_in], rule chan_triple_pure, simp only: handle_inD(2),
        rule cthr.triple_bind [OF triple_cons_ticket], rule ticket)
qed

lemma triple_claim_latest:
  "cthr.triple K (tv_id v) (cons_in K v h rs tg None (\<lambda>_. True)) (claim_latest_unlocked (cx_cons K))
     (claimed_post K v h rs)"
proof (rule chan_triple_fact)
  show "channel_geometry (cx_size K) (cx_stride K)" if "cons_in K v h rs tg None (\<lambda>_. True) c" for c
    using that chan_vinvD(1) by (cases c) (auto dest!: cons_inD(2))
  assume "channel_geometry (cx_size K) (cx_stride K)"
  then have stride: "channel_stride (cx_size K) = Some (cx_stride K)" by (simp add: channel_geometry_def)
  show "cthr.triple K (tv_id v) (cons_in K v h rs tg None (\<lambda>_. True)) (claim_latest_unlocked (cx_cons K))
     (claimed_post K v h rs)"
    unfolding claim_latest_unlocked_def
    by (rule cthr.triple_bind [OF triple_handle_in], rule chan_triple_pure,
        simp only: handle_inD(3) stride option.case, rule triple_claim_attempts)
qed

text \<open>
  What a reader is told of the sample \<open>m\<close>, the samples \<open>rs\<close> having been taken before, and that the
  thread \<open>i\<close> took it.
\<close>

definition tells :: "(nat \<times> sample) list \<Rightarrow> sample \<Rightarrow> ReadSnapshot \<Rightarrow> bool" where
  "tells rs m snap \<longleftrightarrow>
     unat (rs_encoded_size snap) = length (sm_bytes m) \<and> rs_checksum_ok snap \<and>
     rs_sample_sequence snap = sm_sequence m \<and> rs_publish_boot_ns snap = sm_publish_ns m \<and>
     unat (rs_missed_samples snap) =
       (if rs = [] then 0 else unat (sm_sequence m) - unat (sm_sequence (snd (last rs))) - 1)"

definition took :: "chan_ctx \<Rightarrow> nat \<Rightarrow> sample \<Rightarrow> ReadSnapshot \<Rightarrow> chan_config \<Rightarrow> bool" where
  "took K i m snap c \<longleftrightarrow>
     chan_inv K c \<and> (\<exists>rs. prefix (rs @ [(i, m)]) (cg_reads (snd c)) \<and> tells rs m snap)"

lemma took_extends:
  assumes "took K i m snap c" and "chan_inv K d" and "prefix (cg_reads (snd c)) (cg_reads (snd d))"
  shows "took K i m snap d"
proof -
  obtain rs where "prefix (rs @ [(i, m)]) (cg_reads (snd c))" and "tells rs m snap"
    using assms(1) by (auto simp: took_def)
  then show ?thesis using assms(2) prefix_order.trans [OF _ assms(3)] unfolding took_def by blast
qed

lemma took_rely: "took K i m snap c \<Longrightarrow> chan_rely K j c d \<Longrightarrow> took K i m snap d"
  by (rule took_extends) (auto simp: took_def chan_rely_def chan_frame_def)

lemma took_guar: "took K i m snap c \<Longrightarrow> chan_guar K j c d \<Longrightarrow> took K i m snap d"
  by (rule took_extends) (auto simp: took_def chan_guar_def logs_extend_def)

lemma stable_took [simp]: "cthr.stable K j (took K i m snap)"
  by (rule cthr.stableI) (rule took_rely)

lemma stable_chan_and [simp]: "cthr.stable K i P \<Longrightarrow> cthr.stable K i Q \<Longrightarrow> cthr.stable K i (\<lambda>c. P c \<and> Q c)"
  by (auto simp: cthr.stable_def)

lemma triple_with_took:
  "cthr.triple K j P p Q \<Longrightarrow> cthr.triple K j (\<lambda>c. P c \<and> took K i m snap c) p (\<lambda>a c. Q a c \<and> took K i m snap c)"
  by (rule cthr.triple_frame) (auto intro: took_guar)

lemma snap_tells:
  assumes "snap_of_sample h m snap" and "cons_in K v h rs tg hand S c" and "cn_first_sample h = (rs = [])"
    and "cn_last_sequence h < sm_sequence m"
  shows "tells rs m snap"
proof (cases "rs = []")
  case False
  then show ?thesis
    using assms(1,3,4) cons_handle(3) [OF assms(2)] unat_saturated_gap [of "cn_last_sequence h" "sm_sequence m"]
    by (simp add: tells_def snap_of_sample_def)
qed (use assms(1,3) in \<open>simp add: tells_def snap_of_sample_def\<close>)

text \<open>A sample is in the hand of the thread, or nothing new was found.\<close>

definition held :: "chan_ctx \<Rightarrow> tview \<Rightarrow> ClaimedRead \<Rightarrow> chan_config \<Rightarrow> bool" where
  "held K v cr c \<longleftrightarrow>
     (\<exists>m h rs tg. length (sm_bytes m) = unat (cx_size K) \<and> length (tv_base v) \<le> unat (sm_sequence m) \<and>
        cn_first_sample h = (rs = []) \<and>
        cons_in K (add_read v m) h rs tg (Some (cr_slot cr)) (\<lambda>y. slot_holds y m) c \<and>
        took K (tv_id v) m (cr_snapshot cr) c)"

definition claim_post :: "chan_ctx \<Rightarrow> tview \<Rightarrow> ClaimedRead result \<Rightarrow> chan_config \<Rightarrow> bool" where
  "claim_post K v r c \<longleftrightarrow>
     (case r of Inl e \<Rightarrow> e \<in> claim_errors \<and> cons_free K v c | Inr cr \<Rightarrow> held K v cr c)"

lemma stable_held [simp]: "cthr.stable K (tv_id v) (held K v cr)"
  unfolding held_def [abs_def] by simp

lemma triple_claim_free:
  "cthr.triple K (tv_id v) (cons_free K v) (claim_latest_unlocked (cx_cons K)) (claim_post K v)"
  unfolding cons_free_def [abs_def]
proof (intro chan_triple_ex chan_triple_pure)
  fix h :: ConsumerHandle and rs tg assume first: "cn_first_sample h = ((rs :: (nat \<times> sample) list) = [])"
  let ?seen = "unat (cn_last_sequence h) = (if rs = [] then 0 else unat (sm_sequence (snd (last rs))))"
  show "cthr.triple K (tv_id v) (cons_in K v h rs tg None (\<lambda>_. True)) (claim_latest_unlocked (cx_cons K)) (claim_post K v)"
  proof (rule chan_triple_fact [of _ ?seen])
    show ?seen if "cons_in K v h rs tg None (\<lambda>_. True) c" for c by (rule cons_handle(3) [OF that])
    assume seen: ?seen
    show "cthr.triple K (tv_id v) (cons_in K v h rs tg None (\<lambda>_. True)) (claim_latest_unlocked (cx_cons K)) (claim_post K v)"
    proof (rule cthr.triple_conseq [OF triple_claim_latest])
      fix r c assume post: "claimed_post K v h rs r c"
      show "claim_post K v r c"
      proof (cases r)
        case (Inl e)
        then show ?thesis using post first by (auto simp: claimed_post_def claim_post_def cons_free_def)
      next
        case (Inr cr)
        then obtain m tg where m: "snap_of_sample h m (cr_snapshot cr)" "length (sm_bytes m) = unat (cx_size K)"
            "length (tv_base v) \<le> unat (sm_sequence m)"
          and C: "cons_in K (add_read v m) (after_take h m) (rs @ [(tv_id v, m)]) tg (Some (cr_slot cr)) (\<lambda>y. slot_holds y m) c"
          using post by (simp add: claimed_post_def) blast
        have "tells rs m (cr_snapshot cr)"
          using m(1) seen first by (simp add: tells_def snap_of_sample_def unat_saturated_gap)
        then have "took K (tv_id v) m (cr_snapshot cr) c"
          using C by (auto simp: took_def cons_in_def chan_at_def)
        moreover have "cn_first_sample (after_take h m) = (rs @ [(tv_id v, m)] = [])" by (simp add: after_take_def)
        ultimately have "held K v cr c" using m(2,3) C unfolding held_def by blast
        then show ?thesis using Inr by (simp add: claim_post_def)
      qed
    qed
  qed
qed

lemma took_size:
  assumes "took K i m snap c" and "length (sm_bytes m) = unat (cx_size K)"
  shows "rs_encoded_size snap = cx_size K"
  using assms by (auto simp: took_def tells_def word_unat_eq_iff)

definition read_free :: "chan_ctx \<Rightarrow> tview \<Rightarrow> (ReadSnapshot \<times> bytes) result \<Rightarrow> chan_config \<Rightarrow> bool" where
  "read_free K v r c \<longleftrightarrow>
     (case r of
        Inl e \<Rightarrow> e \<in> claim_errors \<and> cons_free K v c
      | Inr (snap, bs) \<Rightarrow>
          \<exists>m. bs = sm_bytes m \<and> length (tv_base v) \<le> unat (sm_sequence m) \<and> cons_free K (add_read v m) c \<and>
            took K (tv_id v) m snap c)"

lemma stable_read_free [simp]: "cthr.stable K (tv_id v) (read_free K v r)"
  by (cases r) (simp_all add: read_free_def [abs_def] split_beta)

lemma triple_try_read_unlocked:
  assumes cap: "cx_size K \<le> cap"
  shows "cthr.triple K (tv_id v) (cons_free K v) (try_read_latest_unlocked (cx_cons K) cap) (read_free K v)"
  unfolding try_read_latest_unlocked_def try_bind_def
proof (rule cthr.triple_bind [OF triple_claim_free])
  fix r :: "ClaimedRead result"
  let ?copy = "\<lambda>cr. bind (shared_load (cons_c (cx_cons K))) (\<lambda>handle.
       let ob = cn_object handle; snap = cr_snapshot cr; off = cr_slot cr in
       if rs_encoded_size snap > cap then release_with ob off kPayloadCorrupt
       else
         bind (memcpy_from (cslot_payload_c ob off) 0 (unat (rs_encoded_size snap))) (\<lambda>encoded.
         bind (slot_release_read ob off) (\<lambda>_. Ret (Inr (snap, encoded)))))"
  have copy: "cthr.triple K (tv_id v)
      (\<lambda>c. cons_in K (add_read v m) h rs tg (Some (cr_slot cr)) (\<lambda>y. slot_holds y m) c \<and> took K (tv_id v) m (cr_snapshot cr) c)
      (?copy cr) (read_free K v)"
    if m: "length (sm_bytes m) = unat (cx_size K)" "length (tv_base v) \<le> unat (sm_sequence m)"
      "cn_first_sample h = (rs = [])" for cr m h rs tg
  proof (rule chan_triple_fact [of _ "rs_encoded_size (cr_snapshot cr) = cx_size K"])
    assume sz: "rs_encoded_size (cr_snapshot cr) = cx_size K"
    let ?C = "\<lambda>hand S. cons_in K (add_read v m) h rs tg hand S"
    have out: "cthr.triple K (tv_id v) (\<lambda>c. ?C None (\<lambda>_. True) c \<and> took K (tv_id v) m (cr_snapshot cr) c)
        (Ret (Inr (cr_snapshot cr, sm_bytes m))) (read_free K v)"
      by (rule cthr.triple_Ret) (use m in \<open>auto simp: read_free_def cons_free_def\<close>)
    have rel: "cthr.triple K (tv_id v) (\<lambda>c. ?C (Some (cr_slot cr)) (\<lambda>y. slot_holds y m) c \<and> took K (tv_id v) m (cr_snapshot cr) c)
        (slot_release_read (cx_object K) (cr_slot cr))
        (\<lambda>_ c. ?C None (\<lambda>_. True) c \<and> took K (tv_id v) m (cr_snapshot cr) c)"
      using triple_with_took [OF triple_release_read [of K "add_read v m"]] by simp
    have bytes: "cthr.triple K (tv_id v) (\<lambda>c. ?C (Some (cr_slot cr)) (\<lambda>y. slot_holds y m) c \<and> took K (tv_id v) m (cr_snapshot cr) c)
        (memcpy_from (cslot_payload_c (cx_object K) (cr_slot cr)) 0 (unat (cx_size K)))
        (\<lambda>bs c. bs = sm_bytes m \<and> (?C (Some (cr_slot cr)) (\<lambda>y. slot_holds y m) c \<and> took K (tv_id v) m (cr_snapshot cr) c))"
      using triple_with_took [OF triple_hand_memcpy [of m 0 "unat (cx_size K)" K "add_read v m"]] m(1) by simp
    have load: "cthr.triple K (tv_id v) (\<lambda>c. ?C (Some (cr_slot cr)) (\<lambda>y. slot_holds y m) c \<and> took K (tv_id v) m (cr_snapshot cr) c)
        (shared_load (cons_c (cx_cons K)))
        (\<lambda>x c. handle_in K h x \<and> (?C (Some (cr_slot cr)) (\<lambda>y. slot_holds y m) c \<and> took K (tv_id v) m (cr_snapshot cr) c))"
      using triple_with_took [OF triple_handle_in [of K "add_read v m"]] by simp
    have "\<not> rs_encoded_size (cr_snapshot cr) > cap" using sz cap by simp
    then show "cthr.triple K (tv_id v)
        (\<lambda>c. ?C (Some (cr_slot cr)) (\<lambda>y. slot_holds y m) c \<and> took K (tv_id v) m (cr_snapshot cr) c) (?copy cr) (read_free K v)"
      unfolding Let_def
      by (simp only: if_False sz) (rule cthr.triple_bind [OF load], rule chan_triple_pure, simp only: handle_inD(2),
        rule cthr.triple_bind [OF bytes], rule chan_triple_pure, hypsubst, rule cthr.triple_bind [OF rel], rule out)
  qed (use took_size m(1) in blast)
  show "cthr.triple K (tv_id v) (claim_post K v r) (case r of Inl e \<Rightarrow> Ret (Inl e) | Inr cr \<Rightarrow> ?copy cr) (read_free K v)"
  proof (cases r)
    case (Inl e)
    then show ?thesis
      by (simp add: claim_post_def [abs_def], intro chan_triple_pure cthr.triple_Ret) (simp_all add: read_free_def)
  next
    case (Inr cr)
    then show ?thesis
      by (simp only: claim_post_def [abs_def] held_def sum.case) (intro chan_triple_ex chan_triple_pure copy)
  qed
qed

end
