(* ===== verification/ER_Chan_Consume.thy ===== *)
theory ER_Chan_Consume
  imports ER_Chan_Read
begin

text \<open>
  The operations of the consumer as a whole: reading with and without waiting, loans, the status and
  the shutdown.
\<close>


subsection \<open>Whole operations of the consumer\<close>

text \<open>Errors that would say that the memory is damaged.\<close>

definition damage :: "ErrorCode set" where
  "damage = {kPayloadCorrupt, kCorruptSlot}"

definition chan_read_post :: "chan_ctx \<Rightarrow> tview \<Rightarrow> (ReadSnapshot \<times> bytes) result \<Rightarrow> chan_config \<Rightarrow> bool" where
  "chan_read_post K v r c \<longleftrightarrow>
     (case r of
        Inl e \<Rightarrow> e \<notin> damage \<and> chan_idle K v c
      | Inr (snap, bs) \<Rightarrow>
          \<exists>m. bs = sm_bytes m \<and> length (tv_base v) \<le> unat (sm_sequence m) \<and> chan_idle K (add_read v m) c \<and>
            took K (tv_id v) m snap c)"

lemma stable_chan_read_post [simp]: "cthr.stable K (tv_id v) (chan_read_post K v r)"
  by (cases r) (simp_all add: chan_read_post_def [abs_def] split_beta)

lemma claim_errors_intact: "e \<in> claim_errors \<Longrightarrow> e \<notin> damage"
  by (auto simp: claim_errors_def damage_def)

lemma triple_cons_guarded:
  assumes body: "cthr.triple K (tv_id v) (cons_free K v) p Q"
    and leave: "\<And>r. cthr.triple K (tv_id v) (Q r) (shared_store (cn_in_use_c (cx_cons K)) False) (\<lambda>_. Q' r)"
    and stable: "\<And>r. cthr.stable K (tv_id v) (Q' r)" and busy: "\<And>c. chan_idle K v c \<Longrightarrow> Q' b c"
  shows "cthr.triple K (tv_id v) (chan_idle K v) (consumer_guarded (cx_cons K) b p) Q'"
  unfolding consumer_guarded_def
proof (rule cthr.triple_bind [OF triple_cons_enter])
  fix in_use
  show "cthr.triple K (tv_id v) (\<lambda>c. if in_use then chan_idle K v c else cons_free K v c)
    (if in_use then Ret b else bind p (\<lambda>x. bind (shared_store (cn_in_use_c (cx_cons K)) False) (\<lambda>_. Ret x))) Q'"
  proof (cases in_use)
    case True
    then show ?thesis by (simp, intro cthr.triple_Ret) (use stable busy in auto)
  next
    case False
    then show ?thesis
      by (simp, intro cthr.triple_bind [OF body] cthr.triple_bind [OF leave] cthr.triple_Ret) (use stable in auto)
  qed
qed

lemma triple_read_leave:
  "cthr.triple K (tv_id v) (read_free K v r) (shared_store (cn_in_use_c (cx_cons K)) False) (\<lambda>_. chan_read_post K v r)"
proof (cases r)
  case (Inl e)
  have "cthr.triple K (tv_id v) (\<lambda>c. e \<in> claim_errors \<and> cons_free K v c) (shared_store (cn_in_use_c (cx_cons K)) False)
      (\<lambda>_. chan_read_post K v r)"
    by (rule chan_triple_pure, rule cthr.triple_conseq [OF triple_cons_leave])
      (use Inl claim_errors_intact in \<open>auto simp: chan_read_post_def\<close>)
  then show ?thesis using Inl by (simp add: read_free_def [abs_def])
next
  case (Inr x)
  obtain snap bs where x: "x = (snap, bs)" by (cases x)
  have "cthr.triple K (tv_id v) (\<lambda>c. cons_free K (add_read v m) c \<and> took K (tv_id v) m snap c)
      (shared_store (cn_in_use_c (cx_cons K)) False)
      (\<lambda>_ c. chan_idle K (add_read v m) c \<and> took K (tv_id v) m snap c)" for m
    using triple_with_took [OF triple_cons_leave [of K "add_read v m"]] by simp
  then have leave: "cthr.triple K (tv_id v) (\<lambda>c. cons_free K (add_read v m) c \<and> took K (tv_id v) m snap c)
      (shared_store (cn_in_use_c (cx_cons K)) False) (\<lambda>_. chan_read_post K v r)"
    if "bs = sm_bytes m" "length (tv_base v) \<le> unat (sm_sequence m)" for m
    by (rule cthr.triple_conseq) (use that Inr x in \<open>auto simp: chan_read_post_def\<close>)
  have pre: "read_free K v r = (\<lambda>c. \<exists>m. bs = sm_bytes m \<and> length (tv_base v) \<le> unat (sm_sequence m) \<and>
      cons_free K (add_read v m) c \<and> took K (tv_id v) m snap c)"
    using Inr x by (simp add: read_free_def [abs_def])
  show ?thesis unfolding pre by (intro chan_triple_ex chan_triple_pure leave)
qed

lemma triple_try_read:
  assumes "cx_size K \<le> cap"
  shows "cthr.triple K (tv_id v) (chan_idle K v) (consumer_try_read_latest_impl (cx_cons K) cap) (chan_read_post K v)"
  unfolding consumer_try_read_latest_impl_def
  by (rule triple_cons_guarded [OF triple_try_read_unlocked [OF assms] triple_read_leave])
    (simp_all add: chan_read_post_def damage_def)

text \<open>Waiting only looks at the channel between the attempts.\<close>

lemma quiet_wait_round: "quiet K (wait_round r deadline)"
  unfolding wait_round_def classify_wait_timeout_def
  by (auto intro!: quiet_intros quiet_reads [OF identity_read_reads] split: sum.splits option.splits Liveness.splits)

lemma yields_wait_round: "yields (\<lambda>s. \<forall>e. s = Some e \<longrightarrow> e \<notin> damage) (wait_round r deadline)"
proof -
  have c: "yields (\<lambda>e. e \<notin> damage) (classify_wait_timeout ob)" for ob
    unfolding classify_wait_timeout_def
    by (auto intro!: yields_bind split: sum.splits Liveness.splits simp: damage_def)
  show ?thesis
    unfolding wait_round_def
    by (auto intro!: yields_bind yields_seq [OF c] split: option.splits simp: damage_def)
qed

definition wait_free :: "chan_ctx \<Rightarrow> tview \<Rightarrow> (ReadSnapshot \<times> bytes) result option \<Rightarrow> chan_config \<Rightarrow> bool" where
  "wait_free K v r c \<longleftrightarrow>
     (case r of None \<Rightarrow> cons_free K v c
      | Some (Inl e) \<Rightarrow> e \<notin> damage \<and> cons_free K v c
      | Some (Inr x) \<Rightarrow> read_free K v (Inr x) c)"

lemma wait_free_cases [simp]:
  "wait_free K v None c = cons_free K v c" "wait_free K v (Some (Inl e)) c = (e \<notin> damage \<and> cons_free K v c)"
  "wait_free K v (Some (Inr x)) c = read_free K v (Inr x) c"
  by (simp_all add: wait_free_def)

lemma stable_wait_free [simp]: "cthr.stable K (tv_id v) (wait_free K v r)"
proof (cases r)
  case (Some x)
  then show ?thesis by (cases x) (simp_all add: wait_free_def [abs_def])
qed (simp add: wait_free_def [abs_def])

lemma triple_wait_loop:
  assumes cap: "cx_size K \<le> cap"
  shows "cthr.triple K (tv_id v) (cons_free K v) (wait_latest_loop fuel (cx_cons K) cap deadline) (wait_free K v)"
proof (induction fuel)
  case 0
  show ?case by (simp, rule cthr.triple_Ret) (simp_all add: wait_free_def)
next
  case (Suc fuel)
  have round: "cthr.triple K (tv_id v) (cons_free K v)
      (bind (wait_round (cx_cons K) deadline) (\<lambda>stop.
         case stop of Some e \<Rightarrow> Ret (Some (Inl e)) | None \<Rightarrow> wait_latest_loop fuel (cx_cons K) cap deadline)) (wait_free K v)"
  proof (rule cthr.triple_bind [OF triple_quiet_yields [OF quiet_wait_round yields_wait_round]])
    fix stop
    show "cthr.triple K (tv_id v) (\<lambda>c. (\<forall>e. stop = Some e \<longrightarrow> e \<notin> damage) \<and> cons_free K v c)
        (case stop of Some e \<Rightarrow> Ret (Some (Inl e)) | None \<Rightarrow> wait_latest_loop fuel (cx_cons K) cap deadline) (wait_free K v)"
      by (rule chan_triple_pure, cases stop) (use Suc.IH in \<open>auto intro!: cthr.triple_Ret\<close>)
  qed simp_all
  show ?case
    unfolding wait_latest_loop.simps
  proof (rule cthr.triple_bind [OF triple_try_read_unlocked [OF cap]])
    fix read :: "(ReadSnapshot \<times> bytes) result"
    show "cthr.triple K (tv_id v) (read_free K v read)
       (case read of
          Inl ec \<Rightarrow>
            if ec \<noteq> kNoNewSample \<and> ec \<noteq> kReadContention then Ret (Some (Inl ec))
            else bind (wait_round (cx_cons K) deadline) (\<lambda>stop.
              case stop of Some e \<Rightarrow> Ret (Some (Inl e)) | None \<Rightarrow> wait_latest_loop fuel (cx_cons K) cap deadline)
        | Inr x \<Rightarrow> Ret (Some (Inr x))) (wait_free K v)"
    proof (cases read)
      case (Inl e)
      show ?thesis
        unfolding Inl sum.case read_free_def [abs_def]
        by (rule chan_triple_pure, rule chan_triple_if, rule cthr.triple_Ret, simp, simp add: claim_errors_intact, rule round)
    next
      case (Inr x)
      then show ?thesis by (auto intro!: cthr.triple_Ret simp: wait_free_def)
    qed
  qed
qed

definition wait_post :: "chan_ctx \<Rightarrow> tview \<Rightarrow> (ReadSnapshot \<times> bytes) result option \<Rightarrow> chan_config \<Rightarrow> bool" where
  "wait_post K v r c \<longleftrightarrow> (case r of None \<Rightarrow> chan_idle K v c | Some x \<Rightarrow> chan_read_post K v x c)"

lemma stable_wait_post [simp]: "cthr.stable K (tv_id v) (wait_post K v r)"
  by (cases r) (simp_all add: wait_post_def [abs_def])

lemma triple_wait_leave:
  "cthr.triple K (tv_id v) (wait_free K v r) (shared_store (cn_in_use_c (cx_cons K)) False) (\<lambda>_. wait_post K v r)"
proof (cases r)
  case None
  then show ?thesis using triple_cons_leave by (simp add: wait_free_def [abs_def] wait_post_def [abs_def])
next
  case (Some x)
  show ?thesis
  proof (cases x)
    case (Inl e)
    have "cthr.triple K (tv_id v) (\<lambda>c. e \<notin> damage \<and> cons_free K v c) (shared_store (cn_in_use_c (cx_cons K)) False)
        (\<lambda>_. wait_post K v r)"
      by (rule chan_triple_pure, rule cthr.triple_conseq [OF triple_cons_leave])
        (use Some Inl in \<open>auto simp: wait_post_def chan_read_post_def\<close>)
    then show ?thesis using Some Inl by (simp add: wait_free_def [abs_def])
  next
    case (Inr y)
    then show ?thesis using Some triple_read_leave [of K v x] by (simp add: wait_free_def [abs_def] wait_post_def [abs_def])
  qed
qed

lemma triple_wait_read:
  assumes cap: "cx_size K \<le> cap"
  shows "cthr.triple K (tv_id v) (chan_idle K v) (consumer_wait_latest_impl fuel (cx_cons K) cap timeout) (wait_post K v)"
  unfolding consumer_wait_latest_impl_def Let_def
proof (rule triple_cons_guarded [OF _ triple_wait_leave])
  show "cthr.triple K (tv_id v) (cons_free K v)
     (bind (monotonic_now_ns chan_kern_c) (\<lambda>now.
        if monotonic_deadline_ns now timeout = 0 then Ret (Some (Inl kClockAnomaly))
        else wait_latest_loop fuel (cx_cons K) cap (monotonic_deadline_ns now timeout))) (wait_free K v)"
    by (rule triple_quiet_bind [OF quiet_actions(7)], simp, simp, rule chan_triple_if, rule cthr.triple_Ret)
      (auto intro: triple_wait_loop [OF cap] simp: wait_free_def damage_def)
qed (simp_all add: wait_post_def chan_read_post_def damage_def)

text \<open>Operations that leave the samples alone.\<close>

lemma quiet_mark_consumer_offline: "cn_object x = cx_object K \<Longrightarrow> quiet K (mark_consumer_offline x)"
  unfolding mark_consumer_offline_def
  by (auto intro!: quiet_intros quiet_reads [OF identity_read_reads] split: sum.splits)

lemma triple_cons_free_load:
  "cthr.triple K (tv_id v) (cons_free K v) (shared_load (cons_c (cx_cons K)))
     (\<lambda>x c. cn_object x = cx_object K \<and> cons_free K v c)"
  unfolding cons_free_def [abs_def]
proof (intro chan_triple_ex chan_triple_pure)
  fix h :: ConsumerHandle and rs :: "(nat \<times> sample) list" and tg assume first: "cn_first_sample h = (rs = [])"
  show "cthr.triple K (tv_id v) (cons_in K v h rs tg None (\<lambda>_. True)) (shared_load (cons_c (cx_cons K)))
     (\<lambda>x c. cn_object x = cx_object K \<and>
        (\<exists>h rs tg. cn_first_sample h = (rs = []) \<and> cons_in K v h rs tg None (\<lambda>_. True) c))"
    by (rule cthr.triple_conseq [OF triple_handle_in]) (use first handle_inD(2) in blast)+
qed

lemma triple_cons_service:
  "cthr.triple K (tv_id v) (chan_idle K v) (service_consumer_shutdown (cx_cons K)) (\<lambda>_. chan_idle K v)"
proof -
  let ?off = "\<lambda>first. if first then bind (shared_load (cons_c (cx_cons K))) mark_consumer_offline else Ret ()"
  have mark: "cthr.triple K (tv_id v) (cons_free K v) (?off first) (\<lambda>_. cons_free K v)" for first
  proof (rule chan_triple_if)
    show "cthr.triple K (tv_id v) (cons_free K v) (bind (shared_load (cons_c (cx_cons K))) mark_consumer_offline)
        (\<lambda>_. cons_free K v)"
      by (rule cthr.triple_bind [OF triple_cons_free_load], rule chan_triple_pure)
        (rule triple_quiet, simp_all add: quiet_mark_consumer_offline)
  qed (rule cthr.triple_Ret, simp_all)
  have stop: "cthr.triple K (tv_id v) (cons_free K v)
      (bind (shared_cas (cn_started_c (cx_cons K)) False True) (\<lambda>first.
       bind (?off first) (\<lambda>_. shared_store (cn_in_use_c (cx_cons K)) False))) (\<lambda>_. chan_idle K v)"
    by (rule triple_quiet_bind, rule quiet_cells, simp, simp, rule cthr.triple_bind [OF mark], rule triple_cons_leave)
  show ?thesis
    unfolding service_consumer_shutdown_def
  proof (rule triple_quiet_bind [OF quiet_load], simp, simp, rule chan_triple_if)
    show "cthr.triple K (tv_id v) (chan_idle K v) (Ret ()) (\<lambda>_. chan_idle K v)"
      by (rule cthr.triple_Ret) simp_all
    show "cthr.triple K (tv_id v) (chan_idle K v)
       (bind (shared_cas (cn_in_use_c (cx_cons K)) False True) (\<lambda>idle.
          if \<not> idle then Ret ()
          else bind (shared_cas (cn_started_c (cx_cons K)) False True) (\<lambda>first.
            bind (?off first) (\<lambda>_. shared_store (cn_in_use_c (cx_cons K)) False)))) (\<lambda>_. chan_idle K v)"
    proof (rule cthr.triple_bind [OF triple_cons_try])
      fix b
      show "cthr.triple K (tv_id v) (\<lambda>c. if b then cons_free K v c else chan_idle K v c)
         (if \<not> b then Ret ()
          else bind (shared_cas (cn_started_c (cx_cons K)) False True) (\<lambda>first.
            bind (?off first) (\<lambda>_. shared_store (cn_in_use_c (cx_cons K)) False))) (\<lambda>_. chan_idle K v)"
        by (cases b) (use stop in \<open>auto intro!: cthr.triple_Ret\<close>)
    qed
  qed
qed

lemma triple_cons_release:
  "cthr.triple K (tv_id v) (cons_free K v) (release_consumer_loan_operation (cx_cons K)) (\<lambda>_. chan_idle K v)"
  unfolding release_consumer_loan_operation_def
  by (rule cthr.triple_bind [OF triple_cons_leave]) (rule triple_cons_service)

lemma triple_cons_shutdown:
  "cthr.triple K (tv_id v) (chan_idle K v) (consumer_shutdown_impl (cx_cons K)) (\<lambda>_. chan_idle K v)"
  unfolding consumer_shutdown_impl_def
  by (rule triple_quiet_bind [OF quiet_cells(8)], simp, simp) (rule triple_cons_service)

lemma triple_cons_status:
  "cthr.triple K (tv_id v) (chan_idle K v) (consumer_status_impl (cx_cons K)) (\<lambda>_. chan_idle K v)"
  unfolding consumer_status_impl_def
proof (rule triple_cons_guarded [OF triple_quiet triple_cons_leave])
  show "quiet K (bind (shared_load (cons_c (cx_cons K))) (\<lambda>handle.
          try_bind (check_name_current (cn_transport handle) (cn_channel_name handle) (cn_object handle))
            (\<lambda>_. read_channel_status (cn_object handle))))"
    unfolding check_name_current_def shm_open_existing_def shm_fstat_and_capture_def
    by (auto intro!: quiet_intros quiet_reads [OF read_channel_status_reads] split: sum.splits)
qed simp_all

subsection \<open>Read loans\<close>

text \<open>A loan taken, its bytes read and given back, as the client of a loan does.\<close>

definition loan_snapshot :: "ReadLoan \<Rightarrow> ReadSnapshot" where
  "loan_snapshot loan =
     \<lparr>rs_encoded_size = rl_size loan, rs_checksum_ok = True, rs_sample_sequence = rl_sequence loan,
      rs_publish_boot_ns = rl_publish_boot_ns loan, rs_receive_boot_ns = rl_receive_boot_ns loan,
      rs_generation = rl_generation loan, rs_instance_nonce = rl_instance_nonce loan,
      rs_missed_samples = rl_missed_samples loan\<rparr>"

definition use_loan :: "nat \<Rightarrow> ReadLoan \<Rightarrow> (chan_world, ReadSnapshot \<times> bytes) prog" where
  "use_loan r loan =
     bind (shared_load (cons_c r)) (\<lambda>handle.
     bind (memcpy_from (cslot_payload_c (cn_object handle) (the (rl_slot loan))) 0 (unat (rl_size loan))) (\<lambda>encoded.
     bind (consumer_release_loan_impl loan) (\<lambda>_. Ret (loan_snapshot loan, encoded))))"

definition loan_read :: "nat \<Rightarrow> (chan_world, (ReadSnapshot \<times> bytes) result) prog" where
  "loan_read r =
     try_bind (consumer_try_loan_latest_impl r) (\<lambda>loan. bind (use_loan r loan) (\<lambda>x. Ret (Inr x)))"

definition loan_wait :: "nat \<Rightarrow> nat \<Rightarrow> u64 \<Rightarrow> (chan_world, (ReadSnapshot \<times> bytes) result option) prog" where
  "loan_wait fuel r timeout_ns =
     bind (consumer_wait_loan_latest_impl fuel r timeout_ns) (\<lambda>res.
       case res of
         None \<Rightarrow> Ret None
       | Some (Inl e) \<Rightarrow> Ret (Some (Inl e))
       | Some (Inr loan) \<Rightarrow> bind (use_loan r loan) (\<lambda>x. Ret (Some (Inr x))))"

lemma loan_snapshot_of_claim:
  "rs_checksum_ok (cr_snapshot cr) \<Longrightarrow> loan_snapshot (make_read_loan r cr) = cr_snapshot cr"
  by (cases cr) (simp add: loan_snapshot_def make_read_loan_def Let_def)

definition loaned :: "chan_ctx \<Rightarrow> tview \<Rightarrow> ReadLoan result \<Rightarrow> chan_config \<Rightarrow> bool" where
  "loaned K v r c \<longleftrightarrow>
     (case r of
        Inl e \<Rightarrow> e \<notin> damage \<and> chan_idle K v c
      | Inr loan \<Rightarrow> \<exists>cr. loan = make_read_loan (cx_cons K) cr \<and> held K v cr c)"

lemma stable_loaned [simp]: "cthr.stable K (tv_id v) (loaned K v r)"
  by (cases r) (simp_all add: loaned_def [abs_def])

lemma triple_use_loan:
  "cthr.triple K (tv_id v) (held K v cr) (use_loan (cx_cons K) (make_read_loan (cx_cons K) cr))
     (\<lambda>x. chan_read_post K v (Inr x))"
  unfolding held_def [abs_def]
proof (intro chan_triple_ex chan_triple_pure)
  fix m :: sample and h :: ConsumerHandle and tg and rs :: "(nat \<times> sample) list"
  assume m: "length (sm_bytes m) = unat (cx_size K)" "length (tv_base v) \<le> unat (sm_sequence m)" "cn_first_sample h = (rs = [])"
  let ?T = "took K (tv_id v) m (cr_snapshot cr)" and ?loan = "make_read_loan (cx_cons K) cr"
  let ?C = "\<lambda>hand S. cons_in K (add_read v m) h rs tg hand S"
  let ?held = "\<lambda>c. ?C (Some (cr_slot cr)) (\<lambda>y. slot_holds y m) c \<and> ?T c"
  have loan: "rl_active ?loan = True" "rl_handle ?loan = Some (cx_cons K)" "rl_slot ?loan = Some (cr_slot cr)"
      "rl_size ?loan = rs_encoded_size (cr_snapshot cr)"
    by (simp_all add: make_read_loan_def Let_def)
  have load: "cthr.triple K (tv_id v) ?held (shared_load (cons_c (cx_cons K))) (\<lambda>x c. handle_in K h x \<and> ?held c)"
    using triple_with_took [OF triple_handle_in [of K "add_read v m"]] by simp
  have bytes: "cthr.triple K (tv_id v) ?held
      (memcpy_from (cslot_payload_c (cx_object K) (cr_slot cr)) 0 (unat (cx_size K))) (\<lambda>bs c. bs = sm_bytes m \<and> ?held c)"
    using triple_with_took [OF triple_hand_memcpy [of m 0 "unat (cx_size K)" K "add_read v m"]] m(1) by simp
  have rel: "cthr.triple K (tv_id v) ?held (slot_release_read (cx_object K) (cr_slot cr)) (\<lambda>_ c. cons_free K (add_read v m) c \<and> ?T c)"
    by (rule cthr.triple_conseq [OF triple_with_took [OF triple_release_read [of K "add_read v m", simplified]]])
      (use m(3) in \<open>auto simp: cons_free_def\<close>)
  have leave: "cthr.triple K (tv_id v) (\<lambda>c. cons_free K (add_read v m) c \<and> ?T c) (release_consumer_loan_operation (cx_cons K))
      (\<lambda>_ c. chan_idle K (add_read v m) c \<and> ?T c)"
    using triple_with_took [OF triple_cons_release [of K "add_read v m"]] by simp
  have release: "cthr.triple K (tv_id v) ?held (consumer_release_loan_impl ?loan) (\<lambda>_ c. chan_idle K (add_read v m) c \<and> ?T c)"
    unfolding consumer_release_loan_impl_def loan(1-3) prod.case option.case bool.case
    by (rule cthr.triple_bind [OF load], rule chan_triple_pure, simp only: handle_inD(2),
        rule cthr.triple_bind [OF rel], rule cthr.triple_bind [OF leave], rule cthr.triple_Ret) simp_all
  have out: "cthr.triple K (tv_id v) (\<lambda>c. chan_idle K (add_read v m) c \<and> ?T c)
      (Ret (loan_snapshot ?loan, sm_bytes m)) (\<lambda>x. chan_read_post K v (Inr x))"
  proof (rule cthr.triple_Ret)
    fix c assume c: "chan_idle K (add_read v m) c \<and> ?T c"
    then have "loan_snapshot ?loan = cr_snapshot cr"
      using loan_snapshot_of_claim by (auto simp: took_def tells_def)
    then show "chan_read_post K v (Inr (loan_snapshot ?loan, sm_bytes m)) c"
      using c m(2) by (auto simp: chan_read_post_def)
  qed simp
  show "cthr.triple K (tv_id v) ?held (use_loan (cx_cons K) ?loan) (\<lambda>x. chan_read_post K v (Inr x))"
  proof (rule chan_triple_fact [of _ "rs_encoded_size (cr_snapshot cr) = cx_size K"])
    show "rs_encoded_size (cr_snapshot cr) = cx_size K" if "?held c" for c using that took_size m(1) by blast
    assume sz: "rs_encoded_size (cr_snapshot cr) = cx_size K"
    show "cthr.triple K (tv_id v) ?held (use_loan (cx_cons K) ?loan) (\<lambda>x. chan_read_post K v (Inr x))"
      unfolding use_loan_def loan sz option.sel
      by (rule cthr.triple_bind [OF load], rule chan_triple_pure, simp only: handle_inD(2),
          rule cthr.triple_bind [OF bytes], rule chan_triple_pure, hypsubst, rule cthr.triple_bind [OF release], rule out)
  qed
qed

lemma loaned_cases [simp]:
  "loaned K v (Inl e) c = (e \<notin> damage \<and> chan_idle K v c)"
  "loaned K v (Inr loan) c = (\<exists>cr. loan = make_read_loan (cx_cons K) cr \<and> held K v cr c)"
  by (simp_all add: loaned_def)

lemma triple_release_error:
  assumes "\<And>c. chan_idle K v c \<Longrightarrow> Q x c" and "cthr.stable K (tv_id v) (Q x)"
  shows "cthr.triple K (tv_id v) (cons_free K v) (bind (release_consumer_loan_operation (cx_cons K)) (\<lambda>_. Ret x)) Q"
  by (rule cthr.triple_bind [OF triple_cons_release], rule cthr.triple_Ret) (use assms in auto)

lemma triple_try_loan:
  "cthr.triple K (tv_id v) (chan_idle K v) (consumer_try_loan_latest_impl (cx_cons K)) (loaned K v)"
  unfolding consumer_try_loan_latest_impl_def
proof (rule cthr.triple_bind [OF triple_cons_enter])
  fix busy
  let ?p = "bind (claim_latest_unlocked (cx_cons K)) (\<lambda>claimed.
      case claimed of
        Inl e \<Rightarrow> bind (release_consumer_loan_operation (cx_cons K)) (\<lambda>_. Ret (Inl e))
      | Inr c \<Rightarrow> Ret (Inr (make_read_loan (cx_cons K) c)))"
  have "cthr.triple K (tv_id v) (cons_free K v) ?p (loaned K v)"
  proof (rule cthr.triple_bind [OF triple_claim_free])
    fix r :: "ClaimedRead result"
    show "cthr.triple K (tv_id v) (claim_post K v r)
      (case r of Inl e \<Rightarrow> bind (release_consumer_loan_operation (cx_cons K)) (\<lambda>_. Ret (Inl e))
       | Inr c \<Rightarrow> Ret (Inr (make_read_loan (cx_cons K) c))) (loaned K v)"
    proof (cases r)
      case (Inl e)
      show ?thesis
        unfolding Inl sum.case claim_post_def [abs_def]
        by (rule chan_triple_pure, rule triple_release_error) (use claim_errors_intact in auto)
    next
      case (Inr cr)
      show ?thesis
        unfolding Inr sum.case claim_post_def [abs_def] by (rule cthr.triple_Ret) auto
    qed
  qed
  then show "cthr.triple K (tv_id v) (\<lambda>c. if busy then chan_idle K v c else cons_free K v c)
      (if busy then Ret (Inl kConcurrentHandleUse) else ?p) (loaned K v)"
    by (cases busy) (auto intro!: cthr.triple_Ret simp: damage_def)
qed

lemma triple_loan_read:
  "cthr.triple K (tv_id v) (chan_idle K v) (loan_read (cx_cons K)) (chan_read_post K v)"
  unfolding loan_read_def try_bind_def
proof (rule cthr.triple_bind [OF triple_try_loan])
  fix r :: "ReadLoan result"
  have used: "cthr.triple K (tv_id v) (held K v cr)
      (bind (use_loan (cx_cons K) (make_read_loan (cx_cons K) cr)) (\<lambda>x. Ret (Inr x))) (chan_read_post K v)" for cr
    by (rule cthr.triple_bind [OF triple_use_loan], rule cthr.triple_Ret) simp_all
  show "cthr.triple K (tv_id v) (loaned K v r)
      (case r of Inl e \<Rightarrow> Ret (Inl e) | Inr loan \<Rightarrow> bind (use_loan (cx_cons K) loan) (\<lambda>x. Ret (Inr x))) (chan_read_post K v)"
  proof (cases r)
    case (Inl e)
    show ?thesis
      unfolding Inl sum.case loaned_def [abs_def]
      by (rule chan_triple_pure, rule cthr.triple_Ret) (simp_all add: chan_read_post_def)
  next
    case (Inr loan)
    show ?thesis
      unfolding Inr sum.case loaned_def [abs_def]
      by (rule chan_triple_ex, rule chan_triple_pure, hypsubst, rule used)
  qed
qed

definition wait_loaned :: "chan_ctx \<Rightarrow> tview \<Rightarrow> ReadLoan result option \<Rightarrow> chan_config \<Rightarrow> bool" where
  "wait_loaned K v r c \<longleftrightarrow> (case r of None \<Rightarrow> cons_free K v c | Some x \<Rightarrow> loaned K v x c)"

lemma wait_loaned_cases [simp]:
  "wait_loaned K v None c = cons_free K v c" "wait_loaned K v (Some x) c = loaned K v x c"
  by (simp_all add: wait_loaned_def)

lemma stable_wait_loaned [simp]: "cthr.stable K (tv_id v) (wait_loaned K v r)"
  by (cases r) (simp_all add: wait_loaned_def [abs_def])

lemma triple_wait_loan_loop:
  "cthr.triple K (tv_id v) (cons_free K v) (wait_loan_loop fuel (cx_cons K) deadline) (wait_loaned K v)"
proof (induction fuel)
  case 0
  show ?case by (simp, rule cthr.triple_Ret) simp_all
next
  case (Suc fuel)
  let ?next = "\<lambda>stop. case stop of
      Some e \<Rightarrow> bind (release_consumer_loan_operation (cx_cons K)) (\<lambda>_. Ret (Some (Inl e)))
    | None \<Rightarrow> wait_loan_loop fuel (cx_cons K) deadline"
  have round: "cthr.triple K (tv_id v) (cons_free K v) (bind (wait_round (cx_cons K) deadline) ?next) (wait_loaned K v)"
  proof (rule cthr.triple_bind [OF triple_quiet_yields [OF quiet_wait_round yields_wait_round]])
    fix stop
    show "cthr.triple K (tv_id v) (\<lambda>c. (\<forall>e. stop = Some e \<longrightarrow> e \<notin> damage) \<and> cons_free K v c) (?next stop) (wait_loaned K v)"
      by (rule chan_triple_pure, cases stop) (use Suc.IH in \<open>auto intro!: triple_release_error\<close>)
  qed simp_all
  show ?case
    unfolding wait_loan_loop.simps
  proof (rule cthr.triple_bind [OF triple_claim_free])
    fix r :: "ClaimedRead result"
    show "cthr.triple K (tv_id v) (claim_post K v r)
       (case r of
          Inl code \<Rightarrow>
            if code \<noteq> kNoNewSample \<and> code \<noteq> kReadContention
            then bind (release_consumer_loan_operation (cx_cons K)) (\<lambda>_. Ret (Some (Inl code)))
            else bind (wait_round (cx_cons K) deadline) ?next
        | Inr c \<Rightarrow> Ret (Some (Inr (make_read_loan (cx_cons K) c)))) (wait_loaned K v)"
    proof (cases r)
      case (Inl e)
      show ?thesis
        unfolding Inl sum.case claim_post_def [abs_def]
        by (rule chan_triple_pure, rule chan_triple_if, rule triple_release_error, simp add: claim_errors_intact, simp, rule round)
    next
      case (Inr cr)
      show ?thesis
        unfolding Inr sum.case claim_post_def [abs_def] by (rule cthr.triple_Ret) auto
    qed
  qed
qed

lemma triple_wait_loan:
  "cthr.triple K (tv_id v) (chan_idle K v) (consumer_wait_loan_latest_impl fuel (cx_cons K) timeout) (wait_loaned K v)"
  unfolding consumer_wait_loan_latest_impl_def Let_def
proof (rule cthr.triple_bind [OF triple_cons_enter])
  fix busy
  let ?p = "bind (monotonic_now_ns chan_kern_c) (\<lambda>now.
      if monotonic_deadline_ns now timeout = 0
      then bind (release_consumer_loan_operation (cx_cons K)) (\<lambda>_. Ret (Some (Inl kClockAnomaly)))
      else wait_loan_loop fuel (cx_cons K) (monotonic_deadline_ns now timeout))"
  have "cthr.triple K (tv_id v) (cons_free K v) ?p (wait_loaned K v)"
    by (rule triple_quiet_bind [OF quiet_actions(7)], simp, simp, rule chan_triple_if, rule triple_release_error)
      (auto intro: triple_wait_loan_loop simp: damage_def)
  then show "cthr.triple K (tv_id v) (\<lambda>c. if busy then chan_idle K v c else cons_free K v c)
      (if busy then Ret (Some (Inl kConcurrentHandleUse)) else ?p) (wait_loaned K v)"
    by (cases busy) (auto intro!: cthr.triple_Ret simp: damage_def)
qed

text \<open>A wait for a loan that has not ended still uses the handle.\<close>

definition loan_wait_post :: "chan_ctx \<Rightarrow> tview \<Rightarrow> (ReadSnapshot \<times> bytes) result option \<Rightarrow> chan_config \<Rightarrow> bool" where
  "loan_wait_post K v r c \<longleftrightarrow> (case r of None \<Rightarrow> cons_free K v c | Some x \<Rightarrow> chan_read_post K v x c)"

lemma stable_loan_wait_post [simp]: "cthr.stable K (tv_id v) (loan_wait_post K v r)"
  by (cases r) (simp_all add: loan_wait_post_def [abs_def])

lemma triple_loan_wait:
  "cthr.triple K (tv_id v) (chan_idle K v) (loan_wait fuel (cx_cons K) timeout) (loan_wait_post K v)"
  unfolding loan_wait_def
proof (rule cthr.triple_bind [OF triple_wait_loan])
  fix r :: "ReadLoan result option"
  have used: "cthr.triple K (tv_id v) (held K v cr)
      (bind (use_loan (cx_cons K) (make_read_loan (cx_cons K) cr)) (\<lambda>x. Ret (Some (Inr x)))) (loan_wait_post K v)" for cr
    by (rule cthr.triple_bind [OF triple_use_loan], rule cthr.triple_Ret) (simp_all add: loan_wait_post_def)
  consider "r = None" | e where "r = Some (Inl e)" | loan where "r = Some (Inr loan)"
    by (cases r rule: option.exhaust) (auto, metis sum.exhaust)
  then show "cthr.triple K (tv_id v) (wait_loaned K v r)
      (case r of None \<Rightarrow> Ret None | Some (Inl e) \<Rightarrow> Ret (Some (Inl e))
       | Some (Inr loan) \<Rightarrow> bind (use_loan (cx_cons K) loan) (\<lambda>x. Ret (Some (Inr x)))) (loan_wait_post K v)"
  proof cases
    case 1
    then show ?thesis by (auto intro!: cthr.triple_Ret simp: loan_wait_post_def)
  next
    case 2
    then show ?thesis by (auto intro!: cthr.triple_Ret simp: loan_wait_post_def chan_read_post_def)
  next
    case 3
    show ?thesis
      unfolding 3 option.case sum.case wait_loaned_def [abs_def] loaned_def
      by (rule chan_triple_ex, rule chan_triple_pure, hypsubst, rule used)
  qed
qed

end
