(* ===== verification/ER_Chan_History.thy ===== *)
theory ER_Chan_History
  imports ER_Chan_Consume
begin

text \<open>
  Clients of a channel and the histories of their interleavings: the consumer sees the samples of the
  producer in order, each complete, and skips only to a newer one.
\<close>


subsection \<open>Clients\<close>

text \<open>
  The calls of a thread that has both handles. A wait comes with the number of rounds it is given; when
  it has not ended after them, its thread is still waiting and makes no further call.
\<close>

datatype chan_call =
  CallPublish bytes | CallLoanPublish bytes | CallLoanAbort bytes | CallHeartbeat | CallProducerStatus |
  CallProducerShutdown | CallRead u32 | CallWaitRead nat u32 u64 | CallLoanRead | CallLoanWait nat u64 |
  CallConsumerStatus | CallConsumerShutdown

datatype chan_reply =
  RepPublish "PublishInfo result" | RepRead "(ReadSnapshot \<times> bytes) result" | RepWaiting | RepOther

definition wait_reply :: "(ReadSnapshot \<times> bytes) result option \<Rightarrow> chan_reply" where
  "wait_reply r = (case r of None \<Rightarrow> RepWaiting | Some x \<Rightarrow> RepRead x)"

fun chan_call_prog :: "ProducerHandle \<Rightarrow> nat \<Rightarrow> chan_call \<Rightarrow> (chan_world, chan_reply) prog" where
  "chan_call_prog h r (CallPublish b) = bind (producer_publish_impl h b) (\<lambda>x. Ret (RepPublish x))"
| "chan_call_prog h r (CallLoanPublish b) = bind (loan_publish h b) (\<lambda>x. Ret (RepPublish x))"
| "chan_call_prog h r (CallLoanAbort b) = bind (loan_abort h b) (\<lambda>_. Ret RepOther)"
| "chan_call_prog h r CallHeartbeat = bind (producer_heartbeat_impl h) (\<lambda>_. Ret RepOther)"
| "chan_call_prog h r CallProducerStatus = bind (producer_status_impl h) (\<lambda>_. Ret RepOther)"
| "chan_call_prog h r CallProducerShutdown = bind (producer_shutdown_impl h) (\<lambda>_. Ret RepOther)"
| "chan_call_prog h r (CallRead cap) = bind (consumer_try_read_latest_impl r cap) (\<lambda>x. Ret (RepRead x))"
| "chan_call_prog h r (CallWaitRead fuel cap timeout) =
     bind (consumer_wait_latest_impl fuel r cap timeout) (\<lambda>x. Ret (wait_reply x))"
| "chan_call_prog h r CallLoanRead = bind (loan_read r) (\<lambda>x. Ret (RepRead x))"
| "chan_call_prog h r (CallLoanWait fuel timeout) = bind (loan_wait fuel r timeout) (\<lambda>x. Ret (wait_reply x))"
| "chan_call_prog h r CallConsumerStatus = bind (consumer_status_impl r) (\<lambda>_. Ret RepOther)"
| "chan_call_prog h r CallConsumerShutdown = bind (consumer_shutdown_impl r) (\<lambda>_. Ret RepOther)"

primrec chan_script :: "ProducerHandle \<Rightarrow> nat \<Rightarrow> chan_call list \<Rightarrow> (chan_world, chan_reply list) prog" where
  "chan_script h r [] = Ret []"
| "chan_script h r (c # cs) =
     bind (chan_call_prog h r c) (\<lambda>rep.
       if rep = RepWaiting then Ret [rep] else bind (chan_script h r cs) (\<lambda>reps. Ret (rep # reps)))"

text \<open>Payloads have the size of the channel and buffers for a sample are large enough.\<close>

fun chan_call_ok :: "chan_ctx \<Rightarrow> chan_call \<Rightarrow> bool" where
  "chan_call_ok K (CallPublish b) \<longleftrightarrow> length b < 2 ^ 32"
| "chan_call_ok K (CallLoanPublish b) \<longleftrightarrow> length b = unat (cx_size K)"
| "chan_call_ok K (CallRead cap) \<longleftrightarrow> cx_size K \<le> cap"
| "chan_call_ok K (CallWaitRead fuel cap timeout) \<longleftrightarrow> cx_size K \<le> cap"
| "chan_call_ok K _ \<longleftrightarrow> True"

text \<open>What a thread has to publish, what its replies report as published and what they deliver.\<close>

fun chan_offered :: "chan_call \<Rightarrow> bytes list" where
  "chan_offered (CallPublish b) = [b]"
| "chan_offered (CallLoanPublish b) = [b]"
| "chan_offered _ = []"

fun chan_published1 :: "chan_call \<Rightarrow> chan_reply \<Rightarrow> sample list" where
  "chan_published1 (CallPublish b) (RepPublish (Inr info)) = [info_sample info b]"
| "chan_published1 (CallLoanPublish b) (RepPublish (Inr info)) = [info_sample info b]"
| "chan_published1 _ _ = []"

definition snapshot_sample :: "ReadSnapshot \<Rightarrow> bytes \<Rightarrow> sample" where
  "snapshot_sample snap b =
     \<lparr>sm_sequence = rs_sample_sequence snap, sm_publish_ns = rs_publish_boot_ns snap, sm_bytes = b\<rparr>"

fun chan_taken1 :: "chan_reply \<Rightarrow> sample list" where
  "chan_taken1 (RepRead (Inr (snap, b))) = [snapshot_sample snap b]"
| "chan_taken1 _ = []"

fun chan_published :: "chan_call list \<Rightarrow> chan_reply list \<Rightarrow> sample list" where
  "chan_published (c # cs) (rep # reps) = chan_published1 c rep @ chan_published cs reps"
| "chan_published _ _ = []"

definition chan_taken :: "chan_reply list \<Rightarrow> sample list" where
  "chan_taken reps = concat (map chan_taken1 reps)"

definition after_call :: "tview \<Rightarrow> chan_call \<Rightarrow> chan_reply \<Rightarrow> tview" where
  "after_call v c rep =
     v\<lparr>tv_pubs := tv_pubs v @ chan_published1 c rep, tv_reads := tv_reads v @ chan_taken1 rep\<rparr>"

lemma after_call_fields [simp]: "tv_id (after_call v c rep) = tv_id v" "tv_base (after_call v c rep) = tv_base v"
  by (simp_all add: after_call_def)

text \<open>
  A reply is right: a publication never runs out of slots, a read never reports damage, and what it
  delivers is recent and entered in the log of the samples taken.
\<close>

fun reply_right :: "chan_ctx \<Rightarrow> nat \<Rightarrow> nat \<Rightarrow> chan_reply \<Rightarrow> chan_config \<Rightarrow> bool" where
  "reply_right K i n (RepPublish r) c \<longleftrightarrow> chan_inv K c \<and> r \<noteq> Inl kNoWritableSlot"
| "reply_right K i n (RepRead (Inl e)) c \<longleftrightarrow> chan_inv K c \<and> e \<notin> damage"
| "reply_right K i n (RepRead (Inr (snap, b))) c \<longleftrightarrow>
     n \<le> unat (rs_sample_sequence snap) \<and> took K i (snapshot_sample snap b) snap c"
| "reply_right K i n _ c \<longleftrightarrow> chan_inv K c"

lemma reply_right_rely: "reply_right K i n rep c \<Longrightarrow> chan_rely K j c d \<Longrightarrow> reply_right K i n rep d"
  by (induction K i n rep c rule: reply_right.induct) (auto intro: took_rely simp: chan_rely_def)

lemma reply_right_guar: "reply_right K i n rep c \<Longrightarrow> chan_guar K j c d \<Longrightarrow> reply_right K i n rep d"
  by (induction K i n rep c rule: reply_right.induct) (auto intro: took_guar simp: chan_guar_def)

lemma stable_reply_right [simp]: "cthr.stable K j (reply_right K i n rep)"
  by (rule cthr.stableI) (rule reply_right_rely)

definition call_post :: "chan_ctx \<Rightarrow> tview \<Rightarrow> chan_call \<Rightarrow> chan_reply \<Rightarrow> chan_config \<Rightarrow> bool" where
  "call_post K v c rep d \<longleftrightarrow>
     (if rep = RepWaiting then chan_at K v d else chan_idle K (after_call v c rep) d) \<and>
     reply_right K (tv_id v) (length (tv_base v)) rep d"

lemma stable_call_post [simp]: "cthr.stable K (tv_id v) (call_post K v c rep)"
  unfolding call_post_def [abs_def]
  by (intro stable_chan_and stable_chan_if stable_reply_right) simp_all

lemma chan_idle_inv: "chan_idle K v d \<Longrightarrow> chan_inv K d"
  by (simp add: chan_idle_def chan_at_def)

lemma call_post_published:
  assumes "r \<noteq> Inl kNoWritableSlot \<and> chan_idle K (pub_view v b r) d"
  shows "call_post K v (CallPublish b) (RepPublish r) d" and "call_post K v (CallLoanPublish b) (RepPublish r) d"
  using assms chan_idle_inv [of K "pub_view v b r" d]
  by (cases r; auto simp: call_post_def after_call_def pub_view_def)+

lemma call_post_read:
  assumes "chan_read_post K v r d" and "\<And>rep. chan_published1 c rep = []"
  shows "call_post K v c (RepRead r) d"
proof (cases r)
  case (Inl e)
  then show ?thesis using assms chan_idle_inv [of K v d] by (auto simp: call_post_def after_call_def chan_read_post_def)
next
  case (Inr x)
  obtain snap b where x: "x = (snap, b)" by (cases x)
  then obtain m where m: "b = sm_bytes m" "length (tv_base v) \<le> unat (sm_sequence m)" "chan_idle K (add_read v m) d"
      "took K (tv_id v) m snap d"
    using assms(1) Inr by (auto simp: chan_read_post_def)
  then have "snapshot_sample snap b = m" by (auto simp: took_def tells_def snapshot_sample_def)
  moreover have "rs_sample_sequence snap = sm_sequence m" using m(4) by (auto simp: took_def tells_def)
  ultimately show ?thesis using m assms(2) Inr x by (simp add: call_post_def after_call_def)
qed

lemma call_post_other:
  assumes "chan_idle K v d" and "\<And>rep. chan_published1 c rep = []"
  shows "call_post K v c RepOther d"
  using assms chan_idle_inv [of K v d] by (auto simp: call_post_def after_call_def)

lemma triple_chan_reply:
  assumes "cthr.triple K (tv_id v) (chan_idle K v) p Q" and "\<And>x d. Q x d \<Longrightarrow> call_post K v c (f x) d"
  shows "cthr.triple K (tv_id v) (chan_idle K v) (bind p (\<lambda>x. Ret (f x))) (call_post K v c)"
  by (rule cthr.triple_bind [OF assms(1)], rule cthr.triple_Ret) (use assms(2) in simp_all)

lemma cons_free_at: "cons_free K v d \<Longrightarrow> chan_at K v d"
  by (auto simp: cons_free_def cons_in_def)

lemma call_post_waiting: "chan_at K v d \<Longrightarrow> call_post K v c RepWaiting d"
  by (simp add: call_post_def chan_at_def)

lemma triple_chan_call:
  assumes P: "producer_of K h" and geo: "channel_geometry (cx_size K) (cx_stride K)" and ok: "chan_call_ok K c"
  shows "cthr.triple K (tv_id v) (chan_idle K v) (chan_call_prog h (cx_cons K) c) (call_post K v c)"
proof (cases c)
  case (CallPublish b)
  show ?thesis
    unfolding CallPublish chan_call_prog.simps
    by (rule triple_chan_reply [OF triple_chan_publish [OF P _ geo]], use ok CallPublish in simp, rule call_post_published(1))
next
  case (CallLoanPublish b)
  show ?thesis
    unfolding CallLoanPublish chan_call_prog.simps
    by (rule triple_chan_reply [OF triple_loan_publish [OF P geo]], use ok CallLoanPublish in simp, rule call_post_published(2))
next
  case (CallLoanAbort b)
  show ?thesis
    unfolding CallLoanAbort chan_call_prog.simps
    by (rule triple_chan_reply [OF triple_loan_abort [OF P geo]], rule call_post_other) simp_all
next
  case CallHeartbeat
  show ?thesis
    unfolding CallHeartbeat chan_call_prog.simps producer_heartbeat_impl_def
    by (rule triple_chan_reply [OF triple_prod_quiet [OF P quiet_producer(3) [OF P]]], rule call_post_other) simp_all
next
  case CallProducerStatus
  have "quiet K (try_bind (check_name_current (pd_transport h) (pd_channel_name h) (pd_object h))
         (\<lambda>_. read_channel_status (pd_object h)))"
    by (intro quiet_try_bind quiet_producer [OF P])
  from triple_prod_quiet [OF P this] show ?thesis
    unfolding CallProducerStatus chan_call_prog.simps producer_status_impl_def
    by (rule triple_chan_reply, intro call_post_other) simp_all
next
  case CallProducerShutdown
  show ?thesis
    unfolding CallProducerShutdown chan_call_prog.simps
    by (rule triple_chan_reply [OF triple_prod_shutdown [OF P]], rule call_post_other) simp_all
next
  case (CallRead cap)
  show ?thesis
    unfolding CallRead chan_call_prog.simps
    by (rule triple_chan_reply [OF triple_try_read], use ok CallRead in simp, rule call_post_read) simp_all
next
  case (CallWaitRead fuel cap timeout)
  have post: "call_post K v c (wait_reply x) d" if "wait_post K v x d" for x d
    using that CallWaitRead by (cases x)
      (auto simp: wait_post_def wait_reply_def chan_idle_def intro!: call_post_read call_post_waiting)
  show ?thesis
    unfolding CallWaitRead chan_call_prog.simps
    by (rule triple_chan_reply [OF triple_wait_read], use ok CallWaitRead in simp, rule post [unfolded CallWaitRead])
next
  case CallLoanRead
  show ?thesis
    unfolding CallLoanRead chan_call_prog.simps
    by (rule triple_chan_reply [OF triple_loan_read], rule call_post_read) simp_all
next
  case (CallLoanWait fuel timeout)
  have post: "call_post K v c (wait_reply x) d" if "loan_wait_post K v x d" for x d
    using that CallLoanWait by (cases x)
      (auto simp: loan_wait_post_def wait_reply_def intro!: call_post_read call_post_waiting cons_free_at)
  show ?thesis
    unfolding CallLoanWait chan_call_prog.simps
    by (rule triple_chan_reply [OF triple_loan_wait], rule post [unfolded CallLoanWait])
next
  case CallConsumerStatus
  show ?thesis
    unfolding CallConsumerStatus chan_call_prog.simps
    by (rule triple_chan_reply [OF triple_cons_status], rule call_post_other) simp_all
next
  case CallConsumerShutdown
  show ?thesis
    unfolding CallConsumerShutdown chan_call_prog.simps
    by (rule triple_chan_reply [OF triple_cons_shutdown], rule call_post_other) simp_all
qed

definition script_post :: "chan_ctx \<Rightarrow> tview \<Rightarrow> chan_call list \<Rightarrow> chan_reply list \<Rightarrow> chan_config \<Rightarrow> bool" where
  "script_post K v cs reps d \<longleftrightarrow>
     chan_at K (v\<lparr>tv_pubs := tv_pubs v @ chan_published cs reps, tv_reads := tv_reads v @ chan_taken reps\<rparr>) d \<and>
     (\<forall>rep \<in> set reps. reply_right K (tv_id v) (length (tv_base v)) rep d)"

lemma stable_all [simp]: "(\<And>x. x \<in> X \<Longrightarrow> cthr.stable K i (P x)) \<Longrightarrow> cthr.stable K i (\<lambda>c. \<forall>x \<in> X. P x c)"
  unfolding cthr.stable_def by blast

lemma stable_chan_at' [simp]: "tv_id v = i \<Longrightarrow> cthr.stable K i (chan_at K v)"
  using stable_chan_at by blast

lemma stable_script_post [simp]: "cthr.stable K (tv_id v) (script_post K v cs reps)"
  unfolding script_post_def [abs_def] by (intro stable_chan_and stable_all stable_reply_right) simp

lemma script_post_Cons:
  assumes "script_post K (after_call v c rep) cs reps d" and "reply_right K (tv_id v) (length (tv_base v)) rep d"
  shows "script_post K v (c # cs) (rep # reps) d"
  using assms by (simp add: script_post_def after_call_def chan_taken_def)

lemma triple_chan_script:
  assumes P: "producer_of K h" and geo: "channel_geometry (cx_size K) (cx_stride K)" and "list_all (chan_call_ok K) cs"
  shows "cthr.triple K (tv_id v) (chan_idle K v) (chan_script h (cx_cons K) cs) (script_post K v cs)"
  using assms(3)
proof (induction cs arbitrary: v)
  case Nil
  show ?case by (simp, rule cthr.triple_Ret) (simp_all add: script_post_def chan_taken_def chan_idle_def)
next
  case (Cons c cs)
  let ?R = "\<lambda>rep. reply_right K (tv_id v) (length (tv_base v)) rep"
  have rest: "cthr.triple K (tv_id v) (call_post K v c rep)
      (if rep = RepWaiting then Ret [rep] else bind (chan_script h (cx_cons K) cs) (\<lambda>reps. Ret (rep # reps)))
      (script_post K v (c # cs))" for rep
  proof (cases "rep = RepWaiting")
    case True
    have none: "chan_published1 c RepWaiting = []" by (cases c) simp_all
    show ?thesis
      unfolding True if_True simp_thms
      by (rule cthr.triple_Ret) (use none in \<open>auto simp: call_post_def script_post_def chan_taken_def\<close>)
  next
    case False
    have "cthr.triple K (tv_id v) (chan_idle K (after_call v c rep)) (chan_script h (cx_cons K) cs)
        (script_post K (after_call v c rep) cs)"
      using Cons.IH [of "after_call v c rep"] Cons.prems by simp
    from cthr.triple_frame [OF this stable_reply_right reply_right_guar]
    have script: "cthr.triple K (tv_id v) (\<lambda>d. chan_idle K (after_call v c rep) d \<and> ?R rep d) (chan_script h (cx_cons K) cs)
        (\<lambda>reps d. script_post K (after_call v c rep) cs reps d \<and> ?R rep d)" .
    show ?thesis
      using False
      by (simp add: call_post_def [abs_def], intro cthr.triple_bind [OF script] cthr.triple_Ret)
        (auto intro: script_post_Cons)
  qed
  show ?case
    unfolding chan_script.simps
    by (rule cthr.triple_bind [OF triple_chan_call [OF P geo] rest]) (use Cons.prems in simp)
qed

subsection \<open>Histories\<close>

text \<open>
  A channel at rest with the samples \<open>ms\<close> published so far, the last of them the latest, and a
  consumer handle that has not read yet.
\<close>

definition channel_at_rest :: "chan_ctx \<Rightarrow> sample list \<Rightarrow> chan_world \<Rightarrow> bool" where
  "channel_at_rest K ms w \<longleftrightarrow>
     channel_geometry (cx_size K) (cx_stride K) \<and>
     map (\<lambda>m. unat (sm_sequence m)) ms = [1..<Suc (length ms)] \<and> length ms \<le> 2 ^ 62 - 1 \<and>
     (if ms = [] then seg_ticket w (cx_object K) = 0
      else \<exists>i < kSlotCount. seg_ticket w (cx_object K) = make_ticket (sm_sequence (last ms)) i \<and>
        cs_state (seg_slot w (cx_object K) (slot_off K i)) = chan_word ChanPublished \<and>
        slot_holds (seg_slot w (cx_object K) (slot_off K i)) (last ms)) \<and>
     (\<forall>i < kSlotCount.
        let x = seg_slot w (cx_object K) (slot_off K i) in
        cs_state x = chan_word ChanFree \<or>
        cs_state x = chan_word ChanPublished \<and> cs_payload_size x = cx_size K \<and> (\<exists>m \<in> set ms. slot_holds x m)) \<and>
     \<not> pf_in_use (cw_prods w (cx_prod K)) \<and>
     (let h = cw_cons w (cx_cons K) in
      \<not> cn_in_use h \<and> cn_object h = cx_object K \<and> cn_payload_size h = cx_size K \<and> cn_last_sequence h = 0 \<and>
      cn_first_sample h)"

definition rest_ghost :: "nat \<Rightarrow> sample list \<Rightarrow> chan_ghost" where
  "rest_ghost n ms =
     \<lparr>cg_prod = None, cg_cons = None, cg_write = None, cg_next = None, cg_target = None, cg_read = None,
      cg_log = map (Pair n) ms, cg_reads = []\<rparr>"

lemma rest_inv:
  assumes "channel_at_rest K ms w"
  shows "chan_inv K (w, rest_ghost n ms)"
  unfolding chan_inv_def fst_conv snd_conv
proof (rule chan_vinvI)
  let ?v = "chan_view K w" and ?g = "rest_ghost n ms"
  note R = assms [unfolded channel_at_rest_def Let_def]
  have v: "v_ticket ?v = seg_ticket w (cx_object K)" "v_slots ?v off = seg_slot w (cx_object K) off" for off
    by simp_all
  have slot: "cs_state (v_slots ?v off) = chan_word ChanFree \<or>
      cs_state (v_slots ?v off) = chan_word ChanPublished \<and> cs_payload_size (v_slots ?v off) = cx_size K \<and>
      (\<exists>m \<in> set ms. slot_holds (v_slots ?v off) m)" if off: "is_slot K off" for off
  proof -
    obtain i where "i < kSlotCount" "off = slot_off K i" using off unfolding is_slot_def by blast
    then show ?thesis using R unfolding v(2) by blast
  qed
  have L: "map (\<lambda>m. unat (sm_sequence m)) ms = [1..<Suc (length ms)]" "length ms \<le> 2 ^ 62 - 1"
    using R by blast+
  have H: "\<not> pf_in_use (cw_prods w (cx_prod K))" "\<not> cn_in_use (cw_cons w (cx_cons K))"
      "cn_object (cw_cons w (cx_cons K)) = cx_object K" "cn_payload_size (cw_cons w (cx_cons K)) = cx_size K"
      "cn_last_sequence (cw_cons w (cx_cons K)) = 0" "cn_first_sample (cw_cons w (cx_cons K))"
    using R by blast+
  show "channel_geometry (cx_size K) (cx_stride K)" using R by blast
  have "map (\<lambda>e. unat (sm_sequence (snd e))) (map (Pair n) ms) = map (\<lambda>m. unat (sm_sequence m)) ms" by simp
  then show "log_ok (cg_log ?g)"
    using L unfolding log_ok_def rest_ghost_def by (simp only: chan_ghost.simps length_map)
  show "latest_ok K (cg_log ?g) ?v"
    unfolding latest_ok_def v
    using conjunct1 [OF conjunct2 [OF conjunct2 [OF conjunct2 [OF R]]]]
    by (cases "ms = []") (auto simp: rest_ghost_def readable_def last_map)
  show "slot_ok ?g off (v_slots ?v off)" if "is_slot K off" for off
    using slot [OF that] by (auto simp: slot_ok_def rest_ghost_def readable_def in_hand_def image_image)
  show "prod_ok K ?v ?g" using H(1) by (simp add: prod_ok_def rest_ghost_def)
  show "cons_ok K ?v ?g"
    using H plain_handle_fields(1-4) [of "cw_cons w (cx_cons K)"] by (simp add: cons_ok_def rest_ghost_def reads_ok_def)
  show "cs_payload_size (v_slots ?v off) = cx_size K" if "is_slot K off" "readable (v_slots ?v off)" for off
    using slot [OF that(1)] that(2) by (auto simp: readable_def in_hand_def)
qed

text \<open>
  The history of an interleaving: \<open>log\<close> are the samples that became the latest and \<open>reads\<close> those that
  were taken, each with the thread that did it; \<open>ps\<close> is what is left of the threads.
\<close>

fun reply_history :: "nat \<Rightarrow> (nat \<times> sample) list \<Rightarrow> nat \<Rightarrow> chan_reply \<Rightarrow> bool" where
  "reply_history n reads i (RepPublish r) \<longleftrightarrow> r \<noteq> Inl kNoWritableSlot"
| "reply_history n reads i (RepRead (Inl e)) \<longleftrightarrow> e \<noteq> kPayloadCorrupt \<and> e \<noteq> kCorruptSlot"
| "reply_history n reads i (RepRead (Inr (snap, b))) \<longleftrightarrow>
     n \<le> unat (rs_sample_sequence snap) \<and>
     (\<exists>before. prefix (before @ [(i, snapshot_sample snap b)]) reads \<and> tells before (snapshot_sample snap b) snap)"
| "reply_history n reads i _ \<longleftrightarrow> True"

definition chan_history ::
  "sample list \<Rightarrow> chan_call list list \<Rightarrow> (nat \<times> sample) list \<Rightarrow> (nat \<times> sample) list \<Rightarrow>
   (chan_world, chan_reply list) prog list \<Rightarrow> bool" where
  "chan_history ms scripts log reads ps \<longleftrightarrow>
     (\<exists>new. log = map (Pair (length scripts)) ms @ new \<and> (\<forall>e \<in> set new. fst e < length scripts)) \<and>
     map (\<lambda>e. unat (sm_sequence (snd e))) log = [1..<Suc (length log)] \<and>
     sorted_wrt (<) (map (\<lambda>e. unat (sm_sequence (snd e))) reads) \<and> snd ` set reads \<subseteq> snd ` set log \<and>
     (\<forall>i < length scripts.
        subseq (map sm_bytes (logged_by i log)) (concat (map chan_offered (scripts ! i))) \<and>
        (\<forall>reps. ps ! i = Ret reps \<longrightarrow>
           logged_by i log = chan_published (scripts ! i) reps \<and> logged_by i reads = chan_taken reps \<and>
           (\<forall>rep \<in> set reps. reply_history (length ms) reads i rep)))"

definition chan_logs_grow :: "chan_ctx \<Rightarrow> nat \<Rightarrow> chan_config \<Rightarrow> chan_config \<Rightarrow> bool" where
  "chan_logs_grow K n c d \<longleftrightarrow>
     (chan_inv K c \<longrightarrow>
       chan_inv K d \<and> (\<exists>new. cg_log (snd d) = cg_log (snd c) @ new \<and> (\<forall>e \<in> set new. fst e < n)))"

lemma chan_logs_grow_refl: "chan_logs_grow K n c c"
  by (simp add: chan_logs_grow_def)

lemma chan_logs_grow_trans: "chan_logs_grow K n c d \<Longrightarrow> chan_logs_grow K n d e \<Longrightarrow> chan_logs_grow K n c e"
  unfolding chan_logs_grow_def by (auto simp: ball_Un)

lemma chan_logs_grow_guar: "i < n \<Longrightarrow> chan_guar K i c d \<Longrightarrow> chan_logs_grow K n c d"
  by (auto simp: chan_logs_grow_def chan_guar_def logs_extend_def)

lemma chan_logs_grow_env: "chan_env K s t \<Longrightarrow> chan_logs_grow K n (s, g) (t, g)"
  by (simp add: chan_logs_grow_def chan_env_def chan_inv_def)

lemma chan_logs_grow_guars:
  assumes "(chan_guar K i)\<^sup>*\<^sup>* c d" and "i < n" shows "chan_logs_grow K n c d"
  using assms(1)
  by (induction rule: rtranclp_induct)
    (auto intro: chan_logs_grow_refl chan_logs_grow_trans chan_logs_grow_guar assms(2))

definition chan_thread_view :: "nat \<Rightarrow> sample list \<Rightarrow> nat \<Rightarrow> tview" where
  "chan_thread_view n ms i = \<lparr>tv_id = i, tv_pubs = [], tv_reads = [], tv_base = map (Pair n) ms\<rparr>"

definition chan_thread_post where
  "chan_thread_post K ms scripts i reps =
     script_post K (chan_thread_view (length scripts) ms i) (scripts ! i) reps"

lemma all_safe_chan_scripts:
  assumes rest: "channel_at_rest K ms w" and P: "producer_of K h"
    and ok: "\<forall>cs \<in> set scripts. list_all (chan_call_ok K) cs"
  shows "csys.all_safe K (chan_thread_post K ms scripts) (w, map (chan_script h (cx_cons K)) scripts)
    (rest_ghost (length scripts) ms)"
  unfolding csys.all_safe_def
proof (intro allI impI)
  fix i assume "i < length (snd (w, map (chan_script h (cx_cons K)) scripts))"
  then have i: "i < length scripts" by simp
  let ?v = "chan_thread_view (length scripts) ms i" and ?g = "rest_ghost (length scripts) ms"
  have geo: "channel_geometry (cx_size K) (cx_stride K)" using rest by (simp add: channel_at_rest_def)
  have "chan_idle K ?v (w, ?g)"
    using rest_inv [OF rest] i
    by (simp add: chan_idle_def chan_at_def chan_thread_view_def rest_ghost_def logged_by_def o_def)
  then show "safe (chan_rely K i) (chan_guar K i) (snd (w, map (chan_script h (cx_cons K)) scripts) ! i)
      (chan_thread_post K ms scripts i) (fst (w, map (chan_script h (cx_cons K)) scripts), ?g)"
    using triple_chan_script [OF P geo, of "scripts ! i" ?v] ok i
    by (simp add: cthr.triple_def chan_thread_post_def [abs_def] chan_thread_view_def)
qed

lemma published_offered: "subseq (map sm_bytes (chan_published cs reps)) (concat (map chan_offered cs))"
proof (induction cs reps rule: chan_published.induct)
  case (1 c cs rep reps)
  have "subseq (map sm_bytes (chan_published1 c rep)) (chan_offered c)"
    by (cases "(c, rep)" rule: chan_published1.cases) (auto simp: info_sample_def)
  then show ?case using 1 by (auto intro: list_emb_append_mono)
qed auto

lemma script_postD:
  assumes "script_post K (chan_thread_view n ms i) cs reps (t, g)"
  shows "logged_by i (cg_log g) = chan_published cs reps" and "logged_by i (cg_reads g) = chan_taken reps"
    and "rep \<in> set reps \<Longrightarrow> reply_history (length ms) (cg_reads g) i rep"
proof -
  show "logged_by i (cg_log g) = chan_published cs reps" "logged_by i (cg_reads g) = chan_taken reps"
    using assms by (simp_all add: script_post_def chan_at_def chan_thread_view_def)
  have right: "reply_right K i (length ms) rep (t, g)" if "rep \<in> set reps"
    using assms that by (simp add: script_post_def chan_thread_view_def)
  show "reply_history (length ms) (cg_reads g) i rep" if "rep \<in> set reps"
    using right [OF that]
    by (cases "(length ms, cg_reads g, i, rep)" rule: reply_history.cases) (auto simp: damage_def took_def)
qed

lemma logged_by_append_list: "logged_by i (xs @ ys) = logged_by i xs @ logged_by i ys"
  by (simp add: logged_by_def)

lemma chan_unfinished:
  assumes safe: "csys.all_safe K (chan_thread_post K ms scripts) (w, ps) g"
    and inv: "chan_inv K (w, g)" and i: "i < length ps"
  shows "subseq (map sm_bytes (logged_by i (cg_log g))) (concat (map chan_offered (scripts ! i)))"
proof -
  obtain t qs g' reps where "csys.all_safe K (chan_thread_post K ms scripts) (t, qs) g'" "i < length qs"
      "qs ! i = Ret reps" and G: "(chan_guar K i)\<^sup>*\<^sup>* (w, g) (t, g')"
    using csys.par_finish [OF safe i] by blast
  then have "script_post K (chan_thread_view (length scripts) ms i) (scripts ! i) reps (t, g')"
    using csys.all_safe_result [of K "chan_thread_post K ms scripts" t qs g' i reps] by (simp add: chan_thread_post_def)
  from script_postD(1) [OF this] have all: "logged_by i (cg_log g') = chan_published (scripts ! i) reps" .
  obtain xs where "cg_log g' = cg_log g @ xs"
    using chan_logs_grow_guars [OF G lessI] inv unfolding chan_logs_grow_def snd_conv by blast
  then have "prefix (map sm_bytes (logged_by i (cg_log g))) (map sm_bytes (chan_published (scripts ! i) reps))"
    by (simp add: all [symmetric] logged_by_append_list)
  from subseq_order.trans [OF prefix_imp_subseq [OF this] published_offered] show ?thesis .
qed

lemma chan_history_reached:
  assumes safe: "csys.all_safe K (chan_thread_post K ms scripts) (w, ps) g"
    and inv: "chan_inv K (w, g)" and len: "length ps = length scripts"
    and log: "cg_log g = map (Pair (length scripts)) ms @ new" "\<forall>e \<in> set new. fst e < length scripts"
  shows "chan_history ms scripts (cg_log g) (cg_reads g) ps"
proof -
  have V: "chan_vinv K (chan_view K w) g" using inv by (simp add: chan_inv_def)
  have over: "script_post K (chan_thread_view (length scripts) ms i) (scripts ! i) reps (w, g)"
    if "i < length scripts" "ps ! i = Ret reps" for i reps
    using csys.all_safe_result [OF safe, of i reps] that len by (simp add: chan_thread_post_def)
  show ?thesis
    unfolding chan_history_def
  proof (intro conjI allI impI ballI exI)
    show "cg_log g = map (Pair (length scripts)) ms @ new" "e \<in> set new \<Longrightarrow> fst e < length scripts" for e
      using log by blast+
    show "map (\<lambda>e. unat (sm_sequence (snd e))) (cg_log g) = [1..<Suc (length (cg_log g))]"
      using chan_vinvD(2) [OF V] unfolding log_ok_def by blast
    show "sorted_wrt (<) (map (\<lambda>e. unat (sm_sequence (snd e))) (cg_reads g))" "snd ` set (cg_reads g) \<subseteq> snd ` set (cg_log g)"
      using chan_vinvD(6) [OF V] unfolding cons_ok_def reads_ok_def by blast+
    fix i assume i: "i < length scripts"
    show "subseq (map sm_bytes (logged_by i (cg_log g))) (concat (map chan_offered (scripts ! i)))"
      using chan_unfinished [OF safe inv] i len by simp
    fix reps assume "ps ! i = Ret reps"
    note D = script_postD [OF over [OF i this]]
    show "logged_by i (cg_log g) = chan_published (scripts ! i) reps" "logged_by i (cg_reads g) = chan_taken reps"
      by (rule D)+
    show "reply_history (length ms) (cg_reads g) i rep" if "rep \<in> set reps" for rep by (rule D(3) [OF that])
  qed
qed

lemma chan_scripts_run:
  assumes "(par_step (chan_env K))\<^sup>*\<^sup>* (s, ps) (t, qs)" and "csys.all_safe K Q (s, ps) g" and "length ps = n"
  shows "\<exists>g'. length qs = n \<and> csys.all_safe K Q (t, qs) g' \<and> chan_logs_grow K n (s, g) (t, g')"
proof -
  have "\<exists>g'. length (snd (t, qs)) = length (snd (s, ps)) \<and> csys.all_safe K Q (t, qs) g' \<and>
      chan_logs_grow K n (fst (s, ps), g) (fst (t, qs), g')"
  proof (rule csys.par_run_safe [OF assms(1,2)])
    fix i d d'
    show "i < length (snd (s, ps)) \<Longrightarrow> chan_guar K i d d' \<Longrightarrow> chan_logs_grow K n d d'"
      using chan_logs_grow_guar assms(3) by simp
  qed (blast intro: chan_logs_grow_env chan_logs_grow_refl chan_logs_grow_trans)+
  then show ?thesis using assms(3) by simp
qed

text \<open>A fresh channel for payloads of eight bytes, for the examples.\<close>

definition sample_os :: channel_os where
  "sample_os =
     \<lparr>os_mkdir = (\<lambda>_. Some EEXIST), os_open_lock = (\<lambda>_. None), os_fstat_lock = (\<lambda>_. Inr (1000, 1)),
      os_flock = (\<lambda>_. None), os_pread = (\<lambda>_. Inr 4096), os_pwrite = (\<lambda>_. Inr 4096),
      os_fdatasync = (\<lambda>_. None), os_io_calls = 0, os_memfd_create = (\<lambda>_. Inr 3), os_fchmod = (\<lambda>_. None),
      os_socket_exists = (\<lambda>_. False), os_broker_bind = (\<lambda>_. Inr 4),
      os_broker_request = (\<lambda>_ _. Inl kProducerOffline), os_thread_starts = True, os_log = []\<rparr>"

definition sample_channel_hdr :: ChannelHeaderAbi where
  "sample_channel_hdr =
     \<lparr>ch_immutable =
        \<lparr>ci_magic = kChannelHeaderMagic, ci_abi_major = 1, ci_abi_minor = 0, ci_header_size = 320,
         ci_endian_marker = kEndianMarker, ci_slot_count = kSlotCount, ci_payload_size = 8,
         ci_max_payload_size = kMaxPayloadSize, ci_schema_version = 1, ci_mapping_size = 832,
         ci_schema_fingerprint = replicate 32 1, ci_generation = 3, ci_nonce_hi = 6, ci_nonce_lo = 7,
         ci_heartbeat_interval_ns = 0\<rparr>,
      ch_producer = \<lparr>pa_role_epoch = 2, pa_pid = 42, pa_ticks = 777, pa_boot_hi = 1, pa_boot_lo = 2,
                      pa_reserved = replicate 24 0\<rparr>,
      ch_consumer = \<lparr>pa_role_epoch = 2, pa_pid = 42, pa_ticks = 777, pa_boot_hi = 1, pa_boot_lo = 2,
                      pa_reserved = replicate 24 0\<rparr>,
      ch_latest_ticket = 0, ch_notify_epoch = 0, ch_init_state = chan_init_word InitReady,
      ch_producer_state = endpoint_word EndOnline, ch_consumer_state = endpoint_word EndOnline,
      ch_publish_count = 0, ch_read_count = 0, ch_last_publish_boot_ns = 0, ch_heartbeat_boot_ns = 0\<rparr>"

definition sample_bootstrap :: BootstrapHeaderAbi where
  "sample_bootstrap =
     \<lparr>bo_magic = kBootstrapMagic, bo_abi_major = 1, bo_abi_minor = 0, bo_header_size = 128,
      bo_expected_mapping_size = 832, bo_nonce_hi = 6, bo_nonce_lo = 7, bo_pid = 42, bo_ticks = 777,
      bo_boot_hi = 1, bo_boot_lo = 2, bo_init_state = chan_init_word InitReady, bo_reserved0 = 0,
      bo_checksum = 0, bo_reserved = replicate 40 0\<rparr>"

definition sample_producer :: ProducerHandle where
  "sample_producer =
     \<lparr>pd_ref = 0, pd_object = (1, 2), pd_channel_name = ''cam'', pd_generation = 3, pd_role_epoch = 2,
      pd_nonce_hi = 6, pd_nonce_lo = 7, pd_schema_fingerprint = replicate 32 1, pd_schema_version = 1,
      pd_payload_size = 8, pd_self = \<lparr>id_pid = 42, id_ticks = 777, id_boot_hi = 1, id_boot_lo = 2\<rparr>,
      pd_transport = transport_word PosixShm, pd_channel_hash = channel_name_hash ''cam'',
      pd_socket_path = '''', pd_heartbeat_interval_ns = 0\<rparr>"

definition sample_consumer :: ConsumerHandle where
  "sample_consumer =
     \<lparr>cn_object = (1, 2), cn_channel_name = ''cam'', cn_transport = transport_word PosixShm, cn_generation = 3,
      cn_role_epoch = 2, cn_nonce_hi = 6, cn_nonce_lo = 7, cn_schema_fingerprint = replicate 32 1,
      cn_schema_version = 1, cn_payload_size = 8,
      cn_self = \<lparr>id_pid = 42, id_ticks = 777, id_boot_hi = 1, id_boot_lo = 2\<rparr>, cn_reconnect_timeout_ms = 1000,
      cn_last_sequence = 0, cn_first_sample = True, cn_in_use = False, cn_shutdown_pending = False,
      cn_shutdown_started = False\<rparr>"

definition sample_channel :: chan_world where
  "sample_channel =
     \<lparr>cw_segs = (\<lambda>_. \<lparr>sg_boot = bootstrap_bytes sample_bootstrap, sg_hdr = sample_channel_hdr,
        sg_slots = (\<lambda>_. \<lparr>cs_state = chan_word ChanFree, cs_payload_size = 0, cs_sample_sequence = 0,
          cs_publish_boot_ns = 0, cs_payload_checksum = 0, cs_reader_role_epoch = 0, cs_payload = (\<lambda>_. 0)\<rparr>)\<rparr>),
      cw_prods = (\<lambda>_. \<lparr>pf_in_use = False, pf_shutdown_pending = False, pf_shutdown_started = False,
        pf_serve_stop = False, pf_socket_unlinked = False\<rparr>),
      cw_cons = (\<lambda>_. sample_consumer), cw_journals = (\<lambda>_. []), cw_os = sample_os,
      cw_kern = sample_kernel\<lparr>k_clock_reads := 5\<rparr>\<rparr>"

definition sample_ctx :: chan_ctx where
  "sample_ctx = \<lparr>cx_object = (1, 2), cx_prod = 0, cx_cons = 0, cx_size = 8, cx_stride = 128\<rparr>"

definition sample_chan_scripts :: "chan_call list list" where
  "sample_chan_scripts =
     [[CallPublish [1, 2, 3, 4, 5, 6, 7, 8], CallPublish [8, 7, 6, 5, 4, 3, 2, 1]], [CallRead 8, CallLoanRead]]"

lemma sample_channel_at_rest: "channel_at_rest sample_ctx [] sample_channel"
proof -
  have "channel_geometry 8 128"
    by (simp add: channel_geometry_def kMaxPayloadSize_def channel_stride_def kSlotHeaderSize_def
        round_up_to_multiple_u64_def checked_add_u64_def U64_MAX_def)
  then show ?thesis
    unfolding channel_at_rest_def Let_def
    by (simp add: sample_ctx_def sample_channel_def sample_channel_hdr_def sample_consumer_def)
qed

lemma sample_producer_of: "producer_of sample_ctx sample_producer"
  by (simp add: producer_of_def sample_ctx_def sample_producer_def)

lemma sample_scripts_ok: "\<forall>cs \<in> set sample_chan_scripts. list_all (chan_call_ok sample_ctx) cs"
  by (simp add: sample_chan_scripts_def sample_ctx_def)

text \<open>
  C3. Threads that share the producer and the consumer handle of a channel publish (by copy or by loan),
  give loans up, send heartbeats, read (with and without waiting, by copy or by loan), ask for the status
  and shut down, interleaved at every atomic access and single byte, starting from a channel at rest. The
  samples that become the latest have consecutive sequence numbers, the payloads of a thread are those it
  was asked to publish, in its order, and a finished thread reports exactly its entries; samples are taken
  in increasing order and none twice, every sample taken is one that was published, complete and with its
  own metadata, never older than the newest sample at the start, and the number of missed samples told to
  the reader is exactly the gap to the sample taken before. No publication fails for want of a slot, and
  no read reports a damaged slot or payload.
\<close>

theorem channel_interleavings_latest_value:
  assumes "channel_at_rest K ms w0" and "producer_of K h" and "\<forall>cs \<in> set scripts. list_all (chan_call_ok K) cs"
    and "(par_step (chan_env K))\<^sup>*\<^sup>* (w0, map (chan_script h (cx_cons K)) scripts) (w, ps)"
  shows "\<exists>log reads. chan_history ms scripts log reads ps"
proof -
  let ?g = "rest_ghost (length scripts) ms"
  obtain g where l: "length ps = length scripts"
    and s: "csys.all_safe K (chan_thread_post K ms scripts) (w, ps) g"
    and t: "chan_logs_grow K (length scripts) (w0, ?g) (w, g)"
    using chan_scripts_run [OF assms(4) all_safe_chan_scripts [OF assms(1-3)]] by auto
  obtain new where "chan_inv K (w, g)" "cg_log g = map (Pair (length scripts)) ms @ new" "\<forall>e \<in> set new. fst e < length scripts"
    using t rest_inv [OF assms(1)] by (auto simp: chan_logs_grow_def rest_ghost_def)
  from chan_history_reached [OF s this(1) l this(2,3)] show ?thesis by blast
qed

lemma par_run_two:
  "(par_step E)\<^sup>*\<^sup>* (s, [p, q]) (snd (run q (snd (run p s))), [Ret (fst (run p s)), Ret (fst (run q (snd (run p s))))])"
proof -
  have "(par_step E)\<^sup>*\<^sup>* (s, [p, q]) (snd (run p s), [Ret (fst (run p s)), q])"
    using par_run_solo [of 0 "[p, q]" E s] by simp
  moreover have "(par_step E)\<^sup>*\<^sup>* (s', [r, q]) (snd (run q s'), [r, Ret (fst (run q s'))])" for s' r
    using par_run_solo [of 1 "[r, q]" E s'] by simp
  ultimately show ?thesis by (rule rtranclp_trans)
qed

theorem channel_interleavings_latest_value_witness:
  "let p = chan_script sample_producer 0 (sample_chan_scripts ! 0);
       q = chan_script sample_producer 0 (sample_chan_scripts ! 1);
       w = snd (run p sample_channel)
   in \<exists>log reads. chan_history [] sample_chan_scripts log reads [Ret (fst (run p sample_channel)), Ret (fst (run q w))]"
  unfolding Let_def
proof (rule channel_interleavings_latest_value [OF sample_channel_at_rest sample_producer_of sample_scripts_ok])
  have "map (chan_script sample_producer (cx_cons sample_ctx)) sample_chan_scripts =
      [chan_script sample_producer 0 (sample_chan_scripts ! 0), chan_script sample_producer 0 (sample_chan_scripts ! 1)]"
    by (simp add: sample_chan_scripts_def sample_ctx_def)
  then show "(par_step (chan_env sample_ctx))\<^sup>*\<^sup>*
      (sample_channel, map (chan_script sample_producer (cx_cons sample_ctx)) sample_chan_scripts)
      (snd (run (chan_script sample_producer 0 (sample_chan_scripts ! 1))
          (snd (run (chan_script sample_producer 0 (sample_chan_scripts ! 0)) sample_channel))),
       [Ret (fst (run (chan_script sample_producer 0 (sample_chan_scripts ! 0)) sample_channel)),
        Ret (fst (run (chan_script sample_producer 0 (sample_chan_scripts ! 1))
          (snd (run (chan_script sample_producer 0 (sample_chan_scripts ! 0)) sample_channel))))])"
    by (simp only:) (rule par_run_two)
qed

end
