(* ===== verification/ER_Journal_Crash.thy ===== *)
theory ER_Journal_Crash
  imports ER_Chan_History
begin

text \<open>
  What the control journal holds after writes that succeed, fail or are cut short by a crash.
\<close>

lemma os_reads_io [simp]: "os_reads (k\<lparr>os_io_calls := n\<rparr>) = os_reads k"
  by (simp add: os_reads_def)

context journal_file
begin

lemma pwrite_keeps_reads:
  "os_reads (rd oc (snd (run (pwrite_loop fc oc passes src k) s))) = os_reads (rd oc s)"
proof (induction passes arbitrary: k s)
  case (Suc passes)
  show ?case
    by (cases "os_pwrite (rd oc s) (os_io_calls (rd oc s))")
      (simp_all add: run_simps Let_def Suc.IH osc.rd_wr)
qed simp

lemma pwrite_crash_reads:
  "c \<in> crash_states (pwrite_loop fc oc passes src k) s \<Longrightarrow> os_reads (rd oc c) = os_reads (rd oc s)"
proof (induction passes arbitrary: k s)
  case (Suc passes)
  show ?case
    using Suc.prems
    by (cases "os_pwrite (rd oc s) (os_io_calls (rd oc s))")
      (auto simp: os_io_def crash_states_bind run_simps Let_def osc.rd_wr dest!: Suc.IH split: if_splits)
qed simp

lemma write_crash_reads:
  "c \<in> crash_states (write_journal fc oc j) s \<Longrightarrow> os_reads (rd oc c) = os_reads (rd oc s)"
  using pwrite_crash_reads [of c kJournalRecordSize "journal_bytes (sealed_journal j)" 0 s]
    pwrite_keeps_reads [of kJournalRecordSize "journal_bytes (sealed_journal j)" 0 s]
  by (auto simp: write_journal_def crash_states_bind os_io_def osc.rd_wr split: if_splits sum.splits option.splits)

lemma write_keeps_reads:
  "os_reads (rd oc (snd (run (write_journal fc oc j) s))) = os_reads (rd oc s)"
  using pwrite_keeps_reads [of kJournalRecordSize "journal_bytes (sealed_journal j)" 0 s]
  by (auto simp: write_journal_def run_simps osc.rd_wr split: prod.splits sum.splits option.splits)

end

lemma os_cell [simp]: "rd chan_os_c w = cw_os w" and journal_cell [simp]: "rd (journal_c path) w = cw_journals w path"
  by (simp_all add: chan_os_c_def journal_c_def)

definition sample_journal :: ControlJournalV1 where
  "sample_journal =
     make_control_journal ''cam'' JCreatingPreObject 0 1 (0, 0) (6, 7)
       \<lparr>id_pid = 42, id_ticks = 777, id_boot_hi = 1, id_boot_lo = 2\<rparr>"

lemma made_journal:
  "journal_shaped (make_control_journal name st og ng on nn cr)"
  "take 7 (cj_magic (make_control_journal name st og ng on nn cr)) = kJournalMagic"
  "cj_version (make_control_journal name st og ng on nn cr) = kJournalVersion"
  by (simp_all add: make_control_journal_def journal_shaped_def kJournalMagic_def string_bytes_def)

lemma sample_journal_written:
  "fst (run (write_journal (journal_c ''/l'') chan_os_c sample_journal) sample_channel) = Inr ()"
proof -
  have "journal_shaped (sealed_journal sample_journal)"
    using made_journal(1) by (simp add: journal_shaped_def sealed_journal_def sample_journal_def)
  then have len: "length (journal_bytes (sealed_journal sample_journal)) = 256" by (rule length_journal_bytes)
  obtain p where passes: "kJournalRecordSize = Suc (Suc p)"
    by (rule that [of 254]) (simp add: kJournalRecordSize_def)
  have creator: "process_identity_valid (identity_of_abi (cj_creator sample_journal))"
    by (simp add: sample_journal_def make_control_journal_def identity_of_abi_def process_identity_valid_def INT32_MAX_u64_def)
  have os: "os_pwrite (cw_os sample_channel) n = Inr 4096" "os_fdatasync (cw_os sample_channel) n = None" for n
    by (simp_all add: sample_channel_def sample_os_def)
  show ?thesis
    by (simp add: write_journal_def creator passes run_simps len os Let_def chan_cell_access chan_os_c_def journal_c_def)
qed

text \<open>
  C11. A journal record that was written with success is read back unchanged, with its checksum filled in,
  however the file system splits the writes and the reads.
\<close>

theorem journal_roundtrip:
  assumes "journal_shaped j" and "take 7 (cj_magic j) = kJournalMagic" and "cj_version j = kJournalVersion"
    and "length (cw_journals w path) \<le> 256" and "os_reads (cw_os w)"
    and "fst (run (write_journal (journal_c path) chan_os_c j) w) = Inr ()"
  shows "fst (run (read_journal (journal_c path) chan_os_c) (snd (run (write_journal (journal_c path) chan_os_c j) w))) =
    Inr (sealed_journal j)"
proof -
  let ?w = "snd (run (write_journal (journal_c path) chan_os_c j) w)"
  have "cw_journals ?w path = journal_bytes (sealed_journal j)"
    using journal.write_done [OF assms(1) _ assms(6)] assms(4) by simp
  moreover have "os_reads (rd chan_os_c ?w)" using journal.write_keeps_reads assms(5) by simp
  moreover have "length (journal_bytes (sealed_journal j)) = 256"
    using assms(1) by (intro length_journal_bytes) (simp add: journal_shaped_def sealed_journal_def)
  ultimately show ?thesis
    using journal.read_parses parse_sealed [OF assms(1-3)] by simp
qed

theorem journal_roundtrip_witness:
  "fst (run (read_journal (journal_c ''/l'') chan_os_c)
     (snd (run (write_journal (journal_c ''/l'') chan_os_c sample_journal) sample_channel))) =
   Inr (sealed_journal sample_journal)"
proof (rule journal_roundtrip)
  show "length (cw_journals sample_channel ''/l'') \<le> 256" "os_reads (cw_os sample_channel)"
    by (simp_all add: sample_channel_def sample_os_def os_reads_def)
  show "fst (run (write_journal (journal_c ''/l'') chan_os_c sample_journal) sample_channel) = Inr ()"
    by (rule sample_journal_written)
qed (simp_all add: sample_journal_def made_journal)

text \<open>
  C10. A process that is killed at any point of the first journal write of a channel leaves a file that the
  next one reads as no transaction at all, as the complete record, or as a blocked recovery: a record that
  was written in part is never taken for a valid one.
\<close>

theorem journal_first_write_crash:
  assumes "journal_shaped j" and "take 7 (cj_magic j) = kJournalMagic" and "cj_version j = kJournalVersion"
    and "cw_journals w path = []" and "os_reads (cw_os w)"
    and "c \<in> crash_states (write_journal (journal_c path) chan_os_c j) w"
  shows "fst (run (read_journal (journal_c path) chan_os_c) c) \<in>
    {Inr journal_zero, Inr (sealed_journal j), Inl kRecoveryBlocked}"
proof -
  let ?rec = "journal_bytes (sealed_journal j)"
  have len: "length ?rec = 256"
    using assms(1) by (intro length_journal_bytes) (simp add: journal_shaped_def sealed_journal_def)
  obtain m where m: "m \<le> 256" "cw_journals c path = take m ?rec"
    using journal.write_crash [OF assms(1,6)] assms(4) by auto
  have "os_reads (rd chan_os_c c)" using journal.write_crash_reads [OF assms(6)] assms(5) by simp
  then have read: "fst (run (read_journal (journal_c path) chan_os_c) c) = parse_journal (take m ?rec)"
    using journal.read_parses [of c path] m by simp
  consider "m = 0" | "m = 256" | "0 < m" "m < 256" using m(1) by linarith
  then show ?thesis
  proof cases
    case 1
    then show ?thesis using read by (simp add: parse_journal_def)
  next
    case 2
    then show ?thesis using read len parse_sealed [OF assms(1-3)] by simp
  next
    case 3
    then have "take m ?rec \<noteq> []" "length (take m ?rec) < 256" using len by (cases ?rec; simp)+
    then show ?thesis using read parse_partial by simp
  qed
qed

theorem journal_first_write_crash_witness:
  "fst (run (read_journal (journal_c ''/l'') chan_os_c)
     (snd (run (write_journal (journal_c ''/l'') chan_os_c sample_journal) sample_channel))) \<in>
   {Inr journal_zero, Inr (sealed_journal sample_journal), Inl kRecoveryBlocked}"
proof (rule journal_first_write_crash)
  show "cw_journals sample_channel ''/l'' = []" "os_reads (cw_os sample_channel)"
    by (simp_all add: sample_channel_def sample_os_def os_reads_def)
qed (simp_all add: sample_journal_def made_journal run_crash_states)

text \<open>
  C12. A stored journal record of which any one byte was changed is never read as valid: the next
  transaction reports a blocked recovery.
\<close>

theorem journal_byte_change_rejected:
  assumes "journal_shaped j" and "take 7 (cj_magic j) = kJournalMagic" and "cj_version j = kJournalVersion"
    and "i < 256" and "journal_bytes (sealed_journal j) ! i \<noteq> b" and "os_reads (cw_os w)"
    and "cw_journals w path = (journal_bytes (sealed_journal j))[i := b]"
  shows "fst (run (read_journal (journal_c path) chan_os_c) w) = Inl kRecoveryBlocked"
proof -
  let ?rec = "journal_bytes (sealed_journal j)"
  have len: "length ?rec = 256"
    using assms(1) by (intro length_journal_bytes) (simp add: journal_shaped_def sealed_journal_def)
  have magic: "take 7 ?rec = kJournalMagic"
    using assms(1,2) by (simp add: journal_bytes_def journal_front_def sealed_journal_def journal_shaped_def)
  have first: "?rec ! 0 = 69" "?rec ! 1 = 68"
    using arg_cong [OF magic, of "\<lambda>l. l ! 0"] arg_cong [OF magic, of "\<lambda>l. l ! 1"] len
    by (simp_all add: kJournalMagic_def string_bytes_def char_byte_def)
  have nz: "\<not> list_all (\<lambda>b. b = 0) ?rec" and nz': "\<not> list_all (\<lambda>b. b = 0) (?rec[i := b])"
  proof -
    have "\<exists>n < 256. ?rec[i := b] ! n \<noteq> 0"
      using first by (intro exI [of _ "if i = 0 then 1 else 0"]) simp
    then show "\<not> list_all (\<lambda>b. b = 0) (?rec[i := b])" using len by (simp add: list_all_length)
    have "\<exists>n < 256. ?rec ! n \<noteq> 0" using first by (intro exI [of _ 0]) simp
    then show "\<not> list_all (\<lambda>b. b = 0) ?rec" using len by (simp add: list_all_length)
  qed
  have "parse_journal (?rec[i := b]) = Inl kRecoveryBlocked"
    by (rule parse_one_byte_changed [OF parse_sealed [OF assms(1-3)] len nz' nz assms(4,5)])
  then show ?thesis using journal.read_parses [of w path] assms(6,7) len by simp
qed

theorem journal_byte_change_rejected_witness:
  "fst (run (read_journal (journal_c ''/l'') chan_os_c)
     (sample_channel\<lparr>cw_journals := (\<lambda>_. (journal_bytes (sealed_journal sample_journal))[0 := 0])\<rparr>)) = Inl kRecoveryBlocked"
proof (rule journal_byte_change_rejected [of sample_journal 0 0])
  show "journal_bytes (sealed_journal sample_journal) ! 0 \<noteq> 0"
    by (simp add: journal_bytes_def journal_front_def sealed_journal_def sample_journal_def make_control_journal_def
        kJournalMagic_def string_bytes_def char_byte_def)
qed (simp_all add: sample_journal_def made_journal sample_channel_def sample_os_def os_reads_def)

end
