(* ===== verification/ER_Chan_Recovery.thy ===== *)
theory ER_Chan_Recovery
  imports ER_Journal_Crash
begin

text \<open>
  The slots a dead consumer leaves behind and the end of the waiting loops, both without interference.
\<close>

subsection \<open>The slots of a consumer that died\<close>

definition reclaimable :: "u64 \<Rightarrow> SlotHeaderAbi \<Rightarrow> bool" where
  "reclaimable e x \<longleftrightarrow>
     (cs_state x = chan_word ChanReadingClaiming \<longrightarrow> cs_reader_role_epoch x = 0 \<or> cs_reader_role_epoch x = e) \<and>
     (cs_state x = chan_word ChanReading \<longrightarrow> cs_reader_role_epoch x = e)"

definition reclaimed :: "SlotHeaderAbi \<Rightarrow> SlotHeaderAbi" where
  "reclaimed x = (if in_hand x then x\<lparr>cs_reader_role_epoch := 0, cs_state := chan_word ChanPublished\<rparr> else x)"

lemma reclaimed_not_in_hand: "\<not> in_hand (reclaimed x)"
  by (simp add: reclaimed_def in_hand_def)

lemma run_release_read:
  "run (slot_release_read ob off) w =
     ((), set_slot ob off ((seg_slot w ob off)\<lparr>cs_reader_role_epoch := 0, cs_state := chan_word ChanPublished\<rparr>) w)"
  by (simp add: slot_release_read_def run_simps) (simp add: set_slot_def)

lemma run_reclaim_slot:
  assumes "slot_byte_offset i st = Some off" and "reclaimable e (seg_slot w ob off)"
  shows "run (reclaim_slots ob st e (i # is)) w =
    run (reclaim_slots ob st e is) (if in_hand (seg_slot w ob off) then set_slot ob off (reclaimed (seg_slot w ob off)) w else w)"
  using assms by (auto simp: run_simps run_release_read reclaimable_def reclaimed_def in_hand_def)

lemma run_reclaim_slots:
  assumes "distinct is" and "\<And>i. i \<in> set is \<Longrightarrow> i < kSlotCount" and geo: "channel_geometry ps st"
    and "\<And>i off. i \<in> set is \<Longrightarrow> slot_byte_offset i st = Some off \<Longrightarrow> reclaimable e (seg_slot w ob off)"
  shows "\<exists>w'. run (reclaim_slots ob st e is) w = (Inr (), w') \<and> seg_hdr w' ob = seg_hdr w ob \<and>
    (\<forall>off. seg_slot w' ob off =
      (if \<exists>i \<in> set is. slot_byte_offset i st = Some off then reclaimed (seg_slot w ob off) else seg_slot w ob off))"
  using assms(1,2,4)
proof (induction "is" arbitrary: w)
  case Nil
  show ?case by (intro exI [of _ w]) simp
next
  case (Cons i "is")
  obtain off where off: "slot_byte_offset i st = Some off" "unat off = 448 + unat i * unat st"
    using slot_byte_offset_eq [OF geo, of i] Cons.prems(2) by auto
  have other: "off' \<noteq> off" if "j \<in> set is" "slot_byte_offset j st = Some off'" for j off'
  proof
    assume "off' = off"
    then have "unat j * unat st = unat i * unat st"
      using slot_byte_offset_eq [OF geo, of j] that off Cons.prems(2) by auto
    moreover have "0 < unat st" using channel_geometry_stride(2) [OF geo] by linarith
    ultimately have "j = i" by (simp add: word_unat_eq_iff)
    then show False using that(1) Cons.prems(1) by simp
  qed
  let ?w = "if in_hand (seg_slot w ob off) then set_slot ob off (reclaimed (seg_slot w ob off)) w else w"
  have slots: "seg_slot ?w ob off' = (if off' = off then reclaimed (seg_slot w ob off) else seg_slot w ob off')" for off'
    by (simp add: reclaimed_def)
  have first: "reclaimable e (seg_slot w ob off)" by (rule Cons.prems(3) [OF _ off(1)]) simp
  have keep: "reclaimable e (seg_slot ?w ob off')" if "j \<in> set is" "slot_byte_offset j st = Some off'" for j off'
    using Cons.prems(3) [of j off'] that other [OF that] unfolding slots by simp
  have "\<exists>w'. run (reclaim_slots ob st e is) ?w = (Inr (), w') \<and> seg_hdr w' ob = seg_hdr ?w ob \<and>
    (\<forall>off'. seg_slot w' ob off' =
      (if \<exists>j \<in> set is. slot_byte_offset j st = Some off' then reclaimed (seg_slot ?w ob off') else seg_slot ?w ob off'))"
    by (rule Cons.IH) (use Cons.prems(1,2) keep in simp_all)
  then obtain w' where w': "run (reclaim_slots ob st e is) ?w = (Inr (), w')" "seg_hdr w' ob = seg_hdr ?w ob"
    "\<And>off'. seg_slot w' ob off' =
      (if \<exists>j \<in> set is. slot_byte_offset j st = Some off' then reclaimed (seg_slot ?w ob off') else seg_slot ?w ob off')"
    by blast
  have "run (reclaim_slots ob st e (i # is)) w = (Inr (), w')"
    unfolding run_reclaim_slot [OF off(1) first] by (rule w'(1))
  moreover have "seg_hdr w' ob = seg_hdr w ob" unfolding w'(2) by simp
  moreover have "seg_slot w' ob off' =
      (if \<exists>j \<in> set (i # is). slot_byte_offset j st = Some off' then reclaimed (seg_slot w ob off') else seg_slot w ob off')" for off'
  proof (cases "off' = off")
    case True
    then have "\<not> (\<exists>j \<in> set is. slot_byte_offset j st = Some off')" using other by blast
    then show ?thesis using w'(3) [of off'] slots [of off'] True off(1) by simp
  next
    case False
    then show ?thesis using w'(3) [of off'] slots [of off'] off(1) by simp
  qed
  ultimately show ?case by (intro exI [of _ w'] conjI allI)
qed

text \<open>
  C9. When the slots that a dead consumer left in its hand carry its epoch (or none while it was claiming),
  opening the channel gives all of them back: no slot stays in the hand of a reader, their contents and the
  header are unchanged, and the call succeeds.
\<close>

theorem reclaim_gives_slots_back:
  assumes "channel_geometry ps st"
    and "\<forall>i off. i < kSlotCount \<longrightarrow> slot_byte_offset i st = Some off \<longrightarrow> reclaimable e (seg_slot w ob off)"
  shows "\<exists>w'. run (reclaim_dead_consumer_slots ob e ps) w = (Inr (), w') \<and> seg_hdr w' ob = seg_hdr w ob \<and>
    (\<forall>i off. i < kSlotCount \<longrightarrow> slot_byte_offset i st = Some off \<longrightarrow>
       seg_slot w' ob off = reclaimed (seg_slot w ob off) \<and> \<not> in_hand (seg_slot w' ob off))"
proof -
  have all: "i \<in> set kSlotIndices" if "i < kSlotCount" for i
    unfolding kSlotIndices_def set_map using that by (intro image_eqI [of _ _ "unat i"]) (simp_all add: word_less_nat_alt)
  have distinct: "distinct kSlotIndices" by (simp add: kSlotIndices_def kSlotCount_def upt_rec)
  have "channel_stride ps = Some st" using assms(1) by (simp add: channel_geometry_def)
  moreover have "\<exists>w'. run (reclaim_slots ob st e kSlotIndices) w = (Inr (), w') \<and> seg_hdr w' ob = seg_hdr w ob \<and>
    (\<forall>off. seg_slot w' ob off =
      (if \<exists>i \<in> set kSlotIndices. slot_byte_offset i st = Some off then reclaimed (seg_slot w ob off) else seg_slot w ob off))"
    by (rule run_reclaim_slots [OF distinct _ assms(1)]) (use slot_indices_less assms(2) in blast)+
  ultimately obtain w' where w': "run (reclaim_dead_consumer_slots ob e ps) w = (Inr (), w')" "seg_hdr w' ob = seg_hdr w ob"
    "\<And>off. seg_slot w' ob off =
      (if \<exists>i \<in> set kSlotIndices. slot_byte_offset i st = Some off then reclaimed (seg_slot w ob off) else seg_slot w ob off)"
    unfolding reclaim_dead_consumer_slots_def by (simp only: option.case) blast
  have "seg_slot w' ob off = reclaimed (seg_slot w ob off) \<and> \<not> in_hand (seg_slot w' ob off)"
    if "i < kSlotCount" "slot_byte_offset i st = Some off" for i off
    using w'(3) [of off] all [OF that(1)] that(2) reclaimed_not_in_hand [of "seg_slot w ob off"] by auto
  then show ?thesis using w'(1,2) by blast
qed

lemma reclaim_slots_stuck:
  assumes "\<And>j. j \<in> set is \<Longrightarrow> slot_byte_offset j st \<noteq> None"
    and "i \<in> set is" and "slot_byte_offset i st = Some off"
    and "cs_state (seg_slot w ob off) = chan_word ChanReading" and "cs_reader_role_epoch (seg_slot w ob off) \<noteq> e"
  shows "fst (run (reclaim_slots ob st e is) w) = Inl kRecoveryBlocked \<and>
    seg_slot (snd (run (reclaim_slots ob st e is) w)) ob off = seg_slot w ob off"
  using assms
proof (induction "is" arbitrary: w)
  case (Cons j "is")
  obtain offj where offj: "slot_byte_offset j st = Some offj" using Cons.prems(1) [of j] by auto
  show ?case
  proof (cases "offj = off")
    case True
    then show ?thesis using offj Cons.prems(4,5) by (simp add: run_simps)
  next
    case False
    then have "i \<in> set is" using Cons.prems(2,3) offj by auto
    note IH = Cons.IH [OF Cons.prems(1) this Cons.prems(3)]
    have rest: "fst (run (reclaim_slots ob st e is) w) = Inl kRecoveryBlocked \<and>
        seg_slot (snd (run (reclaim_slots ob st e is) w)) ob off = seg_slot w ob off"
      using IH [of w] Cons.prems(4,5) by simp
    have given: "fst (run (reclaim_slots ob st e is) (set_slot ob offj x w)) = Inl kRecoveryBlocked \<and>
        seg_slot (snd (run (reclaim_slots ob st e is) (set_slot ob offj x w))) ob off = seg_slot w ob off" for x
      using IH [of "set_slot ob offj x w"] False Cons.prems(4,5) by simp
    from rest given offj show ?thesis by (simp add: run_simps run_release_read)
  qed
qed simp

text \<open>
  C13. A consumer that is killed while it gives any of the slots back, after it has cleared its epoch and
  before it has changed the state, leaves a slot that recovery refuses: the attempt to reclaim the slots of
  the dead consumer fails with \<open>kRecoveryBlocked\<close>, whatever the other slots hold, and so does every later
  attempt.
\<close>

theorem killed_release_blocks_recovery:
  assumes "channel_geometry ps st" and "i < kSlotCount" and "slot_byte_offset i st = Some off"
    and "cs_state (seg_slot w ob off) = chan_word ChanReading" and "cs_reader_role_epoch (seg_slot w ob off) = e"
    and "e \<noteq> 0"
  shows "\<exists>c \<in> crash_states (slot_release_read ob off) w. \<forall>n.
    fst (run (reclaim_dead_consumer_slots ob e ps) (((\<lambda>v. snd (run (reclaim_dead_consumer_slots ob e ps) v)) ^^ n) c)) =
      Inl kRecoveryBlocked"
proof -
  let ?c = "set_slot ob off ((seg_slot w ob off)\<lparr>cs_reader_role_epoch := 0\<rparr>) w"
  let ?again = "\<lambda>v. snd (run (reclaim_dead_consumer_slots ob e ps) v)"
  have "?c \<in> crash_states (slot_release_read ob off) w"
    by (simp add: slot_release_read_def crash_states_bind run_simps)
  moreover have stuck: "fst (run (reclaim_dead_consumer_slots ob e ps) v) = Inl kRecoveryBlocked \<and>
      seg_slot (?again v) ob off = seg_slot v ob off" if "seg_slot v ob off = seg_slot ?c ob off" for v
  proof -
    have "channel_stride ps = Some st" using assms(1) by (simp add: channel_geometry_def)
    moreover have "slot_byte_offset j st \<noteq> None" if "j \<in> set kSlotIndices" for j
      using slot_byte_offset_eq [OF assms(1), of j] that by (auto simp: kSlotIndices_def kSlotCount_def upt_rec)
    moreover have "i \<in> set kSlotIndices"
      using assms(2) by (auto simp: kSlotIndices_def word_less_nat_alt intro!: image_eqI [of _ _ "unat i"])
    ultimately show ?thesis
      using reclaim_slots_stuck [of kSlotIndices st i off v ob e] assms(3-6) that
      by (simp add: reclaim_dead_consumer_slots_def)
  qed
  moreover have "seg_slot ((?again ^^ n) ?c) ob off = seg_slot ?c ob off" for n
    by (induction n) (use stuck in auto)
  ultimately show ?thesis by blast
qed

definition sample_reading :: chan_world where
  "sample_reading =
     set_slot (1, 2) 448 \<lparr>cs_state = chan_word ChanReading, cs_payload_size = 8, cs_sample_sequence = 1,
       cs_publish_boot_ns = 9, cs_payload_checksum = 0, cs_reader_role_epoch = 2, cs_payload = (\<lambda>_. 0)\<rparr> sample_channel"

lemma sample_geometry: "channel_geometry 8 128"
  by (simp add: channel_geometry_def kMaxPayloadSize_def channel_stride_def kSlotHeaderSize_def
      round_up_to_multiple_u64_def checked_add_u64_def U64_MAX_def)

lemma sample_slot_0: "slot_byte_offset 0 128 = Some 448"
  by (simp add: slot_byte_offset_def kSlotCount_def checked_mul_u64_def checked_add_u64_def kFirstSlotOffset_def U64_MAX_def)

lemma sample_index_1: "1 < kSlotCount" and sample_slot_1: "slot_byte_offset 1 128 = Some 576"
proof -
  show less: "1 < kSlotCount" unfolding kSlotCount_def word_less_nat_alt by simp
  show "slot_byte_offset 1 128 = Some 576"
    using less by (simp add: slot_byte_offset_def checked_mul_u64_def checked_add_u64_def kFirstSlotOffset_def U64_MAX_def not_le)
qed

theorem killed_release_blocks_recovery_witness:
  "\<exists>c \<in> crash_states (slot_release_read (1, 2) 576) (set_slot (1, 2) 576 (seg_slot sample_reading (1, 2) 448) sample_channel).
    \<forall>n. fst (run (reclaim_dead_consumer_slots (1, 2) 2 8)
      (((\<lambda>v. snd (run (reclaim_dead_consumer_slots (1, 2) 2 8) v)) ^^ n) c)) = Inl kRecoveryBlocked"
  by (rule killed_release_blocks_recovery [OF sample_geometry _ sample_slot_1])
    (simp_all add: sample_reading_def sample_index_1)

theorem reclaim_gives_slots_back_witness:
  "\<exists>w'. run (reclaim_dead_consumer_slots (1, 2) 2 8) sample_reading = (Inr (), w') \<and>
    \<not> in_hand (seg_slot w' (1, 2) 448)"
proof -
  have "reclaimable 2 (seg_slot sample_reading (1, 2) off)" for off
    by (simp add: sample_reading_def reclaimable_def sample_channel_def)
  then show ?thesis
    using reclaim_gives_slots_back [OF sample_geometry, of 2 sample_reading "(1, 2)"] sample_slot_0
    by (force simp: kSlotCount_def)
qed

subsection \<open>Waiting ends\<close>

text \<open>
  Without interference an attempt never runs into contention when the slot of the latest ticket can be
  claimed: that is the case of every state between two operations.
\<close>

definition latest_claimable :: "chan_world \<Rightarrow> object \<Rightarrow> u64 \<Rightarrow> bool" where
  "latest_claimable w ob st \<longleftrightarrow>
     (let t = seg_ticket w ob in
      t = 0 \<or> (\<exists>off. slot_byte_offset (ticket_slot t) st = Some off \<and>
        cs_state (seg_slot w ob off) = chan_word ChanPublished \<and>
        t = make_ticket (cs_sample_sequence (seg_slot w ob off)) (ticket_slot t)))"

text \<open>The latest ticket tells nothing the handle has not read.\<close>

definition nothing_newer :: "chan_world \<Rightarrow> nat \<Rightarrow> bool" where
  "nothing_newer w r \<longleftrightarrow>
     (let t = seg_ticket w (cn_object (cw_cons w r)) in t = 0 \<or> ticket_sequence t \<le> cn_last_sequence (cw_cons w r))"

lemma yields_release_with: "S (Inl e) \<Longrightarrow> yields S (release_with ob off e)"
  unfolding release_with_def by (auto intro!: yields_bind)

lemma yields_take_claimed: "yields (\<lambda>r. r \<noteq> Inl kReadContention \<and> r \<noteq> Inl kNoNewSample) (take_claimed r h off)"
  unfolding take_claimed_def Let_def by (auto intro!: yields_bind yields_release_with)

lemma yields_run: "yields S p \<Longrightarrow> S (fst (run p s))"
  by (induction p arbitrary: s) auto

lemma run_claim_attempts:
  assumes "latest_claimable w (cn_object (cw_cons w r)) st"
  shows "nothing_newer w r \<and> run (claim_attempts r st (Suc n)) w = (Inl kNoNewSample, w) \<or>
    (fst (run (claim_attempts r st (Suc n)) w) \<noteq> Inl kReadContention \<and>
     fst (run (claim_attempts r st (Suc n)) w) \<noteq> Inl kNoNewSample)"
proof -
  let ?h = "cw_cons w r"
  let ?t = "seg_ticket w (cn_object ?h)"
  show ?thesis
  proof (cases "?t = 0 \<or> ticket_sequence ?t \<le> cn_last_sequence ?h")
    case True
    then show ?thesis by (simp add: run_simps nothing_newer_def Let_def)
  next
    case False
    then obtain off where off: "slot_byte_offset (ticket_slot ?t) st = Some off"
        "cs_state (seg_slot w (cn_object ?h) off) = chan_word ChanPublished"
        "make_ticket (cs_sample_sequence (seg_slot w (cn_object ?h) off)) (ticket_slot ?t) = ?t"
      using assms by (auto simp: latest_claimable_def Let_def)
    have "\<exists>w'. run (claim_attempts r st (Suc n)) w = run (take_claimed r ?h off) w'"
      using False off by (simp add: run_simps slot_claim_readable_def slot_mark_reading_def) blast
    then show ?thesis using yields_run [OF yields_take_claimed] by metis
  qed
qed

lemma run_claim_latest:
  assumes "\<And>st. channel_stride (cn_payload_size (cw_cons w r)) = Some st \<Longrightarrow> latest_claimable w (cn_object (cw_cons w r)) st"
  shows "nothing_newer w r \<and> run (claim_latest_unlocked r) w = (Inl kNoNewSample, w) \<or>
    (fst (run (claim_latest_unlocked r) w) \<noteq> Inl kReadContention \<and> fst (run (claim_latest_unlocked r) w) \<noteq> Inl kNoNewSample)"
proof (cases "channel_stride (cn_payload_size (cw_cons w r))")
  case None
  then show ?thesis by (simp add: claim_latest_unlocked_def run_simps)
next
  case (Some st)
  obtain n where "kMaxReadRetries = Suc n" by (cases kMaxReadRetries) (simp_all add: kMaxReadRetries_def)
  then show ?thesis
    using run_claim_attempts [OF assms [OF Some], of n] Some by (simp add: claim_latest_unlocked_def run_simps)
qed

text \<open>What an attempt to read without interference may end with.\<close>

lemma run_try_read_unlocked:
  assumes "\<And>st. channel_stride (cn_payload_size (cw_cons w r)) = Some st \<Longrightarrow> latest_claimable w (cn_object (cw_cons w r)) st"
  shows "nothing_newer w r \<and> run (try_read_latest_unlocked r cap) w = (Inl kNoNewSample, w) \<or>
    (fst (run (try_read_latest_unlocked r cap) w) \<noteq> Inl kReadContention \<and>
     fst (run (try_read_latest_unlocked r cap) w) \<noteq> Inl kNoNewSample)"
proof -
  let ?copy = "\<lambda>claimed. bind (shared_load (cons_c r)) (\<lambda>handle.
       let ob = cn_object handle; snap = cr_snapshot claimed; off = cr_slot claimed in
       if rs_encoded_size snap > cap then release_with ob off kPayloadCorrupt
       else
         bind (memcpy_from (cslot_payload_c ob off) 0 (unat (rs_encoded_size snap))) (\<lambda>encoded.
         bind (slot_release_read ob off) (\<lambda>_. Ret (Inr (snap, encoded)))))"
  obtain res w' where claim: "run (claim_latest_unlocked r) w = (res, w')" by (cases "run (claim_latest_unlocked r) w")
  have read: "run (try_read_latest_unlocked r cap) w = run (case res of Inl e \<Rightarrow> Ret (Inl e) | Inr x \<Rightarrow> ?copy x) w'"
    by (simp add: try_read_latest_unlocked_def try_bind_def run_bind claim)
  have "yields (\<lambda>r. r \<noteq> Inl kReadContention \<and> r \<noteq> Inl kNoNewSample) (?copy x)" for x
    unfolding Let_def by (auto intro!: yields_bind yields_release_with)
  from yields_run [OF this] show ?thesis
    using run_claim_latest [OF assms] claim unfolding read by (cases res) auto
qed

definition at_reading :: "chan_world \<Rightarrow> nat \<Rightarrow> chan_world" where
  "at_reading w n = w\<lparr>cw_kern := (cw_kern w)\<lparr>k_clock_reads := n\<rparr>\<rparr>"

lemma at_reading_parts [simp]:
  "cw_segs (at_reading w n) = cw_segs w" "cw_cons (at_reading w n) = cw_cons w"
  "cw_kern (at_reading w n) = (cw_kern w)\<lparr>k_clock_reads := n\<rparr>" "at_reading (at_reading w n) m = at_reading w m"
  "at_reading w (k_clock_reads (cw_kern w)) = w"
  by (simp_all add: at_reading_def)

definition mono_clock :: "chan_world \<Rightarrow> nat \<Rightarrow> u64" where
  "mono_clock w n = clock_ns_or_zero (k_monotonic (cw_kern w) n)"

lemma run_clock_calls:
  "run (monotonic_now_ns chan_kern_c) (at_reading w n) = (mono_clock w n, at_reading w (Suc n))"
  "run (futex_wait chan_kern_c) (at_reading w n) = (k_futex_wait (cw_kern w) n, at_reading w (Suc n))"
  by (simp_all add: monotonic_now_ns_def futex_wait_def run_simps mono_clock_def count_clock_def at_reading_def)

lemma run_wait_round:
  assumes "nothing_newer w r"
  shows "(\<exists>e w'. run (wait_round r deadline) (at_reading w n) = (Some e, w')) \<or>
    remaining_time_ns (mono_clock w n) deadline \<noteq> 0 \<and>
    run (wait_round r deadline) (at_reading w n) = (None, at_reading w (Suc (Suc n)))"
proof -
  have old: "\<not> (seg_ticket w (cn_object (cw_cons w r)) \<noteq> 0 \<and>
      ticket_sequence (seg_ticket w (cn_object (cw_cons w r))) > cn_last_sequence (cw_cons w r))"
    using assms by (auto simp: nothing_newer_def Let_def)
  have classify: "\<exists>e w'. run (bind (classify_wait_timeout ob) (\<lambda>e. Ret (Some e))) v = (Some e, w')" for ob v
    by (cases "run (classify_wait_timeout ob) v") (simp add: run_bind)
  have start: "run (wait_round r deadline) (at_reading w n) =
      (if remaining_time_ns (mono_clock w n) deadline = 0
       then run (bind (classify_wait_timeout (cn_object (cw_cons w r))) (\<lambda>e. Ret (Some e))) (at_reading w (Suc n))
       else run (case k_futex_wait (cw_kern w) (Suc n) of
                   None \<Rightarrow> Ret None
                 | Some e \<Rightarrow>
                     if e = EAGAIN \<or> e = EINTR then Ret None
                     else if e = ETIMEDOUT
                     then bind (classify_wait_timeout (cn_object (cw_cons w r))) (\<lambda>e. Ret (Some e))
                     else Ret (Some kSystemError)) (at_reading w (Suc (Suc n))))"
    using old by (auto simp: wait_round_def run_bind run_shared_load chan_cell_access run_clock_calls)
  show ?thesis
    unfolding start using classify by (auto split: option.splits)
qed

lemma wait_loop_ends:
  assumes claimable: "\<And>st. channel_stride (cn_payload_size (cw_cons w r)) = Some st \<Longrightarrow> latest_claimable w (cn_object (cw_cons w r)) st"
    and late: "\<And>n. N \<le> n \<Longrightarrow> remaining_time_ns (mono_clock w n) deadline = 0"
    and fuel: "N - n < fuel"
  shows "fst (run (wait_latest_loop fuel r cap deadline) (at_reading w n)) \<noteq> None"
  using fuel
proof (induction fuel arbitrary: n)
  case (Suc fuel)
  let ?w = "at_reading w n"
  have "latest_claimable ?w (cn_object (cw_cons ?w r)) st" if "channel_stride (cn_payload_size (cw_cons ?w r)) = Some st" for st
    using claimable that by (simp add: latest_claimable_def)
  from run_try_read_unlocked [OF this] consider
      "nothing_newer ?w r" "run (try_read_latest_unlocked r cap) ?w = (Inl kNoNewSample, ?w)"
    | "fst (run (try_read_latest_unlocked r cap) ?w) \<noteq> Inl kReadContention" "fst (run (try_read_latest_unlocked r cap) ?w) \<noteq> Inl kNoNewSample"
    by blast
  then show ?case
  proof cases
    case 1
    have "nothing_newer w r" using 1 by (simp add: nothing_newer_def)
    from run_wait_round [OF this, of deadline n] show ?thesis
    proof
      assume "\<exists>e w'. run (wait_round r deadline) ?w = (Some e, w')"
      then show ?thesis using 1 by (auto simp: run_bind)
    next
      assume round: "remaining_time_ns (mono_clock w n) deadline \<noteq> 0 \<and>
        run (wait_round r deadline) ?w = (None, at_reading w (Suc (Suc n)))"
      then have "n < N" using late [of n] by (meson not_le)
      then have "fst (run (wait_latest_loop fuel r cap deadline) (at_reading w (Suc (Suc n)))) \<noteq> None"
        using Suc.prems by (intro Suc.IH) simp
      then show ?thesis using 1 round by (simp add: run_bind)
    qed
  next
    case 2
    then show ?thesis
      by (cases "run (try_read_latest_unlocked r cap) ?w") (auto simp: run_bind split: sum.splits)
  qed
qed simp

lemma wait_loop_stuck:
  assumes st: "channel_stride (cn_payload_size (cw_cons w r)) = Some st"
    and newer: "\<not> nothing_newer w r"
    and off: "slot_byte_offset (ticket_slot (seg_ticket w (cn_object (cw_cons w r)))) st = Some off"
    and unpublished: "cs_state (seg_slot w (cn_object (cw_cons w r)) off) \<noteq> chan_word ChanPublished"
  shows "run (wait_latest_loop fuel r cap deadline) w = (None, w)"
proof (induction fuel)
  case (Suc fuel)
  have attempts: "run (claim_attempts r st n) w = (Inl kReadContention, w)" for n
    using newer off unpublished
    by (induction n) (simp_all add: run_simps nothing_newer_def Let_def slot_claim_readable_def)
  have "run (try_read_latest_unlocked r cap) w = (Inl kReadContention, w)"
    using st by (simp add: try_read_latest_unlocked_def claim_latest_unlocked_def try_bind_def run_simps attempts)
  moreover have "run (wait_round r deadline) w = (None, w)"
    using newer by (auto simp: wait_round_def run_simps nothing_newer_def Let_def)
  ultimately show ?case using Suc by (simp add: run_bind)
qed simp

lemma deadline_nonzero: "now \<noteq> 0 \<Longrightarrow> monotonic_deadline_ns now timeout_ns \<noteq> 0"
proof -
  assume now: "now \<noteq> 0"
  have "unat (now + timeout_ns) = unat now + unat timeout_ns" if "\<not> now > U64_MAX - timeout_ns"
    using that le_MAX_minus_iff [of now timeout_ns] unat_add_lem [of now timeout_ns] by (simp add: not_less)
  then show ?thesis using now unat_eq_zero [of now] by (auto simp: monotonic_deadline_ns_def U64_MAX_def)
qed

text \<open>The world in which a handle is taken and the clock has been read once.\<close>

definition waiting_world :: "chan_world \<Rightarrow> nat \<Rightarrow> chan_world" where
  "waiting_world w r =
     at_reading (w\<lparr>cw_cons := (cw_cons w)(r := (cw_cons w r)\<lparr>cn_in_use := True\<rparr>)\<rparr>) (Suc (k_clock_reads (cw_kern w)))"

lemma run_wait_latest:
  assumes "\<not> cn_in_use (cw_cons w r)"
  shows "fst (run (consumer_wait_latest_impl fuel r cap timeout_ns) w) =
    (let deadline = monotonic_deadline_ns (mono_clock w (k_clock_reads (cw_kern w))) timeout_ns in
     if deadline = 0 then Some (Inl kClockAnomaly)
     else fst (run (wait_latest_loop fuel r cap deadline) (waiting_world w r)))"
proof -
  let ?v = "w\<lparr>cw_cons := (cw_cons w)(r := (cw_cons w r)\<lparr>cn_in_use := True\<rparr>)\<rparr>"
  let ?n = "k_clock_reads (cw_kern w)"
  have "run (monotonic_now_ns chan_kern_c) ?v = (mono_clock w ?n, waiting_world w r)"
    using run_clock_calls(1) [of ?v ?n] by (simp add: waiting_world_def at_reading_def mono_clock_def)
  then show ?thesis
    using assms by (simp add: consumer_wait_latest_impl_def consumer_guarded_def run_bind run_shared_exchange run_shared_store chan_handle_access
        Let_def split: prod.splits)
qed

text \<open>
  C8. A wait for the latest sample returns. Whatever the kernel answers to \<open>futex_wait\<close>, be it spurious
  wake-ups, interrupts or errors, and whatever is in the segment, when the slot of the latest ticket can be
  claimed and the monotonic clock passes the deadline after finitely many readings (or fails), the loop ends
  and \<open>wait_latest\<close> returns a sample or an error.
\<close>

theorem wait_latest_returns:
  assumes "\<not> cn_in_use (cw_cons w r)"
    and "\<And>st. channel_stride (cn_payload_size (cw_cons w r)) = Some st \<Longrightarrow>
      latest_claimable w (cn_object (cw_cons w r)) st"
    and "\<And>n. N \<le> n \<Longrightarrow> remaining_time_ns (clock_ns_or_zero (k_monotonic (cw_kern w) n))
      (monotonic_deadline_ns (clock_ns_or_zero (k_monotonic (cw_kern w) (k_clock_reads (cw_kern w)))) timeout_ns) = 0"
  shows "\<exists>F. \<forall>fuel \<ge> F. \<exists>res. fst (run (consumer_wait_latest_impl fuel r cap timeout_ns) w) = Some res"
proof -
  let ?d = "monotonic_deadline_ns (mono_clock w (k_clock_reads (cw_kern w))) timeout_ns"
  have clock: "mono_clock (w\<lparr>cw_cons := c\<rparr>) n = mono_clock w n" for c n by (simp add: mono_clock_def)
  have "fst (run (wait_latest_loop fuel r cap ?d) (waiting_world w r)) \<noteq> None" if "Suc N \<le> fuel" for fuel
    unfolding waiting_world_def using assms(2,3) that
    by (intro wait_loop_ends [where N = N]) (simp_all add: clock latest_claimable_def, simp add: mono_clock_def)
  then show ?thesis
    by (intro exI [of _ "Suc N"]) (auto simp: run_wait_latest [OF assms(1)] Let_def)
qed

text \<open>
  C14. The deadline of a wait is not looked at while a newer sample is announced whose slot cannot be claimed:
  in such a state \<open>wait_latest\<close> goes round for any number of rounds, with every timeout, zero included, and
  changes nothing.
\<close>

theorem wait_latest_unbounded:
  assumes "\<not> cn_in_use (cw_cons w r)"
    and "channel_stride (cn_payload_size (cw_cons w r)) = Some st"
    and "seg_ticket w (cn_object (cw_cons w r)) \<noteq> 0"
    and "cn_last_sequence (cw_cons w r) < ticket_sequence (seg_ticket w (cn_object (cw_cons w r)))"
    and "slot_byte_offset (ticket_slot (seg_ticket w (cn_object (cw_cons w r)))) st = Some off"
    and "cs_state (seg_slot w (cn_object (cw_cons w r)) off) \<noteq> chan_word ChanPublished"
    and "clock_ns_or_zero (k_monotonic (cw_kern w) (k_clock_reads (cw_kern w))) \<noteq> 0"
  shows "fst (run (consumer_wait_latest_impl fuel r cap timeout_ns) w) = None"
proof -
  have "monotonic_deadline_ns (mono_clock w (k_clock_reads (cw_kern w))) timeout_ns \<noteq> 0"
    using assms(7) by (simp add: deadline_nonzero mono_clock_def)
  moreover have "run (wait_latest_loop fuel r cap deadline) (waiting_world w r) = (None, waiting_world w r)" for deadline
    using assms(2-6) by (intro wait_loop_stuck [of _ _ st off]) (auto simp: waiting_world_def nothing_newer_def Let_def)
  ultimately show ?thesis by (simp add: run_wait_latest [OF assms(1)] Let_def)
qed

lemma sample_ready_handle: "channel_stride 8 = Some 128"
  by (simp add: channel_stride_def kSlotHeaderSize_def round_up_to_multiple_u64_def checked_add_u64_def U64_MAX_def)

theorem wait_latest_returns_witness:
  "\<exists>F. \<forall>fuel \<ge> F. \<exists>res.
    fst (run (consumer_wait_latest_impl fuel 0 8 0) (sample_channel\<lparr>cw_kern := sample_kernel\<lparr>k_monotonic := \<lambda>_. Some (7, 0)\<rparr>\<rparr>)) =
      Some res"
  by (rule wait_latest_returns [where N = 0])
    (simp_all add: sample_channel_def sample_consumer_def sample_channel_hdr_def latest_claimable_def
      sample_kernel_def clock_ns_or_zero_def monotonic_deadline_ns_def remaining_time_ns_def U64_MAX_def)

theorem wait_latest_unbounded_witness:
  "fst (run (consumer_wait_latest_impl 1000 0 8 0)
    (set_hdr (1, 2) (sample_channel_hdr\<lparr>ch_latest_ticket := make_ticket 1 0\<rparr>) sample_reading)) = None"
  by (rule wait_latest_unbounded [where st = 128 and off = 448])
    (simp_all add: sample_reading_def sample_channel_def sample_consumer_def sample_ready_handle sample_slot_0
      make_ticket_def ticket_sequence_def ticket_slot_def sample_kernel_def clock_ns_or_zero_def U64_MAX_def)

end
