(* ===== verification/ER_Control.thy ===== *)
theory ER_Control
  imports ER_Consumer
begin

text \<open>
  The control plane of a channel: creating an instance, settling the transaction of a creator that died,
  removing an instance (\<open>channel/producer_impl.cpp\<close>), opening it and reconnecting
  (\<open>channel/consumer_impl.cpp\<close>). The journal is written before and after every step that changes what
  the name of a channel refers to; the guards of the source that undo a creation are \<open>leave_create\<close>. A
  descriptor is known by what \<open>fstat\<close> says of it, and the memory it gives access to is that of the object
  with this device and inode.
\<close>

subsection \<open>Descriptors\<close>

definition memfd_create_object :: "string \<Rightarrow> (chan_world, nat result) prog" where
  "memfd_create_object channel_name =
     bind (os_query chan_os_c (\<lambda>k. os_memfd_create k (''edgeruntime.'' @ channel_name))) (\<lambda>made.
       case made of
         Inl e \<Rightarrow> Ret (Inl (classify_errno e))
       | Inr fd \<Rightarrow>
           bind (os_query chan_os_c (\<lambda>k. os_fchmod k fd)) (\<lambda>moded.
             case moded of
               Some e \<Rightarrow> Ret (Inl (classify_errno e))
             | None \<Rightarrow> Ret (Inr fd)))"

text \<open>The bits 16, 8, 2 and 1 of a mode let the group or others write or execute.\<close>

definition memfd_fstat_and_capture :: "nat \<Rightarrow> (chan_world, file_stat result) prog" where
  "memfd_fstat_and_capture fd =
     kernel_query chan_kern_c
       (\<lambda>k. case bounded_call (k_fstat k fd) of
              Inl e \<Rightarrow> Inl (classify_errno e)
            | Inr st \<Rightarrow>
                if \<not> st_regular st then Inl kCorruptHeader
                else if st_uid st \<noteq> k_geteuid k then Inl kPermissionDenied
                else if st_perm st AND 27 \<noteq> 0 then Inl kPermissionDenied
                else Inr st)"

definition object_of :: "file_stat \<Rightarrow> object" where
  "object_of st = (st_dev st, st_ino st)"

definition pread_full :: "('s, bytes) cell \<Rightarrow> ('s, channel_os) cell \<Rightarrow> nat \<Rightarrow> ('s, bytes result) prog" where
  "pread_full fc oc n =
     bind (pread_loop fc oc (Suc n) n []) (\<lambda>r.
       case r of
         Inl e \<Rightarrow> Ret (Inl (classify_errno e))
       | Inr got \<Rightarrow> if length got \<noteq> n then Ret (Inl kInitializationIncomplete) else Ret (Inr got))"

definition pwrite_full :: "('s, bytes) cell \<Rightarrow> ('s, channel_os) cell \<Rightarrow> bytes \<Rightarrow> ('s, unit result) prog" where
  "pwrite_full fc oc bs =
     bind (pwrite_loop fc oc (length bs) bs 0) (\<lambda>r.
       case r of
         Inl e \<Rightarrow> Ret (Inl (classify_errno e))
       | Inr _ \<Rightarrow> Ret (Inr ()))"

text \<open>
  The channel header is a record of the model: a read of it through the descriptor goes through the
  passes of \<open>pread_full\<close> and has the record when all of its bytes have come.
\<close>

primrec pread_missing :: "nat \<Rightarrow> nat \<Rightarrow> (chan_world, int + nat) prog" where
  "pread_missing 0 want = Ret (Inr want)"
| "pread_missing (Suc passes) want =
     (if want = 0 then Ret (Inr 0)
      else
        bind (os_io chan_os_c os_pread) (\<lambda>answer.
          case answer of
            Inl e \<Rightarrow> Ret (Inl e)
          | Inr n \<Rightarrow> if n = 0 then Ret (Inr want) else pread_missing passes (want - n)))"

definition pread_header :: "object \<Rightarrow> (chan_world, ChannelHeaderAbi result) prog" where
  "pread_header ob =
     bind (pread_missing (Suc (unat kChannelHeaderSize)) (unat kChannelHeaderSize)) (\<lambda>r.
       case r of
         Inl e \<Rightarrow> Ret (Inl (classify_errno e))
       | Inr missing \<Rightarrow>
           if missing \<noteq> 0 then Ret (Inl kInitializationIncomplete)
           else bind (shared_load (chan_hdr_c ob)) (\<lambda>h. Ret (Inr h)))"

text \<open>The object under a name, if there is one: its descriptor and its status.\<close>

definition find_object :: "string \<Rightarrow> (chan_world, (nat \<times> file_stat) option result) prog" where
  "find_object shm_name =
     bind (shm_open_existing chan_kern_c shm_name) (\<lambda>existing.
       case existing of
         Inl e \<Rightarrow> if e \<noteq> kNotFound then Ret (Inl e) else Ret (Inr None)
       | Inr fd \<Rightarrow>
           try_bind (shm_fstat_and_capture chan_kern_c fd) (\<lambda>st. Ret (Inr (Some (fd, st)))))"

subsection \<open>The transaction of a process that died\<close>

definition reset_journal :: "ControlJournalV1 \<Rightarrow> ControlJournalV1" where
  "reset_journal journal =
     journal\<lparr>cj_state := journal_word JIdle, cj_target_dev := 0, cj_target_ino := 0,
             cj_new_generation := cj_old_generation journal,
             cj_new_nonce_hi := cj_old_nonce_hi journal, cj_new_nonce_lo := cj_old_nonce_lo journal\<rparr>"

definition reconcile_pre_object :: "ControlJournalV1 \<Rightarrow> string \<Rightarrow> (chan_world, ControlJournalV1 result) prog" where
  "reconcile_pre_object journal shm_name =
     try_bind (find_object shm_name) (\<lambda>found.
       case found of
         None \<Rightarrow> Ret (Inr (reset_journal journal))
       | Some (fd, st) \<Rightarrow>
           if st_size st \<noteq> 0 then Ret (Inl kRecoveryBlocked)
           else
             try_bind (shm_unlink_checked chan_kern_c shm_name (st_dev st) (st_ino st)) (\<lambda>_.
               Ret (Inr (reset_journal journal))))"

definition reconcile_object :: "ControlJournalV1 \<Rightarrow> string \<Rightarrow> (chan_world, ControlJournalV1 result) prog" where
  "reconcile_object journal shm_name =
     try_bind (find_object shm_name) (\<lambda>found.
       case found of
         None \<Rightarrow> Ret (Inr (reset_journal journal))
       | Some (fd, st) \<Rightarrow>
           if st_dev st \<noteq> cj_target_dev journal \<or> st_ino st \<noteq> cj_target_ino journal
           then Ret (Inl kNameRaceDetected)
           else
             bind (pread_full (chan_boot_c (object_of st)) chan_os_c (unat kBootstrapHeaderSize)) (\<lambda>rboot.
               case rboot of
                 Inl e \<Rightarrow> Ret (Inl kRecoveryBlocked)
               | Inr bs \<Rightarrow>
                   (let boot = bootstrap_of_bytes bs in
                    case validate_bootstrap_parse boot (st_size st) of
                      Inl e \<Rightarrow> Ret (Inl kRecoveryBlocked)
                    | Inr _ \<Rightarrow>
                        if bo_nonce_hi boot \<noteq> cj_new_nonce_hi journal \<or> bo_nonce_lo boot \<noteq> cj_new_nonce_lo journal
                        then Ret (Inl kRecoveryBlocked)
                        else if bo_init_state boot = chan_init_word InitReady
                        then
                          bind (pread_header (object_of st)) (\<lambda>rh.
                            case rh of
                              Inl e \<Rightarrow> Ret (Inl kRecoveryBlocked)
                            | Inr header \<Rightarrow>
                                (let im = ch_immutable header in
                                 Ret (Inr ((reset_journal journal)
                                   \<lparr>cj_new_generation := ci_generation im, cj_new_nonce_hi := ci_nonce_hi im,
                                    cj_new_nonce_lo := ci_nonce_lo im\<rparr>))))
                        else
                          try_bind (shm_unlink_checked chan_kern_c shm_name (st_dev st) (st_ino st)) (\<lambda>_.
                            Ret (Inr (reset_journal journal))))))"

definition reconcile_removing :: "ControlJournalV1 \<Rightarrow> string \<Rightarrow> (chan_world, ControlJournalV1 result) prog" where
  "reconcile_removing journal shm_name =
     try_bind (find_object shm_name) (\<lambda>found.
       case found of
         None \<Rightarrow> Ret (Inr (reset_journal journal))
       | Some (fd, st) \<Rightarrow>
           if st_dev st \<noteq> cj_target_dev journal \<or> st_ino st \<noteq> cj_target_ino journal
           then Ret (Inl kNameRaceDetected)
           else Ret (Inr (reset_journal journal)))"

definition reconcile_stale_journal ::
  "string \<Rightarrow> ControlJournalV1 \<Rightarrow> string \<Rightarrow> (chan_world, ControlJournalV1 result) prog" where
  "reconcile_stale_journal lock_path journal shm_name =
     (let state = cj_state journal; creator = cj_creator journal in
      if state = journal_word JIdle then Ret (Inr journal)
      else if \<not> process_identity_valid (identity_of_abi creator) then Ret (Inl kRecoveryBlocked)
      else
        bind (kernel_query chan_kern_c (\<lambda>k. probe_liveness k (pa_pid creator) (pa_ticks creator))) (\<lambda>creator_liv.
          if creator_liv = kAlive \<or> creator_liv = kUnverifiable then Ret (Inl kRecoveryBlocked)
          else
            try_bind
              (if state = journal_word JCreatingPreObject then reconcile_pre_object journal shm_name
               else if state = journal_word JCreatingObject \<or> state = journal_word JReplacing
               then reconcile_object journal shm_name
               else if state = journal_word JRemoving then reconcile_removing journal shm_name
               else Ret (Inr (reset_journal journal))) (\<lambda>reset.
            try_bind (write_journal (journal_c lock_path) chan_os_c reset) (\<lambda>_. Ret (Inr reset)))))"

subsection \<open>Creation: admission\<close>

definition fingerprint_set :: "SchemaDescriptor \<Rightarrow> bool" where
  "fingerprint_set schema \<longleftrightarrow> list_ex (\<lambda>b. b \<noteq> 0) (sd_fingerprint schema)"

definition payload_and_schema_valid :: "ChannelOptions \<Rightarrow> SchemaDescriptor \<Rightarrow> u32 \<Rightarrow> bool" where
  "payload_and_schema_valid options schema payload_size \<longleftrightarrow>
     co_name options \<noteq> [] \<and> length (co_name options) \<le> kMaxChannelNameLen \<and>
     validate_channel_name (co_name options) \<and> payload_size \<noteq> 0 \<and> payload_size \<le> kMaxPayloadSize \<and>
     fingerprint_set schema"

text \<open>What stays the same throughout a creation.\<close>

record create_job =
  jb_name :: string
  jb_transport :: u32
  jb_heartbeat_ns :: u64
  jb_schema :: SchemaDescriptor
  jb_payload_size :: u32
  jb_self :: ProcessIdentity
  jb_shm_name :: string
  jb_lock_path :: string
  jb_socket_path :: string

definition fd_mode :: "create_job \<Rightarrow> bool" where
  "fd_mode job \<longleftrightarrow> jb_transport job = transport_word MemfdFdPass"

definition heartbeat_ns_of :: "ChannelOptions \<Rightarrow> u64" where
  "heartbeat_ns_of options =
     (if co_heartbeat_interval_ns options > 0 then of_int (co_heartbeat_interval_ns options) else 0)"

definition create_admission ::
  "ChannelOptions \<Rightarrow> SchemaDescriptor \<Rightarrow> u32 \<Rightarrow> (chan_world, create_job result) prog" where
  "create_admission options schema payload_size =
     (if \<not> payload_and_schema_valid options schema payload_size then Ret (Inl kInvalidOptions)
      else case validate_channel_option_contract options of
        Inl e \<Rightarrow> Ret (Inl e)
      | Inr _ \<Rightarrow>
          if co_transport options \<noteq> transport_word PosixShm \<and> co_transport options \<noteq> transport_word MemfdFdPass
          then Ret (Inl kInvalidOptions)
          else
            try_bind (kernel_query chan_kern_c current_identity) (\<lambda>self.
            bind (kernel_query chan_kern_c k_getuid) (\<lambda>uid.
              Ret (Inr \<lparr>jb_name = co_name options, jb_transport = co_transport options,
                        jb_heartbeat_ns = heartbeat_ns_of options, jb_schema = schema,
                        jb_payload_size = payload_size, jb_self = self,
                        jb_shm_name = channel_shm_name uid (co_name options),
                        jb_lock_path = channel_lock_path uid (co_name options),
                        jb_socket_path = channel_socket_path uid (co_name options)\<rparr>))))"

text \<open>The journal under the lock, without a transaction in progress, and the generation after it.\<close>

definition no_identity :: ProcessIdentity where
  "no_identity = \<lparr>id_pid = 0, id_ticks = 0, id_boot_hi = 0, id_boot_lo = 0\<rparr>"

definition settled_journal :: "create_job \<Rightarrow> (chan_world, ControlJournalV1 result) prog" where
  "settled_journal job =
     try_bind (control_lock_acquire chan_kern_c chan_os_c (jb_lock_path job)) (\<lambda>_.
     try_bind (read_journal (journal_c (jb_lock_path job)) chan_os_c) (\<lambda>read.
       if cj_channel_hash read \<noteq> 0 \<and> cj_channel_hash read \<noteq> channel_name_hash (jb_name job)
       then Ret (Inl kRecoveryBlocked)
       else
         let journal = (if cj_version read = 0
                        then make_control_journal (jb_name job) JIdle 0 0 (0, 0) (0, 0) no_identity
                        else read)
         in if cj_state journal \<noteq> journal_word JIdle
            then reconcile_stale_journal (jb_lock_path job) journal (jb_shm_name job)
            else Ret (Inr journal)))"

definition previous_transport_free :: "create_job \<Rightarrow> ControlJournalV1 \<Rightarrow> (chan_world, unit result) prog" where
  "previous_transport_free job journal =
     (let creator = cj_creator journal in
      if cj_transport journal \<noteq> jb_transport job \<and> pa_pid creator \<noteq> 0
      then
        bind (kernel_query chan_kern_c (\<lambda>k. probe_liveness k (pa_pid creator) (pa_ticks creator))) (\<lambda>prev.
          if prev = kAlive then Ret (Inl kAlreadyOwned)
          else if prev = kUnverifiable then Ret (Inl kRecoveryBlocked)
          else Ret (Inr ()))
      else Ret (Inr ()))"

subsection \<open>Creation: an instance that exists\<close>

definition active_endpoint :: "u32 \<Rightarrow> bool" where
  "active_endpoint state \<longleftrightarrow>
     state = endpoint_word EndOnline \<or> state = endpoint_word EndStopping \<or> state = endpoint_word EndFault"

text \<open>The producer of an existing instance must not be alive while it owns the instance.\<close>

definition old_producer_gone :: "object \<Rightarrow> (chan_world, unit result) prog" where
  "old_producer_gone ob =
     bind (identity_snapshot_read (producer_id_c ob)) (\<lambda>pid_res.
       case pid_res of
         Inl e \<Rightarrow> Ret (Inl kRecoveryBlocked)
       | Inr opid \<Rightarrow>
           bind (shared_load (producer_state_c ob)) (\<lambda>pstate.
             if active_endpoint pstate \<and> \<not> process_identity_valid (identity_of_abi opid)
             then Ret (Inl kRecoveryBlocked)
             else if pa_pid opid = 0 then Ret (Inr ())
             else
               bind (kernel_query chan_kern_c (\<lambda>k. probe_liveness k (pa_pid opid) (pa_ticks opid))) (\<lambda>liv.
                 if liv = kAlive \<and> active_endpoint pstate then Ret (Inl kAlreadyOwned)
                 else if liv = kUnverifiable \<and> active_endpoint pstate then Ret (Inl kRecoveryBlocked)
                 else Ret (Inr ()))))"

definition replace_existing ::
  "create_job \<Rightarrow> ControlJournalV1 \<Rightarrow> nat \<Rightarrow> file_stat \<Rightarrow> (chan_world, u64 result) prog" where
  "replace_existing job journal fd st =
     (let ob = object_of st in
      if st_size st < ucast kBootstrapHeaderSize then Ret (Inl kInitializationIncomplete)
      else
        try_bind (mmap_region chan_kern_c fd (st_size st)) (\<lambda>_.
        bind (shared_load (chan_boot_c ob)) (\<lambda>boot.
          case validate_bootstrap_parse (bootstrap_of_bytes boot) (st_size st) of
            Inl e \<Rightarrow> Ret (Inl kRecoveryBlocked)
          | Inr _ \<Rightarrow>
              bind (shared_load (boot_init_state_c ob)) (\<lambda>init.
                if init \<noteq> chan_init_word InitReady then Ret (Inl kInitializationIncomplete)
                else
                  bind (shared_load (chan_immutable_c ob)) (\<lambda>im.
                    if ci_magic im \<noteq> kChannelHeaderMagic \<or> ci_abi_major im \<noteq> kAbiMajor
                    then Ret (Inl kCorruptHeader)
                    else
                      try_bind (old_producer_gone ob) (\<lambda>_.
                        if cj_new_generation journal \<noteq> 0 \<and> cj_new_generation journal \<noteq> ci_generation im
                        then Ret (Inl kRecoveryBlocked)
                        else if ci_generation im = U64_MAX then Ret (Inl kSequenceExhausted)
                        else
                          try_bind (shm_unlink_checked chan_kern_c (jb_shm_name job) (st_dev st) (st_ino st)) (\<lambda>_.
                            Ret (Inr (ci_generation im + 1)))))))))"

definition claim_name ::
  "create_job \<Rightarrow> ControlJournalV1 \<Rightarrow> u64 \<Rightarrow> (chan_world, u64 result) prog" where
  "claim_name job journal generation =
     try_bind (find_object (jb_shm_name job)) (\<lambda>found.
       case found of
         None \<Rightarrow> Ret (Inr generation)
       | Some (fd, st) \<Rightarrow> replace_existing job journal fd st)"

definition random_nonce :: "(chan_world, (u64 \<times> u64) result) prog" where
  "random_nonce =
     bind (random_u64 chan_kern_c) (\<lambda>hi.
       case hi of
         None \<Rightarrow> Ret (Inl kSystemError)
       | Some h \<Rightarrow>
           bind (random_u64 chan_kern_c) (\<lambda>lo.
             case lo of
               None \<Rightarrow> Ret (Inl kSystemError)
             | Some l \<Rightarrow> Ret (Inr (h, l))))"

subsection \<open>Creation: the object\<close>

text \<open>
  The journals of the three steps of a creation differ in their state and their target
  (\<open>make_control_journal\<close> and the assignments after it).
\<close>

definition create_journal ::
  "create_job \<Rightarrow> ControlJournalV1 \<Rightarrow> u64 \<Rightarrow> u64 \<times> u64 \<Rightarrow> JournalState \<Rightarrow> object \<Rightarrow> ControlJournalV1" where
  "create_journal job journal generation nonce state target =
     (make_control_journal (jb_name job) state (cj_old_generation journal) generation
        (cj_old_nonce_hi journal, cj_old_nonce_lo journal) nonce (jb_self job))
       \<lparr>cj_transport := jb_transport job, cj_target_dev := fst target, cj_target_ino := snd target\<rparr>"

text \<open>
  The ways out of a creation that has written its first journal. The object created, if any, is
  unlinked (\<open>CreatedObjectGuard\<close>); unless that fails the journal is written back as it was
  (\<open>JournalGuard\<close>), if that guard is armed.
\<close>

definition leave_create ::
  "create_job \<Rightarrow> ControlJournalV1 \<Rightarrow> object option \<Rightarrow> bool \<Rightarrow> ErrorCode \<Rightarrow> (chan_world, 'a result) prog" where
  "leave_create job reset_to created journal_armed e =
     bind (case created of
             None \<Rightarrow> Ret journal_armed
           | Some (dev, ino) \<Rightarrow>
               bind (shm_unlink_checked chan_kern_c (jb_shm_name job) dev ino) (\<lambda>removed.
                 Ret (case removed of
                        Inr _ \<Rightarrow> journal_armed
                      | Inl code \<Rightarrow> journal_armed \<and> code = kNotFound))) (\<lambda>armed.
     bind (if armed
           then bind (write_journal (journal_c (jb_lock_path job)) chan_os_c reset_to) (\<lambda>_. Ret ())
           else Ret ()) (\<lambda>_.
       Ret (Inl e)))"

text \<open>An object of which the status cannot be taken is removed again, or left to the next creation.\<close>

definition abandon_created ::
  "create_job \<Rightarrow> ControlJournalV1 \<Rightarrow> u64 \<Rightarrow> u64 \<times> u64 \<Rightarrow> nat \<Rightarrow> ErrorCode \<Rightarrow> (chan_world, 'a result) prog" where
  "abandon_created job journal generation nonce fd e =
     bind (shm_capture_created_identity chan_kern_c fd) (\<lambda>captured.
       let target = (case captured of Inl _ \<Rightarrow> (0, 0) | Inr t \<Rightarrow> t) in
       try_bind (write_journal (journal_c (jb_lock_path job)) chan_os_c
         (create_journal job journal generation nonce JCreatingObject target)) (\<lambda>_.
         case captured of
           Inl code \<Rightarrow> Ret (Inl code)
         | Inr (dev, ino) \<Rightarrow>
             bind (shm_unlink_checked chan_kern_c (jb_shm_name job) dev ino) (\<lambda>removed.
               case removed of
                 Inr _ \<Rightarrow> leave_create job journal None True e
               | Inl code \<Rightarrow>
                   if code \<noteq> kNotFound then Ret (Inl code) else leave_create job journal None True e)))"

text \<open>The descriptor, the object and whether the object is under a name.\<close>

definition create_object ::
  "create_job \<Rightarrow> ControlJournalV1 \<Rightarrow> u64 \<Rightarrow> u64 \<times> u64 \<Rightarrow> (chan_world, (nat \<times> object) result) prog" where
  "create_object job journal generation nonce =
     (if fd_mode job then
        bind (memfd_create_object (jb_name job)) (\<lambda>mfd.
          case mfd of
            Inl e \<Rightarrow> leave_create job journal None True e
          | Inr fd \<Rightarrow>
              bind (memfd_fstat_and_capture fd) (\<lambda>cst.
                case cst of
                  Inl e \<Rightarrow> leave_create job journal None True e
                | Inr st \<Rightarrow> Ret (Inr (fd, object_of st))))
      else
        bind (shm_open_create chan_kern_c (jb_shm_name job)) (\<lambda>fd_res.
          case fd_res of
            Inl e \<Rightarrow> leave_create job journal None True (if e = kAlreadyOwned then kNameRaceDetected else e)
          | Inr fd \<Rightarrow>
              bind (shm_fstat_and_capture chan_kern_c fd) (\<lambda>cst.
                case cst of
                  Inl e \<Rightarrow> abandon_created job journal generation nonce fd e
                | Inr st \<Rightarrow> Ret (Inr (fd, object_of st)))))"

subsection \<open>Creation: the memory\<close>

definition abi_minor_of :: "create_job \<Rightarrow> u16" where
  "abi_minor_of job = (if jb_heartbeat_ns job > 0 then kAbiMinorMax else kAbiMinor)"

definition initial_bootstrap :: "create_job \<Rightarrow> u64 \<Rightarrow> u64 \<times> u64 \<Rightarrow> BootstrapHeaderAbi" where
  "initial_bootstrap job mapping nonce =
     (let self = jb_self job;
          b = \<lparr>bo_magic = kBootstrapMagic, bo_abi_major = kAbiMajor, bo_abi_minor = abi_minor_of job,
               bo_header_size = kBootstrapHeaderSize, bo_expected_mapping_size = mapping,
               bo_nonce_hi = fst nonce, bo_nonce_lo = snd nonce, bo_pid = id_pid self, bo_ticks = id_ticks self,
               bo_boot_hi = id_boot_hi self, bo_boot_lo = id_boot_lo self,
               bo_init_state = chan_init_word InitInitializing, bo_reserved0 = 0, bo_checksum = 0,
               bo_reserved = replicate 40 0\<rparr>
      in b\<lparr>bo_checksum := bootstrap_checksum_of b\<rparr>)"

definition zero_identity :: ProcessIdentityAbi where
  "zero_identity =
     \<lparr>pa_role_epoch = 0, pa_pid = 0, pa_ticks = 0, pa_boot_hi = 0, pa_boot_lo = 0, pa_reserved = replicate 24 0\<rparr>"

definition identity_abi_of :: "ProcessIdentity \<Rightarrow> ProcessIdentityAbi" where
  "identity_abi_of self =
     zero_identity\<lparr>pa_pid := id_pid self, pa_ticks := id_ticks self, pa_boot_hi := id_boot_hi self,
                   pa_boot_lo := id_boot_lo self\<rparr>"

definition zero_chan_immutable :: chan_immutable where
  "zero_chan_immutable =
     \<lparr>ci_magic = replicate 8 0, ci_abi_major = 0, ci_abi_minor = 0, ci_header_size = 0, ci_endian_marker = 0,
      ci_slot_count = 0, ci_payload_size = 0, ci_max_payload_size = 0, ci_schema_version = 0, ci_mapping_size = 0,
      ci_schema_fingerprint = replicate 32 0, ci_generation = 0, ci_nonce_hi = 0, ci_nonce_lo = 0,
      ci_heartbeat_interval_ns = 0\<rparr>"

definition zero_chan_header :: ChannelHeaderAbi where
  "zero_chan_header =
     \<lparr>ch_immutable = zero_chan_immutable, ch_producer = zero_identity, ch_consumer = zero_identity,
      ch_latest_ticket = 0, ch_notify_epoch = 0, ch_init_state = 0, ch_producer_state = 0, ch_consumer_state = 0,
      ch_publish_count = 0, ch_read_count = 0, ch_last_publish_boot_ns = 0, ch_heartbeat_boot_ns = 0\<rparr>"

definition zero_chan_slot :: SlotHeaderAbi where
  "zero_chan_slot =
     \<lparr>cs_state = 0, cs_payload_size = 0, cs_sample_sequence = 0, cs_publish_boot_ns = 0, cs_payload_checksum = 0,
      cs_reader_role_epoch = 0, cs_payload = (\<lambda>_. 0)\<rparr>"

definition initial_immutable :: "create_job \<Rightarrow> u64 \<Rightarrow> u64 \<Rightarrow> u64 \<times> u64 \<Rightarrow> chan_immutable" where
  "initial_immutable job mapping generation nonce =
     \<lparr>ci_magic = kChannelHeaderMagic, ci_abi_major = kAbiMajor, ci_abi_minor = abi_minor_of job,
      ci_header_size = kChannelHeaderSize, ci_endian_marker = kEndianMarker, ci_slot_count = kSlotCount,
      ci_payload_size = jb_payload_size job, ci_max_payload_size = kMaxPayloadSize,
      ci_schema_version = sd_version (jb_schema job), ci_mapping_size = mapping,
      ci_schema_fingerprint = sd_fingerprint (jb_schema job), ci_generation = generation,
      ci_nonce_hi = fst nonce, ci_nonce_lo = snd nonce, ci_heartbeat_interval_ns = jb_heartbeat_ns job\<rparr>"

text \<open>\<open>memset\<close> of everything after the bootstrap, which no other process accepts yet, as one action.\<close>

definition zero_segment :: "object \<Rightarrow> (chan_world, unit) prog" where
  "zero_segment ob =
     Act (\<lambda>w. wr (chan_seg_c ob) ((rd (chan_seg_c ob) w)\<lparr>sg_hdr := zero_chan_header, sg_slots := (\<lambda>_. zero_chan_slot)\<rparr>) w)
       (\<lambda>_. Ret ())"

definition init_segment ::
  "create_job \<Rightarrow> object \<Rightarrow> u64 \<Rightarrow> u64 \<Rightarrow> u64 \<times> u64 \<Rightarrow> (chan_world, u64 result) prog" where
  "init_segment job ob mapping generation nonce =
     bind (zero_segment ob) (\<lambda>_.
     bind (shared_store (chan_immutable_c ob) (initial_immutable job mapping generation nonce)) (\<lambda>_.
     try_bind (identity_snapshot_write (producer_id_c ob) (identity_abi_of (jb_self job))) (\<lambda>role_epoch.
     bind (shared_store (chan_init_c ob) (chan_init_word InitInitializing)) (\<lambda>_.
     bind (shared_store (producer_state_c ob) (endpoint_word EndOnline)) (\<lambda>_.
       Ret (Inr role_epoch))))))"

subsection \<open>Creation: publication\<close>

definition or_leave ::
  "(ErrorCode \<Rightarrow> ('s, 'b result) prog) \<Rightarrow> ('s, 'a result) prog \<Rightarrow> ('a \<Rightarrow> ('s, 'b result) prog) \<Rightarrow> ('s, 'b result) prog" where
  "or_leave leave p f = bind p (\<lambda>r. case r of Inl e \<Rightarrow> leave e | Inr v \<Rightarrow> f v)"

definition bind_broker :: "create_job \<Rightarrow> (chan_world, unit result) prog" where
  "bind_broker job =
     (if fd_mode job
      then bind (os_query chan_os_c (\<lambda>k. os_broker_bind k (jb_socket_path job))) (\<lambda>b.
        Ret (case b of Inl e \<Rightarrow> Inl e | Inr _ \<Rightarrow> Inr ()))
      else Ret (Inr ()))"

definition fresh_producer_flags :: producer_flags where
  "fresh_producer_flags =
     \<lparr>pf_in_use = False, pf_shutdown_pending = False, pf_shutdown_started = False, pf_serve_stop = False,
      pf_socket_unlinked = False\<rparr>"

definition make_producer_handle ::
  "nat \<Rightarrow> create_job \<Rightarrow> object \<Rightarrow> u64 \<Rightarrow> u64 \<times> u64 \<Rightarrow> u64 \<Rightarrow> ProducerHandle" where
  "make_producer_handle r job ob generation nonce role_epoch =
     \<lparr>pd_ref = r, pd_object = ob, pd_channel_name = jb_name job, pd_generation = generation,
      pd_role_epoch = role_epoch, pd_nonce_hi = fst nonce, pd_nonce_lo = snd nonce,
      pd_schema_fingerprint = sd_fingerprint (jb_schema job), pd_schema_version = sd_version (jb_schema job),
      pd_payload_size = jb_payload_size job, pd_self = jb_self job, pd_transport = jb_transport job,
      pd_channel_hash = channel_name_hash (jb_name job),
      pd_socket_path = (if fd_mode job then jb_socket_path job else ''''),
      pd_heartbeat_interval_ns = jb_heartbeat_ns job\<rparr>"

text \<open>The handle \<open>r\<close> of the process, and the serving thread of a channel without a name.\<close>

definition start_producer :: "create_job \<Rightarrow> ProducerHandle \<Rightarrow> (chan_world, ProducerHandle result) prog" where
  "start_producer job handle =
     bind (shared_store (prod_flags_c (pd_ref handle)) fresh_producer_flags) (\<lambda>_.
       if fd_mode job
       then
         bind (os_query chan_os_c os_thread_starts) (\<lambda>started.
           if started then bind (os_do chan_os_c CallStartServer) (\<lambda>_. Ret (Inr handle))
           else bind (os_do chan_os_c (CallSocketUnlink (jb_socket_path job))) (\<lambda>_. Ret (Inl kSystemError)))
       else Ret (Inr handle))"

definition commit_instance ::
  "nat \<Rightarrow> create_job \<Rightarrow> ControlJournalV1 \<Rightarrow> u64 \<Rightarrow> u64 \<times> u64 \<Rightarrow> object \<Rightarrow> u64 \<Rightarrow>
   (ErrorCode \<Rightarrow> (chan_world, ProducerHandle result) prog) \<Rightarrow> (chan_world, ProducerHandle result) prog" where
  "commit_instance r job journal generation nonce ob role_epoch leave =
     bind (shared_store (chan_init_c ob) (chan_init_word InitReady)) (\<lambda>_.
     bind (shared_store (boot_init_state_c ob) (chan_init_word InitReady)) (\<lambda>_.
     bind (write_journal (journal_c (jb_lock_path job)) chan_os_c
       (create_journal job journal generation nonce JIdle ob)) (\<lambda>written.
       case written of
         Inl e \<Rightarrow>
           bind (if fd_mode job then os_do chan_os_c (CallSocketUnlink (jb_socket_path job)) else Ret ()) (\<lambda>_.
             leave e)
       | Inr _ \<Rightarrow> start_producer job (make_producer_handle r job ob generation nonce role_epoch))))"

definition build_instance ::
  "nat \<Rightarrow> create_job \<Rightarrow> ControlJournalV1 \<Rightarrow> u64 \<Rightarrow> u64 \<times> u64 \<Rightarrow> nat \<Rightarrow> object \<Rightarrow> (chan_world, ProducerHandle result) prog" where
  "build_instance r job journal generation nonce fd ob =
     (let leave = leave_create job journal (if fd_mode job then None else Some ob) True in
      or_leave leave (write_journal (journal_c (jb_lock_path job)) chan_os_c
        (create_journal job journal generation nonce JCreatingObject ob)) (\<lambda>_.
      case mapping_size_for_payload (jb_payload_size job) of
        None \<Rightarrow> leave kInvalidOptions
      | Some mapping \<Rightarrow>
          or_leave leave (pwrite_full (chan_boot_c ob) chan_os_c
            (bootstrap_bytes (initial_bootstrap job mapping nonce))) (\<lambda>_.
          or_leave leave (shm_truncate chan_kern_c fd mapping) (\<lambda>_.
          or_leave leave (mmap_region chan_kern_c fd mapping) (\<lambda>_.
          or_leave leave (init_segment job ob mapping generation nonce) (\<lambda>role_epoch.
          or_leave leave (bind_broker job) (\<lambda>_.
            commit_instance r job journal generation nonce ob role_epoch leave)))))))"

definition producer_create_impl ::
  "nat \<Rightarrow> ChannelOptions \<Rightarrow> SchemaDescriptor \<Rightarrow> u32 \<Rightarrow> (chan_world, ProducerHandle result) prog" where
  "producer_create_impl r options schema payload_size =
     try_bind (create_admission options schema payload_size) (\<lambda>job.
     try_bind (settled_journal job) (\<lambda>journal.
       case next_generation_from_journal journal of
         None \<Rightarrow> Ret (Inl kSequenceExhausted)
       | Some next \<Rightarrow>
           try_bind (previous_transport_free job journal) (\<lambda>_.
           try_bind (claim_name job journal next) (\<lambda>generation.
           try_bind random_nonce (\<lambda>nonce.
           try_bind (write_journal (journal_c (jb_lock_path job)) chan_os_c
             (create_journal job journal generation nonce JCreatingPreObject (0, 0))) (\<lambda>_.
           try_bind (create_object job journal generation nonce) (\<lambda>(fd, ob).
             build_instance r job journal generation nonce fd ob)))))))"

subsection \<open>Removal\<close>

definition remove_journal :: "ProducerHandle \<Rightarrow> JournalState \<Rightarrow> object \<Rightarrow> ControlJournalV1" where
  "remove_journal handle state target =
     (let nonce = (pd_nonce_hi handle, pd_nonce_lo handle);
          new = (if state = JIdle then (pd_generation handle, nonce) else (0, (0, 0)))
      in (make_control_journal (pd_channel_name handle) state (pd_generation handle) (fst new) nonce (snd new)
            (pd_self handle))
           \<lparr>cj_transport := pd_transport handle, cj_target_dev := fst target, cj_target_ino := snd target\<rparr>)"

text \<open>The object under the name must be that of the handle.\<close>

definition named_object :: "ProducerHandle \<Rightarrow> string \<Rightarrow> (chan_world, object result) prog" where
  "named_object handle shm_name =
     (if pd_transport handle = transport_word MemfdFdPass then Ret (Inr (0, 0))
      else
        try_bind (shm_open_existing chan_kern_c shm_name) (\<lambda>fd.
        try_bind (shm_fstat_and_capture chan_kern_c fd) (\<lambda>st.
          if object_of st \<noteq> pd_object handle then Ret (Inl kNameRaceDetected)
          else Ret (Inr (object_of st)))))"

definition still_owner :: "ProducerHandle \<Rightarrow> (chan_world, unit result) prog" where
  "still_owner handle =
     bind (shared_load (chan_immutable_c (pd_object handle))) (\<lambda>im.
       if ci_generation im \<noteq> pd_generation handle \<or> ci_nonce_hi im \<noteq> pd_nonce_hi handle \<or>
          ci_nonce_lo im \<noteq> pd_nonce_lo handle
       then Ret (Inl kStaleHandle)
       else
         try_bind (identity_snapshot_read (producer_id_c (pd_object handle))) (\<lambda>p.
           if pa_role_epoch p \<noteq> pd_role_epoch handle then Ret (Inl kStaleHandle) else Ret (Inr ())))"

definition remove_name :: "ProducerHandle \<Rightarrow> string \<Rightarrow> object \<Rightarrow> (chan_world, unit result) prog" where
  "remove_name handle shm_name target =
     (if pd_transport handle = transport_word MemfdFdPass
      then
        bind (shared_load (pf_unlinked_c (pd_ref handle))) (\<lambda>unlinked.
          if unlinked then Ret (Inr ())
          else
            bind (os_do chan_os_c (CallSocketUnlink (pd_socket_path handle))) (\<lambda>_.
            bind (shared_store (pf_unlinked_c (pd_ref handle)) True) (\<lambda>_. Ret (Inr ()))))
      else shm_unlink_checked chan_kern_c shm_name (fst target) (snd target))"

definition remove_locked :: "ProducerHandle \<Rightarrow> (chan_world, unit result) prog" where
  "remove_locked handle =
     bind (kernel_query chan_kern_c (\<lambda>k. channel_shm_name (k_getuid k) (pd_channel_name handle))) (\<lambda>shm_name.
     bind (kernel_query chan_kern_c (\<lambda>k. lock_path_of k (pd_channel_name handle))) (\<lambda>path.
     try_bind (control_lock_acquire chan_kern_c chan_os_c path) (\<lambda>_.
     try_bind (read_journal (journal_c path) chan_os_c) (\<lambda>journal.
     try_bind (named_object handle shm_name) (\<lambda>target.
     try_bind (still_owner handle) (\<lambda>_.
     bind (if pd_transport handle = transport_word MemfdFdPass
           then bind (shared_store (pf_serve_stop_c (pd_ref handle)) True) (\<lambda>_. os_do chan_os_c CallSocketShutdown)
           else Ret ()) (\<lambda>_.
     try_bind (write_journal (journal_c path) chan_os_c (remove_journal handle JRemoving target)) (\<lambda>_.
       let leave = (\<lambda>e. bind (write_journal (journal_c path) chan_os_c journal) (\<lambda>_. Ret (Inl e))) in
       or_leave leave (remove_name handle shm_name target) (\<lambda>_.
       or_leave leave (write_journal (journal_c path) chan_os_c (remove_journal handle JIdle target)) (\<lambda>_.
         Ret (Inr ())))))))))))"

definition producer_remove_if_owner_impl :: "ProducerHandle \<Rightarrow> (chan_world, unit result) prog" where
  "producer_remove_if_owner_impl handle = producer_guarded handle (remove_locked handle)"

subsection \<open>Opening\<close>

record open_job =
  oj_name :: string
  oj_transport :: u32
  oj_reconnect_timeout_ms :: u64
  oj_schema :: SchemaDescriptor
  oj_payload_size :: u32
  oj_self :: ProcessIdentity
  oj_shm_name :: string
  oj_lock_path :: string
  oj_socket_path :: string

definition open_admission ::
  "ChannelOptions \<Rightarrow> SchemaDescriptor \<Rightarrow> u32 \<Rightarrow> (chan_world, open_job result) prog" where
  "open_admission options schema payload_size =
     (if co_name options = [] \<or> length (co_name options) > kMaxChannelNameLen \<or>
         \<not> validate_channel_name (co_name options)
      then Ret (Inl kInvalidName)
      else if payload_size = 0 \<or> payload_size > kMaxPayloadSize then Ret (Inl kInvalidOptions)
      else if co_transport options \<noteq> transport_word PosixShm \<and> co_transport options \<noteq> transport_word MemfdFdPass
      then Ret (Inl kInvalidOptions)
      else case validate_channel_option_contract options of
        Inl e \<Rightarrow> Ret (Inl e)
      | Inr _ \<Rightarrow>
          if co_reconnect_timeout_ms options < 0 \<or>
             (of_int (co_reconnect_timeout_ms options) :: u64) > U64_MAX div 1000000
          then Ret (Inl kInvalidOptions)
          else if \<not> fingerprint_set schema then Ret (Inl kInvalidOptions)
          else
            try_bind (kernel_query chan_kern_c current_identity) (\<lambda>self.
            bind (kernel_query chan_kern_c k_getuid) (\<lambda>uid.
              Ret (Inr \<lparr>oj_name = co_name options, oj_transport = co_transport options,
                        oj_reconnect_timeout_ms = of_int (co_reconnect_timeout_ms options),
                        oj_schema = schema, oj_payload_size = payload_size, oj_self = self,
                        oj_shm_name = channel_shm_name uid (co_name options),
                        oj_lock_path = channel_lock_path uid (co_name options),
                        oj_socket_path = channel_socket_path uid (co_name options)\<rparr>))))"

definition open_by_broker :: "open_job \<Rightarrow> bool" where
  "open_by_broker job \<longleftrightarrow> oj_transport job = transport_word MemfdFdPass"

text \<open>The descriptor, its status and, without a name, the reply of the broker.\<close>

definition open_descriptor ::
  "open_job \<Rightarrow> (chan_world, (nat \<times> file_stat \<times> FdBrokerReplyAbi option) result) prog" where
  "open_descriptor job =
     (if open_by_broker job then
        bind (os_query chan_os_c (\<lambda>k. os_broker_request k (oj_socket_path job)
          (make_request (channel_name_hash (oj_name job)) (sd_fingerprint (oj_schema job)) False))) (\<lambda>rf.
          case rf of
            Inl e \<Rightarrow> Ret (Inl e)
          | Inr (fd, reply) \<Rightarrow>
              try_bind (memfd_fstat_and_capture fd) (\<lambda>st. Ret (Inr (fd, st, Some reply))))
      else
        bind (shm_open_existing chan_kern_c (oj_shm_name job)) (\<lambda>fd_res.
          case fd_res of
            Inl e \<Rightarrow>
              if e = kNotFound
              then bind (os_query chan_os_c (\<lambda>k. os_socket_exists k (oj_socket_path job))) (\<lambda>socket.
                Ret (Inl (if socket then kInvalidOptions else e)))
              else Ret (Inl e)
          | Inr fd \<Rightarrow>
              try_bind (shm_fstat_and_capture chan_kern_c fd) (\<lambda>st. Ret (Inr (fd, st, None)))))"

text \<open>What a segment must be before the lock is taken.\<close>

definition check_bootstrap :: "open_job \<Rightarrow> BootstrapHeaderAbi \<Rightarrow> u64 \<Rightarrow> unit result" where
  "check_bootstrap job boot sz =
     (case validate_bootstrap_parse boot sz of
        Inl e \<Rightarrow> Inl e
      | Inr _ \<Rightarrow>
          if bo_expected_mapping_size boot \<noteq> sz then Inl kInitializationIncomplete
          else if bo_init_state boot \<noteq> chan_init_word InitReady then Inl kInitializationIncomplete
          else if bo_boot_hi boot \<noteq> id_boot_hi (oj_self job) \<or> bo_boot_lo boot \<noteq> id_boot_lo (oj_self job)
          then Inl kCorruptHeader
          else Inr ())"

definition check_segment :: "open_job \<Rightarrow> nat \<Rightarrow> file_stat \<Rightarrow> (chan_world, unit result) prog" where
  "check_segment job fd st =
     (if st_size st < ucast kBootstrapHeaderSize then Ret (Inl kInitializationIncomplete)
      else
        try_bind (pread_full (chan_boot_c (object_of st)) chan_os_c (unat kBootstrapHeaderSize)) (\<lambda>bs.
          case check_bootstrap job (bootstrap_of_bytes bs) (st_size st) of
            Inl e \<Rightarrow> Ret (Inl e)
          | Inr _ \<Rightarrow>
              try_bind (mmap_region chan_kern_c fd (st_size st)) (\<lambda>_.
              bind (shared_load (boot_init_state_c (object_of st))) (\<lambda>init.
                if init \<noteq> chan_init_word InitReady then Ret (Inl kInitializationIncomplete)
                else
                  bind (shared_load (chan_hdr_c (object_of st))) (\<lambda>header.
                    Ret (validate_header_parse header (oj_schema job) (oj_payload_size job)))))))"

text \<open>Under the lock, that the segment is still the one of the channel.\<close>

definition confirm_instance ::
  "open_job \<Rightarrow> object \<Rightarrow> FdBrokerReplyAbi option \<Rightarrow> (chan_world, unit result) prog" where
  "confirm_instance job ob fd_reply =
     try_bind (control_lock_acquire chan_kern_c chan_os_c (oj_lock_path job)) (\<lambda>_.
     try_bind (read_journal (journal_c (oj_lock_path job)) chan_os_c) (\<lambda>journal.
       if cj_channel_hash journal \<noteq> 0 \<and> cj_channel_hash journal \<noteq> channel_name_hash (oj_name job)
       then Ret (Inl kRecoveryBlocked)
       else case fd_reply of
         None \<Rightarrow>
           try_bind (shm_open_existing chan_kern_c (oj_shm_name job)) (\<lambda>again.
           try_bind (shm_fstat_and_capture chan_kern_c again) (\<lambda>ast.
             if object_of ast \<noteq> ob then Ret (Inl kNameRaceDetected) else Ret (Inr ())))
       | Some reply \<Rightarrow>
           bind (shared_load (chan_immutable_c ob)) (\<lambda>im.
             if rp_generation reply \<noteq> ci_generation im \<or> rp_nonce_hi reply \<noteq> ci_nonce_hi im \<or>
                rp_nonce_lo reply \<noteq> ci_nonce_lo im \<or> rp_mapping_size reply \<noteq> ci_mapping_size im
             then Ret (Inl kTransportFailed) else Ret (Inr ()))))"

text \<open>The consumer before must not be alive; the slots of one that died are given back.\<close>

definition displace_consumer :: "object \<Rightarrow> u32 \<Rightarrow> (chan_world, unit result) prog" where
  "displace_consumer ob payload_size =
     bind (identity_snapshot_read (consumer_id_c ob)) (\<lambda>old.
       case old of
         Inl e \<Rightarrow> Ret (Inl kRecoveryBlocked)
       | Inr old_cid \<Rightarrow>
           bind (shared_load (consumer_state_c ob)) (\<lambda>old_state.
             if old_state \<noteq> endpoint_word EndOffline \<and> \<not> process_identity_valid (identity_of_abi old_cid)
             then Ret (Inl kRecoveryBlocked)
             else if pa_pid old_cid = 0 then Ret (Inr ())
             else
               bind (shared_load (consumer_state_c ob)) (\<lambda>cstate.
                 if \<not> active_endpoint cstate then Ret (Inr ())
                 else
                   bind (kernel_query chan_kern_c (\<lambda>k. probe_liveness k (pa_pid old_cid) (pa_ticks old_cid))) (\<lambda>liv.
                     if liv = kAlive then Ret (Inl kConsumerAlreadyOwned)
                     else if liv = kUnverifiable then Ret (Inl kRecoveryBlocked)
                     else reclaim_dead_consumer_slots ob (pa_role_epoch old_cid) payload_size))))"

definition make_consumer_handle :: "open_job \<Rightarrow> object \<Rightarrow> chan_immutable \<Rightarrow> u64 \<Rightarrow> ConsumerHandle" where
  "make_consumer_handle job ob im role_epoch =
     \<lparr>cn_object = ob, cn_channel_name = oj_name job, cn_transport = oj_transport job,
      cn_generation = ci_generation im, cn_role_epoch = role_epoch, cn_nonce_hi = ci_nonce_hi im,
      cn_nonce_lo = ci_nonce_lo im, cn_schema_fingerprint = sd_fingerprint (oj_schema job),
      cn_schema_version = sd_version (oj_schema job), cn_payload_size = oj_payload_size job,
      cn_self = oj_self job, cn_reconnect_timeout_ms = oj_reconnect_timeout_ms job, cn_last_sequence = 0,
      cn_first_sample = True, cn_in_use = False, cn_shutdown_pending = False, cn_shutdown_started = False\<rparr>"

definition take_role :: "open_job \<Rightarrow> object \<Rightarrow> (chan_world, ConsumerHandle result) prog" where
  "take_role job ob =
     try_bind (displace_consumer ob (oj_payload_size job)) (\<lambda>_.
     try_bind (identity_snapshot_write (consumer_id_c ob) (identity_abi_of (oj_self job))) (\<lambda>role_epoch.
     bind (shared_store (consumer_state_c ob) (endpoint_word EndOnline)) (\<lambda>_.
     bind (shared_load (chan_immutable_c ob)) (\<lambda>im.
       Ret (Inr (make_consumer_handle job ob im role_epoch))))))"

text \<open>\<open>consumer_open_impl\<close>: the handle it builds; \<open>consumer_open\<close> keeps it as the handle \<open>r\<close> of the process.\<close>

definition consumer_open_impl ::
  "ChannelOptions \<Rightarrow> SchemaDescriptor \<Rightarrow> u32 \<Rightarrow> (chan_world, ConsumerHandle result) prog" where
  "consumer_open_impl options schema payload_size =
     try_bind (open_admission options schema payload_size) (\<lambda>job.
     try_bind (open_descriptor job) (\<lambda>(fd, st, fd_reply).
     try_bind (check_segment job fd st) (\<lambda>_.
     try_bind (confirm_instance job (object_of st) fd_reply) (\<lambda>_.
       take_role job (object_of st)))))"

definition consumer_open ::
  "nat \<Rightarrow> ChannelOptions \<Rightarrow> SchemaDescriptor \<Rightarrow> u32 \<Rightarrow> (chan_world, unit result) prog" where
  "consumer_open r options schema payload_size =
     try_bind (consumer_open_impl options schema payload_size) (\<lambda>handle.
     bind (shared_store (cons_c r) handle) (\<lambda>_. Ret (Inr ())))"

subsection \<open>Reconnecting\<close>

record ReconnectInfo =
  ri_old_generation :: u64
  ri_new_generation :: u64
  ri_old_nonce :: bytes
  ri_new_nonce :: bytes
  ri_schema_changed :: bool

text \<open>The options of a reconnect: those of the handle, the rest as \<open>ChannelOptions\<close> has them by default.\<close>

definition reconnect_options :: "ConsumerHandle \<Rightarrow> ChannelOptions" where
  "reconnect_options handle =
     \<lparr>co_name = cn_channel_name handle, co_stale_timeout_ms = 100,
      co_reconnect_timeout_ms = sint (cn_reconnect_timeout_ms handle), co_enable_payload_checksum = True,
      co_transport = cn_transport handle, co_heartbeat_interval_ns = 0\<rparr>"

definition reconnect_locked :: "nat \<Rightarrow> (chan_world, ReconnectInfo result) prog" where
  "reconnect_locked r =
     bind (shared_load (cons_c r)) (\<lambda>handle.
     try_bind (consumer_open_impl (reconnect_options handle)
       \<lparr>sd_version = cn_schema_version handle, sd_fingerprint = cn_schema_fingerprint handle\<rparr>
       (cn_payload_size handle)) (\<lambda>fresh.
       let info = \<lparr>ri_old_generation = cn_generation handle, ri_new_generation = cn_generation fresh,
                   ri_old_nonce = pack_nonce handle, ri_new_nonce = pack_nonce fresh,
                   ri_schema_changed = (cn_schema_fingerprint handle \<noteq> cn_schema_fingerprint fresh \<or>
                     cn_schema_version handle \<noteq> cn_schema_version fresh)\<rparr> in
       bind (mark_consumer_offline handle) (\<lambda>_.
       bind (shared_load (cons_c r)) (\<lambda>now.
       bind (shared_store (cons_c r)
         (fresh\<lparr>cn_in_use := cn_in_use now, cn_shutdown_pending := cn_shutdown_pending now,
                cn_shutdown_started := cn_shutdown_started now\<rparr>)) (\<lambda>_.
         Ret (Inr info))))))"

definition consumer_reconnect_impl :: "nat \<Rightarrow> (chan_world, ReconnectInfo result) prog" where
  "consumer_reconnect_impl r = consumer_guarded r (Inl kConcurrentHandleUse) (reconnect_locked r)"

end
