(* ===== verification/Spec2Isabelle.thy ===== *)
theory Spec2Isabelle
  imports ER_Mpmc_History ER_Mpmc_Admin ER_Pool_Seq ER_Chan_Recovery ER_Control
begin

text \<open>
  Verification of EdgeRuntime, a shared-memory communication library.
\<close>

end
